(* ===== verification/Prelude.thy ===== *)
theory Prelude
  imports Main "HOL-Library.Word"
begin

text \<open>
  Shared vocabulary of the development: the names of the C integer types, the result type of
  code that can fail, the collections of rewrite rules the components fill, and the generic
  facts on lists, characters and words the component theories rely on.
\<close>

unbundle bit_operations_syntax

section \<open>C integer types\<close>

type_synonym u8 = "8 word"
type_synonym u16 = "16 word"
type_synonym u32 = "32 word"
type_synonym u64 = "64 word"

section \<open>Results of code that can fail\<close>

text \<open>
  \<open>Assert\<close>: an \<^verbatim>\<open>assert\<close> or \<^verbatim>\<open>abort\<close> fires. \<open>Undefined\<close>: the C code has undefined
  behaviour (an out-of-range access, a wrong \<^verbatim>\<open>va_arg\<close>). \<open>Exit\<close>: the process exits with an
  error. \<open>OutOfFuel\<close>: the step budget of the model of a loop is used up; the components prove
  that the budgets they pass are never used up.
\<close>

datatype cerror = Assert | Undefined | Exit | OutOfFuel

type_synonym 'a res = "cerror + 'a"

definition bind_res :: "'a res \<Rightarrow> ('a \<Rightarrow> 'b res) \<Rightarrow> 'b res" where
  "bind_res r f = (case r of Inl e \<Rightarrow> Inl e | Inr x \<Rightarrow> f x)"

definition assert_res :: "bool \<Rightarrow> 'a res \<Rightarrow> 'a res" where
  "assert_res b r = (if b then r else Inl Assert)"

lemma bind_res_simps [simp]:
  "bind_res (Inl e) f = Inl e"
  "bind_res (Inr x) f = f x"
  by (simp_all add: bind_res_def)

lemma bind_res_Inr [simp]: "bind_res r Inr = r"
  by (cases r) simp_all

lemma bind_res_eq_Inr:
  "bind_res r f = Inr y \<longleftrightarrow> (\<exists>x. r = Inr x \<and> f x = Inr y)"
  by (auto simp: bind_res_def split: sum.splits)

lemma bind_res_cong [fundef_cong]:
  "r = r' \<Longrightarrow> (\<And>x. r' = Inr x \<Longrightarrow> f x = g x) \<Longrightarrow> bind_res r f = bind_res r' g"
  by (auto simp: bind_res_def split: sum.splits)

lemma assert_res_simps [simp]:
  "assert_res True r = r"
  "assert_res False r = Inl Assert"
  by (simp_all add: assert_res_def)

section \<open>Collections of rules\<close>

named_theorems dict_simps "laws of the string dictionary"
named_theorems lex_simps "the transition table of the lexer, row by row"
named_theorems tok_simps "accessors of lexer tokens"

section \<open>Lists\<close>

lemma fold_append_map: "fold (\<lambda>x acc. acc @ f x) xs acc = acc @ concat (map f xs)"
  by (induction xs arbitrary: acc) auto

lemma sum_list_list_update_nat:
  "i < length xs \<Longrightarrow> sum_list ((xs :: nat list)[i := v]) + xs ! i = sum_list xs + v"
  by (induction xs arbitrary: i) (auto split: nat.splits)

lemma takeWhile_stops: "\<exists>x \<in> set xs. \<not> P x \<Longrightarrow> length (takeWhile P xs) < length xs"
  by (induction xs) auto

section \<open>Bits as arithmetic\<close>

lemma or_add_nat:
  assumes "b < 2 ^ n"
  shows "push_bit n (a :: nat) OR b = a * 2 ^ n + b"
proof -
  have "take_bit n b = b" using assms by (simp add: take_bit_nat_eq_self_iff)
  then have "\<not> bit b k" if "n \<le> k" for k using that by (metis bit_take_bit_iff not_le)
  then have "\<not> bit (push_bit n a) k \<or> \<not> bit b k" for k by (auto simp: bit_push_bit_iff not_le)
  then have "push_bit n a + b = push_bit n a OR b"
    by (intro disjunctive_add_eq_or bit_eqI) (auto simp: bit_and_iff)
  then show ?thesis by (simp add: push_bit_eq_mult)
qed

section \<open>Characters\<close>

text \<open>The code of a character, as the \<^verbatim>\<open>(uint8_t)\<close> cast reads it.\<close>

abbreviation code :: "char \<Rightarrow> nat" where
  "code c \<equiv> of_char c"

lemma code_less_256 [simp]: "code c < 256"
  using range_nat_of_char by (metis atLeastLessThan_iff range_eqI)

lemma code_char_of [simp]: "n < 256 \<Longrightarrow> code (char_of n) = n"
  by simp

lemma code_eq_iff: "code c = code d \<longleftrightarrow> c = d"
  by simp

end
