(* ===== verification/QString.thy ===== *)
theory QString
  imports CText
begin

text \<open>
  The growable byte buffer of \<^verbatim>\<open>libq/src/qstring.c\<close>. The allocated block is a list of
  \<open>capacity + 1\<close> cells; a cell that was never written is \<open>None\<close>. Every write checks that it
  stays inside the block and gives \<open>Undefined\<close> otherwise, so that the theorems below say that the
  code never writes outside its allocation. A C string is the list of its characters without the
  terminating NUL. The sizes are natural numbers: a block that made a \<^verbatim>\<open>size_t\<close> wrap could not
  have been allocated.
\<close>

section \<open>Buffers\<close>

record qstring =
  qs_string :: "char option list"
  qs_length :: nat
  qs_capacity :: nat

abbreviation NUL :: char where
  "NUL \<equiv> CHR 0x00"

definition put_byte :: "nat \<Rightarrow> char \<Rightarrow> char option list \<Rightarrow> char option list res" where
  "put_byte i c buf = (if i < length buf then Inr (buf[i := Some c]) else Inl Undefined)"

text \<open>\<^verbatim>\<open>memcpy (buf + i, src, strlen (src))\<close>.\<close>

fun put_bytes :: "nat \<Rightarrow> string \<Rightarrow> char option list \<Rightarrow> char option list res" where
  "put_bytes i [] buf = Inr buf"
| "put_bytes i (c # cs) buf = bind_res (put_byte i c buf) (put_bytes (Suc i) cs)"

text \<open>\<^verbatim>\<open>g_realloc\<close> keeps the cells that fit and adds cells that are not initialised.\<close>

definition g_realloc :: "char option list \<Rightarrow> nat \<Rightarrow> char option list" where
  "g_realloc buf n = take n buf @ replicate (n - length buf) None"

definition to_c_int :: "int \<Rightarrow> int" where
  "to_c_int i = sint (word_of_int i :: 32 word)"

section \<open>Operations\<close>

definition qstring_from_substr :: "string \<Rightarrow> int \<Rightarrow> int \<Rightarrow> qstring res" where
  "qstring_from_substr str start end' =
     (let len = end' - start + 1 in
      if len < 0 then Inl Exit
      else if start < 0 \<or> nat start + nat len > length str + 1 then Inl Undefined
      else
        bind_res (put_bytes 0 (take (nat len) (drop (nat start) (str @ [NUL])))
                    (replicate (nat len + 1) None)) (\<lambda>buf.
        bind_res (put_byte (nat len) NUL buf) (\<lambda>buf.
        Inr \<lparr>qs_string = buf, qs_length = nat len, qs_capacity = nat len\<rparr>)))"

definition qstring_from_str :: "string \<Rightarrow> qstring res" where
  "qstring_from_str str = qstring_from_substr str 0 (to_c_int (int (length str) - 1))"

definition qstring_new :: "qstring res" where
  "qstring_new = qstring_from_str ''''"

definition capacity_increase :: "qstring \<Rightarrow> nat \<Rightarrow> qstring" where
  "capacity_increase q len =
     (if qs_capacity q < qs_length q + len then
        let cap = (qs_capacity q + len) * 2
        in q\<lparr>qs_capacity := cap, qs_string := g_realloc (qs_string q) (cap + 1)\<rparr>
      else q)"

definition qstring_append :: "qstring \<Rightarrow> string \<Rightarrow> qstring res" where
  "qstring_append q str =
     (let q = capacity_increase q (length str) in
      bind_res (put_bytes (qs_length q) str (qs_string q)) (\<lambda>buf.
      bind_res (put_byte (qs_length q + length str) NUL buf) (\<lambda>buf.
      Inr (q\<lparr>qs_string := buf, qs_length := qs_length q + length str\<rparr>))))"

definition qstring_append_int :: "qstring \<Rightarrow> u64 \<Rightarrow> qstring res" where
  "qstring_append_int q value = qstring_append q (fmt_PRId64 value)"

definition qstring_append_chr :: "qstring \<Rightarrow> char \<Rightarrow> qstring res" where
  "qstring_append_chr q c =
     (let q = capacity_increase q 1 in
      bind_res (put_byte (qs_length q) c (qs_string q)) (\<lambda>buf.
      bind_res (put_byte (Suc (qs_length q)) NUL buf) (\<lambda>buf.
      Inr (q\<lparr>qs_string := buf, qs_length := Suc (qs_length q)\<rparr>))))"

text \<open>The C string at \<^verbatim>\<open>qstring->string\<close>: the initialised bytes up to the first NUL.\<close>

fun c_string :: "char option list \<Rightarrow> string res" where
  "c_string [] = Inl Undefined"
| "c_string (None # cs) = Inl Undefined"
| "c_string (Some c # cs) = (if c = NUL then Inr [] else bind_res (c_string cs) (\<lambda>s. Inr (c # s)))"

definition qstring_get_str :: "qstring \<Rightarrow> string res" where
  "qstring_get_str q = c_string (qs_string q)"

section \<open>The contents of a buffer\<close>

text \<open>
  \<open>qstring_holds q s\<close>: the block has the size the capacity says, starts with the bytes of \<open>s\<close>
  and has the terminating NUL right after them.
\<close>

definition qstring_holds :: "qstring \<Rightarrow> string \<Rightarrow> bool" where
  "qstring_holds q s \<longleftrightarrow>
     length (qs_string q) = qs_capacity q + 1 \<and> qs_length q = length s \<and>
     length s \<le> qs_capacity q \<and> (\<exists>rest. qs_string q = map Some s @ Some NUL # rest)"

lemma put_bytes_middle:
  "length old = length s \<Longrightarrow>
   put_bytes (length pre) s (pre @ old @ post) = Inr (pre @ map Some s @ post)"
proof (induction s arbitrary: pre old)
  case Nil
  then show ?case by simp
next
  case (Cons c s)
  then obtain x xs where old: "old = x # xs" by (cases old) auto
  have "put_bytes (length (pre @ [Some c])) s ((pre @ [Some c]) @ xs @ post) =
      Inr ((pre @ [Some c]) @ map Some s @ post)"
    using Cons.prems old by (intro Cons.IH) simp
  with old show ?case by (simp add: put_byte_def)
qed

lemma put_byte_middle:
  "put_byte (length pre) c (pre @ x # post) = Inr (pre @ Some c # post)"
  by (simp add: put_byte_def)

lemma capacity_increase_holds:
  assumes "qstring_holds q s"
  shows "qstring_holds (capacity_increase q len) s"
    and "length s + len \<le> qs_capacity (capacity_increase q len)"
proof -
  obtain rest where rest: "qs_string q = map Some s @ Some NUL # rest"
    using assms by (auto simp: qstring_holds_def)
  have fits: "length s < (qs_capacity q + len) * 2 + 1"
    using assms by (auto simp: qstring_holds_def)
  show "qstring_holds (capacity_increase q len) s"
  proof (cases "qs_capacity q < qs_length q + len")
    case False
    with assms show ?thesis by (simp add: capacity_increase_def)
  next
    case True
    let ?n = "(qs_capacity q + len) * 2 + 1"
    have "take ?n (qs_string q) = qs_string q"
      using assms by (simp add: qstring_holds_def)
    with True rest fits assms show ?thesis
      by (auto simp: capacity_increase_def qstring_holds_def g_realloc_def Let_def)
  qed
  show "length s + len \<le> qs_capacity (capacity_increase q len)"
    using assms by (auto simp: capacity_increase_def qstring_holds_def Let_def)
qed

lemma qstring_holds_split:
  assumes "qstring_holds q s" and "length s + n \<le> qs_capacity q"
  obtains old x post where "qs_string q = map Some s @ old @ x # post" "length old = n"
    "length s + n + 1 + length post = qs_capacity q + 1"
proof -
  obtain rest where rest: "qs_string q = map Some s @ Some NUL # rest"
    and len: "length s + 1 + length rest = qs_capacity q + 1"
    using assms(1) by (auto simp: qstring_holds_def)
  let ?r = "Some NUL # rest"
  have n: "n < length ?r" using assms(2) len by simp
  have "qs_string q = map Some s @ take n ?r @ ?r ! n # drop (Suc n) ?r"
    using id_take_nth_drop [OF n] rest by simp
  moreover have "length (take n ?r) = n" using n by simp
  moreover have "length s + n + 1 + length (drop (Suc n) ?r) = qs_capacity q + 1"
    using n len by simp
  ultimately show ?thesis using that by blast
qed

lemma qstring_append_holds:
  assumes "qstring_holds q s"
  shows "\<exists>q'. qstring_append q str = Inr q' \<and> qstring_holds q' (s @ str)"
proof -
  let ?q = "capacity_increase q (length str)"
  have holds: "qstring_holds ?q s" and cap: "length s + length str \<le> qs_capacity ?q"
    using capacity_increase_holds [OF assms] by auto
  obtain old x post where mem: "qs_string ?q = map Some s @ old @ x # post"
    and old: "length old = length str"
    and len: "length s + length str + 1 + length post = qs_capacity ?q + 1"
    using qstring_holds_split [OF holds cap] by blast
  have l: "qs_length ?q = length s" using holds by (simp add: qstring_holds_def)
  have "put_bytes (length s) str (qs_string ?q) =
      Inr (map Some s @ map Some str @ x # post)"
    using put_bytes_middle [OF old, of "map Some s" "x # post"] mem by simp
  moreover have "put_byte (length s + length str) NUL (map Some s @ map Some str @ x # post) =
      Inr (map Some (s @ str) @ Some NUL # post)"
    using put_byte_middle [of "map Some (s @ str)" NUL x post] by simp
  ultimately show ?thesis
    using l cap len by (simp add: qstring_append_def Let_def qstring_holds_def)
qed

lemma put_bytes_Nil: "put_bytes i [] = Inr"
  by (rule ext) simp

lemma qstring_append_chr_eq: "qstring_append_chr q c = qstring_append q [c]"
  by (simp add: qstring_append_chr_def qstring_append_def Let_def put_bytes_Nil)

lemma to_c_int_id: "- (2 ^ 31) \<le> i \<Longrightarrow> i < 2 ^ 31 \<Longrightarrow> to_c_int i = i"
  unfolding to_c_int_def by transfer (simp add: signed_take_bit_int_eq_self)

lemma qstring_from_str_holds:
  assumes "length str < 2 ^ 31"
  shows "\<exists>q. qstring_from_str str = Inr q \<and> qstring_holds q str"
proof -
  let ?n = "length str"
  have n: "to_c_int (int ?n - 1) = int ?n - 1"
    using assms by (intro to_c_int_id) auto
  have "put_bytes 0 str (replicate (?n + 1) None) = Inr (map Some str @ [None])"
    using put_bytes_middle [of "replicate ?n None" str "[]" "[None]"]
    by (simp add: replicate_append_same)
  moreover have "put_byte ?n NUL (map Some str @ [None]) = Inr (map Some str @ [Some NUL])"
    using put_byte_middle [of "map Some str" NUL None "[]"] by simp
  ultimately show ?thesis
    by (simp add: qstring_from_str_def qstring_from_substr_def n qstring_holds_def Let_def)
qed

lemma c_string_holds:
  "NUL \<notin> set s \<Longrightarrow> c_string (map Some s @ Some NUL # rest) = Inr s"
  by (induction s) auto

lemma qstring_get_str_holds:
  "qstring_holds q s \<Longrightarrow> NUL \<notin> set s \<Longrightarrow> qstring_get_str q = Inr s"
  by (auto simp: qstring_holds_def qstring_get_str_def c_string_holds)

section \<open>The interface of a string builder\<close>

locale string_builder =
  fixes from_str :: "string \<Rightarrow> 'q res"
    and append :: "'q \<Rightarrow> string \<Rightarrow> 'q res"
    and append_chr :: "'q \<Rightarrow> char \<Rightarrow> 'q res"
    and get_str :: "'q \<Rightarrow> string res"
    and holds :: "'q \<Rightarrow> string \<Rightarrow> bool"
  assumes from_str_holds: "length s < 2 ^ 31 \<Longrightarrow> \<exists>q. from_str s = Inr q \<and> holds q s"
    and append_holds: "holds q s \<Longrightarrow> \<exists>q'. append q t = Inr q' \<and> holds q' (s @ t)"
    and append_chr_holds: "holds q s \<Longrightarrow> \<exists>q'. append_chr q c = Inr q' \<and> holds q' (s @ [c])"
    and get_str_holds: "holds q s \<Longrightarrow> NUL \<notin> set s \<Longrightarrow> get_str q = Inr s"
begin

text \<open>A whole sequence of appends succeeds and the text read back is the concatenation.\<close>

lemma appends_hold:
  "holds q s \<Longrightarrow>
   \<exists>q'. fold (\<lambda>t r. bind_res r (\<lambda>q. append q t)) ts (Inr q) = Inr q' \<and> holds q' (s @ concat ts)"
proof (induction ts arbitrary: q s)
  case Nil
  then show ?case by auto
next
  case (Cons t ts)
  from append_holds [OF Cons.prems, of t] obtain q1
    where "append q t = Inr q1" "holds q1 (s @ t)" by blast
  with Cons.IH [of q1 "s @ t"] show ?case by simp
qed

lemma append_chrs_hold:
  "holds q s \<Longrightarrow>
   \<exists>q'. fold (\<lambda>c r. bind_res r (\<lambda>q. append_chr q c)) cs (Inr q) = Inr q' \<and> holds q' (s @ cs)"
proof (induction cs arbitrary: q s)
  case Nil
  then show ?case by auto
next
  case (Cons c cs)
  from append_chr_holds [OF Cons.prems, of c] obtain q1
    where "append_chr q c = Inr q1" "holds q1 (s @ [c])" by blast
  with Cons.IH [of q1 "s @ [c]"] show ?case by simp
qed

lemma built_string:
  assumes "NUL \<notin> set (concat ts)"
  shows "bind_res (bind_res (from_str []) (\<lambda>q. fold (\<lambda>t r. bind_res r (\<lambda>q. append q t)) ts (Inr q)))
           get_str = Inr (concat ts)"
proof -
  obtain q where q: "from_str [] = Inr q" "holds q []" using from_str_holds [of "[]"] by auto
  obtain q' where "fold (\<lambda>t r. bind_res r (\<lambda>q. append q t)) ts (Inr q) = Inr q'"
    "holds q' (concat ts)"
    using appends_hold [OF q(2), of ts] by auto
  with q(1) assms show ?thesis by (simp add: get_str_holds)
qed

end

interpretation qs: string_builder
  qstring_from_str qstring_append qstring_append_chr qstring_get_str qstring_holds
  by unfold_locales
    (simp_all add: qstring_from_str_holds qstring_append_holds qstring_append_chr_eq
      qstring_get_str_holds)

section \<open>Properties\<close>

text \<open>C7. Whatever sequence of strings is appended to a new \<^verbatim>\<open>QString\<close>, no write leaves the
  allocated block, and \<^verbatim>\<open>qstring_get_str\<close> returns their concatenation.\<close>

theorem qstring_appends_safe:
  assumes "NUL \<notin> set (concat ts)"
  shows "bind_res (fold (\<lambda>t r. bind_res r (\<lambda>q. qstring_append q t)) ts qstring_new)
           qstring_get_str = Inr (concat ts)"
proof -
  obtain q where "qstring_from_str [] = Inr q"
    using qstring_from_str_holds [of "[]"] by auto
  with qs.built_string [OF assms] show ?thesis by (simp add: qstring_new_def)
qed

theorem qstring_appends_safe_witness:
  "NUL \<notin> set (concat [''ab'', '''', ''cde'']) \<and>
   bind_res (fold (\<lambda>t r. bind_res r (\<lambda>q. qstring_append q t)) [''ab'', '''', ''cde''] qstring_new)
     qstring_get_str = Inr (concat [''ab'', '''', ''cde''])"
proof -
  have h: "NUL \<notin> set (concat [''ab'', '''', ''cde''])" by simp
  show ?thesis by (rule conjI [OF h qstring_appends_safe [OF h]])
qed

text \<open>C8. The representation invariant of \<^verbatim>\<open>QString\<close>: appending a string, a character or a number
  to a buffer that holds \<open>s\<close> succeeds, keeps the block one byte larger than the capacity with the
  NUL right after the text, and changes the text to \<open>s\<close> followed by what was appended.\<close>

theorem qstring_append_invariant:
  assumes "qstring_holds q s"
  shows "(\<exists>q'. qstring_append q t = Inr q' \<and> qstring_holds q' (s @ t)) \<and>
         (\<exists>q'. qstring_append_chr q c = Inr q' \<and> qstring_holds q' (s @ [c])) \<and>
         (\<exists>q'. qstring_append_int q v = Inr q' \<and> qstring_holds q' (s @ fmt_PRId64 v))"
  using qs.append_holds [OF assms] qs.append_chr_holds [OF assms]
  by (simp add: qstring_append_int_def)

theorem qstring_append_invariant_witness:
  "let q = \<lparr>qs_string = [Some (CHR ''a''), Some NUL], qs_length = 1, qs_capacity = 1\<rparr>
   in qstring_holds q ''a'' \<and>
      (\<exists>q'. qstring_append_int q 42 = Inr q' \<and> qstring_holds q' (''a'' @ fmt_PRId64 42))"
proof -
  have h: "qstring_holds \<lparr>qs_string = [Some (CHR ''a''), Some NUL], qs_length = 1, qs_capacity = 1\<rparr>
     ''a''" by (simp add: qstring_holds_def)
  from h qstring_append_invariant [OF h, of "[]" "CHR ''b''" 42] show ?thesis
    unfolding Let_def by blast
qed

end
