(* ===== verification/QDict.thy ===== *)
theory QDict
  imports Prelude
begin

text \<open>
  The chained hash table of \<^verbatim>\<open>libq/src/qdict.c\<close>: 512 buckets, each a singly linked list of
  key/value entries. A pointer to an entry is a pair of a bucket number and a position in the
  bucket. The values are a type parameter here; the typed accessors, which look at the kind of
  the stored object, are in \<open>QObject\<close>.
\<close>

section \<open>The table\<close>

datatype 'v qdict = Mk_QDict (qd_size: nat) (qd_table: "(string \<times> 'v) list list")

type_synonym entry_ptr = "nat \<times> nat"

definition QDICT_BUCKET_MAX :: nat where
  "QDICT_BUCKET_MAX = 512"

definition qdict_new :: "'v qdict" where
  "qdict_new = Mk_QDict 0 (replicate QDICT_BUCKET_MAX [])"

fun tdb_hash_loop :: "string \<Rightarrow> u32 \<Rightarrow> u32 \<Rightarrow> u32" where
  "tdb_hash_loop [] i value = value"
| "tdb_hash_loop (c # cs) i value =
     tdb_hash_loop cs (i + 1) (value + push_bit (unat (i * 5 mod 24)) (of_char c))"

definition tdb_hash :: "string \<Rightarrow> u32" where
  "tdb_hash name =
     1103515243 * tdb_hash_loop name 0 (0x238F13AF * of_nat (length name)) + 12345"

definition qdict_bucket :: "string \<Rightarrow> nat" where
  "qdict_bucket key = unat (tdb_hash key) mod QDICT_BUCKET_MAX"

definition alloc_entry :: "string \<Rightarrow> 'v \<Rightarrow> string \<times> 'v" where
  "alloc_entry key value = (key, value)"

definition qdict_deref :: "'v qdict \<Rightarrow> entry_ptr \<Rightarrow> string \<times> 'v" where
  "qdict_deref d p = qd_table d ! fst p ! snd p"

definition qdict_entry_key :: "'v qdict \<Rightarrow> entry_ptr \<Rightarrow> string" where
  "qdict_entry_key d p = fst (qdict_deref d p)"

definition qdict_entry_value :: "'v qdict \<Rightarrow> entry_ptr \<Rightarrow> 'v" where
  "qdict_entry_value d p = snd (qdict_deref d p)"

fun find_key :: "string \<Rightarrow> (string \<times> 'v) list \<Rightarrow> nat option" where
  "find_key key [] = None"
| "find_key key ((k, v) # es) = (if k = key then Some 0 else map_option Suc (find_key key es))"

definition qdict_find :: "'v qdict \<Rightarrow> string \<Rightarrow> nat \<Rightarrow> entry_ptr option" where
  "qdict_find d key bucket = map_option (Pair bucket) (find_key key (qd_table d ! bucket))"

section \<open>Operations\<close>

definition qdict_put_obj :: "'v qdict \<Rightarrow> string \<Rightarrow> 'v \<Rightarrow> 'v qdict" where
  "qdict_put_obj d key value =
     (let bucket = qdict_bucket key in
      case qdict_find d key bucket of
        Some (b, i) \<Rightarrow>
          Mk_QDict (qd_size d)
            ((qd_table d)[b := (qd_table d ! b)[i := (fst (qd_table d ! b ! i), value)]])
      | None \<Rightarrow>
          Mk_QDict (qd_size d + 1)
            ((qd_table d)[bucket := alloc_entry key value # qd_table d ! bucket]))"

definition qdict_get :: "'v qdict \<Rightarrow> string \<Rightarrow> 'v option" where
  "qdict_get d key = map_option (qdict_entry_value d) (qdict_find d key (qdict_bucket key))"

definition qdict_haskey :: "'v qdict \<Rightarrow> string \<Rightarrow> bool" where
  "qdict_haskey d key = (qdict_find d key (qdict_bucket key) \<noteq> None)"

definition qdict_size :: "'v qdict \<Rightarrow> nat" where
  "qdict_size d = qd_size d"

definition qdict_iter :: "(string \<Rightarrow> 'v \<Rightarrow> 's \<Rightarrow> 's) \<Rightarrow> 'v qdict \<Rightarrow> 's \<Rightarrow> 's" where
  "qdict_iter iter d opaque =
     fold (\<lambda>bucket s. fold (\<lambda>(k, v) s. iter k v s) bucket s) (qd_table d) opaque"

function qdict_next_entry :: "'v qdict \<Rightarrow> nat \<Rightarrow> entry_ptr option" where
  "qdict_next_entry d i =
     (if i < QDICT_BUCKET_MAX
      then if qd_table d ! i \<noteq> [] then Some (i, 0) else qdict_next_entry d (Suc i)
      else None)"
  by pat_completeness auto
termination
  by (relation "measure (\<lambda>(d, i). QDICT_BUCKET_MAX - i)") auto

declare qdict_next_entry.simps [simp del]

definition qdict_first :: "'v qdict \<Rightarrow> entry_ptr option" where
  "qdict_first d = qdict_next_entry d 0"

definition qdict_next :: "'v qdict \<Rightarrow> entry_ptr \<Rightarrow> entry_ptr option" where
  "qdict_next d p =
     (if Suc (snd p) < length (qd_table d ! fst p) then Some (fst p, Suc (snd p))
      else qdict_next_entry d (qdict_bucket (qdict_entry_key d p) + 1))"

definition remove_nth :: "nat \<Rightarrow> 'a list \<Rightarrow> 'a list" where
  "remove_nth i xs = take i xs @ drop (Suc i) xs"

definition qdict_del :: "'v qdict \<Rightarrow> string \<Rightarrow> 'v qdict" where
  "qdict_del d key =
     (case qdict_find d key (qdict_bucket key) of
        Some (b, i) \<Rightarrow>
          Mk_QDict (qd_size d - 1) ((qd_table d)[b := remove_nth i (qd_table d ! b)])
      | None \<Rightarrow> d)"

section \<open>The invariant of the table\<close>

definition qdict_inv :: "'v qdict \<Rightarrow> bool" where
  "qdict_inv d \<longleftrightarrow>
     length (qd_table d) = QDICT_BUCKET_MAX \<and>
     qd_size d = sum_list (map length (qd_table d)) \<and>
     (\<forall>b < QDICT_BUCKET_MAX. distinct (map fst (qd_table d ! b)) \<and>
        (\<forall>e \<in> set (qd_table d ! b). qdict_bucket (fst e) = b))"

text \<open>The entries in the order in which an iteration visits them.\<close>

definition qdict_entries :: "'v qdict \<Rightarrow> (string \<times> 'v) list" where
  "qdict_entries d = concat (qd_table d)"

lemma qdict_bucket_less [simp]: "qdict_bucket key < QDICT_BUCKET_MAX"
  by (simp add: qdict_bucket_def QDICT_BUCKET_MAX_def)

lemma find_key_Some:
  "find_key key es = Some i \<Longrightarrow> i < length es \<and> fst (es ! i) = key"
  by (induction es arbitrary: i) (auto split: if_splits)

lemma find_key_None: "find_key key es = None \<longleftrightarrow> key \<notin> fst ` set es"
  by (induction es) (auto split: if_splits)

lemma find_key_map_of: "map_option (\<lambda>i. snd (es ! i)) (find_key key es) = map_of es key"
  by (induction es) (auto simp: option.map_comp comp_def)

lemma qdict_get_map_of: "qdict_get d key = map_of (qd_table d ! qdict_bucket key) key"
  by (simp add: qdict_get_def qdict_find_def qdict_entry_value_def qdict_deref_def
      option.map_comp comp_def find_key_map_of)

lemma map_of_update_nth:
  "find_key key es = Some i \<Longrightarrow>
   map_of (es[i := (fst (es ! i), v)]) = (map_of es)(key \<mapsto> v)"
  by (induction es arbitrary: i) (auto split: if_splits nat.splits)

lemma map_of_remove_nth:
  "distinct (map fst es) \<Longrightarrow> find_key key es = Some i \<Longrightarrow>
   map_of (remove_nth i es) = (map_of es)(key := None)"
proof (induction es arbitrary: i)
  case Nil
  then show ?case by simp
next
  case (Cons e es)
  obtain k v where e: "e = (k, v)" by (cases e)
  show ?case
  proof (cases "k = key")
    case True
    with Cons.prems e have "i = 0" "key \<notin> fst ` set es" by auto
    with True e show ?thesis
      by (auto simp: remove_nth_def fun_eq_iff map_of_eq_None_iff)
  next
    case False
    with Cons.prems(2) e obtain j where j: "find_key key es = Some j" "i = Suc j" by auto
    from Cons.prems(1) have "distinct (map fst es)" by simp
    from Cons.IH [OF this j(1)] j False e show ?thesis
      by (simp add: remove_nth_def fun_eq_iff)
  qed
qed

lemma map_fst_update_nth: "map fst (es[i := (fst (es ! i), v)]) = map fst es"
  by (metis fst_conv list_update_id map_update)

lemma set_remove_nth: "set (remove_nth i es) \<subseteq> set es"
  by (auto simp: remove_nth_def dest: in_set_takeD in_set_dropD)

lemma map_remove_nth: "map f (remove_nth i es) = remove_nth i (map f es)"
  by (simp add: remove_nth_def take_map drop_map)

lemma distinct_remove_nth: "distinct xs \<Longrightarrow> distinct (remove_nth i xs)"
proof -
  assume "distinct xs"
  then have "distinct (take i xs @ drop i xs)" by simp
  moreover have "set (drop (Suc i) xs) \<subseteq> set (drop i xs)"
    by (rule set_drop_subset_set_drop) simp
  ultimately show ?thesis
    unfolding remove_nth_def using \<open>distinct xs\<close> by (auto simp del: append_take_drop_id)
qed

lemma length_remove_nth: "i < length xs \<Longrightarrow> length (remove_nth i xs) = length xs - 1"
  by (simp add: remove_nth_def)


section \<open>The operations keep the invariant and implement a finite map\<close>

lemma qdict_invD:
  assumes "qdict_inv d"
  shows "length (qd_table d) = QDICT_BUCKET_MAX"
    and "qd_size d = sum_list (map length (qd_table d))"
    and "b < QDICT_BUCKET_MAX \<Longrightarrow> distinct (map fst (qd_table d ! b))"
    and "b < QDICT_BUCKET_MAX \<Longrightarrow> e \<in> set (qd_table d ! b) \<Longrightarrow> qdict_bucket (fst e) = b"
  using assms by (auto simp: qdict_inv_def)

text \<open>Replacing one bucket by another that is well formed on its own.\<close>

lemma qdict_inv_update_bucket:
  assumes inv: "qdict_inv d" and b: "b < QDICT_BUCKET_MAX"
    and dist: "distinct (map fst es)"
    and home: "\<forall>e \<in> set es. qdict_bucket (fst e) = b"
    and size: "n + length (qd_table d ! b) = qd_size d + length es"
  shows "qdict_inv (Mk_QDict n ((qd_table d)[b := es]))"
proof -
  let ?ls = "map length (qd_table d)"
  have "sum_list (?ls[b := length es]) + ?ls ! b = sum_list ?ls + length es"
    using qdict_invD(1) [OF inv] b by (intro sum_list_list_update_nat) simp
  then have "n = sum_list (map length ((qd_table d)[b := es]))"
    using size b qdict_invD(1,2) [OF inv] by (simp add: map_update)
  then show ?thesis
    using dist home qdict_invD [OF inv] b by (auto simp: qdict_inv_def nth_list_update)
qed

lemma qdict_inv_new: "qdict_inv qdict_new"
  by (simp add: qdict_inv_def qdict_new_def sum_list_replicate)

lemma qdict_find_eq:
  "qdict_find d key b = Some p \<longleftrightarrow> fst p = b \<and> find_key key (qd_table d ! b) = Some (snd p)"
  by (cases p) (auto simp: qdict_find_def)

lemma qdict_inv_put:
  assumes inv: "qdict_inv d"
  shows "qdict_inv (qdict_put_obj d key value)"
proof (cases "find_key key (qd_table d ! qdict_bucket key)")
  case None
  let ?b = "qdict_bucket key"
  have "key \<notin> fst ` set (qd_table d ! ?b)" using None by (simp add: find_key_None)
  then have "qdict_inv (Mk_QDict (qd_size d + 1)
      ((qd_table d)[?b := (key, value) # qd_table d ! ?b]))"
    using qdict_invD(3,4) [OF inv] by (intro qdict_inv_update_bucket [OF inv]) auto
  with None show ?thesis
    by (simp add: qdict_put_obj_def qdict_find_def alloc_entry_def Let_def)
next
  case (Some i)
  let ?b = "qdict_bucket key"
  let ?es = "(qd_table d ! ?b)[i := (fst (qd_table d ! ?b ! i), value)]"
  have keys: "map fst ?es = map fst (qd_table d ! ?b)" by (rule map_fst_update_nth)
  then have "fst ` set ?es = fst ` set (qd_table d ! ?b)" by (metis list.set_map)
  then have "\<forall>e \<in> set ?es. qdict_bucket (fst e) = ?b"
    using qdict_invD(4) [OF inv qdict_bucket_less] by (metis image_iff)
  moreover have "distinct (map fst ?es)" using keys qdict_invD(3) [OF inv, of ?b] by simp
  ultimately have "qdict_inv (Mk_QDict (qd_size d) ((qd_table d)[?b := ?es]))"
    by (intro qdict_inv_update_bucket [OF inv]) auto
  with Some show ?thesis by (simp add: qdict_put_obj_def qdict_find_def Let_def)
qed

lemma qdict_inv_del:
  assumes inv: "qdict_inv d"
  shows "qdict_inv (qdict_del d key)"
proof (cases "find_key key (qd_table d ! qdict_bucket key)")
  case None
  with inv show ?thesis by (simp add: qdict_del_def qdict_find_def)
next
  case (Some i)
  let ?b = "qdict_bucket key"
  let ?es = "qd_table d ! ?b"
  from Some have i: "i < length ?es" by (simp add: find_key_Some)
  have "length ?es \<le> sum_list (map length (qd_table d))"
    using qdict_invD(1) [OF inv] by (intro member_le_sum_list) auto
  then have size: "qd_size d - 1 + length ?es = qd_size d + length (remove_nth i ?es)"
    using i qdict_invD(2) [OF inv] by (simp add: length_remove_nth)
  have "qdict_inv (Mk_QDict (qd_size d - 1) ((qd_table d)[?b := remove_nth i ?es]))"
    using qdict_invD(3,4) [OF inv] set_remove_nth [of i ?es]
    by (intro qdict_inv_update_bucket [OF inv _ _ _ size])
      (auto simp: map_remove_nth distinct_remove_nth)
  with Some show ?thesis by (simp add: qdict_del_def qdict_find_def)
qed

lemma qdict_get_new: "qdict_get qdict_new key = None"
  by (simp add: qdict_get_map_of qdict_new_def)

lemma qdict_get_put:
  assumes inv: "qdict_inv d"
  shows "qdict_get (qdict_put_obj d key value) = (qdict_get d)(key \<mapsto> value)"
proof
  fix key'
  show "qdict_get (qdict_put_obj d key value) key' = ((qdict_get d)(key \<mapsto> value)) key'"
    using qdict_invD(1) [OF inv]
    by (cases "find_key key (qd_table d ! qdict_bucket key)";
        cases "qdict_bucket key' = qdict_bucket key")
      (auto simp: qdict_get_map_of qdict_put_obj_def qdict_find_def alloc_entry_def Let_def
        map_of_update_nth)
qed

lemma qdict_get_del:
  assumes inv: "qdict_inv d"
  shows "qdict_get (qdict_del d key) = (qdict_get d)(key := None)"
proof
  fix key'
  have dist: "distinct (map fst (qd_table d ! qdict_bucket key))"
    using qdict_invD(3) [OF inv] by simp
  show "qdict_get (qdict_del d key) key' = ((qdict_get d)(key := None)) key'"
  proof (cases "find_key key (qd_table d ! qdict_bucket key)")
    case None
    then have "qdict_get d key = None"
      by (simp add: qdict_get_def qdict_find_def)
    with None show ?thesis by (simp add: qdict_del_def qdict_find_def)
  next
    case (Some i)
    with map_of_remove_nth [OF dist Some] qdict_invD(1) [OF inv] show ?thesis
      by (cases "qdict_bucket key' = qdict_bucket key")
        (auto simp: qdict_get_map_of qdict_del_def qdict_find_def)
  qed
qed

section \<open>The interface the clients of a dictionary rely on\<close>

locale string_map =
  fixes empty :: "'d"
    and put :: "'d \<Rightarrow> string \<Rightarrow> 'v \<Rightarrow> 'd"
    and del :: "'d \<Rightarrow> string \<Rightarrow> 'd"
    and get :: "'d \<Rightarrow> string \<Rightarrow> 'v option"
    and invar :: "'d \<Rightarrow> bool"
  assumes get_empty: "get empty k = None"
    and get_put: "invar d \<Longrightarrow> get (put d k v) = (get d)(k \<mapsto> v)"
    and get_del: "invar d \<Longrightarrow> get (del d k) = (get d)(k := None)"
    and invar_empty: "invar empty"
    and invar_put: "invar d \<Longrightarrow> invar (put d k v)"
    and invar_del: "invar d \<Longrightarrow> invar (del d k)"
begin

lemma invar_puts: "invar d \<Longrightarrow> invar (fold (\<lambda>(k, v) d. put d k v) kvs d)"
  by (induction kvs arbitrary: d) (auto simp: invar_put)

lemma get_puts:
  "invar d \<Longrightarrow> get (fold (\<lambda>(k, v) d. put d k v) kvs d) = get d ++ map_of (rev kvs)"
  by (induction kvs arbitrary: d)
    (auto simp: invar_put get_put map_add_def fun_eq_iff split: option.splits)

text \<open>Filling an empty dictionary from entries with distinct keys gives back those entries.\<close>

lemma get_of_entries:
  assumes "distinct (map fst kvs)"
  shows "get (fold (\<lambda>(k, v) d. put d k v) kvs empty) = map_of kvs"
proof -
  have "get empty = Map.empty" by (rule ext) (rule get_empty)
  moreover have "map_of (rev kvs) = map_of kvs"
    using assms by (simp add: map_of_inject_set rev_map [symmetric])
  ultimately show ?thesis by (simp add: get_puts [OF invar_empty])
qed

lemma put_put_same: "invar d \<Longrightarrow> get (put (put d k v) k v') = get (put d k v')"
  by (simp add: get_put invar_put)

lemma put_commute:
  "invar d \<Longrightarrow> k \<noteq> k' \<Longrightarrow> get (put (put d k v) k' v') = get (put (put d k' v') k v)"
  by (simp add: get_put invar_put fun_upd_twist)

lemma del_put: "invar d \<Longrightarrow> get d k = None \<Longrightarrow> get (del (put d k v) k) = get d"
  by (auto simp: get_put get_del invar_put fun_eq_iff)

end

interpretation qd: string_map qdict_new qdict_put_obj qdict_del qdict_get qdict_inv
  by unfold_locales
    (simp_all add: qdict_get_new qdict_get_put qdict_get_del qdict_inv_new qdict_inv_put
      qdict_inv_del)

lemmas [dict_simps] = qdict_get_new qdict_get_put qdict_inv_new qdict_inv_put

section \<open>Size and iteration\<close>

lemma qdict_entries_keys:
  assumes inv: "qdict_inv d"
  shows "distinct (map fst (qdict_entries d))"
proof -
  have sub: "distinct (map fst (concat bs))"
    if "\<And>i. i < length bs \<Longrightarrow> distinct (map fst (bs ! i))"
      and "\<And>i e. i < length bs \<Longrightarrow> e \<in> set (bs ! i) \<Longrightarrow> qdict_bucket (fst e) = n + i"
    for bs :: "(string \<times> 'a) list list" and n
    using that
  proof (induction bs arbitrary: n)
    case Nil
    then show ?case by simp
  next
    case (Cons b bs)
    have "distinct (map fst (concat bs))"
    proof (rule Cons.IH [of "Suc n"])
      show "distinct (map fst (bs ! i))" if "i < length bs" for i
        using Cons.prems(1) [of "Suc i"] that by simp
      show "qdict_bucket (fst e) = Suc n + i" if "i < length bs" "e \<in> set (bs ! i)" for i e
        using Cons.prems(2) [of "Suc i" e] that by simp
    qed
    moreover have "qdict_bucket (fst e) = n" if "e \<in> set b" for e
      using Cons.prems(2) [of 0 e] that by simp
    moreover have "qdict_bucket (fst e) > n" if "e \<in> set (concat bs)" for e
    proof -
      from that obtain i where "i < length bs" "e \<in> set (bs ! i)"
        by (auto simp: in_set_conv_nth) (metis in_set_conv_nth)
      with Cons.prems(2) [of "Suc i" e] show ?thesis by simp
    qed
    ultimately show ?case
      using Cons.prems(1) [of 0] by fastforce
  qed
  show ?thesis
    unfolding qdict_entries_def
    by (rule sub [where n = 0]) (use qdict_invD [OF inv] in auto)
qed

lemma qdict_get_entries:
  assumes inv: "qdict_inv d"
  shows "qdict_get d = map_of (qdict_entries d)"
proof
  fix key
  show "qdict_get d key = map_of (qdict_entries d) key"
  proof (cases "qdict_get d key")
    case None
    have "key \<notin> fst ` set (qdict_entries d)"
    proof
      assume "key \<in> fst ` set (qdict_entries d)"
      then obtain e b where "fst e = key" "b \<in> set (qd_table d)" "e \<in> set b"
        by (auto simp: qdict_entries_def)
      then obtain i where "i < QDICT_BUCKET_MAX" "e \<in> set (qd_table d ! i)" "fst e = key"
        using qdict_invD(1) [OF inv] by (metis in_set_conv_nth)
      with qdict_invD(4) [OF inv] have "e \<in> set (qd_table d ! qdict_bucket key)" by fastforce
      with None \<open>fst e = key\<close> show False
        by (auto simp: qdict_get_map_of map_of_eq_None_iff)
    qed
    with None show ?thesis by (metis map_of_eq_None_iff)
  next
    case (Some v)
    then have "(key, v) \<in> set (qd_table d ! qdict_bucket key)"
      by (simp add: qdict_get_map_of map_of_SomeD)
    moreover have "qd_table d ! qdict_bucket key \<in> set (qd_table d)"
      using qdict_invD(1) [OF inv] by (intro nth_mem) simp
    ultimately have "(key, v) \<in> set (qdict_entries d)"
      by (auto simp: qdict_entries_def)
    with Some show ?thesis
      by (simp add: map_of_is_SomeI [OF qdict_entries_keys [OF inv]])
  qed
qed

lemma qdict_iter_entries:
  "qdict_iter iter d s = fold (\<lambda>(k, v) s. iter k v s) (qdict_entries d) s"
proof -
  have "fold (\<lambda>bucket s. fold (\<lambda>(k, v) s. iter k v s) bucket s) bs s =
        fold (\<lambda>(k, v) s. iter k v s) (concat bs) s" for bs
    by (induction bs arbitrary: s) auto
  then show ?thesis by (simp add: qdict_iter_def qdict_entries_def)
qed

lemma length_qdict_entries: "qdict_inv d \<Longrightarrow> length (qdict_entries d) = qdict_size d"
  by (simp add: qdict_inv_def qdict_entries_def qdict_size_def length_concat)

text \<open>
  The iteration of a client with \<^verbatim>\<open>qdict_first\<close> and \<^verbatim>\<open>qdict_next\<close>: the entries visited from a
  pointer on, or \<open>None\<close> when the step budget \<open>n\<close> ends before the iteration.
\<close>

fun qdict_walk :: "nat \<Rightarrow> 'v qdict \<Rightarrow> entry_ptr option \<Rightarrow> (string \<times> 'v) list option" where
  "qdict_walk n d None = Some []"
| "qdict_walk 0 d (Some p) = None"
| "qdict_walk (Suc n) d (Some p) =
     map_option (Cons (qdict_deref d p)) (qdict_walk n d (qdict_next d p))"

lemma concat_drop_Cons:
  "i < length bs \<Longrightarrow> concat (drop i bs) = bs ! i @ concat (drop (Suc i) bs)"
  by (simp add: Cons_nth_drop_Suc [symmetric])

lemma qdict_next_entry_cases:
  assumes "length (qd_table d) = QDICT_BUCKET_MAX"
  shows "case qdict_next_entry d i of
      None \<Rightarrow> concat (drop i (qd_table d)) = []
    | Some p \<Rightarrow> snd p = 0 \<and> fst p < QDICT_BUCKET_MAX \<and> qd_table d ! fst p \<noteq> [] \<and>
        concat (drop i (qd_table d)) = concat (drop (fst p) (qd_table d))"
  using assms
proof (induction d i rule: qdict_next_entry.induct)
  case (1 d i)
  then show ?case
    by (subst qdict_next_entry.simps) (auto simp: concat_drop_Cons split: option.splits)
qed

lemma qdict_walk_from:
  assumes inv: "qdict_inv d" and b: "b < QDICT_BUCKET_MAX" and i: "i < length (qd_table d ! b)"
    and n: "length (drop i (qd_table d ! b) @ concat (drop (Suc b) (qd_table d))) \<le> n"
  shows "qdict_walk n d (Some (b, i)) =
    Some (drop i (qd_table d ! b) @ concat (drop (Suc b) (qd_table d)))"
  using b i n
proof (induction n arbitrary: b i)
  case 0
  then show ?case by simp
next
  case (Suc n)
  have len: "length (qd_table d) = QDICT_BUCKET_MAX" using inv by (rule qdict_invD)
  have split: "drop i (qd_table d ! b) = qdict_deref d (b, i) # drop (Suc i) (qd_table d ! b)"
    using Suc.prems(2) by (simp add: qdict_deref_def Cons_nth_drop_Suc)
  show ?case
  proof (cases "Suc i < length (qd_table d ! b)")
    case True
    then have "qdict_next d (b, i) = Some (b, Suc i)" by (simp add: qdict_next_def)
    moreover have "qdict_walk n d (Some (b, Suc i)) =
        Some (drop (Suc i) (qd_table d ! b) @ concat (drop (Suc b) (qd_table d)))"
      using Suc.prems True split by (intro Suc.IH) auto
    ultimately show ?thesis using split by simp
  next
    case False
    have "qdict_bucket (qdict_entry_key d (b, i)) = b"
      using qdict_invD(4) [OF inv Suc.prems(1)] Suc.prems(2)
      by (simp add: qdict_entry_key_def qdict_deref_def)
    with False have nxt: "qdict_next d (b, i) = qdict_next_entry d (Suc b)"
      by (simp add: qdict_next_def)
    have rest: "drop (Suc i) (qd_table d ! b) = []" using False by simp
    show ?thesis
    proof (cases "qdict_next_entry d (Suc b)")
      case None
      with qdict_next_entry_cases [OF len, of "Suc b"] split rest nxt show ?thesis by simp
    next
      case (Some p)
      with qdict_next_entry_cases [OF len, of "Suc b"] obtain b' where p: "p = (b', 0)"
        and b': "b' < QDICT_BUCKET_MAX" "qd_table d ! b' \<noteq> []"
        and eq: "concat (drop (Suc b) (qd_table d)) = concat (drop b' (qd_table d))"
        by (cases p) auto
      have eq': "concat (drop (Suc b) (qd_table d)) =
          drop 0 (qd_table d ! b') @ concat (drop (Suc b') (qd_table d))"
        using eq concat_drop_Cons [of b' "qd_table d"] b' len by simp
      have "qdict_walk n d (Some (b', 0)) =
          Some (drop 0 (qd_table d ! b') @ concat (drop (Suc b') (qd_table d)))"
        using b' Suc.prems(3) split rest eq' by (intro Suc.IH) auto
      with split rest nxt Some p eq' show ?thesis by simp
    qed
  qed
qed

section \<open>Properties\<close>

text \<open>C3. \<^verbatim>\<open>qdict_put_obj\<close>, \<^verbatim>\<open>qdict_del\<close> and \<^verbatim>\<open>qdict_get\<close> implement a finite map from strings:
  after any sequence of insertions into a new dictionary, a lookup returns the value of the last
  insertion with that key, deletion removes exactly the key deleted, and the stored size is the
  number of keys present.\<close>

theorem qdict_implements_map:
  fixes kvs :: "(string \<times> 'v) list"
  shows "let d = fold (\<lambda>(k, v) d. qdict_put_obj d k v) kvs qdict_new
   in qdict_get d = map_of (rev kvs) \<and>
      qdict_get (qdict_del d key) = (map_of (rev kvs))(key := None) \<and>
      qdict_haskey d key = (key \<in> fst ` set kvs) \<and>
      qdict_size d = card (fst ` set kvs)"
proof -
  define d where "d = fold (\<lambda>(k, v) d. qdict_put_obj d k v) kvs qdict_new"
  have inv: "qdict_inv d" unfolding d_def by (rule qd.invar_puts [OF qd.invar_empty])
  have "qdict_get (qdict_new :: 'v qdict) = Map.empty" by (rule ext) (rule qdict_get_new)
  then have get: "qdict_get d = map_of (rev kvs)"
    unfolding d_def by (simp add: qd.get_puts [OF qd.invar_empty])
  have has: "qdict_haskey d k = (k \<in> fst ` set kvs)" for k
  proof -
    have "qdict_haskey d k = (qdict_get d k \<noteq> None)"
      by (simp add: qdict_haskey_def qdict_get_def)
    then show ?thesis by (simp add: get map_of_eq_None_iff)
  qed
  have "qdict_size d = card (dom (qdict_get d))"
    using distinct_card [OF qdict_entries_keys [OF inv]] length_qdict_entries [OF inv]
    by (simp add: qdict_get_entries [OF inv] dom_map_of_conv_image_fst)
  then have "qdict_size d = card (fst ` set kvs)" by (simp add: get dom_map_of_conv_image_fst)
  then show ?thesis
    unfolding d_def [symmetric] Let_def by (simp add: get has qdict_get_del [OF inv])
qed

text \<open>C8. Iterating with \<^verbatim>\<open>qdict_first\<close> and \<^verbatim>\<open>qdict_next\<close> ends after as many steps as the
  dictionary has entries and visits exactly the entries \<^verbatim>\<open>qdict_iter\<close> visits, in the same order,
  each key once.\<close>

theorem qdict_walk_visits_all:
  assumes "qdict_inv d"
  shows "qdict_walk (qdict_size d) d (qdict_first d) =
           Some (rev (qdict_iter (\<lambda>k v es. (k, v) # es) d [])) \<and>
         distinct (map fst (qdict_iter (\<lambda>k v es. (k, v) # es) d []))"
proof -
  have iter: "qdict_iter (\<lambda>k v es. (k, v) # es) d [] = rev (qdict_entries d)"
    by (simp add: qdict_iter_entries case_prod_unfold fold_Cons_rev)
  have len: "length (qd_table d) = QDICT_BUCKET_MAX" using assms by (rule qdict_invD)
  have "qdict_walk (qdict_size d) d (qdict_first d) = Some (qdict_entries d)"
  proof (cases "qdict_next_entry d 0")
    case None
    with qdict_next_entry_cases [OF len, of 0] show ?thesis
      by (simp add: qdict_first_def qdict_entries_def)
  next
    case (Some p)
    with qdict_next_entry_cases [OF len, of 0] obtain b where p: "p = (b, 0)"
      and b: "b < QDICT_BUCKET_MAX" "qd_table d ! b \<noteq> []"
      and eq: "concat (qd_table d) = concat (drop b (qd_table d))"
      by (cases p) auto
    have eq': "qdict_entries d = qd_table d ! b @ concat (drop (Suc b) (qd_table d))"
      using eq concat_drop_Cons [of b "qd_table d"] b len by (simp add: qdict_entries_def)
    have "qdict_walk (qdict_size d) d (Some (b, 0)) =
        Some (drop 0 (qd_table d ! b) @ concat (drop (Suc b) (qd_table d)))"
      using b eq' length_qdict_entries [OF assms]
      by (intro qdict_walk_from [OF assms]) auto
    with Some p eq' show ?thesis by (simp add: qdict_first_def)
  qed
  with qdict_entries_keys [OF assms] show ?thesis by (simp add: iter rev_map [symmetric])
qed

theorem qdict_walk_visits_all_witness:
  "let d = qdict_put_obj qdict_new ''type'' (7::nat)
   in qdict_inv d \<and>
      qdict_walk (qdict_size d) d (qdict_first d) =
        Some (rev (qdict_iter (\<lambda>k v es. (k, v) # es) d [])) \<and>
      distinct (map fst (qdict_iter (\<lambda>k v es. (k, v) # es) d []))"
proof -
  have inv: "qdict_inv (qdict_put_obj qdict_new ''type'' (7::nat))"
    by (intro qdict_inv_put qdict_inv_new)
  from inv qdict_walk_visits_all [OF inv] show ?thesis unfolding Let_def by blast
qed

end
