(* ===== verification/CDouble.thy ===== *)
theory CDouble
  imports CText
begin

text \<open>
  IEEE 754 doubles as their 64 bits, with the three conversions \<^verbatim>\<open>libq\<close> uses: \<^verbatim>\<open>strtod\<close> on a
  decimal literal, \<^verbatim>\<open>printf\<close>'s \<^verbatim>\<open>%f\<close>, and the cast of an \<^verbatim>\<open>int64_t\<close>. Both directions round to
  nearest, ties to even, as the C library does in its default rounding mode.
\<close>

type_synonym double = u64

fun bit_length :: "nat \<Rightarrow> nat" where
  "bit_length n = (if n = 0 then 0 else Suc (bit_length (n div 2)))"

declare bit_length.simps [simp del]

text \<open>\<open>n / d\<close> rounded to the nearest integer, ties to even.\<close>

definition round_div :: "nat \<Rightarrow> nat \<Rightarrow> nat" where
  "round_div n d =
     (let q = n div d; r = n mod d in
      if 2 * r > d \<or> (2 * r = d \<and> odd q) then q + 1 else q)"

text \<open>\<open>n / (d * 2 ^ e)\<close> rounded, for a positive or negative \<open>e\<close>.\<close>

definition round_scaled :: "nat \<Rightarrow> nat \<Rightarrow> int \<Rightarrow> nat" where
  "round_scaled n d e =
     (if 0 \<le> e then round_div n (d * 2 ^ nat e) else round_div (n * 2 ^ nat (- e)) d)"

text \<open>Whether \<open>n / d < 2 ^ k\<close>.\<close>

definition below_pow2 :: "nat \<Rightarrow> nat \<Rightarrow> int \<Rightarrow> bool" where
  "below_pow2 n d k = (if 0 \<le> k then n < d * 2 ^ nat k else n * 2 ^ nat (- k) < d)"

text \<open>
  The magnitude bits of the double nearest to the positive rational \<open>n / d\<close>: the exponent of the
  last place is chosen so that the significand has 53 bits, but never below that of the
  subnormal numbers; a significand rounded up to \<open>2 ^ 53\<close> carries into the exponent field.
\<close>

definition double_magnitude :: "nat \<Rightarrow> nat \<Rightarrow> nat" where
  "double_magnitude n d =
     (let k = int (bit_length n) - int (bit_length d);
          k = (if below_pow2 n d k then k else k + 1);
          e = max (k - 53) (- 1074);
          q = round_scaled n d e;
          bits = (if e = - 1074 \<and> q < 2 ^ 52 then q else nat (e + 1075) * 2 ^ 52 + q - 2 ^ 52)
      in min bits (0x7FF * 2 ^ 52))"

definition double_of_ratio :: "bool \<Rightarrow> nat \<Rightarrow> nat \<Rightarrow> double" where
  "double_of_ratio neg n d =
     (if neg then 0x8000000000000000 else 0) OR
     (if n = 0 then 0 else of_nat (double_magnitude n d))"

definition double_of_int64 :: "u64 \<Rightarrow> double" where
  "double_of_int64 v = double_of_ratio (sint v < 0) (nat \<bar>sint v\<bar>) 1"

section \<open>strtod\<close>

text \<open>The decimal literal at the front: sign, digits, fraction and exponent.\<close>

definition strtod :: "string \<Rightarrow> double" where
  "strtod s =
     (let s = dropWhile is_space s;
          neg = (s \<noteq> [] \<and> hd s = CHR ''-'');
          s = (if s \<noteq> [] \<and> (hd s = CHR ''-'' \<or> hd s = CHR ''+'') then tl s else s);
          whole = takeWhile is_digit s; s = dropWhile is_digit s;
          frac = (if s \<noteq> [] \<and> hd s = CHR ''.'' then takeWhile is_digit (tl s) else []);
          s = (if s \<noteq> [] \<and> hd s = CHR ''.'' then dropWhile is_digit (tl s) else s);
          x = (if s \<noteq> [] \<and> (hd s = CHR ''e'' \<or> hd s = CHR ''E'') then tl s else []);
          xneg = (x \<noteq> [] \<and> hd x = CHR ''-'');
          x = (if x \<noteq> [] \<and> (hd x = CHR ''-'' \<or> hd x = CHR ''+'') then tl x else x);
          expo = (if xneg then - int (read_digits 0 x) else int (read_digits 0 x)) - int (length frac);
          m = read_digits 0 (whole @ frac)
      in if 0 \<le> expo then double_of_ratio neg (m * 10 ^ nat expo) 1
         else double_of_ratio neg m (10 ^ nat (- expo)))"

section \<open>printf with a percent f conversion\<close>

definition double_sign :: "double \<Rightarrow> bool" where
  "double_sign v = bit v 63"

definition double_exp :: "double \<Rightarrow> nat" where
  "double_exp v = unat (drop_bit 52 v AND 0x7FF)"

definition double_frac :: "double \<Rightarrow> nat" where
  "double_frac v = unat (v AND 0xFFFFFFFFFFFFF)"

fun pad_left :: "nat \<Rightarrow> string \<Rightarrow> string" where
  "pad_left n s = replicate (n - length s) (CHR ''0'') @ s"

definition fmt_f :: "double \<Rightarrow> string" where
  "fmt_f v =
     (let sign = (if double_sign v then ''-'' else '''');
          e = double_exp v; f = double_frac v in
      if e = 0x7FF then sign @ (if f = 0 then ''inf'' else ''nan'')
      else
        let m = (if e = 0 then f else 2 ^ 52 + f);
            x = (if e = 0 then - 1074 else int e - 1075);
            micros = round_scaled (m * 1000000) 1 (- x)
        in sign @ show_nat (micros div 1000000) @ ''.'' @ pad_left 6 (show_nat (micros mod 1000000)))"

end
