(* ===== verification/QObject.thy ===== *)
theory QObject
  imports QDict CDouble
begin

text \<open>
  The object model of \<^verbatim>\<open>libq\<close> (\<^verbatim>\<open>qobject.h\<close>, \<^verbatim>\<open>qint.c\<close>, \<^verbatim>\<open>qbool.c\<close>, \<^verbatim>\<open>qfloat.c\<close>, \<^verbatim>\<open>qlist.c\<close> and the
  typed accessors of \<^verbatim>\<open>qdict.c\<close>) as immutable values: an object is a tree, and a pointer that can be
  \<^verbatim>\<open>NULL\<close> is an option. The text of a \<^verbatim>\<open>QString\<close> is a list of characters, which is what \<open>QString\<close>
  shows its buffer to hold. No caller in the library passes a \<^verbatim>\<open>NULL\<close> list.
\<close>

section \<open>Objects\<close>

datatype qobject =
    QInt u64
  | QString string
  | QDict "qobject qdict"
  | QList "qobject list"
  | QFloat double
  | QBool u32

datatype qtype_code =
    QTYPE_NONE | QTYPE_QINT | QTYPE_QSTRING | QTYPE_QDICT | QTYPE_QLIST | QTYPE_QFLOAT
  | QTYPE_QBOOL | QTYPE_QERROR

fun qobject_type :: "qobject \<Rightarrow> qtype_code" where
  "qobject_type (QInt i) = QTYPE_QINT"
| "qobject_type (QString s) = QTYPE_QSTRING"
| "qobject_type (QDict d) = QTYPE_QDICT"
| "qobject_type (QList xs) = QTYPE_QLIST"
| "qobject_type (QFloat f) = QTYPE_QFLOAT"
| "qobject_type (QBool b) = QTYPE_QBOOL"

fun qobject_to_qint :: "qobject \<Rightarrow> u64 option" where
  "qobject_to_qint (QInt i) = Some i"
| "qobject_to_qint obj = None"

fun qobject_to_qstring :: "qobject \<Rightarrow> string option" where
  "qobject_to_qstring (QString s) = Some s"
| "qobject_to_qstring obj = None"

fun qobject_to_qdict :: "qobject \<Rightarrow> qobject qdict option" where
  "qobject_to_qdict (QDict d) = Some d"
| "qobject_to_qdict obj = None"

fun qobject_to_qlist :: "qobject \<Rightarrow> qobject list option" where
  "qobject_to_qlist (QList xs) = Some xs"
| "qobject_to_qlist obj = None"

fun qobject_to_qfloat :: "qobject \<Rightarrow> double option" where
  "qobject_to_qfloat (QFloat f) = Some f"
| "qobject_to_qfloat obj = None"

fun qobject_to_qbool :: "qobject \<Rightarrow> u32 option" where
  "qobject_to_qbool (QBool b) = Some b"
| "qobject_to_qbool obj = None"

text \<open>Following a pointer the conversion returned; a \<^verbatim>\<open>NULL\<close> pointer is undefined behaviour.\<close>

definition deref :: "'a option \<Rightarrow> 'a res" where
  "deref p = (case p of None \<Rightarrow> Inl Undefined | Some x \<Rightarrow> Inr x)"

lemma deref_simps [simp]: "deref (Some x) = Inr x" "deref None = Inl Undefined"
  by (simp_all add: deref_def)

section \<open>Lists\<close>

definition qlist_new :: "'a list" where
  "qlist_new = []"

definition qlist_append_obj :: "'a list \<Rightarrow> 'a \<Rightarrow> 'a list" where
  "qlist_append_obj qlist value = qlist @ [value]"

fun qlist_iter :: "('a \<Rightarrow> 's \<Rightarrow> 's) \<Rightarrow> 'a list \<Rightarrow> 's \<Rightarrow> 's" where
  "qlist_iter iter [] opaque = opaque"
| "qlist_iter iter (x # xs) opaque = qlist_iter iter xs (iter x opaque)"

definition qlist_copy :: "'a list \<Rightarrow> 'a list" where
  "qlist_copy src = qlist_iter (\<lambda>obj dst. qlist_append_obj dst obj) src qlist_new"

fun qlist_pop :: "'a list \<Rightarrow> 'a option \<times> 'a list" where
  "qlist_pop [] = (None, [])"
| "qlist_pop (x # xs) = (Some x, xs)"

fun qlist_peek :: "'a list \<Rightarrow> 'a option" where
  "qlist_peek [] = None"
| "qlist_peek (x # xs) = Some x"

definition qlist_empty :: "'a list \<Rightarrow> bool" where
  "qlist_empty qlist = (qlist = [])"

lemma qlist_iter_fold: "qlist_iter iter xs s = fold iter xs s"
  by (induction xs arbitrary: s) auto

lemma qlist_copy_id [simp]: "qlist_copy xs = xs"
proof -
  have "fold (\<lambda>x acc. acc @ [x]) xs acc = acc @ xs" for acc :: "'a list"
    using fold_append_map [of "\<lambda>x. [x]"] by simp
  then show ?thesis by (simp add: qlist_copy_def qlist_iter_fold qlist_append_obj_def qlist_new_def)
qed

section \<open>Typed accessors of dictionaries\<close>

definition qdict_get_obj :: "qobject qdict \<Rightarrow> string \<Rightarrow> qtype_code \<Rightarrow> qobject res" where
  "qdict_get_obj d key type =
     (case qdict_get d key of
        None \<Rightarrow> Inl Assert
      | Some obj \<Rightarrow> assert_res (qobject_type obj = type) (Inr obj))"

definition qdict_get_double :: "qobject qdict \<Rightarrow> string \<Rightarrow> double res" where
  "qdict_get_double d key =
     (case qdict_get d key of
        None \<Rightarrow> Inl Assert
      | Some (QFloat f) \<Rightarrow> Inr f
      | Some (QInt i) \<Rightarrow> Inr (double_of_int64 i)
      | Some _ \<Rightarrow> Inl Assert)"

definition qdict_get_int :: "qobject qdict \<Rightarrow> string \<Rightarrow> u64 res" where
  "qdict_get_int d key =
     bind_res (qdict_get_obj d key QTYPE_QINT) (\<lambda>obj. deref (qobject_to_qint obj))"

definition qdict_get_bool :: "qobject qdict \<Rightarrow> string \<Rightarrow> u32 res" where
  "qdict_get_bool d key =
     bind_res (qdict_get_obj d key QTYPE_QBOOL) (\<lambda>obj. deref (qobject_to_qbool obj))"

definition qdict_get_qlist :: "qobject qdict \<Rightarrow> string \<Rightarrow> qobject list option res" where
  "qdict_get_qlist d key =
     bind_res (qdict_get_obj d key QTYPE_QLIST) (\<lambda>obj. Inr (qobject_to_qlist obj))"

definition qdict_get_qdict :: "qobject qdict \<Rightarrow> string \<Rightarrow> qobject qdict option res" where
  "qdict_get_qdict d key =
     bind_res (qdict_get_obj d key QTYPE_QDICT) (\<lambda>obj. Inr (qobject_to_qdict obj))"

definition qdict_get_str :: "qobject qdict \<Rightarrow> string \<Rightarrow> string res" where
  "qdict_get_str d key =
     bind_res (qdict_get_obj d key QTYPE_QSTRING) (\<lambda>obj. deref (qobject_to_qstring obj))"

definition qdict_get_try_int :: "qobject qdict \<Rightarrow> string \<Rightarrow> u64 \<Rightarrow> u64 res" where
  "qdict_get_try_int d key def_value =
     (case qdict_get d key of
        None \<Rightarrow> Inr def_value
      | Some obj \<Rightarrow>
          if qobject_type obj \<noteq> QTYPE_QINT then Inr def_value else deref (qobject_to_qint obj))"

definition qdict_get_try_bool :: "qobject qdict \<Rightarrow> string \<Rightarrow> u32 \<Rightarrow> u32 res" where
  "qdict_get_try_bool d key def_value =
     (case qdict_get d key of
        None \<Rightarrow> Inr def_value
      | Some obj \<Rightarrow>
          if qobject_type obj \<noteq> QTYPE_QBOOL then Inr def_value else deref (qobject_to_qbool obj))"

definition qdict_get_try_str :: "qobject qdict \<Rightarrow> string \<Rightarrow> string option res" where
  "qdict_get_try_str d key =
     (case qdict_get d key of
        None \<Rightarrow> Inr None
      | Some obj \<Rightarrow>
          if qobject_type obj \<noteq> QTYPE_QSTRING then Inr None
          else bind_res (deref (qobject_to_qstring obj)) (\<lambda>s. Inr (Some s)))"

lemma type_inversions [simp]:
  "qobject_type obj = QTYPE_QINT \<longleftrightarrow> (\<exists>i. obj = QInt i)"
  "qobject_type obj = QTYPE_QSTRING \<longleftrightarrow> (\<exists>s. obj = QString s)"
  "qobject_type obj = QTYPE_QDICT \<longleftrightarrow> (\<exists>d. obj = QDict d)"
  "qobject_type obj = QTYPE_QLIST \<longleftrightarrow> (\<exists>xs. obj = QList xs)"
  "qobject_type obj = QTYPE_QFLOAT \<longleftrightarrow> (\<exists>f. obj = QFloat f)"
  "qobject_type obj = QTYPE_QBOOL \<longleftrightarrow> (\<exists>b. obj = QBool b)"
  by (cases obj; simp)+

lemma typed_getters [tok_simps]:
  "qdict_get d k = Some (QInt i) \<Longrightarrow> qdict_get_int d k = Inr i"
  "qdict_get d k = Some (QString s) \<Longrightarrow> qdict_get_str d k = Inr s"
  by (simp_all add: qdict_get_int_def qdict_get_str_def qdict_get_obj_def)

section \<open>Properties\<close>


end
