(* ===== verification/JsonLexer.thy ===== *)
theory JsonLexer
  imports QObject
begin

text \<open>
  The table-driven lexer of \<^verbatim>\<open>libq/src/json-lexer.c\<close>. The C table holds lexer states and token
  types in one byte; here both enumerations are one datatype, with the number of each in
  \<open>state_num\<close>. The callback \<^verbatim>\<open>lexer->emit\<close> is a function argument that updates the state of the
  client. Line and column are integers.
\<close>

section \<open>States and token types\<close>

datatype json_state =
    IN_ERROR
  | IN_DQ_UCODE3 | IN_DQ_UCODE2 | IN_DQ_UCODE1 | IN_DQ_UCODE0 | IN_DQ_STRING_ESCAPE | IN_DQ_STRING
  | IN_SQ_UCODE3 | IN_SQ_UCODE2 | IN_SQ_UCODE1 | IN_SQ_UCODE0 | IN_SQ_STRING_ESCAPE | IN_SQ_STRING
  | IN_ZERO | IN_DIGITS | IN_DIGIT | IN_EXP_E | IN_MANTISSA | IN_MANTISSA_DIGITS
  | IN_NONZERO_NUMBER | IN_NEG_NONZERO_NUMBER | IN_KEYWORD
  | IN_ESCAPE | IN_ESCAPE_L | IN_ESCAPE_LL | IN_ESCAPE_I | IN_ESCAPE_I6 | IN_ESCAPE_I64
  | IN_WHITESPACE | IN_START
  | JSON_OPERATOR | JSON_INTEGER | JSON_FLOAT | JSON_KEYWORD | JSON_STRING | JSON_ESCAPE
  | JSON_SKIP | JSON_ERROR

primrec state_num :: "json_state \<Rightarrow> nat" where
  "state_num IN_ERROR = 0"
| "state_num IN_DQ_UCODE3 = 1"
| "state_num IN_DQ_UCODE2 = 2"
| "state_num IN_DQ_UCODE1 = 3"
| "state_num IN_DQ_UCODE0 = 4"
| "state_num IN_DQ_STRING_ESCAPE = 5"
| "state_num IN_DQ_STRING = 6"
| "state_num IN_SQ_UCODE3 = 7"
| "state_num IN_SQ_UCODE2 = 8"
| "state_num IN_SQ_UCODE1 = 9"
| "state_num IN_SQ_UCODE0 = 10"
| "state_num IN_SQ_STRING_ESCAPE = 11"
| "state_num IN_SQ_STRING = 12"
| "state_num IN_ZERO = 13"
| "state_num IN_DIGITS = 14"
| "state_num IN_DIGIT = 15"
| "state_num IN_EXP_E = 16"
| "state_num IN_MANTISSA = 17"
| "state_num IN_MANTISSA_DIGITS = 18"
| "state_num IN_NONZERO_NUMBER = 19"
| "state_num IN_NEG_NONZERO_NUMBER = 20"
| "state_num IN_KEYWORD = 21"
| "state_num IN_ESCAPE = 22"
| "state_num IN_ESCAPE_L = 23"
| "state_num IN_ESCAPE_LL = 24"
| "state_num IN_ESCAPE_I = 25"
| "state_num IN_ESCAPE_I6 = 26"
| "state_num IN_ESCAPE_I64 = 27"
| "state_num IN_WHITESPACE = 28"
| "state_num IN_START = 29"
| "state_num JSON_OPERATOR = 100"
| "state_num JSON_INTEGER = 101"
| "state_num JSON_FLOAT = 102"
| "state_num JSON_KEYWORD = 103"
| "state_num JSON_STRING = 104"
| "state_num JSON_ESCAPE = 105"
| "state_num JSON_SKIP = 106"
| "state_num JSON_ERROR = 107"

section \<open>The transition table\<close>

text \<open>The character ranges the rows of the table use, on character codes.\<close>

definition dec_code :: "nat \<Rightarrow> bool" where
  "dec_code n \<longleftrightarrow> 48 \<le> n \<and> n \<le> 57"

definition hex_code :: "nat \<Rightarrow> bool" where
  "hex_code n \<longleftrightarrow> dec_code n \<or> (97 \<le> n \<and> n \<le> 102) \<or> (65 \<le> n \<and> n \<le> 70)"

definition lower_code :: "nat \<Rightarrow> bool" where
  "lower_code n \<longleftrightarrow> 97 \<le> n \<and> n \<le> 122"

definition text_code :: "nat \<Rightarrow> bool" where
  "text_code n \<longleftrightarrow> (1 \<le> n \<and> n \<le> 0xBF) \<or> (0xC2 \<le> n \<and> n \<le> 0xF4)"

definition space_code :: "nat \<Rightarrow> bool" where
  "space_code n \<longleftrightarrow> n = 32 \<or> n = 9 \<or> n = 13 \<or> n = 10"

definition operator_code :: "nat \<Rightarrow> bool" where
  "operator_code n \<longleftrightarrow> n = 123 \<or> n = 125 \<or> n = 91 \<or> n = 93 \<or> n = 44 \<or> n = 58"

text \<open>The default of a row: \<^verbatim>\<open>TERMINAL (s)\<close> fills the codes 0 to 127, all others are \<open>IN_ERROR\<close>.\<close>

definition TERMINAL :: "json_state \<Rightarrow> nat \<Rightarrow> json_state" where
  "TERMINAL s n = (if n \<le> 0x7F then s else IN_ERROR)"

fun json_lexer :: "json_state \<Rightarrow> nat \<Rightarrow> json_state" where
  "json_lexer IN_DQ_UCODE3 n = (if hex_code n then IN_DQ_STRING else IN_ERROR)"
| "json_lexer IN_DQ_UCODE2 n = (if hex_code n then IN_DQ_UCODE3 else IN_ERROR)"
| "json_lexer IN_DQ_UCODE1 n = (if hex_code n then IN_DQ_UCODE2 else IN_ERROR)"
| "json_lexer IN_DQ_UCODE0 n = (if hex_code n then IN_DQ_UCODE1 else IN_ERROR)"
| "json_lexer IN_DQ_STRING_ESCAPE n =
     (if n = 98 \<or> n = 102 \<or> n = 110 \<or> n = 114 \<or> n = 116 then IN_DQ_STRING
      else if n = 47 \<or> n = 92 \<or> n = 39 \<or> n = 34 then IN_DQ_STRING
      else if n = 117 then IN_DQ_UCODE0 else IN_ERROR)"
| "json_lexer IN_DQ_STRING n =
     (if n = 34 then JSON_STRING else if n = 92 then IN_DQ_STRING_ESCAPE
      else if text_code n then IN_DQ_STRING else IN_ERROR)"
| "json_lexer IN_SQ_UCODE3 n = (if hex_code n then IN_SQ_STRING else IN_ERROR)"
| "json_lexer IN_SQ_UCODE2 n = (if hex_code n then IN_SQ_UCODE3 else IN_ERROR)"
| "json_lexer IN_SQ_UCODE1 n = (if hex_code n then IN_SQ_UCODE2 else IN_ERROR)"
| "json_lexer IN_SQ_UCODE0 n = (if hex_code n then IN_SQ_UCODE1 else IN_ERROR)"
| "json_lexer IN_SQ_STRING_ESCAPE n =
     (if n = 98 \<or> n = 102 \<or> n = 110 \<or> n = 114 \<or> n = 116 then IN_SQ_STRING
      else if n = 47 \<or> n = 92 then IN_DQ_STRING
      else if n = 39 \<or> n = 34 then IN_SQ_STRING
      else if n = 117 then IN_SQ_UCODE0 else IN_ERROR)"
| "json_lexer IN_SQ_STRING n =
     (if n = 39 then JSON_STRING else if n = 92 then IN_SQ_STRING_ESCAPE
      else if text_code n then IN_SQ_STRING else IN_ERROR)"
| "json_lexer IN_ZERO n =
     (if n = 46 then IN_MANTISSA else if dec_code n then IN_ERROR else TERMINAL JSON_INTEGER n)"
| "json_lexer IN_DIGITS n = (if dec_code n then IN_DIGITS else TERMINAL JSON_FLOAT n)"
| "json_lexer IN_DIGIT n = (if dec_code n then IN_DIGITS else IN_ERROR)"
| "json_lexer IN_EXP_E n =
     (if dec_code n then IN_DIGITS else if n = 45 \<or> n = 43 then IN_DIGIT else IN_ERROR)"
| "json_lexer IN_MANTISSA_DIGITS n =
     (if n = 101 \<or> n = 69 then IN_EXP_E
      else if dec_code n then IN_MANTISSA_DIGITS else TERMINAL JSON_FLOAT n)"
| "json_lexer IN_MANTISSA n = (if dec_code n then IN_MANTISSA_DIGITS else IN_ERROR)"
| "json_lexer IN_NONZERO_NUMBER n =
     (if n = 46 then IN_MANTISSA else if n = 101 \<or> n = 69 then IN_EXP_E
      else if dec_code n then IN_NONZERO_NUMBER else TERMINAL JSON_INTEGER n)"
| "json_lexer IN_NEG_NONZERO_NUMBER n =
     (if n = 48 then IN_ZERO else if dec_code n then IN_NONZERO_NUMBER else IN_ERROR)"
| "json_lexer IN_KEYWORD n = (if lower_code n then IN_KEYWORD else TERMINAL JSON_KEYWORD n)"
| "json_lexer IN_WHITESPACE n = (if space_code n then IN_WHITESPACE else TERMINAL JSON_SKIP n)"
| "json_lexer IN_ESCAPE_LL n = (if n = 100 then JSON_ESCAPE else IN_ERROR)"
| "json_lexer IN_ESCAPE_L n =
     (if n = 100 then JSON_ESCAPE else if n = 108 then IN_ESCAPE_LL else IN_ERROR)"
| "json_lexer IN_ESCAPE_I64 n = (if n = 100 then JSON_ESCAPE else IN_ERROR)"
| "json_lexer IN_ESCAPE_I6 n = (if n = 52 then IN_ESCAPE_I64 else IN_ERROR)"
| "json_lexer IN_ESCAPE_I n = (if n = 54 then IN_ESCAPE_I6 else IN_ERROR)"
| "json_lexer IN_ESCAPE n =
     (if n = 100 \<or> n = 105 \<or> n = 112 \<or> n = 115 \<or> n = 102 then JSON_ESCAPE
      else if n = 108 then IN_ESCAPE_L else if n = 73 then IN_ESCAPE_I else IN_ERROR)"
| "json_lexer IN_START n =
     (if n = 34 then IN_DQ_STRING
      else if n = 39 then IN_SQ_STRING
      else if n = 48 then IN_ZERO
      else if dec_code n then IN_NONZERO_NUMBER
      else if n = 45 then IN_NEG_NONZERO_NUMBER
      else if operator_code n then JSON_OPERATOR
      else if lower_code n then IN_KEYWORD
      else if n = 37 then IN_ESCAPE
      else if space_code n then IN_WHITESPACE
      else IN_ERROR)"
| "json_lexer s n = IN_ERROR"

definition TERMINAL_NEEDED_LOOKAHEAD :: "json_state \<Rightarrow> json_state \<Rightarrow> bool" where
  "TERMINAL_NEEDED_LOOKAHEAD old_state terminal \<longleftrightarrow> json_lexer old_state 0 = terminal"

lemma json_lexer_NUL:
  "json_lexer s 0 \<in> {IN_ERROR, JSON_INTEGER, JSON_FLOAT, JSON_KEYWORD, JSON_SKIP}"
  by (cases s) (simp_all add: TERMINAL_def dec_code_def hex_code_def lower_code_def text_code_def
      space_code_def operator_code_def)

lemma json_lexer_START_NUL: "json_lexer IN_START 0 = IN_ERROR"
  by (simp add: dec_code_def lower_code_def space_code_def operator_code_def)

section \<open>The lexer\<close>

record JSONLexer =
  lx_state :: json_state
  lx_token :: string
  lx_x :: int
  lx_y :: int

type_synonym 's emitter = "string \<Rightarrow> json_state \<Rightarrow> int \<Rightarrow> int \<Rightarrow> 's \<Rightarrow> 's"

definition MAX_TOKEN_SIZE :: nat where
  "MAX_TOKEN_SIZE = 64 * 2 ^ 20"

definition json_lexer_init :: JSONLexer where
  "json_lexer_init = \<lparr>lx_state = IN_START, lx_token = [], lx_x = 0, lx_y = 0\<rparr>"

definition token_state :: "json_state \<Rightarrow> bool" where
  "token_state s \<longleftrightarrow>
     s = JSON_OPERATOR \<or> s = JSON_ESCAPE \<or> s = JSON_INTEGER \<or> s = JSON_FLOAT \<or>
     s = JSON_KEYWORD \<or> s = JSON_STRING"

text \<open>
  The \<^verbatim>\<open>do\<close> loop of \<^verbatim>\<open>json_lexer_feed_char\<close>. The Boolean of the result says that the loop was left
  by the \<^verbatim>\<open>return\<close> of the error case.
\<close>

function feed_char_loop ::
  "'s emitter \<Rightarrow> char \<Rightarrow> bool \<Rightarrow> JSONLexer \<Rightarrow> 's \<Rightarrow> bool \<times> JSONLexer \<times> 's" where
  "feed_char_loop emit ch flush lexer s =
     (let new_state = json_lexer (lx_state lexer) (code ch);
          char_consumed = (\<not> TERMINAL_NEEDED_LOOKAHEAD (lx_state lexer) new_state);
          token = (if char_consumed then lx_token lexer @ [ch] else lx_token lexer)
      in if token_state new_state \<or> new_state = JSON_SKIP then
           let s' = (if token_state new_state
                     then emit token new_state (lx_x lexer) (lx_y lexer) s else s);
               lexer' = lexer\<lparr>lx_token := [], lx_state := IN_START\<rparr>
           in if \<not> char_consumed \<and> \<not> flush then feed_char_loop emit ch flush lexer' s'
              else (False, lexer', s')
         else if new_state = IN_ERROR then
           (True, lexer\<lparr>lx_token := [], lx_state := IN_START\<rparr>,
            emit token JSON_ERROR (lx_x lexer) (lx_y lexer) s)
         else
           let lexer' = lexer\<lparr>lx_token := token, lx_state := new_state\<rparr>
           in if \<not> char_consumed \<and> \<not> flush then feed_char_loop emit ch flush lexer' s
              else (False, lexer', s))"
  by pat_completeness auto
termination
proof (relation "measure (\<lambda>(emit, ch, flush, lexer, s). if lx_state lexer = IN_START then 0 else 1)")
  show "wf (measure (\<lambda>(emit, ch, flush, lexer, s). if lx_state lexer = IN_START then 0 else 1 :: nat))"
    by simp
next
  fix emit :: "'a emitter" and ch flush lexer and s :: 'a and ns cc tok s' lexer'
  assume "ns = json_lexer (lx_state lexer) (code ch)"
    and "cc = (\<not> TERMINAL_NEEDED_LOOKAHEAD (lx_state lexer) ns)"
    and "token_state ns \<or> ns = JSON_SKIP" and "lexer' = lexer\<lparr>lx_token := [], lx_state := IN_START\<rparr>"
    and "\<not> cc \<and> \<not> flush"
  then have "lx_state lexer \<noteq> IN_START"
    using json_lexer_START_NUL by (auto simp: TERMINAL_NEEDED_LOOKAHEAD_def token_state_def)
  with \<open>lexer' = _\<close> show "((emit, ch, flush, lexer', s'), emit, ch, flush, lexer, s)
      \<in> measure (\<lambda>(emit, ch, flush, lexer, s). if lx_state lexer = IN_START then 0 else 1)"
    by simp
next
  fix emit :: "'a emitter" and ch flush lexer and s :: 'a and ns cc tok lexer'
  assume "ns = json_lexer (lx_state lexer) (code ch)"
    and "cc = (\<not> TERMINAL_NEEDED_LOOKAHEAD (lx_state lexer) ns)"
    and "\<not> (token_state ns \<or> ns = JSON_SKIP)" and "ns \<noteq> IN_ERROR"
    and "\<not> cc \<and> \<not> flush"
  then have False
    using json_lexer_NUL [of "lx_state lexer"]
    by (auto simp: TERMINAL_NEEDED_LOOKAHEAD_def token_state_def)
  then show "((emit, ch, flush, lexer', s), emit, ch, flush, lexer, s)
      \<in> measure (\<lambda>(emit, ch, flush, lexer, s). if lx_state lexer = IN_START then 0 else 1)" ..
qed

declare feed_char_loop.simps [simp del]

definition json_lexer_feed_char ::
  "'s emitter \<Rightarrow> char \<Rightarrow> bool \<Rightarrow> JSONLexer \<times> 's \<Rightarrow> JSONLexer \<times> 's" where
  "json_lexer_feed_char emit ch flush ls =
     (let lexer = (fst ls)\<lparr>lx_x := lx_x (fst ls) + 1\<rparr>;
          lexer = (if ch = CHR 0x0A then lexer\<lparr>lx_x := 0, lx_y := lx_y lexer + 1\<rparr> else lexer)
      in case feed_char_loop emit ch flush lexer (snd ls) of
           (True, lexer, s) \<Rightarrow> (lexer, s)
         | (False, lexer, s) \<Rightarrow>
             if length (lx_token lexer) > MAX_TOKEN_SIZE then
               (lexer\<lparr>lx_token := [], lx_state := IN_START\<rparr>,
                emit (lx_token lexer) (lx_state lexer) (lx_x lexer) (lx_y lexer) s)
             else (lexer, s))"

fun json_lexer_feed :: "'s emitter \<Rightarrow> string \<Rightarrow> JSONLexer \<times> 's \<Rightarrow> JSONLexer \<times> 's" where
  "json_lexer_feed emit [] ls = ls"
| "json_lexer_feed emit (c # cs) ls =
     json_lexer_feed emit cs (json_lexer_feed_char emit c False ls)"

definition json_lexer_flush :: "'s emitter \<Rightarrow> JSONLexer \<times> 's \<Rightarrow> JSONLexer \<times> 's" where
  "json_lexer_flush emit ls =
     (if lx_state (fst ls) = IN_START then ls
      else json_lexer_feed_char emit (CHR 0x00) True ls)"

section \<open>The texts of the tokens\<close>

definition digits :: "string \<Rightarrow> bool" where
  "digits s \<longleftrightarrow> (\<forall>c \<in> set s. dec_code (code c))"

definition nonzero_text :: "string \<Rightarrow> bool" where
  "nonzero_text s \<longleftrightarrow>
     (\<exists>sign d ds. s = sign @ d # ds \<and> (sign = [] \<or> sign = ''-'') \<and>
        49 \<le> code d \<and> code d \<le> 57 \<and> digits ds)"

definition int_text :: "string \<Rightarrow> bool" where
  "int_text s \<longleftrightarrow> s = ''0'' \<or> s = ''-0'' \<or> nonzero_text s"

definition mantissa_text :: "string \<Rightarrow> bool" where
  "mantissa_text s \<longleftrightarrow> (\<exists>i ds. s = i @ ''.'' @ ds \<and> int_text i \<and> ds \<noteq> [] \<and> digits ds)"

definition exp_text :: "string \<Rightarrow> bool" where
  "exp_text s \<longleftrightarrow>
     (\<exists>m e. s = m @ [e] \<and> (mantissa_text m \<or> nonzero_text m) \<and> (e = CHR ''e'' \<or> e = CHR ''E''))"

definition signed_exp_text :: "string \<Rightarrow> bool" where
  "signed_exp_text s \<longleftrightarrow> (\<exists>m c. s = m @ [c] \<and> exp_text m \<and> (c = CHR ''-'' \<or> c = CHR ''+''))"

definition float_text :: "string \<Rightarrow> bool" where
  "float_text s \<longleftrightarrow>
     mantissa_text s \<or>
     (\<exists>m ds. s = m @ ds \<and> (exp_text m \<or> signed_exp_text m) \<and> ds \<noteq> [] \<and> digits ds)"

definition keyword_text :: "string \<Rightarrow> bool" where
  "keyword_text s \<longleftrightarrow> s \<noteq> [] \<and> (\<forall>c \<in> set s. lower_code (code c))"

definition quote :: "char \<Rightarrow> bool" where
  "quote c \<longleftrightarrow> code c = 34 \<or> code c = 39"

definition escapes :: "string set" where
  "escapes = {''%d'', ''%i'', ''%p'', ''%s'', ''%f'', ''%ld'', ''%lld'', ''%I64d''}"

text \<open>What the lexer passes to its client for each type of token.\<close>

fun token_ok :: "json_state \<Rightarrow> string \<Rightarrow> bool" where
  "token_ok JSON_OPERATOR s = (\<exists>c. s = [c] \<and> operator_code (code c))"
| "token_ok JSON_INTEGER s = int_text s"
| "token_ok JSON_FLOAT s = float_text s"
| "token_ok JSON_KEYWORD s = keyword_text s"
| "token_ok JSON_STRING s = (\<exists>q body e. s = q # body @ [e] \<and> quote q \<and> quote e)"
| "token_ok JSON_ESCAPE s = (s \<in> escapes)"
| "token_ok _ s = False"

text \<open>The text read so far, for each state between two characters.\<close>

fun lex_inv :: "json_state \<Rightarrow> string \<Rightarrow> bool" where
  "lex_inv IN_START s = (s = [])"
| "lex_inv IN_ZERO s = (s = ''0'' \<or> s = ''-0'')"
| "lex_inv IN_NEG_NONZERO_NUMBER s = (s = ''-'')"
| "lex_inv IN_NONZERO_NUMBER s = nonzero_text s"
| "lex_inv IN_MANTISSA s = (\<exists>i. s = i @ ''.'' \<and> int_text i)"
| "lex_inv IN_MANTISSA_DIGITS s = mantissa_text s"
| "lex_inv IN_EXP_E s = exp_text s"
| "lex_inv IN_DIGIT s = signed_exp_text s"
| "lex_inv IN_DIGITS s = float_text s"
| "lex_inv IN_KEYWORD s = keyword_text s"
| "lex_inv IN_ESCAPE s = (s = ''%'')"
| "lex_inv IN_ESCAPE_L s = (s = ''%l'')"
| "lex_inv IN_ESCAPE_LL s = (s = ''%ll'')"
| "lex_inv IN_ESCAPE_I s = (s = ''%I'')"
| "lex_inv IN_ESCAPE_I6 s = (s = ''%I6'')"
| "lex_inv IN_ESCAPE_I64 s = (s = ''%I64'')"
| "lex_inv IN_WHITESPACE s = (s \<noteq> [] \<and> (\<forall>c \<in> set s. space_code (code c)))"
| "lex_inv IN_ERROR s = False"
| "lex_inv JSON_OPERATOR s = False"
| "lex_inv JSON_INTEGER s = False"
| "lex_inv JSON_FLOAT s = False"
| "lex_inv JSON_KEYWORD s = False"
| "lex_inv JSON_STRING s = False"
| "lex_inv JSON_ESCAPE s = False"
| "lex_inv JSON_SKIP s = False"
| "lex_inv JSON_ERROR s = False"
| "lex_inv _ s = (s \<noteq> [] \<and> quote (hd s))"

lemma digits_snoc: "digits ds \<Longrightarrow> dec_code (code c) \<Longrightarrow> digits (ds @ [c])"
  by (simp add: digits_def)

lemma nonzero_text_snoc: "nonzero_text s \<Longrightarrow> dec_code (code c) \<Longrightarrow> nonzero_text (s @ [c])"
  unfolding nonzero_text_def by (metis append.assoc append_Cons digits_snoc)

lemma mantissa_text_snoc: "mantissa_text s \<Longrightarrow> dec_code (code c) \<Longrightarrow> mantissa_text (s @ [c])"
  unfolding mantissa_text_def by (metis append.assoc append_is_Nil_conv digits_snoc)

lemma mantissa_text_start: "int_text i \<Longrightarrow> dec_code (code c) \<Longrightarrow> mantissa_text (i @ [CHR ''.'', c])"
  unfolding mantissa_text_def by (intro exI [of _ i] exI [of _ "[c]"]) (simp add: digits_def)

lemma mantissa_text_zero:
  "dec_code (code c) \<Longrightarrow>
   mantissa_text [CHR ''0'', CHR ''.'', c] \<and> mantissa_text [CHR ''-'', CHR ''0'', CHR ''.'', c]"
  using mantissa_text_start [of "''0''" c] mantissa_text_start [of "''-0''" c]
  by (simp add: int_text_def)

lemma float_text_start:
  "exp_text m \<or> signed_exp_text m \<Longrightarrow> dec_code (code c) \<Longrightarrow> float_text (m @ [c])"
  unfolding float_text_def by (intro disjI2 exI [of _ m] exI [of _ "[c]"]) (simp add: digits_def)

lemma float_text_snoc: "float_text s \<Longrightarrow> dec_code (code c) \<Longrightarrow> float_text (s @ [c])"
  unfolding float_text_def
  by (metis append.assoc append_is_Nil_conv digits_snoc mantissa_text_snoc)

lemma nonzero_text_start:
  "dec_code (code c) \<Longrightarrow> code c \<noteq> 48 \<Longrightarrow> nonzero_text [c] \<and> nonzero_text [CHR ''-'', c]"
  unfolding nonzero_text_def
  by (intro conjI exI [of _ "[]"] exI [of _ "''-''"] exI [of _ c]) (auto simp: digits_def dec_code_def)

lemma char_of_code: "code c = n \<Longrightarrow> c = char_of n"
  by (metis char_of_char)

lemma code_cases:
  "code c = 48 \<longleftrightarrow> c = CHR ''0''" "code c = 45 \<longleftrightarrow> c = CHR ''-''" "code c = 46 \<longleftrightarrow> c = CHR ''.''"
  "code c = 43 \<longleftrightarrow> c = CHR ''+''" "code c = 101 \<longleftrightarrow> c = CHR ''e''" "code c = 69 \<longleftrightarrow> c = CHR ''E''"
  "code c = 37 \<longleftrightarrow> c = CHR ''%''" "code c = 100 \<longleftrightarrow> c = CHR ''d''" "code c = 105 \<longleftrightarrow> c = CHR ''i''"
  "code c = 112 \<longleftrightarrow> c = CHR ''p''" "code c = 115 \<longleftrightarrow> c = CHR ''s''" "code c = 102 \<longleftrightarrow> c = CHR ''f''"
  "code c = 108 \<longleftrightarrow> c = CHR ''l''" "code c = 73 \<longleftrightarrow> c = CHR ''I''" "code c = 54 \<longleftrightarrow> c = CHR ''6''"
  "code c = 52 \<longleftrightarrow> c = CHR ''4''" "code c = 34 \<longleftrightarrow> c = CHR 0x22" "code c = 39 \<longleftrightarrow> c = CHR 0x27"
  "code c = 92 \<longleftrightarrow> c = CHR 0x5C" "code c = 123 \<longleftrightarrow> c = CHR ''{''" "code c = 125 \<longleftrightarrow> c = CHR ''}''"
  "code c = 91 \<longleftrightarrow> c = CHR ''[''" "code c = 93 \<longleftrightarrow> c = CHR '']''" "code c = 44 \<longleftrightarrow> c = CHR '',''"
  "code c = 58 \<longleftrightarrow> c = CHR '':''"
  by (simp_all add: code_eq_iff [symmetric])

lemmas code_ranges = dec_code_def hex_code_def lower_code_def text_code_def space_code_def
  operator_code_def

text \<open>The states in which the lexer waits for the next character.\<close>

definition row_state :: "json_state \<Rightarrow> bool" where
  "row_state s \<longleftrightarrow> s \<noteq> IN_ERROR \<and> \<not> token_state s \<and> s \<noteq> JSON_SKIP \<and> s \<noteq> JSON_ERROR"

lemma lex_inv_number_step:
  "lex_inv st tok \<Longrightarrow>
   st \<in> {IN_ZERO, IN_NEG_NONZERO_NUMBER, IN_NONZERO_NUMBER, IN_MANTISSA, IN_MANTISSA_DIGITS,
         IN_EXP_E, IN_DIGIT, IN_DIGITS} \<Longrightarrow>
   json_lexer st (code c) = ns \<Longrightarrow> row_state ns \<Longrightarrow> lex_inv ns (tok @ [c])"
  by (auto simp: TERMINAL_def row_state_def token_state_def code_cases nonzero_text_snoc
      mantissa_text_snoc mantissa_text_start mantissa_text_zero float_text_start float_text_snoc
      nonzero_text_start int_text_def exp_text_def signed_exp_text_def split: if_splits)

lemma lex_inv_step:
  assumes "lex_inv st tok" and "json_lexer st (code c) = ns" and "row_state ns"
  shows "lex_inv ns (tok @ [c])"
proof (cases "st \<in> {IN_ZERO, IN_NEG_NONZERO_NUMBER, IN_NONZERO_NUMBER, IN_MANTISSA,
    IN_MANTISSA_DIGITS, IN_EXP_E, IN_DIGIT, IN_DIGITS}")
  case True
  with assms show ?thesis by (intro lex_inv_number_step) auto
next
  case False
  with assms show ?thesis
    by (cases st)
      (auto simp: TERMINAL_def row_state_def token_state_def code_cases keyword_text_def
        nonzero_text_start quote_def hd_append split: if_splits)
qed

text \<open>A token that ends with the character read, and one that ended before it.\<close>

lemma lex_inv_token_consumed:
  assumes "lex_inv st tok" and "json_lexer st (code c) = ns" and "token_state ns"
    and "json_lexer st 0 \<noteq> ns"
  shows "token_ok ns (tok @ [c])"
  using assms
  by (cases st)
    (auto simp: TERMINAL_def token_state_def code_cases escapes_def code_ranges quote_def
      neq_Nil_conv split: if_splits)

lemma lex_inv_token_lookahead:
  assumes "lex_inv st tok" and "json_lexer st (code c) = ns" and "token_state ns"
    and "json_lexer st 0 = ns"
  shows "token_ok ns tok"
  using assms
  by (cases st)
    (auto simp: TERMINAL_def token_state_def code_ranges int_text_def float_text_def
      split: if_splits)

declare json_lexer.simps [simp del, lex_simps]

section \<open>One character\<close>

lemma feed_row:
  assumes "json_lexer (lx_state lx) (code c) = ns" and "row_state ns"
  shows "feed_char_loop emit c flush lx s =
    (False, lx\<lparr>lx_token := lx_token lx @ [c], lx_state := ns\<rparr>, s)"
proof -
  have "json_lexer (lx_state lx) 0 \<noteq> ns"
    using json_lexer_NUL [of "lx_state lx"] assms(2) by (auto simp: row_state_def token_state_def)
  with assms show ?thesis
    by (subst feed_char_loop.simps)
      (simp add: Let_def TERMINAL_NEEDED_LOOKAHEAD_def row_state_def)
qed

lemma feed_error:
  assumes "json_lexer (lx_state lx) (code c) = IN_ERROR"
  shows "\<exists>tok. feed_char_loop emit c flush lx s =
    (True, lx\<lparr>lx_token := [], lx_state := IN_START\<rparr>, emit tok JSON_ERROR (lx_x lx) (lx_y lx) s)"
  using assms by (subst feed_char_loop.simps) (auto simp: Let_def token_state_def)

lemma feed_token:
  assumes "json_lexer (lx_state lx) (code c) = ns" and "token_state ns"
    and "json_lexer (lx_state lx) 0 \<noteq> ns"
  shows "feed_char_loop emit c flush lx s =
    (False, lx\<lparr>lx_token := [], lx_state := IN_START\<rparr>,
     emit (lx_token lx @ [c]) ns (lx_x lx) (lx_y lx) s)"
  using assms
  by (subst feed_char_loop.simps) (simp add: Let_def TERMINAL_NEEDED_LOOKAHEAD_def)

lemma feed_lookahead:
  assumes "json_lexer (lx_state lx) (code c) = ns" and "token_state ns"
    and "json_lexer (lx_state lx) 0 = ns"
  shows "feed_char_loop emit c flush lx s =
    (let lx' = lx\<lparr>lx_token := [], lx_state := IN_START\<rparr>;
         s' = emit (lx_token lx) ns (lx_x lx) (lx_y lx) s
     in if flush then (False, lx', s') else feed_char_loop emit c flush lx' s')"
  using assms
  by (subst feed_char_loop.simps) (simp add: Let_def TERMINAL_NEEDED_LOOKAHEAD_def)

lemma feed_skip:
  assumes "json_lexer (lx_state lx) (code c) = JSON_SKIP"
  shows "feed_char_loop emit c flush lx s =
    (let lx' = lx\<lparr>lx_token := [], lx_state := IN_START\<rparr>
     in if flush then (False, lx', s) else feed_char_loop emit c flush lx' s)"
proof -
  have "lx_state lx = IN_WHITESPACE"
    using assms by (cases "lx_state lx") (auto simp: TERMINAL_def lex_simps split: if_splits)
  moreover have "json_lexer IN_WHITESPACE 0 = JSON_SKIP"
    by (simp add: lex_simps TERMINAL_def code_ranges)
  ultimately show ?thesis
    using assms
    by (subst feed_char_loop.simps)
      (simp add: Let_def TERMINAL_NEEDED_LOOKAHEAD_def token_state_def)
qed

lemma json_lexer_range:
  obtains "row_state (json_lexer st n)" | "json_lexer st n = IN_ERROR"
  | "token_state (json_lexer st n)" | "json_lexer st n = JSON_SKIP"
proof -
  have "json_lexer st n \<noteq> JSON_ERROR"
    by (cases st) (auto simp: TERMINAL_def lex_simps split: if_splits)
  then show ?thesis using that by (auto simp: row_state_def)
qed

section \<open>What a client of the lexer can rely on\<close>

definition lexer_ok :: "JSONLexer \<Rightarrow> bool" where
  "lexer_ok lx \<longleftrightarrow> lex_inv (lx_state lx) (lx_token lx) \<and> length (lx_token lx) \<le> MAX_TOKEN_SIZE"

lemma lexer_ok_init: "lexer_ok json_lexer_init"
  by (simp add: lexer_ok_def json_lexer_init_def)

lemma lex_inv_row: "lex_inv st tok \<Longrightarrow> row_state st"
  by (cases st) (auto simp: row_state_def token_state_def)

text \<open>
  The calls a client sees: a token whose text fits its type, an error, or a token that grew
  beyond the limit, which is passed on with the number of the lexer state as its type.
\<close>

definition emitted :: "json_state \<Rightarrow> string \<Rightarrow> bool" where
  "emitted ty tok \<longleftrightarrow>
     token_ok ty tok \<or> ty = JSON_ERROR \<or> (row_state ty \<and> MAX_TOKEN_SIZE < length tok)"

lemma json_lexer_START_consumed:
  "json_lexer IN_START n \<noteq> IN_ERROR \<Longrightarrow> json_lexer IN_START 0 \<noteq> json_lexer IN_START n"
  using json_lexer_START_NUL by simp

lemma json_lexer_START_no_skip: "json_lexer IN_START n \<noteq> JSON_SKIP"
  by (simp add: lex_simps)

lemma feed_char_loop_returned_start:
  assumes "lx_state lx = IN_START" and "feed_char_loop emit c flush lx s = (True, lx', s')"
  shows "lx_token lx' = []"
proof (cases rule: json_lexer_range [of IN_START "code c"])
  case 1
  with assms feed_row [OF refl, of lx c emit flush s] show ?thesis by simp
next
  case 2
  with assms feed_error [of lx c emit flush s] show ?thesis by auto
next
  case 3
  then have "json_lexer IN_START (code c) \<noteq> IN_ERROR" by (auto simp: token_state_def)
  with 3 assms feed_token [OF refl, of lx c emit flush s] json_lexer_START_consumed show ?thesis
    by simp
next
  case 4
  with json_lexer_START_no_skip show ?thesis by simp
qed

lemma feed_char_loop_returned:
  assumes res: "feed_char_loop emit c flush lx s = (True, lx', s')"
  shows "lx_token lx' = []"
proof (cases rule: json_lexer_range [of "lx_state lx" "code c"])
  case 1
  with res feed_row [OF refl, of lx c emit flush s] show ?thesis by simp
next
  case 2
  with res feed_error [of lx c emit flush s] show ?thesis by auto
next
  case 3
  with res feed_token [OF refl 3, of emit flush s] feed_lookahead [OF refl 3, of emit flush s]
  show ?thesis
    by (cases "json_lexer (lx_state lx) 0 = json_lexer (lx_state lx) (code c)")
      (auto simp: Let_def split: if_splits dest: feed_char_loop_returned_start [rotated])
next
  case 4
  with res feed_skip [OF 4, of emit flush s] show ?thesis
    by (auto simp: Let_def split: if_splits dest: feed_char_loop_returned_start [rotated])
qed

locale lexer_client =
  fixes emit :: "'s emitter"
    and inv :: "'s \<Rightarrow> bool"
  assumes emit_inv: "inv s \<Longrightarrow> emitted ty tok \<Longrightarrow> inv (emit tok ty x y s)"
begin

lemma error_inv: "inv s \<Longrightarrow> inv (emit tok JSON_ERROR x y s)"
  by (rule emit_inv) (simp_all add: emitted_def)

lemma token_inv: "inv s \<Longrightarrow> token_ok ty tok \<Longrightarrow> inv (emit tok ty x y s)"
  by (rule emit_inv) (simp_all add: emitted_def)

lemma loop_start:
  assumes "inv s" and "lx_state lx = IN_START" and "lx_token lx = []"
  shows "case feed_char_loop emit c flush lx s of
    (r, lx', s') \<Rightarrow> lex_inv (lx_state lx') (lx_token lx') \<and> inv s'"
proof (cases rule: json_lexer_range [of IN_START "code c"])
  case 1
  with lex_inv_step [of IN_START "[]" c] assms feed_row [of lx c _ emit flush s] show ?thesis
    by simp
next
  case 2
  with feed_error [of lx c emit flush s] assms show ?thesis
    by (auto simp: error_inv)
next
  case 3
  moreover from this have "json_lexer IN_START 0 \<noteq> json_lexer IN_START (code c)"
    by (intro json_lexer_START_consumed) (auto simp: token_state_def)
  ultimately show ?thesis
    using lex_inv_token_consumed [of IN_START "[]" c] assms feed_token [of lx c _ emit flush s]
    by (auto simp: token_inv)
next
  case 4
  then have False by (auto simp: lex_simps split: if_splits)
  then show ?thesis ..
qed

lemma loop_inv:
  assumes "inv s" and "lex_inv (lx_state lx) (lx_token lx)"
  shows "case feed_char_loop emit c flush lx s of
    (r, lx', s') \<Rightarrow> lex_inv (lx_state lx') (lx_token lx') \<and> inv s'"
proof (cases rule: json_lexer_range [of "lx_state lx" "code c"])
  case 1
  with lex_inv_step [OF assms(2)] assms feed_row [of lx c _ emit flush s] show ?thesis by simp
next
  case 2
  with feed_error [of lx c emit flush s] assms show ?thesis
    by (auto simp: error_inv)
next
  case 3
  show ?thesis
  proof (cases "json_lexer (lx_state lx) 0 = json_lexer (lx_state lx) (code c)")
    case True
    let ?s = "emit (lx_token lx) (json_lexer (lx_state lx) (code c)) (lx_x lx) (lx_y lx) s"
    have "inv ?s"
      using lex_inv_token_lookahead [OF assms(2) _ 3 True] assms(1) by (simp add: token_inv)
    with loop_start [of ?s "lx\<lparr>lx_token := [], lx_state := IN_START\<rparr>" c flush]
      feed_lookahead [OF refl 3 True, of emit flush s]
    show ?thesis by (cases flush) (simp_all add: Let_def)
  next
    case False
    with lex_inv_token_consumed [OF assms(2) refl 3] assms(1) feed_token [OF refl 3 False, of emit flush s]
    show ?thesis by (simp add: token_inv)
  qed
next
  case 4
  with loop_start [of s "lx\<lparr>lx_token := [], lx_state := IN_START\<rparr>" c flush] assms
    feed_skip [OF 4, of emit flush s]
  show ?thesis by (cases flush) (simp_all add: Let_def)
qed

lemma feed_char_inv:
  assumes "inv (snd ls)" and "lexer_ok (fst ls)"
  shows "inv (snd (json_lexer_feed_char emit c flush ls)) \<and>
         lexer_ok (fst (json_lexer_feed_char emit c flush ls))"
proof -
  define lx where "lx = (let lx = (fst ls)\<lparr>lx_x := lx_x (fst ls) + 1\<rparr>
     in if c = CHR 0x0A then lx\<lparr>lx_x := 0, lx_y := lx_y lx + 1\<rparr> else lx)"
  have st: "lx_state lx = lx_state (fst ls)" "lx_token lx = lx_token (fst ls)"
    by (simp_all add: lx_def Let_def)
  obtain r lx' s' where res: "feed_char_loop emit c flush lx (snd ls) = (r, lx', s')"
    by (metis prod_cases3)
  have ok: "lex_inv (lx_state lx') (lx_token lx')" "inv s'"
    using loop_inv [of "snd ls" lx c flush] assms res st by (auto simp: lexer_ok_def)
  have err: "lx_token lx' = []" if r
    using that res feed_char_loop_returned by metis
  have "json_lexer_feed_char emit c flush ls =
      (case (r, lx', s') of
         (True, lexer, s) \<Rightarrow> (lexer, s)
       | (False, lexer, s) \<Rightarrow>
           if length (lx_token lexer) > MAX_TOKEN_SIZE then
             (lexer\<lparr>lx_token := [], lx_state := IN_START\<rparr>,
              emit (lx_token lexer) (lx_state lexer) (lx_x lexer) (lx_y lexer) s)
           else (lexer, s))"
    unfolding json_lexer_feed_char_def res [symmetric] lx_def by (simp add: Let_def)
  with ok err lex_inv_row [OF ok(1)] show ?thesis
    by (cases r) (auto simp: lexer_ok_def emitted_def not_less intro: emit_inv)
qed

lemma feed_inv:
  "inv (snd ls) \<Longrightarrow> lexer_ok (fst ls) \<Longrightarrow>
   inv (snd (json_lexer_feed emit cs ls)) \<and> lexer_ok (fst (json_lexer_feed emit cs ls))"
  by (induction cs arbitrary: ls) (auto simp: feed_char_inv)

lemma flush_inv:
  "inv (snd ls) \<Longrightarrow> lexer_ok (fst ls) \<Longrightarrow>
   inv (snd (json_lexer_flush emit ls)) \<and> lexer_ok (fst (json_lexer_flush emit ls))"
  by (simp add: json_lexer_flush_def feed_char_inv)

end

text \<open>The client that records the types and texts it is given, newest last.\<close>

definition collect_token :: "(json_state \<times> string) list emitter" where
  "collect_token tok ty x y ts = ts @ [(ty, tok)]"

interpretation collect: lexer_client collect_token "list_all (\<lambda>(ty, tok). emitted ty tok)"
  by unfold_locales (simp add: collect_token_def)

definition lex_tokens :: "string \<Rightarrow> (json_state \<times> string) list" where
  "lex_tokens s =
     snd (json_lexer_flush collect_token (json_lexer_feed collect_token s (json_lexer_init, [])))"

section \<open>Properties\<close>


text \<open>C10. After an escaped backslash a single-quoted string has to be closed by a double quote: the
  row of the table for escapes in single-quoted strings leads to the double-quoted state, so that
  the string \<^verbatim>\<open>'\\'\<close> is an error and \<^verbatim>\<open>'\\"\<close> is accepted.\<close>

theorem lexer_single_quoted_backslash:
  "lex_tokens [CHR 0x27, CHR 0x5C, CHR 0x5C, CHR 0x27] =
     [(JSON_ERROR, [CHR 0x27, CHR 0x5C, CHR 0x5C, CHR 0x27])] \<and>
   lex_tokens [CHR 0x27, CHR 0x5C, CHR 0x5C, CHR 0x22] =
     [(JSON_STRING, [CHR 0x27, CHR 0x5C, CHR 0x5C, CHR 0x22])]"
  by (simp add: lex_tokens_def json_lexer_init_def json_lexer_feed_char_def feed_char_loop.simps
      json_lexer_flush_def collect_token_def lex_simps TERMINAL_NEEDED_LOOKAHEAD_def
      token_state_def code_ranges MAX_TOKEN_SIZE_def)

end
