(* ===== verification/JsonStreamer.thy ===== *)
theory JsonStreamer
  imports JsonLexer QObject
begin

text \<open>
  The message splitter of \<^verbatim>\<open>json-streamer.c\<close>: it turns the tokens of the lexer into dictionary
  objects, counts open braces and brackets, and hands a token list to its client when a message is
  complete, too large or too deep, and \<^verbatim>\<open>NULL\<close> when the lexer reports an error. The callback
  \<^verbatim>\<open>parser->emit\<close> is an argument that updates the client's state; \<^verbatim>\<open>NULL\<close> is \<open>None\<close>.
  \<^verbatim>\<open>int\<close> counters are integers: the invariant below keeps the nesting counters within the nesting
  limit, so that they cannot overflow.
\<close>

definition MAX_NESTING :: int where
  "MAX_NESTING = 2 ^ 10"

record 's JSONMessageParser =
  mp_brace_count :: int
  mp_bracket_count :: int
  mp_tokens :: "qobject list"
  mp_token_size :: nat
  mp_client :: 's

type_synonym 's message_emitter = "qobject list option \<Rightarrow> 's \<Rightarrow> 's"

definition qint_from_int :: "int \<Rightarrow> qobject" where
  "qint_from_int value = QInt (word_of_int value)"

text \<open>The dictionary of a token, and the counting of its brackets.\<close>

definition token_object :: "string \<Rightarrow> json_state \<Rightarrow> int \<Rightarrow> int \<Rightarrow> qobject" where
  "token_object token type x y =
     (let dict = qdict_new;
          dict = qdict_put_obj dict ''type'' (qint_from_int (int (state_num type)));
          dict = qdict_put_obj dict ''token'' (QString token);
          dict = qdict_put_obj dict ''x'' (qint_from_int x);
          dict = qdict_put_obj dict ''y'' (qint_from_int y)
      in QDict dict)"

definition count_operator ::
  "string \<Rightarrow> json_state \<Rightarrow> 's JSONMessageParser \<Rightarrow> 's JSONMessageParser" where
  "count_operator token type parser =
     (if type = JSON_OPERATOR then
        case token of
          [] \<Rightarrow> parser
        | c # _ \<Rightarrow>
            if c = CHR ''{'' then parser\<lparr>mp_brace_count := mp_brace_count parser + 1\<rparr>
            else if c = CHR ''}'' then parser\<lparr>mp_brace_count := mp_brace_count parser - 1\<rparr>
            else if c = CHR ''['' then parser\<lparr>mp_bracket_count := mp_bracket_count parser + 1\<rparr>
            else if c = CHR '']'' then parser\<lparr>mp_bracket_count := mp_bracket_count parser - 1\<rparr>
            else parser
      else parser)"

text \<open>The code after the labels \<^verbatim>\<open>out_emit_bad\<close> and \<^verbatim>\<open>out_emit\<close>.\<close>

definition out_emit ::
  "'s message_emitter \<Rightarrow> qobject list option \<Rightarrow> 's JSONMessageParser \<Rightarrow> 's JSONMessageParser" where
  "out_emit emit tokens parser =
     parser\<lparr>mp_brace_count := 0, mp_bracket_count := 0, mp_client := emit tokens (mp_client parser),
            mp_tokens := qlist_new, mp_token_size := 0\<rparr>"

definition json_message_process_token ::
  "'s message_emitter \<Rightarrow> 's JSONMessageParser emitter" where
  "json_message_process_token emit token type x y parser =
     (let parser = count_operator token type parser;
          parser = parser\<lparr>mp_token_size := mp_token_size parser + length token\<rparr>;
          parser = parser\<lparr>mp_tokens := qlist_append_obj (mp_tokens parser) (token_object token type x y)\<rparr>
      in if type = JSON_ERROR then out_emit emit None parser
         else if mp_brace_count parser < 0 \<or> mp_bracket_count parser < 0 \<or>
                 (mp_brace_count parser = 0 \<and> mp_bracket_count parser = 0)
         then out_emit emit (Some (mp_tokens parser)) parser
         else if mp_token_size parser > MAX_TOKEN_SIZE \<or> mp_bracket_count parser > MAX_NESTING \<or>
                 mp_brace_count parser > MAX_NESTING
         then out_emit emit (Some (mp_tokens parser)) parser
         else parser)"

type_synonym 's streamer = "JSONLexer \<times> 's JSONMessageParser"

definition json_message_parser_init :: "'s \<Rightarrow> 's streamer" where
  "json_message_parser_init client =
     (json_lexer_init,
      \<lparr>mp_brace_count = 0, mp_bracket_count = 0, mp_tokens = qlist_new, mp_token_size = 0,
       mp_client = client\<rparr>)"

definition json_message_parser_feed ::
  "'s message_emitter \<Rightarrow> string \<Rightarrow> 's streamer \<Rightarrow> 's streamer" where
  "json_message_parser_feed emit buffer parser =
     json_lexer_feed (json_message_process_token emit) buffer parser"

definition json_message_parser_flush :: "'s message_emitter \<Rightarrow> 's streamer \<Rightarrow> 's streamer" where
  "json_message_parser_flush emit parser =
     json_lexer_flush (json_message_process_token emit) parser"

section \<open>Tokens\<close>

text \<open>An object that carries a token of the lexer.\<close>

definition carries :: "qobject \<Rightarrow> json_state \<Rightarrow> string \<Rightarrow> bool" where
  "carries obj ty tok \<longleftrightarrow>
     (\<exists>d. obj = QDict d \<and> qdict_get_int d ''type'' = Inr (of_nat (state_num ty)) \<and>
          qdict_get_str d ''token'' = Inr tok)"

lemma token_object_carries: "carries (token_object tok ty x y) ty tok"
  by (simp add: carries_def token_object_def qint_from_int_def Let_def dict_simps typed_getters)

definition wf_token :: "qobject \<Rightarrow> bool" where
  "wf_token obj \<longleftrightarrow> (\<exists>ty tok. carries obj ty tok \<and> emitted ty tok)"

lemma wf_token_object: "emitted ty tok \<Longrightarrow> wf_token (token_object tok ty x y)"
  using token_object_carries by (fastforce simp: wf_token_def)

section \<open>Invariant\<close>

definition streamer_inv :: "'s JSONMessageParser \<Rightarrow> bool" where
  "streamer_inv p \<longleftrightarrow>
     0 \<le> mp_brace_count p \<and> mp_brace_count p \<le> MAX_NESTING \<and>
     0 \<le> mp_bracket_count p \<and> mp_bracket_count p \<le> MAX_NESTING \<and>
     (mp_tokens p = [] \<longleftrightarrow> mp_brace_count p = 0 \<and> mp_bracket_count p = 0) \<and>
     mp_token_size p \<le> MAX_TOKEN_SIZE \<and> list_all wf_token (mp_tokens p)"

text \<open>What the client is given: \<^verbatim>\<open>NULL\<close>, or a token list that is not empty and well formed.\<close>

definition message_ok :: "qobject list option \<Rightarrow> bool" where
  "message_ok ts \<longleftrightarrow> (case ts of None \<Rightarrow> True | Some ts \<Rightarrow> ts \<noteq> [] \<and> list_all wf_token ts)"

lemma streamer_inv_init [simp]: "streamer_inv (snd (json_message_parser_init client))"
  by (simp add: streamer_inv_def json_message_parser_init_def MAX_NESTING_def qlist_new_def)

lemma streamer_inv_out_emit [simp]: "streamer_inv (out_emit emit ts p)"
  by (simp add: streamer_inv_def out_emit_def MAX_NESTING_def qlist_new_def)

lemma mp_client_out_emit [simp]: "mp_client (out_emit emit ts p) = emit ts (mp_client p)"
  by (simp add: out_emit_def)

lemma count_operator_other [simp]:
  "mp_tokens (count_operator tok ty p) = mp_tokens p"
  "mp_token_size (count_operator tok ty p) = mp_token_size p"
  "mp_client (count_operator tok ty p) = mp_client p"
  by (simp_all add: count_operator_def split: list.splits)

locale message_client =
  fixes emit :: "'s message_emitter"
    and cinv :: "'s \<Rightarrow> bool"
  assumes message_inv: "cinv s \<Longrightarrow> message_ok ts \<Longrightarrow> cinv (emit ts s)"
begin

lemma process_token_inv:
  assumes "streamer_inv p" and "cinv (mp_client p)" and "emitted ty tok"
  shows "streamer_inv (json_message_process_token emit tok ty x y p) \<and>
         cinv (mp_client (json_message_process_token emit tok ty x y p))"
proof -
  have wf: "list_all wf_token (mp_tokens p @ [token_object tok ty x y])"
    using assms wf_token_object by (simp add: streamer_inv_def)
  have "cinv (emit (Some (mp_tokens p @ [token_object tok ty x y])) (mp_client p))"
    and "cinv (emit None (mp_client p))"
    using wf assms(2) message_inv by (simp_all add: message_ok_def)
  with wf assms(2) show ?thesis
    by (simp add: json_message_process_token_def Let_def qlist_append_obj_def)
      (auto simp: streamer_inv_def)
qed

end

sublocale message_client \<subseteq>
  lexer_client "json_message_process_token emit" "\<lambda>p. streamer_inv p \<and> cinv (mp_client p)"
  by unfold_locales (use process_token_inv in blast)

context message_client
begin

lemma session_inv:
  assumes "cinv c"
  shows "let p = json_message_parser_feed emit s (json_message_parser_init c) in
    streamer_inv (snd p) \<and> cinv (mp_client (snd p)) \<and>
    cinv (mp_client (snd (json_message_parser_flush emit p)))"
proof -
  let ?p = "json_message_parser_feed emit s (json_message_parser_init c)"
  have "(streamer_inv (snd ?p) \<and> cinv (mp_client (snd ?p))) \<and> lexer_ok (fst ?p)"
    unfolding json_message_parser_feed_def
    by (rule feed_inv) (simp_all add: assms json_message_parser_init_def lexer_ok_init
        streamer_inv_init [unfolded json_message_parser_init_def, simplified])
  with flush_inv [of ?p] show ?thesis
    by (simp add: Let_def json_message_parser_flush_def)
qed

end

text \<open>The client that records the messages it is given.\<close>

definition collect_message :: "qobject list option list message_emitter" where
  "collect_message ts ms = ms @ [ts]"

interpretation messages: message_client collect_message "list_all message_ok"
  by unfold_locales (simp add: collect_message_def)

section \<open>Properties\<close>


end
