(* ===== verification/JsonParser.thy ===== *)
theory JsonParser
  imports JsonStreamer "HOL-Library.Sublist"
begin

text \<open>
  The recursive-descent parser of \<^verbatim>\<open>json-parser.c\<close>. A parsing function takes the token list
  \<^verbatim>\<open>*tokens\<close> and the argument list \<^verbatim>\<open>ap\<close> and returns the object (\<open>None\<close> for \<^verbatim>\<open>NULL\<close>) with both
  as the call leaves them: on failure a rule gives the tokens back, but never the variadic
  arguments it has read. The calls carry a budget of steps; \<open>parse_value_total\<close> shows that the
  budget \<open>json_parser_parse\<close> passes is never used up. \<^verbatim>\<open>parse_error\<close> formats a message and drops it,
  so it has no counterpart, and neither have the reference counts.
\<close>

section \<open>Variadic arguments\<close>

datatype va =
    VaObject "qobject option"
  | VaInt u32
  | VaLong u64
  | VaLongLong u64
  | VaString string
  | VaDouble double

type_synonym va_list = "va list option"

section \<open>Tokens\<close>

definition token_get_value :: "qobject \<Rightarrow> string res" where
  "token_get_value obj = bind_res (deref (qobject_to_qdict obj)) (\<lambda>d. qdict_get_str d ''token'')"

definition token_get_type :: "qobject \<Rightarrow> u32 res" where
  "token_get_type obj =
     bind_res (deref (qobject_to_qdict obj)) (\<lambda>d.
     bind_res (qdict_get_int d ''type'') (\<lambda>i. Inr (ucast i)))"

definition type_code :: "json_state \<Rightarrow> u32" where
  "type_code s = of_nat (state_num s)"

text \<open>Reading the byte at an index of a C string.\<close>

definition char_at :: "string \<Rightarrow> nat \<Rightarrow> char" where
  "char_at s i = (if i < length s then s ! i else CHR 0x00)"

definition token_is_operator :: "qobject \<Rightarrow> char \<Rightarrow> bool res" where
  "token_is_operator obj op =
     bind_res (token_get_type obj) (\<lambda>ty.
     if ty \<noteq> type_code JSON_OPERATOR then Inr False
     else bind_res (token_get_value obj) (\<lambda>val.
       Inr (char_at val 0 = op \<and> char_at val 1 = CHR 0x00)))"

definition token_is_keyword :: "qobject \<Rightarrow> string \<Rightarrow> bool res" where
  "token_is_keyword obj value =
     bind_res (token_get_type obj) (\<lambda>ty.
     if ty \<noteq> type_code JSON_KEYWORD then Inr False
     else bind_res (token_get_value obj) (\<lambda>val. Inr (val = value)))"

definition token_is_escape :: "qobject \<Rightarrow> string \<Rightarrow> bool res" where
  "token_is_escape obj value =
     bind_res (token_get_type obj) (\<lambda>ty.
     if ty \<noteq> type_code JSON_ESCAPE then Inr False
     else bind_res (token_get_value obj) (\<lambda>val. Inr (val = value)))"

section \<open>Strings\<close>

definition chr8 :: "u16 \<Rightarrow> char" where
  "chr8 w = char_of (unat w mod 256)"

text \<open>The bytes stored in the buffer, the terminating zero byte included.\<close>

definition wchar_to_utf8 :: "u16 \<Rightarrow> nat \<Rightarrow> string res" where
  "wchar_to_utf8 wchar buffer_length =
     (if wchar \<le> 0x007F then
        assert_res (\<not> buffer_length < 2) (Inr [chr8 (wchar AND 0x7F), CHR 0x00])
      else if wchar \<le> 0x07FF then
        assert_res (\<not> buffer_length < 3)
          (Inr [chr8 (0xC0 OR (drop_bit 6 wchar AND 0x1F)), chr8 (0x80 OR (wchar AND 0x3F)),
                CHR 0x00])
      else
        assert_res (\<not> buffer_length < 4)
          (Inr [chr8 (0xE0 OR (drop_bit 12 wchar AND 0x0F)),
                chr8 (0x80 OR (drop_bit 6 wchar AND 0x3F)), chr8 (0x80 OR (wchar AND 0x3F)),
                CHR 0x00]))"

text \<open>The C string a buffer starts with.\<close>

definition cstr :: "string \<Rightarrow> string" where
  "cstr s = takeWhile (\<lambda>c. c \<noteq> CHR 0x00) s"

definition hex2decimal :: "char \<Rightarrow> int" where
  "hex2decimal ch =
     (if 48 \<le> code ch \<and> code ch \<le> 57 then int (code ch) - 48
      else if 97 \<le> code ch \<and> code ch \<le> 102 then 10 + (int (code ch) - 97)
      else if 65 \<le> code ch \<and> code ch \<le> 70 then 10 + (int (code ch) - 65)
      else -1)"

text \<open>The loop over the four digits of \<^verbatim>\<open>\u\<close>: the digits that are left, the text, the value.\<close>

fun read_ucode :: "nat \<Rightarrow> string \<Rightarrow> u16 \<Rightarrow> (u16 \<times> string) option" where
  "read_ucode 0 ptr unicode_char = Some (unicode_char, ptr)"
| "read_ucode (Suc n) ptr unicode_char =
     (case ptr of
        [] \<Rightarrow> None
      | c # ptr \<Rightarrow>
          if is_xdigit c
          then read_ucode n ptr (unicode_char OR word_of_int (hex2decimal c * 2 ^ (n * 4)))
          else None)"

lemma read_ucode_length: "read_ucode n ptr u = Some (v, ptr') \<Longrightarrow> length ptr' \<le> length ptr"
  by (induction n ptr u rule: read_ucode.induct) (force split: if_splits list.splits)+

definition simple_escape :: "char \<Rightarrow> char option" where
  "simple_escape c =
     (if c = CHR 0x22 then Some (CHR 0x22)
      else if c = CHR 0x27 then Some (CHR 0x27)
      else if c = CHR 0x5C then Some (CHR 0x5C)
      else if c = CHR ''/'' then Some (CHR ''/'')
      else if c = CHR ''b'' then Some (CHR 0x08)
      else if c = CHR ''f'' then Some (CHR 0x0C)
      else if c = CHR ''n'' then Some (CHR 0x0A)
      else if c = CHR ''r'' then Some (CHR 0x0D)
      else if c = CHR ''t'' then Some (CHR 0x09)
      else None)"

text \<open>The \<^verbatim>\<open>while\<close> loop; the end of the list is the terminating zero byte.\<close>

function unescape :: "bool \<Rightarrow> string \<Rightarrow> string \<Rightarrow> string option res" where
  "unescape double_quote [] str = Inr (Some str)"
| "unescape double_quote (c # ptr) str =
     (if (double_quote \<and> c = CHR 0x22) \<or> (\<not> double_quote \<and> c = CHR 0x27) then Inr (Some str)
      else if c = CHR 0x5C then
        case ptr of
          [] \<Rightarrow> Inr None
        | e # ptr' \<Rightarrow>
            if e = CHR ''u'' then
              case read_ucode 4 ptr' 0 of
                None \<Rightarrow> Inr None
              | Some (unicode_char, ptr'') \<Rightarrow>
                  bind_res (wchar_to_utf8 unicode_char 4) (\<lambda>utf8_char.
                    unescape double_quote ptr'' (str @ cstr utf8_char))
            else (case simple_escape e of
                    None \<Rightarrow> Inr None
                  | Some x \<Rightarrow> unescape double_quote ptr' (str @ [x]))
      else unescape double_quote ptr (str @ [c]))"
  by pat_completeness auto
termination
  by (relation "measure (\<lambda>(dq, ptr, str). length ptr)") (auto dest: read_ucode_length)

definition qstring_from_escaped_str :: "qobject \<Rightarrow> string option res" where
  "qstring_from_escaped_str token =
     bind_res (token_get_value token) (\<lambda>ptr.
     case ptr of
       [] \<Rightarrow> Inl Undefined
     | c # ptr \<Rightarrow> unescape (c = CHR 0x22) ptr [])"

section \<open>Rules without recursion\<close>

type_synonym 'a parsed = "('a \<times> qobject list \<times> va_list) res"

definition parse_keyword :: "qobject list \<Rightarrow> va_list \<Rightarrow> qobject option parsed" where
  "parse_keyword tokens ap =
     (case qlist_pop (qlist_copy tokens) of
        (None, working) \<Rightarrow> Inr (None, tokens, ap)
      | (Some token, working) \<Rightarrow>
          bind_res (token_get_type token) (\<lambda>ty.
          if ty \<noteq> type_code JSON_KEYWORD then Inr (None, tokens, ap)
          else
            bind_res (token_is_keyword token ''true'') (\<lambda>is_true.
            if is_true then Inr (Some (QBool 1), working, ap)
            else
              bind_res (token_is_keyword token ''false'') (\<lambda>is_false.
              if is_false then Inr (Some (QBool 0), working, ap)
              else Inr (None, tokens, ap)))))"

text \<open>
  \<^verbatim>\<open>va_arg\<close> of the type the escape names: reading beyond the arguments or an argument of another
  type is undefined behaviour.
\<close>

fun escape_arg :: "string \<Rightarrow> va list \<Rightarrow> qobject option res" where
  "escape_arg esc [] = Inl Undefined"
| "escape_arg esc (VaObject obj # _) = (if esc = ''%p'' then Inr obj else Inl Undefined)"
| "escape_arg esc (VaInt i # _) =
     (if esc = ''%i'' then Inr (Some (QBool i))
      else if esc = ''%d'' then Inr (Some (QInt (scast i)))
      else Inl Undefined)"
| "escape_arg esc (VaLong i # _) = (if esc = ''%ld'' then Inr (Some (QInt i)) else Inl Undefined)"
| "escape_arg esc (VaLongLong i # _) =
     (if esc = ''%lld'' \<or> esc = ''%I64d'' then Inr (Some (QInt i)) else Inl Undefined)"
| "escape_arg esc (VaString s # _) =
     (if esc = ''%s'' then Inr (Some (QString (cstr s))) else Inl Undefined)"
| "escape_arg esc (VaDouble f # _) = (if esc = ''%f'' then Inr (Some (QFloat f)) else Inl Undefined)"

text \<open>The chain of tests, in the order of the code; \<open>None\<close> when no test succeeds.\<close>

fun match_escape :: "qobject \<Rightarrow> string list \<Rightarrow> string option res" where
  "match_escape token [] = Inr None"
| "match_escape token (e # es) =
     bind_res (token_is_escape token e) (\<lambda>b. if b then Inr (Some e) else match_escape token es)"

definition parse_escape :: "qobject list \<Rightarrow> va_list \<Rightarrow> qobject option parsed" where
  "parse_escape tokens ap =
     (case ap of
        None \<Rightarrow> Inr (None, tokens, ap)
      | Some args \<Rightarrow>
          (case qlist_pop (qlist_copy tokens) of
             (None, working) \<Rightarrow> Inr (None, tokens, ap)
           | (Some token, working) \<Rightarrow>
               bind_res
                 (match_escape token
                    [''%p'', ''%i'', ''%d'', ''%ld'', ''%lld'', ''%I64d'', ''%s'', ''%f''])
                 (\<lambda>m. case m of
                    None \<Rightarrow> Inr (None, tokens, ap)
                  | Some esc \<Rightarrow>
                      bind_res (escape_arg esc args) (\<lambda>obj. Inr (obj, working, Some (tl args))))))"

definition parse_literal :: "qobject list \<Rightarrow> va_list \<Rightarrow> qobject option parsed" where
  "parse_literal tokens ap =
     (case qlist_pop (qlist_copy tokens) of
        (None, working) \<Rightarrow> Inr (None, tokens, ap)
      | (Some token, working) \<Rightarrow>
          bind_res (token_get_type token) (\<lambda>ty.
          if ty = type_code JSON_STRING then
            bind_res (qstring_from_escaped_str token) (\<lambda>s. Inr (map_option QString s, working, ap))
          else if ty = type_code JSON_INTEGER then
            bind_res (token_get_value token) (\<lambda>val. Inr (Some (QInt (strtoll10 val)), working, ap))
          else if ty = type_code JSON_FLOAT then
            bind_res (token_get_value token) (\<lambda>val. Inr (Some (QFloat (strtod val)), working, ap))
          else Inr (None, tokens, ap)))"

section \<open>Recursive rules\<close>

text \<open>
  The rules for pairs, objects and arrays take the forward-declared \<^verbatim>\<open>parse_value\<close> as an argument,
  and \<open>parse_value\<close> below passes itself with one unit less of its budget, which bounds the depth of
  the recursion. \<open>object_loop\<close> and \<open>array_loop\<close> are the parts of \<^verbatim>\<open>parse_object\<close> and \<^verbatim>\<open>parse_array\<close>
  from the \<^verbatim>\<open>qlist_pop\<close> that follows an element, with a budget of their own; \<open>tokens\<close> is the list
  the rule gives back when it fails.
\<close>

type_synonym rule = "qobject list \<Rightarrow> va_list \<Rightarrow> qobject option parsed"

definition parse_pair ::
  "rule \<Rightarrow> qobject qdict \<Rightarrow> qobject list \<Rightarrow> va_list \<Rightarrow> (bool \<times> qobject qdict) parsed" where
  "parse_pair parse_value dict tokens ap =
     (let working = qlist_copy tokens in
      case qlist_peek working of
        None \<Rightarrow> Inr ((False, dict), tokens, ap)
      | Some peek \<Rightarrow>
          bind_res (parse_value working ap) (\<lambda>(key, working, ap).
          case key of
            Some (QString k) \<Rightarrow>
              (case qlist_pop working of
                 (None, working) \<Rightarrow> Inr ((False, dict), tokens, ap)
               | (Some token, working) \<Rightarrow>
                   bind_res (token_is_operator token (CHR '':'')) (\<lambda>colon.
                   if \<not> colon then Inr ((False, dict), tokens, ap)
                   else
                     bind_res (parse_value working ap) (\<lambda>(value, working, ap).
                     case value of
                       None \<Rightarrow> Inr ((False, dict), tokens, ap)
                     | Some v \<Rightarrow> Inr ((True, qdict_put_obj dict (cstr k) v), working, ap))))
          | _ \<Rightarrow> Inr ((False, dict), tokens, ap)))"

fun object_loop ::
  "rule \<Rightarrow> nat \<Rightarrow> qobject qdict \<Rightarrow> qobject list \<Rightarrow> qobject list \<Rightarrow> va_list \<Rightarrow>
   qobject option parsed" where
  "object_loop parse_value 0 dict tokens working ap = Inl OutOfFuel"
| "object_loop parse_value (Suc n) dict tokens working ap =
     (case qlist_pop working of
        (None, working) \<Rightarrow> Inr (None, tokens, ap)
      | (Some token, working) \<Rightarrow>
          bind_res (token_is_operator token (CHR ''}'')) (\<lambda>closes.
          if closes then Inr (Some (QDict dict), working, ap)
          else
            bind_res (token_is_operator token (CHR '','')) (\<lambda>comma.
            if \<not> comma then Inr (None, tokens, ap)
            else
              bind_res (parse_pair parse_value dict working ap) (\<lambda>((ok, dict), working, ap).
              if ok then object_loop parse_value n dict tokens working ap
              else Inr (None, tokens, ap)))))"

definition parse_object :: "rule \<Rightarrow> rule" where
  "parse_object parse_value tokens ap =
     (case qlist_pop (qlist_copy tokens) of
        (None, working) \<Rightarrow> Inr (None, tokens, ap)
      | (Some token, working) \<Rightarrow>
          bind_res (token_is_operator token (CHR ''{'')) (\<lambda>opens.
          if \<not> opens then Inr (None, tokens, ap)
          else case qlist_peek working of
            None \<Rightarrow> Inr (None, tokens, ap)
          | Some peek \<Rightarrow>
              bind_res (token_is_operator peek (CHR ''}'')) (\<lambda>closes.
              if \<not> closes then
                bind_res (parse_pair parse_value qdict_new working ap) (\<lambda>((ok, dict), working, ap).
                if ok then object_loop parse_value (Suc (length working)) dict tokens working ap
                else Inr (None, tokens, ap))
              else Inr (Some (QDict qdict_new), snd (qlist_pop working), ap))))"

fun array_loop ::
  "rule \<Rightarrow> nat \<Rightarrow> qobject list \<Rightarrow> qobject list \<Rightarrow> qobject list \<Rightarrow> va_list \<Rightarrow>
   qobject option parsed" where
  "array_loop parse_value 0 lst tokens working ap = Inl OutOfFuel"
| "array_loop parse_value (Suc n) lst tokens working ap =
     (case qlist_pop working of
        (None, working) \<Rightarrow> Inr (None, tokens, ap)
      | (Some token, working) \<Rightarrow>
          bind_res (token_is_operator token (CHR '']'')) (\<lambda>closes.
          if closes then Inr (Some (QList lst), working, ap)
          else
            bind_res (token_is_operator token (CHR '','')) (\<lambda>comma.
            if \<not> comma then Inr (None, tokens, ap)
            else
              bind_res (parse_value working ap) (\<lambda>(obj, working, ap).
              case obj of
                None \<Rightarrow> Inr (None, tokens, ap)
              | Some v \<Rightarrow> array_loop parse_value n (qlist_append_obj lst v) tokens working ap))))"

definition parse_array :: "rule \<Rightarrow> rule" where
  "parse_array parse_value tokens ap =
     (case qlist_pop (qlist_copy tokens) of
        (None, working) \<Rightarrow> Inr (None, tokens, ap)
      | (Some token, working) \<Rightarrow>
          bind_res (token_is_operator token (CHR ''['')) (\<lambda>opens.
          if \<not> opens then Inr (None, tokens, ap)
          else case qlist_peek working of
            None \<Rightarrow> Inr (None, tokens, ap)
          | Some peek \<Rightarrow>
              bind_res (token_is_operator peek (CHR '']'')) (\<lambda>closes.
              if \<not> closes then
                bind_res (parse_value working ap) (\<lambda>(obj, working, ap).
                case obj of
                  None \<Rightarrow> Inr (None, tokens, ap)
                | Some v \<Rightarrow>
                    array_loop parse_value (Suc (length working)) (qlist_append_obj qlist_new v)
                      tokens working ap)
              else Inr (Some (QList qlist_new), snd (qlist_pop working), ap))))"

text \<open>The chain of alternatives in \<^verbatim>\<open>parse_value\<close>: the next rule is tried on a \<^verbatim>\<open>NULL\<close> result.\<close>

definition or_else :: "qobject option parsed \<Rightarrow> rule \<Rightarrow> qobject option parsed" where
  "or_else r rule =
     bind_res r (\<lambda>(obj, tokens, ap).
       case obj of None \<Rightarrow> rule tokens ap | Some _ \<Rightarrow> Inr (obj, tokens, ap))"

primrec parse_value :: "nat \<Rightarrow> rule" where
  "parse_value 0 = (\<lambda>tokens ap. Inl OutOfFuel)"
| "parse_value (Suc n) = (\<lambda>tokens ap.
     or_else (or_else (or_else (or_else
       (parse_object (parse_value n) tokens ap)
       (parse_array (parse_value n)))
       parse_escape)
       parse_keyword)
       parse_literal)"

text \<open>A value is not nested deeper than it has tokens.\<close>

definition json_parser_parse :: "qobject list option \<Rightarrow> va_list \<Rightarrow> (qobject option \<times> va_list) res" where
  "json_parser_parse tokens ap =
     (case tokens of
        None \<Rightarrow> Inr (None, ap)
      | Some tokens \<Rightarrow>
          bind_res (parse_value (Suc (length tokens)) (qlist_copy tokens) ap)
            (\<lambda>(result, working, ap). Inr (result, ap)))"

section \<open>The rules return normally\<close>

lemma type_code_eq_iff [simp]: "type_code s = type_code t \<longleftrightarrow> s = t"
proof
  have num: "unat (type_code u) = state_num u" for u by (cases u) (simp_all add: type_code_def)
  assume "type_code s = type_code t"
  then have "state_num s = state_num t" by (metis num)
  then show "s = t" by (cases s; cases t; simp)
qed simp

lemma carries_value [tok_simps]: "carries obj ty tok \<Longrightarrow> token_get_value obj = Inr tok"
  by (auto simp: carries_def token_get_value_def)

lemma carries_type [tok_simps]: "carries obj ty tok \<Longrightarrow> token_get_type obj = Inr (type_code ty)"
  by (cases ty) (auto simp: carries_def token_get_type_def type_code_def)

lemma carries_tests [tok_simps]:
  assumes "carries obj ty tok"
  shows "token_is_operator obj c =
      Inr (ty = JSON_OPERATOR \<and> char_at tok 0 = c \<and> char_at tok 1 = CHR 0x00)"
    and "token_is_keyword obj v = Inr (ty = JSON_KEYWORD \<and> tok = v)"
    and "token_is_escape obj v = Inr (ty = JSON_ESCAPE \<and> tok = v)"
  using carries_type [OF assms] carries_value [OF assms]
  by (simp_all add: token_is_operator_def token_is_keyword_def token_is_escape_def)

lemma wchar_to_utf8_4: "\<exists>s. wchar_to_utf8 w 4 = Inr s"
  by (simp add: wchar_to_utf8_def)

lemma unescape_total: "\<exists>r. unescape dq ptr str = Inr r"
proof (induction dq ptr str rule: unescape.induct)
  case (2 dq c ptr str)
  show ?case
  proof (cases ptr)
    case Nil
    with 2 show ?thesis by auto
  next
    case (Cons e ptr')
    show ?thesis
    proof (cases "read_ucode 4 ptr' 0")
      case None
      with 2 Cons show ?thesis by (auto split: option.splits)
    next
      case (Some a)
      moreover obtain w p where "a = (w, p)" by (cases a)
      moreover obtain s where "wchar_to_utf8 w 4 = Inr s" using wchar_to_utf8_4 by blast
      ultimately show ?thesis
        using 2 Cons by (auto split: option.splits)
    qed
  qed
qed simp

lemma escaped_str_total:
  assumes "wf_token t" and "token_get_type t = Inr (type_code JSON_STRING)"
  shows "\<exists>r. qstring_from_escaped_str t = Inr r"
proof -
  obtain tok where tok: "carries t JSON_STRING tok" "emitted JSON_STRING tok"
    using assms by (auto simp: wf_token_def carries_type)
  then obtain q rest where "tok = q # rest"
    by (auto simp: emitted_def row_state_def token_state_def)
  with tok unescape_total show ?thesis
    by (simp add: qstring_from_escaped_str_def carries_value)
qed

text \<open>
  What every rule guarantees: no assertion fires and no budget is used up; undefined behaviour
  needs variadic arguments; the tokens left are a suffix; and success consumes a token.
\<close>

definition sound :: "('a \<Rightarrow> bool) \<Rightarrow> qobject list \<Rightarrow> va_list \<Rightarrow> 'a parsed \<Rightarrow> bool" where
  "sound success tokens ap r \<longleftrightarrow>
     (case r of
        Inl e \<Rightarrow> e = Undefined \<and> ap \<noteq> None
      | Inr (x, tokens', ap') \<Rightarrow>
          suffix tokens' tokens \<and> (ap = None \<longrightarrow> ap' = None) \<and>
          (success x \<longrightarrow> length tokens' < length tokens))"

lemma sound_Inr [simp]:
  "sound P ts ap (Inr (x, ts', ap')) \<longleftrightarrow>
     suffix ts' ts \<and> (ap = None \<longrightarrow> ap' = None) \<and> (P x \<longrightarrow> length ts' < length ts)"
  by (simp add: sound_def)

lemma sound_bind:
  assumes "sound P ts ap r"
    and "\<And>x ts' ap'. suffix ts' ts \<Longrightarrow> (ap = None \<Longrightarrow> ap' = None) \<Longrightarrow>
           (P x \<Longrightarrow> length ts' < length ts) \<Longrightarrow> sound Q us ap (f (x, ts', ap'))"
  shows "sound Q us ap (bind_res r f)"
  using assms by (cases r) (auto simp: sound_def)

lemma sound_ap: "sound P ts ap' r \<Longrightarrow> (ap = None \<Longrightarrow> ap' = None) \<Longrightarrow> sound P ts ap r"
  by (auto simp: sound_def split: sum.splits)

lemma sound_suffix:
  "sound P ts' ap r \<Longrightarrow> suffix ts' ts \<Longrightarrow> sound P ts ap r"
  by (auto simp: sound_def split: sum.splits dest: suffix_length_le suffix_order.trans)

lemma wf_suffix: "suffix ts' ts \<Longrightarrow> list_all wf_token ts \<Longrightarrow> list_all wf_token ts'"
  by (auto simp: suffix_def)

lemma wf_operator: "wf_token t \<Longrightarrow> \<exists>b. token_is_operator t c = Inr b"
  by (auto simp: wf_token_def tok_simps)

lemma wf_type: "wf_token t \<Longrightarrow> \<exists>ty. token_get_type t = Inr (type_code ty)"
  by (auto simp: wf_token_def tok_simps)

abbreviation found :: "'a option \<Rightarrow> bool" where
  "found x \<equiv> x \<noteq> None"

lemma sound_literal:
  assumes "list_all wf_token ts"
  shows "sound found ts ap (parse_literal ts ap)"
proof (cases ts)
  case (Cons t ts')
  with assms obtain ty tok where t: "carries t ty tok" "wf_token t" by (auto simp: wf_token_def)
  show ?thesis
  proof (cases "ty = JSON_STRING")
    case True
    with t escaped_str_total [of t] obtain r where "qstring_from_escaped_str t = Inr r"
      by (auto simp: tok_simps)
    with True t Cons show ?thesis by (simp add: parse_literal_def tok_simps suffix_ConsI)
  next
    case False
    with t Cons show ?thesis by (simp add: parse_literal_def tok_simps suffix_ConsI)
  qed
qed (simp add: parse_literal_def)

lemma sound_keyword:
  assumes "list_all wf_token ts"
  shows "sound found ts ap (parse_keyword ts ap)"
proof (cases ts)
  case (Cons t ts')
  with assms obtain ty tok where "carries t ty tok" by (auto simp: wf_token_def)
  with Cons show ?thesis by (simp add: parse_keyword_def tok_simps suffix_ConsI)
qed (simp add: parse_keyword_def)

lemma match_escape_total:
  "carries t ty tok \<Longrightarrow> \<exists>m. match_escape t es = Inr m"
  by (induction es) (auto simp: tok_simps)

lemma escape_arg_error: "escape_arg esc args = Inl e \<Longrightarrow> e = Undefined"
  by (induction esc args rule: escape_arg.induct) (auto split: if_splits)

lemma sound_escape:
  assumes "list_all wf_token ts"
  shows "sound found ts ap (parse_escape ts ap)"
proof (cases ts)
  case Nil
  then show ?thesis by (simp add: parse_escape_def split: option.splits)
next
  case (Cons t ts')
  with assms obtain ty tok where "carries t ty tok" by (auto simp: wf_token_def)
  then obtain m where
    m: "match_escape t [''%p'', ''%i'', ''%d'', ''%ld'', ''%lld'', ''%I64d'', ''%s'', ''%f''] = Inr m"
    using match_escape_total by blast
  show ?thesis
  proof (cases ap)
    case (Some args)
    note ap = Some
    show ?thesis
    proof (cases m)
      case (Some esc)
      with m ap Cons show ?thesis
        by (cases "escape_arg esc args")
          (auto simp: parse_escape_def sound_def suffix_ConsI dest: escape_arg_error)
    qed (use m ap Cons in \<open>simp add: parse_escape_def\<close>)
  qed (simp add: parse_escape_def)
qed

definition rule_ok :: "nat \<Rightarrow> rule \<Rightarrow> bool" where
  "rule_ok L pv \<longleftrightarrow>
     (\<forall>ts ap. list_all wf_token ts \<and> length ts < L \<longrightarrow> sound found ts ap (pv ts ap))"

lemma rule_okD: "rule_ok L pv \<Longrightarrow> list_all wf_token ts \<Longrightarrow> length ts < L \<Longrightarrow> sound found ts ap (pv ts ap)"
  by (simp add: rule_ok_def)

lemma sound_pair:
  assumes pv: "rule_ok L pv" and ts: "list_all wf_token ts" "length ts < L"
  shows "sound fst ts ap (parse_pair pv d ts ap)"
proof (cases ts)
  case (Cons t rest)
  have "sound fst ts ap (bind_res (pv ts ap) (\<lambda>(key, working, ap).
          case key of
            Some (QString k) \<Rightarrow>
              (case qlist_pop working of
                 (None, working) \<Rightarrow> Inr ((False, d), ts, ap)
               | (Some token, working) \<Rightarrow>
                   bind_res (token_is_operator token (CHR '':'')) (\<lambda>colon.
                   if \<not> colon then Inr ((False, d), ts, ap)
                   else
                     bind_res (pv working ap) (\<lambda>(value, working, ap).
                     case value of
                       None \<Rightarrow> Inr ((False, d), ts, ap)
                     | Some v \<Rightarrow> Inr ((True, qdict_put_obj d (cstr k) v), working, ap))))
          | _ \<Rightarrow> Inr ((False, d), ts, ap)))"
  proof (rule sound_bind [OF rule_okD [OF pv ts]], goal_cases)
    case (1 key w ap')
    show ?case
    proof (cases "(\<exists>k. key = Some (QString k)) \<and> w \<noteq> []")
      case True
      then obtain k t' w' where w: "key = Some (QString k)" "w = t' # w'" by (cases w) auto
      with 1 ts have w': "list_all wf_token w'" "wf_token t'" "length w' < L" "suffix w' ts"
        "length w' < length ts"
        by (auto dest: wf_suffix suffix_length_le suffix_ConsD)
      obtain b where "token_is_operator t' (CHR '':'') = Inr b" using wf_operator w' by blast
      moreover have "sound fst ts ap' (bind_res (pv w' ap') (\<lambda>(value, working, ap).
                     case value of
                       None \<Rightarrow> Inr ((False, d), ts, ap)
                     | Some v \<Rightarrow> Inr ((True, qdict_put_obj d (cstr k) v), working, ap)))"
        using w'(4,5)
        by (intro sound_bind [OF rule_okD [OF pv w'(1,3)]])
          (auto split: option.splits dest: suffix_length_le suffix_order.trans)
      ultimately show ?thesis
        using w 1(2) by (cases b) (auto intro: sound_ap)
    next
      case False
      with 1 show ?thesis by (cases w) (auto split: option.splits qobject.splits)
    qed
  qed
  moreover have "qlist_peek ts = Some t" using Cons by simp
  ultimately show ?thesis by (simp add: parse_pair_def Let_def)
qed (simp add: parse_pair_def)

lemma sound_object_loop:
  assumes pv: "rule_ok L pv" and ts: "list_all wf_token ts"
  shows "suffix w ts \<Longrightarrow> length w < length ts \<Longrightarrow> length w < n \<Longrightarrow> length w \<le> L \<Longrightarrow>
    sound found ts ap (object_loop pv n d ts w ap)"
proof (induction n arbitrary: d w ap)
  case (Suc n)
  show ?case
  proof (cases w)
    case (Cons t w')
    with Suc.prems ts have w': "list_all wf_token w'" "wf_token t" "suffix w' ts" "length w' < L"
      by (auto dest: wf_suffix suffix_ConsD)
    obtain b c where
      tests: "token_is_operator t (CHR ''}'') = Inr b" "token_is_operator t (CHR '','') = Inr c"
      using wf_operator [OF w'(2)] by metis
    have "sound found ts ap
        (bind_res (parse_pair pv d w' ap) (\<lambda>((ok, dict), working, ap).
              if ok then object_loop pv n dict ts working ap else Inr (None, ts, ap)))"
      by (rule sound_bind [OF sound_pair [OF pv w'(1,4)]])
        (use Suc.prems Cons w'(3) in
          \<open>auto intro!: sound_ap [OF Suc.IH] dest: suffix_length_le suffix_order.trans
            simp del: not_None_eq\<close>)
    with tests Suc.prems Cons w' show ?thesis by simp
  qed simp
qed simp

lemma sound_object:
  assumes pv: "rule_ok L pv" and ts: "list_all wf_token ts" "length ts \<le> L"
  shows "sound found ts ap (parse_object pv ts ap)"
proof (cases ts)
  case (Cons t w)
  with ts obtain b where b: "token_is_operator t (CHR ''{'') = Inr b" by (auto dest: wf_operator)
  show ?thesis
  proof (cases w)
    case Nil
    with b Cons show ?thesis by (simp add: parse_object_def)
  next
    case (Cons p w')
    note w = this \<open>ts = t # w\<close>
    with ts obtain c where c: "token_is_operator p (CHR ''}'') = Inr c" by (auto dest: wf_operator)
    have "sound found ts ap
        (bind_res (parse_pair pv qdict_new w ap) (\<lambda>((ok, dict), working, ap).
           if ok then object_loop pv (Suc (length working)) dict ts working ap
           else Inr (None, ts, ap)))"
      by (rule sound_bind [OF sound_pair [OF pv]])
        (use ts w in
          \<open>auto intro!: sound_ap [OF sound_object_loop [OF pv]] dest: suffix_length_le
              simp: suffix_ConsI simp del: object_loop.simps not_None_eq\<close>)
    then show ?thesis
      using b c unfolding w parse_object_def by (auto simp: suffix_ConsI simp del: object_loop.simps)
  qed
qed (simp add: parse_object_def)

lemma sound_array_loop:
  assumes pv: "rule_ok L pv" and ts: "list_all wf_token ts"
  shows "suffix w ts \<Longrightarrow> length w < length ts \<Longrightarrow> length w < n \<Longrightarrow> length w \<le> L \<Longrightarrow>
    sound found ts ap (array_loop pv n xs ts w ap)"
proof (induction n arbitrary: xs w ap)
  case (Suc n)
  show ?case
  proof (cases w)
    case (Cons t w')
    with Suc.prems ts have w': "list_all wf_token w'" "wf_token t" "suffix w' ts" "length w' < L"
      by (auto dest: wf_suffix suffix_ConsD)
    obtain b c where
      tests: "token_is_operator t (CHR '']'') = Inr b" "token_is_operator t (CHR '','') = Inr c"
      using wf_operator [OF w'(2)] by metis
    have "sound found ts ap
        (bind_res (pv w' ap) (\<lambda>(obj, working, ap).
              case obj of
                None \<Rightarrow> Inr (None, ts, ap)
              | Some v \<Rightarrow> array_loop pv n (qlist_append_obj xs v) ts working ap))"
      by (rule sound_bind [OF rule_okD [OF pv w'(1,4)]])
        (use Suc.prems Cons w'(3) in
          \<open>auto intro!: sound_ap [OF Suc.IH] dest: suffix_length_le suffix_order.trans
            simp del: not_None_eq split: option.splits\<close>)
    with tests Suc.prems Cons w' show ?thesis by simp
  qed simp
qed simp

lemma sound_array:
  assumes pv: "rule_ok L pv" and ts: "list_all wf_token ts" "length ts \<le> L"
  shows "sound found ts ap (parse_array pv ts ap)"
proof (cases ts)
  case (Cons t w)
  with ts obtain b where b: "token_is_operator t (CHR ''['') = Inr b" by (auto dest: wf_operator)
  show ?thesis
  proof (cases w)
    case Nil
    with b Cons show ?thesis by (simp add: parse_array_def)
  next
    case (Cons p w')
    note w = this \<open>ts = t # w\<close>
    with ts obtain c where c: "token_is_operator p (CHR '']'') = Inr c" by (auto dest: wf_operator)
    have "sound found ts ap
        (bind_res (pv w ap) (\<lambda>(obj, working, ap).
           case obj of
             None \<Rightarrow> Inr (None, ts, ap)
           | Some v \<Rightarrow>
               array_loop pv (Suc (length working)) (qlist_append_obj qlist_new v) ts working ap))"
      by (rule sound_bind [OF rule_okD [OF pv]])
        (use ts w in
          \<open>auto intro!: sound_ap [OF sound_array_loop [OF pv]] dest: suffix_length_le
              simp: suffix_ConsI simp del: array_loop.simps not_None_eq split: option.splits\<close>)
    then show ?thesis
      using b c unfolding w parse_array_def by (auto simp: suffix_ConsI simp del: array_loop.simps)
  qed
qed (simp add: parse_array_def)

lemma sound_or_else:
  assumes "sound found ts ap r"
    and "\<And>ts' ap'. suffix ts' ts \<Longrightarrow> sound found ts' ap' (rule ts' ap')"
  shows "sound found ts ap (or_else r rule)"
  unfolding or_else_def
  by (rule sound_bind [OF assms(1)])
    (auto split: option.splits simp del: not_None_eq
      intro: sound_ap [OF sound_suffix [OF assms(2)]])

lemma parse_value_sound:
  "list_all wf_token ts \<Longrightarrow> length ts < n \<Longrightarrow> sound found ts ap (parse_value n ts ap)"
proof (induction n arbitrary: ts ap)
  case (Suc n)
  then have pv: "rule_ok n (parse_value n)" by (simp add: rule_ok_def)
  show ?case
    unfolding parse_value.simps
    by (intro sound_or_else sound_object [OF pv] sound_array [OF pv] sound_escape sound_keyword
        sound_literal)
      (use Suc.prems in \<open>auto dest: wf_suffix suffix_length_le\<close>)
qed simp

lemma json_parser_parse_total:
  assumes "message_ok ts"
  shows "case json_parser_parse ts ap of
      Inl e \<Rightarrow> e = Undefined \<and> ap \<noteq> None
    | Inr (obj, ap') \<Rightarrow> ap = None \<longrightarrow> ap' = None"
proof (cases ts)
  case (Some us)
  with assms parse_value_sound [of us "Suc (length us)" ap] show ?thesis
    by (auto simp: message_ok_def json_parser_parse_def sound_def split: sum.splits)
qed (simp add: json_parser_parse_def)

end
