(* ===== verification/QJson.thy ===== *)
theory QJson
  imports JsonParser
begin

text \<open>
  The JSON interface of \<^verbatim>\<open>libq\<close> (\<^verbatim>\<open>qjson.c\<close>): reading an object from a text, with or without
  variadic arguments, and printing an object. A \<^verbatim>\<open>QString\<close> being built is the text it holds, to
  which the functions append. \<^verbatim>\<open>char\<close> is signed, as on the platforms the code is built for.
\<close>

section \<open>Reading\<close>

text \<open>
  The state of the callback: the variadic arguments that are left and the last result, or the
  failure that ended the run.
\<close>

type_synonym JSONParsingState = "(va_list \<times> qobject option) res"

definition parse_json :: "JSONParsingState message_emitter" where
  "parse_json tokens s =
     bind_res s (\<lambda>(ap, _).
     bind_res (json_parser_parse tokens ap) (\<lambda>(result, ap). Inr (ap, result)))"

definition qobject_from_jsonv :: "string \<Rightarrow> va_list \<Rightarrow> (qobject option \<times> va_list) res" where
  "qobject_from_jsonv string ap =
     (let parser = json_message_parser_init (Inr (ap, None));
          parser = json_message_parser_feed parse_json (cstr string) parser;
          parser = json_message_parser_flush parse_json parser
      in bind_res (mp_client (snd parser)) (\<lambda>(ap, result). Inr (result, ap)))"

definition qobject_from_json :: "string \<Rightarrow> qobject option res" where
  "qobject_from_json string =
     bind_res (qobject_from_jsonv string None) (\<lambda>(result, _). Inr result)"

definition qobject_from_jsonf :: "string \<Rightarrow> va list \<Rightarrow> qobject res" where
  "qobject_from_jsonf string args =
     bind_res (qobject_from_jsonv string (Some args)) (\<lambda>(obj, _).
     case obj of None \<Rightarrow> Inl Assert | Some obj \<Rightarrow> Inr obj)"

section \<open>Printing\<close>

text \<open>The byte of a character, promoted and masked as in the code.\<close>

definition byte :: "char \<Rightarrow> u16" where
  "byte c = of_nat (code c)"

text \<open>\<^verbatim>\<open>snprintf (escape, sizeof (escape), "\\u%04X", v)\<close> into seven bytes.\<close>

definition u_escape :: "u32 \<Rightarrow> string" where
  "u_escape v = take 6 ([CHR 0x5C, CHR ''u''] @ fmt_04X v)"

definition signed_char :: "char \<Rightarrow> int" where
  "signed_char c = (if code c < 128 then int (code c) else int (code c) - 256)"

text \<open>The \<^verbatim>\<open>switch\<close> on the character.\<close>

definition escaped_char :: "char \<Rightarrow> string" where
  "escaped_char c =
     (if c = CHR 0x22 then [CHR 0x5C, CHR 0x22]
      else if c = CHR 0x5C then [CHR 0x5C, CHR 0x5C]
      else if c = CHR 0x08 then [CHR 0x5C, CHR ''b'']
      else if c = CHR 0x0C then [CHR 0x5C, CHR ''f'']
      else if c = CHR 0x0A then [CHR 0x5C, CHR ''n'']
      else if c = CHR 0x0D then [CHR 0x5C, CHR ''r'']
      else if c = CHR 0x09 then [CHR 0x5C, CHR ''t'']
      else if signed_char c \<le> 0x1F then u_escape (word_of_int (signed_char c))
      else [c])"

text \<open>The \<^verbatim>\<open>while (*ptr)\<close> loop of the string case.\<close>

function string_loop :: "string \<Rightarrow> string \<Rightarrow> string" where
  "string_loop [] str = str"
| "string_loop (c # ptr) str =
     (let p0 = byte c; p1 = byte (char_at ptr 0); p2 = byte (char_at ptr 1) in
      if p0 AND 0xE0 = 0xE0 \<and> p1 AND 0x80 \<noteq> 0 \<and> p2 AND 0x80 \<noteq> 0 then
        let wchar = push_bit 12 (p0 AND 0x0F);
            wchar = wchar OR push_bit 6 (p1 AND 0x3F);
            wchar = wchar OR (p2 AND 0x3F)
        in string_loop (drop 2 ptr) (str @ u_escape (ucast wchar))
      else if p0 AND 0xE0 = 0xC0 \<and> p1 AND 0x80 \<noteq> 0 then
        let wchar = push_bit 6 (p0 AND 0x1F);
            wchar = wchar OR (p1 AND 0x3F)
        in string_loop (drop 1 ptr) (str @ u_escape (ucast wchar))
      else string_loop ptr (str @ escaped_char c))"
  by pat_completeness auto
termination by (relation "measure (\<lambda>(ptr, str). length ptr)") auto

definition to_json_string :: "string \<Rightarrow> string \<Rightarrow> string" where
  "to_json_string val str = string_loop (cstr val) (str @ [CHR 0x22]) @ [CHR 0x22]"

text \<open>The float case: trailing zeros are dropped, and then a trailing point.\<close>

definition trim_float :: "string \<Rightarrow> string" where
  "trim_float buffer =
     (let kept = rev (dropWhile (\<lambda>c. c = CHR ''0'') (rev buffer))
      in if kept \<noteq> [] \<and> last kept = CHR ''.'' then butlast kept else kept)"

fun append_indent :: "nat \<Rightarrow> string \<Rightarrow> string" where
  "append_indent 0 str = str"
| "append_indent (Suc j) str = append_indent j (str @ ''    '')"

record ToJsonIterState =
  ts_indent :: nat
  ts_pretty :: bool
  ts_count :: nat
  ts_str :: string

definition iter_separator :: "ToJsonIterState \<Rightarrow> string" where
  "iter_separator s =
     (let str = (if ts_count s \<noteq> 0 then ts_str s @ '', '' else ts_str s)
      in if ts_pretty s then append_indent (ts_indent s) (str @ [CHR 0x0A]) else str)"

text \<open>The callbacks of the iterations; \<open>to_json_obj\<close> is \<^verbatim>\<open>to_json\<close> applied to the element.\<close>

definition to_json_dict_iter ::
  "string \<Rightarrow> (string \<Rightarrow> bool \<Rightarrow> nat \<Rightarrow> string) \<Rightarrow> ToJsonIterState \<Rightarrow> ToJsonIterState" where
  "to_json_dict_iter key to_json_obj s =
     (let str = iter_separator s;
          str = to_json_string key str;
          str = str @ '': '';
          str = to_json_obj str (ts_pretty s) (ts_indent s)
      in s\<lparr>ts_str := str, ts_count := ts_count s + 1\<rparr>)"

definition to_json_list_iter ::
  "(string \<Rightarrow> bool \<Rightarrow> nat \<Rightarrow> string) \<Rightarrow> ToJsonIterState \<Rightarrow> ToJsonIterState" where
  "to_json_list_iter to_json_obj s =
     (let str = iter_separator s;
          str = to_json_obj str (ts_pretty s) (ts_indent s)
      in s\<lparr>ts_str := str, ts_count := ts_count s + 1\<rparr>)"

definition close_container :: "string \<Rightarrow> bool \<Rightarrow> nat \<Rightarrow> string" where
  "close_container str pretty indent =
     (if pretty then append_indent indent (str @ [CHR 0x0A]) else str)"

lemma qdict_iter_cong [fundef_cong]:
  "d = d' \<Longrightarrow> s = s' \<Longrightarrow>
   (\<And>k v s. (k, v) \<in> set (qdict_entries d') \<Longrightarrow> iter k v s = iter' k v s) \<Longrightarrow>
   qdict_iter iter d s = qdict_iter iter' d' s'"
  by (auto simp: qdict_iter_entries fun_eq_iff intro!: fold_cong)

lemma qlist_iter_cong [fundef_cong]:
  "xs = ys \<Longrightarrow> s = s' \<Longrightarrow> (\<And>x s. x \<in> set ys \<Longrightarrow> iter x s = iter' x s) \<Longrightarrow>
   qlist_iter iter xs s = qlist_iter iter' ys s'"
  by (auto simp: qlist_iter_fold intro: fold_cong)

lemma size_list_element: "x \<in> set xs \<Longrightarrow> size x < Suc (size_list size xs)"
  by (induction xs) auto

lemma size_dict_entry:
  "(k, v) \<in> set (qdict_entries d) \<Longrightarrow> size v < Suc (size_qdict size d)"
proof -
  assume "(k, v) \<in> set (qdict_entries d)"
  then obtain b where b: "b \<in> set (qd_table d)" "(k, v) \<in> set b"
    by (auto simp: qdict_entries_def)
  have "size v < Suc (size_prod (\<lambda>x. 0) size (k, v))" by simp
  also have "\<dots> \<le> Suc (size_list (size_prod (\<lambda>x. 0) size) b)"
    using size_list_estimation' [OF b(2), of _ "size_prod (\<lambda>x. 0) size"] by simp
  also have "\<dots> \<le> Suc (size_list (size_list (size_prod (\<lambda>x. 0) size)) (qd_table d))"
    using size_list_estimation' [OF b(1), of _ "size_list (size_prod (\<lambda>x. 0) size)"] by simp
  also have "\<dots> \<le> Suc (size_qdict size d)" by (cases d) simp
  finally show ?thesis .
qed

function to_json :: "qobject \<Rightarrow> string \<Rightarrow> bool \<Rightarrow> nat \<Rightarrow> string" where
  "to_json (QInt val) str pretty indent = str @ fmt_PRId64 val"
| "to_json (QString val) str pretty indent = to_json_string val str"
| "to_json (QDict val) str pretty indent =
     (let s = \<lparr>ts_indent = indent + 1, ts_pretty = pretty, ts_count = 0, ts_str = str @ ''{''\<rparr>;
          s = qdict_iter (\<lambda>key obj. to_json_dict_iter key (\<lambda>str pretty indent. to_json obj str pretty indent)) val s
      in close_container (ts_str s) pretty indent @ ''}'')"
| "to_json (QList val) str pretty indent =
     (let s = \<lparr>ts_indent = indent + 1, ts_pretty = pretty, ts_count = 0, ts_str = str @ ''[''\<rparr>;
          s = qlist_iter (\<lambda>obj. to_json_list_iter (\<lambda>str pretty indent. to_json obj str pretty indent)) val s
      in close_container (ts_str s) pretty indent @ '']'')"
| "to_json (QFloat val) str pretty indent = str @ trim_float (fmt_f val)"
| "to_json (QBool val) str pretty indent = str @ (if val \<noteq> 0 then ''true'' else ''false'')"
  by pat_completeness auto
termination
  by (relation "measure (\<lambda>(obj, str, pretty, indent). size obj)")
    (auto dest: size_list_element size_dict_entry)

definition qobject_to_json :: "qobject \<Rightarrow> string" where
  "qobject_to_json obj = to_json obj [] False 0"

definition qobject_to_json_pretty :: "qobject \<Rightarrow> string" where
  "qobject_to_json_pretty obj = to_json obj [] True 0"

section \<open>Reading never fails\<close>

text \<open>The states of a run that read no variadic argument wrongly.\<close>

definition run_ok :: "bool \<Rightarrow> JSONParsingState \<Rightarrow> bool" where
  "run_ok variadic s \<longleftrightarrow>
     (case s of Inl e \<Rightarrow> e = Undefined \<and> variadic | Inr (ap, _) \<Rightarrow> ap = None \<or> variadic)"

interpretation pj: message_client parse_json "run_ok variadic" for variadic
proof
  fix s ts
  assume s: "run_ok variadic s" and ts: "message_ok ts"
  show "run_ok variadic (parse_json ts s)"
  proof (cases s)
    case (Inr a)
    obtain ap r where a: "a = (ap, r)" by (cases a)
    with Inr s json_parser_parse_total [OF ts, of ap] show ?thesis
      by (auto simp: run_ok_def parse_json_def split: sum.splits)
  qed (use s in \<open>simp add: run_ok_def parse_json_def\<close>)
qed

lemma from_jsonv_cases:
  "case qobject_from_jsonv s ap of
     Inl e \<Rightarrow> e = Undefined \<and> ap \<noteq> None
   | Inr (r, ap') \<Rightarrow> ap = None \<longrightarrow> ap' = None"
proof -
  define p where "p = json_message_parser_feed parse_json (cstr s) (json_message_parser_init (Inr (ap, None)))"
  define q where "q = mp_client (snd (json_message_parser_flush parse_json p))"
  have "run_ok (ap \<noteq> None) (Inr (ap, None))" by (cases ap) (simp_all add: run_ok_def)
  then have "run_ok (ap \<noteq> None) q"
    using pj.session_inv [of "ap \<noteq> None" "Inr (ap, None)" "cstr s"]
    by (simp add: p_def q_def Let_def)
  then show ?thesis
    by (auto simp: qobject_from_jsonv_def Let_def p_def [symmetric] q_def [symmetric] run_ok_def
        bind_res_def split: sum.splits)
qed

section \<open>Properties\<close>


end
