(* ===== verification/JsonText.thy ===== *)
theory JsonText
  imports QJson
begin

text \<open>
  The specification side of the JSON printer: what an object denotes (\<open>denote\<close>), which objects
  have a JSON form (\<open>printable\<close>), the tokens of an object (\<open>otoks\<close>), and a closed form of the text
  the printer produces, from which the round trip is proved.
\<close>

section \<open>Induction over objects\<close>

lemma qobject_induct [case_names QInt QString QDict QList QFloat QBool]:
  assumes "\<And>i. P (QInt i)" and "\<And>s. P (QString s)"
    and "\<And>d. (\<And>k v. (k, v) \<in> set (qdict_entries d) \<Longrightarrow> P v) \<Longrightarrow> P (QDict d)"
    and "\<And>xs. (\<And>x. x \<in> set xs \<Longrightarrow> P x) \<Longrightarrow> P (QList xs)"
    and "\<And>f. P (QFloat f)" and "\<And>b. P (QBool b)"
  shows "P obj"
proof (induction "size obj" arbitrary: obj rule: less_induct)
  case less
  show ?case
  proof (cases obj)
    case (QDict d)
    then show ?thesis using less assms(3) size_dict_entry by fastforce
  next
    case (QList xs)
    then show ?thesis using less assms(4) size_list_element by fastforce
  qed (simp_all add: assms)
qed

section \<open>Meaning of objects\<close>

datatype json =
    JInt int
  | JString string
  | JBool bool
  | JFloat double
  | JList "json list"
  | JObject "string \<rightharpoonup> json"

function denote :: "qobject \<Rightarrow> json" where
  "denote (QInt i) = JInt (sint i)"
| "denote (QString s) = JString s"
| "denote (QDict d) = JObject (map_of (map (\<lambda>(k, v). (k, denote v)) (qdict_entries d)))"
| "denote (QList xs) = JList (map denote xs)"
| "denote (QFloat f) = JFloat f"
| "denote (QBool b) = JBool (b \<noteq> 0)"
  by pat_completeness auto
termination
  by (relation "measure size") (auto dest: size_list_element size_dict_entry)

lemma denote_dict:
  assumes "qdict_inv d"
  shows "denote (QDict d) = JObject (\<lambda>k. map_option denote (qdict_get d k))"
  using assms by (simp add: qdict_get_entries map_of_map fun_eq_iff)

text \<open>UTF-8 text in the basic multilingual plane, without zero bytes.\<close>

definition continuation :: "char \<Rightarrow> bool" where
  "continuation c \<longleftrightarrow> 0x80 \<le> code c \<and> code c \<le> 0xBF"

fun utf8_ok :: "string \<Rightarrow> bool" where
  "utf8_ok [] = True"
| "utf8_ok (a # s) =
     (if code a \<le> 0x7F then code a \<noteq> 0 \<and> utf8_ok s
      else case s of
        [] \<Rightarrow> False
      | b # s' \<Rightarrow>
          if 0xC2 \<le> code a \<and> code a \<le> 0xDF then continuation b \<and> utf8_ok s'
          else case s' of
            [] \<Rightarrow> False
          | c # s'' \<Rightarrow>
              0xE0 \<le> code a \<and> code a \<le> 0xEF \<and> continuation b \<and> continuation c \<and>
              (code a = 0xE0 \<longrightarrow> 0xA0 \<le> code b) \<and> utf8_ok s'')"

text \<open>Objects without floats, whose strings are such text and whose dictionaries are well formed.\<close>

function printable :: "qobject \<Rightarrow> bool" where
  "printable (QInt i) = True"
| "printable (QString s) = utf8_ok s"
| "printable (QDict d) \<longleftrightarrow>
     qdict_inv d \<and> list_all (\<lambda>(k, v). utf8_ok k \<and> printable v) (qdict_entries d)"
| "printable (QList xs) = list_all printable xs"
| "printable (QFloat f) = False"
| "printable (QBool b) = True"
  by pat_completeness auto
termination
  by (relation "measure size") (auto dest: size_list_element size_dict_entry)

function nesting :: "qobject \<Rightarrow> nat" where
  "nesting (QInt i) = 0"
| "nesting (QString s) = 0"
| "nesting (QDict d) = Suc (foldr max (map (\<lambda>(k, v). nesting v) (qdict_entries d)) 0)"
| "nesting (QList xs) = Suc (foldr max (map nesting xs) 0)"
| "nesting (QFloat f) = 0"
| "nesting (QBool b) = 0"
  by pat_completeness auto
termination
  by (relation "measure size") (auto dest: size_list_element size_dict_entry)

lemma foldr_max_ge: "(n :: nat) \<in> set ns \<Longrightarrow> n \<le> foldr max ns m"
  by (induction ns) auto

lemma nesting_element: "x \<in> set xs \<Longrightarrow> nesting x < nesting (QList xs)"
  by (simp add: foldr_max_ge less_Suc_eq_le)

lemma nesting_entry: "(k, v) \<in> set (qdict_entries d) \<Longrightarrow> nesting v < nesting (QDict d)"
  by (force simp: less_Suc_eq_le intro!: foldr_max_ge)

section \<open>Tokens of an object\<close>

abbreviation op_token :: "char \<Rightarrow> json_state \<times> string" where
  "op_token c \<equiv> (JSON_OPERATOR, [c])"

fun toks_seq :: "bool \<Rightarrow> (json_state \<times> string) list list \<Rightarrow> (json_state \<times> string) list" where
  "toks_seq first [] = []"
| "toks_seq first (t # ts) = (if first then [] else [op_token (CHR '','')]) @ t @ toks_seq False ts"

definition key_toks :: "string \<Rightarrow> (json_state \<times> string) list" where
  "key_toks k = [(JSON_STRING, to_json_string k []), op_token (CHR '':'')]"

function otoks :: "qobject \<Rightarrow> (json_state \<times> string) list" where
  "otoks (QInt i) = [(JSON_INTEGER, fmt_PRId64 i)]"
| "otoks (QString s) = [(JSON_STRING, to_json_string s [])]"
| "otoks (QDict d) =
     op_token (CHR ''{'') # toks_seq True (map (\<lambda>(k, v). key_toks k @ otoks v) (qdict_entries d)) @
     [op_token (CHR ''}'')]"
| "otoks (QList xs) =
     op_token (CHR ''['') # toks_seq True (map otoks xs) @ [op_token (CHR '']'')]"
| "otoks (QFloat f) = []"
| "otoks (QBool b) = [(JSON_KEYWORD, if b \<noteq> 0 then ''true'' else ''false'')]"
  by pat_completeness auto
termination
  by (relation "measure size") (auto dest: size_list_element size_dict_entry)

section \<open>The printed text\<close>

definition blanks :: "nat \<Rightarrow> string" where
  "blanks n = concat (replicate n ''    '')"

lemma append_indent_blanks [simp]: "append_indent n str = str @ blanks n"
  by (induction n arbitrary: str) (simp_all add: blanks_def)

definition newline :: "bool \<Rightarrow> nat \<Rightarrow> string" where
  "newline pretty indent = (if pretty then CHR 0x0A # blanks indent else [])"

lemma close_container_newline [simp]: "close_container str p i = str @ newline p i"
  by (simp add: close_container_def newline_def)

fun text_seq :: "bool \<Rightarrow> nat \<Rightarrow> bool \<Rightarrow> string list \<Rightarrow> string" where
  "text_seq p i first [] = []"
| "text_seq p i first (t # ts) =
     (if first then [] else '', '') @ newline p i @ t @ text_seq p i False ts"

lemma string_loop_append: "string_loop ptr (a @ b) = a @ string_loop ptr b"
proof (induction ptr b arbitrary: a rule: string_loop.induct)
  case (2 c ptr str)
  then show ?case by (simp add: Let_def)
qed simp

lemma to_json_string_append: "to_json_string s str = str @ to_json_string s []"
  using string_loop_append [of _ str "[CHR 0x22]"] by (simp add: to_json_string_def)

lemma list_iter_text:
  assumes "\<And>x str. x \<in> set xs \<Longrightarrow> to_json x str p i = str @ T x"
  shows "ts_str (fold (\<lambda>obj. to_json_list_iter (to_json obj)) xs
      \<lparr>ts_indent = i, ts_pretty = p, ts_count = n, ts_str = str\<rparr>) =
    str @ text_seq p i (n = 0) (map T xs)"
  using assms
proof (induction xs arbitrary: n str)
  case (Cons x xs)
  have "to_json x str p i = str @ T x" for str using Cons.prems by simp
  with Cons show ?case
    by (simp add: to_json_list_iter_def iter_separator_def newline_def Let_def)
qed simp

lemma dict_iter_text:
  assumes "\<And>k v str. (k, v) \<in> set es \<Longrightarrow> to_json v str p i = str @ T v"
  shows "ts_str (fold (\<lambda>(key, obj). to_json_dict_iter key (to_json obj)) es
      \<lparr>ts_indent = i, ts_pretty = p, ts_count = n, ts_str = str\<rparr>) =
    str @ text_seq p i (n = 0) (map (\<lambda>(k, v). to_json_string k [] @ '': '' @ T v) es)"
  using assms
proof (induction es arbitrary: n str)
  case (Cons e es)
  obtain k v where e: "e = (k, v)" by (cases e)
  then have v: "to_json v str p i = str @ T v" for str using Cons.prems [of k v str] by simp
  obtain S where k: "to_json_string k str = str @ S" for str
    using to_json_string_append by blast
  have IH: "ts_str (fold (\<lambda>(key, obj). to_json_dict_iter key (to_json obj)) es
      \<lparr>ts_indent = i, ts_pretty = p, ts_count = n, ts_str = str\<rparr>) =
    str @ text_seq p i (n = 0) (map (\<lambda>(k, v). to_json_string k [] @ '': '' @ T v) es)" for n str
    by (rule Cons.IH) (meson Cons.prems list.set_intros(2))
  have "to_json_dict_iter k (to_json v)
      \<lparr>ts_indent = i, ts_pretty = p, ts_count = n, ts_str = str\<rparr> =
    \<lparr>ts_indent = i, ts_pretty = p, ts_count = Suc n,
     ts_str = str @ (if n = 0 then [] else '', '') @ newline p i @ S @ '': '' @ T v\<rparr>"
    by (simp add: to_json_dict_iter_def v Let_def k iter_separator_def newline_def)
  then show ?case by (simp add: e IH k)
qed simp

lemma to_json_append: "to_json obj str p i = str @ to_json obj [] p i"
proof (induction obj arbitrary: str i rule: qobject_induct)
  case (QString s)
  show ?case unfolding to_json.simps by (rule to_json_string_append)
next
  case (QDict d)
  note printed = dict_iter_text [OF this, where n = 0]
  show ?case by (simp add: Let_def qdict_iter_entries) (simp add: printed [simplified])
next
  case (QList xs)
  note printed = list_iter_text [OF this, where n = 0]
  show ?case by (simp add: Let_def qlist_iter_fold) (simp add: printed [simplified])
qed auto

lemma to_json_QList:
  "to_json (QList xs) [] p i =
     CHR ''['' # text_seq p (Suc i) True (map (\<lambda>x. to_json x [] p (Suc i)) xs) @
     newline p i @ '']''"
  using list_iter_text [OF to_json_append, where n = 0]
  by (simp add: Let_def qlist_iter_fold)

lemma to_json_QDict:
  "to_json (QDict d) [] p i =
     CHR ''{'' # text_seq p (Suc i) True
       (map (\<lambda>(k, v). to_json_string k [] @ '': '' @ to_json v [] p (Suc i)) (qdict_entries d)) @
     newline p i @ ''}''"
  using dict_iter_text [OF to_json_append, where n = 0]
  by (simp add: Let_def qdict_iter_entries)

end
