(* ===== verification/JsonStrings.thy ===== *)
theory JsonStrings
  imports JsonText
begin

text \<open>
  Escaping and unescaping of strings: the printer's escapes are read back to the bytes they came
  from, for UTF-8 text of the basic multilingual plane.
\<close>

section \<open>Bits as arithmetic\<close>

lemma and_mask_nat: "(a :: nat) AND 0x1F = a mod 32" "a AND 0x3F = a mod 64" "a AND 0x7F = a mod 128"
  "a AND 0x0F = a mod 16"
  using take_bit_eq_mask [of 5 a] take_bit_eq_mask [of 6 a] take_bit_eq_mask [of 7 a]
    take_bit_eq_mask [of 4 a]
  by (simp_all add: take_bit_eq_mod mask_eq_exp_minus_1)

lemma or_tag_nat:
  "a < 32 \<Longrightarrow> 0xC0 OR (a :: nat) = 0xC0 + a"
  "a < 64 \<Longrightarrow> 0x80 OR a = 0x80 + a"
  "a < 16 \<Longrightarrow> 0xE0 OR a = 0xE0 + a"
  using or_add_nat [of a 5 6] or_add_nat [of a 6 2] or_add_nat [of a 4 14]
  by (simp_all add: push_bit_eq_mult)

lemma unat_16_less: "unat (w :: u16) < 65536"
  using unsigned_less [of w] by simp

lemma wchar_to_utf8_arith:
  fixes w :: u16
  defines "n \<equiv> unat w"
  shows "wchar_to_utf8 w 4 =
    Inr (if n \<le> 0x7F then [char_of n, CHR 0x00]
         else if n \<le> 0x7FF then [char_of (0xC0 + n div 64), char_of (0x80 + n mod 64), CHR 0x00]
         else [char_of (0xE0 + n div 4096), char_of (0x80 + n div 64 mod 64),
               char_of (0x80 + n mod 64), CHR 0x00])"
proof -
  have n: "n < 65536" unfolding n_def by (rule unat_16_less)
  have le: "w \<le> 0x7F \<longleftrightarrow> n \<le> 0x7F" "w \<le> 0x7FF \<longleftrightarrow> n \<le> 0x7FF"
    by (simp_all add: word_le_nat_alt n_def)
  have shift: "unat (drop_bit k w) = n div 2 ^ k" for k
    using n unfolding unsigned_drop_bit_eq n_def [symmetric]
    by (simp add: take_bit_nat_eq_self drop_bit_eq_div)
  note unat_bits = unsigned_or_eq unsigned_and_eq and_mask_nat shift
  have "chr8 (w AND 0x7F) = char_of (n mod 128)"
    by (simp add: chr8_def unat_bits n_def)
  moreover have "chr8 (0x80 OR (w AND 0x3F)) = char_of (0x80 + n mod 64)"
    by (simp add: chr8_def unat_bits n_def or_tag_nat)
  moreover have "chr8 (0x80 OR (drop_bit 6 w AND 0x3F)) = char_of (0x80 + n div 64 mod 64)"
    by (simp add: chr8_def unat_bits n_def or_tag_nat)
  moreover have "chr8 (0xC0 OR (drop_bit 6 w AND 0x1F)) = char_of (0xC0 + n div 64 mod 32)"
    by (simp add: chr8_def unat_bits n_def or_tag_nat)
  moreover have "chr8 (0xE0 OR (drop_bit 12 w AND 0x0F)) = char_of (0xE0 + n div 4096 mod 16)"
    by (simp add: chr8_def unat_bits n_def or_tag_nat)
  moreover have "n div 4096 mod 16 = n div 4096" using n by auto
  moreover have "n div 64 mod 32 = n div 64" if "n \<le> 0x7FF" using that by auto
  ultimately show ?thesis using le by (auto simp: wchar_to_utf8_def)
qed

section \<open>Hexadecimal escapes\<close>

lemma hex_char_cases:
  assumes "d < 16"
  shows "is_xdigit (hex_char d) \<and> hex2decimal (hex_char d) = int d \<and> hex_code (code (hex_char d))"
proof (cases "d < 10")
  case True
  then show ?thesis
    by (simp add: hex_char_def is_xdigit_def is_digit_def hex2decimal_def hex_code_def dec_code_def)
next
  case False
  with assms show ?thesis
    by (simp add: hex_char_def is_xdigit_def is_digit_def hex2decimal_def hex_code_def dec_code_def)
qed

lemma fmt_04X_digits:
  assumes "unat v < 65536"
  shows "fmt_04X v =
    [hex_char (unat v div 4096), hex_char (unat v div 256 mod 16), hex_char (unat v div 16 mod 16),
     hex_char (unat v mod 16)]"
proof -
  have zero: "hex_char 0 = CHR ''0''" by (simp add: hex_char_def char_of_eq_iff)
  have three: "replicate 3 c = [c, c, c]" "replicate 2 c = [c, c]" for c :: char
    by (simp_all add: numeral_3_eq_3 numeral_2_eq_2)
  have step: "show_hex n = (if n < 16 then [hex_char n] else show_hex (n div 16) @ [hex_char (n mod 16)])"
    for n by (rule show_hex.simps)
  consider "unat v < 16" | "16 \<le> unat v" "unat v < 256" | "256 \<le> unat v" "unat v < 4096"
    | "4096 \<le> unat v" by linarith
  then show ?thesis
  proof cases
    case 1
    then show ?thesis by (simp add: fmt_04X_def Let_def step [of "unat v"] zero three)
  next
    case 2
    then have "unat v div 16 < 16" by auto
    with 2 show ?thesis
      by (simp add: fmt_04X_def Let_def step [of "unat v"] step [of "unat v div 16"] zero three)
  next
    case 3
    then have "unat v div 256 < 16" "16 \<le> unat v div 16" by auto
    with 3 show ?thesis
      by (simp add: fmt_04X_def Let_def step [of "unat v"] step [of "unat v div 16"]
          step [of "unat v div 256"] zero div_mult2_eq [symmetric])
  next
    case 4
    then have "unat v div 4096 < 16" "16 \<le> unat v div 16" "16 \<le> unat v div 256" using assms by auto
    with 4 show ?thesis
      by (simp add: fmt_04X_def Let_def step [of "unat v"] step [of "unat v div 16"]
          step [of "unat v div 256"] step [of "unat v div 4096"] zero div_mult2_eq [symmetric])
  qed
qed

lemma show_hex_digits: "c \<in> set (show_hex n) \<Longrightarrow> hex_code (code c)"
proof (induction n rule: show_hex.induct)
  case (1 n)
  then show ?case by (subst (asm) (2) show_hex.simps) (auto simp: hex_char_cases split: if_splits)
qed

lemma list_of_four: "length xs = 4 \<Longrightarrow> \<exists>a b c d. xs = [a, b, c, d]"
  by (auto simp: length_Suc_conv numeral_eq_Suc)

text \<open>Whatever the value, the truncated escape is a backslash, the letter and four digits.\<close>

lemma u_escape_shape:
  "\<exists>a b c d. u_escape v = [CHR 0x5C, CHR ''u'', a, b, c, d] \<and>
     hex_code (code a) \<and> hex_code (code b) \<and> hex_code (code c) \<and> hex_code (code d)"
proof -
  let ?s = "take 4 (fmt_04X v)"
  have "length (fmt_04X v) \<ge> 4" by (simp add: fmt_04X_def Let_def)
  then have "length ?s = 4" by simp
  then obtain a b c d where s: "?s = [a, b, c, d]"
    using list_of_four by blast
  have "hex_code (code x)" if "x \<in> set ?s" for x
    using in_set_takeD [OF that] show_hex_digits
    by (auto simp: fmt_04X_def Let_def hex_code_def dec_code_def)
  with s have "\<forall>x \<in> set [a, b, c, d]. hex_code (code x)" by metis
  then show ?thesis using s by (auto simp: u_escape_def)
qed

lemma or_digits_nat:
  assumes "c < 16" and "d < 16" and "b < 16"
  shows "((a * 4096 OR b * 256) OR c * 16) OR d = (a * 4096 + b * 256 + c * 16 + d :: nat)"
proof -
  have "a * 4096 OR b * 256 = push_bit 8 (a * 16 + b)"
    using or_add_nat [of "b * 256" 12 a] assms by (simp add: push_bit_eq_mult)
  moreover have "push_bit 8 (a * 16 + b) OR c * 16 = push_bit 4 ((a * 16 + b) * 16 + c)"
    using or_add_nat [of "c * 16" 8 "a * 16 + b"] assms by (simp add: push_bit_eq_mult)
  ultimately show ?thesis
    using or_add_nat [of d 4 "(a * 16 + b) * 16 + c"] assms by simp
qed

lemma read_ucode_digits:
  assumes "n < 65536"
  shows "read_ucode 4 (hex_char (n div 4096) # hex_char (n div 256 mod 16) #
      hex_char (n div 16 mod 16) # hex_char (n mod 16) # rest) 0 = Some (of_nat n, rest)"
proof -
  let ?a = "n div 4096" and ?b = "n div 256 mod 16" and ?c = "n div 16 mod 16" and ?d = "n mod 16"
  have a: "?a < 16" using assms by auto
  have n: "?a * 4096 + ?b * 256 + ?c * 16 + ?d = n"
    using div_mult_mod_eq [of n 16] div_mult_mod_eq [of "n div 16" 16, folded div_mult2_eq, simplified]
      div_mult_mod_eq [of "n div 256" 16, folded div_mult2_eq, simplified]
    by linarith
  have word: "unat (word_of_int (int x * 2 ^ k) :: u16) = x * 2 ^ k" if "x * 2 ^ k < 65536" for x k
  proof -
    have "word_of_int (int x * 2 ^ k) = (of_nat (x * 2 ^ k) :: u16)" by simp
    with that show ?thesis by (simp only: unat_of_nat) simp
  qed
  let ?w = "((word_of_int (int ?a * 2 ^ 12) OR word_of_int (int ?b * 2 ^ 8)) OR
      word_of_int (int ?c * 2 ^ 4)) OR word_of_int (int ?d * 2 ^ 0) :: u16"
  have small: "?b < 16" "?c < 16" "?d < 16" by simp_all
  then have "?b * 2 ^ 8 < 65536" "?c * 2 ^ 4 < 65536" "?d * 2 ^ 0 < 65536" "?a * 2 ^ 12 < 65536"
    using a by simp_all
  then have "unat ?w = n"
    unfolding unsigned_or_eq using n or_digits_nat [OF small(2,3,1), of ?a] by (simp only: word) simp
  then have "?w = of_nat n" by (metis of_nat_unat ucast_id)
  moreover have "read_ucode (Suc (Suc (Suc (Suc 0)))) (hex_char ?a # hex_char ?b # hex_char ?c #
      hex_char ?d # rest) 0 = Some (?w, rest)"
    using a by (simp add: hex_char_cases)
  moreover have "(4 :: nat) = Suc (Suc (Suc (Suc 0)))" by simp
  ultimately show ?thesis by metis
qed

lemma unescape_u_escape:
  fixes w :: u16
  shows "unescape True (u_escape (ucast w) @ t) acc =
    bind_res (wchar_to_utf8 w 4) (\<lambda>b. unescape True t (acc @ cstr b))"
proof -
  have n: "unat (ucast w :: u32) = unat w" "unat w < 65536"
    using unat_16_less [of w] by (simp_all add: unsigned_ucast_eq take_bit_nat_eq_self)
  have "read_ucode 4 (fmt_04X (ucast w) @ t) 0 = Some (w, t)"
    using read_ucode_digits [OF n(2), of t] n by (simp add: fmt_04X_digits)
  moreover have "length (fmt_04X (ucast w)) = 4" using n by (simp add: fmt_04X_digits)
  ultimately show ?thesis by (simp add: u_escape_def)
qed

section \<open>Classes of bytes\<close>

lemma byte_table:
  "\<forall>n \<in> set [0..<256].
     (((of_nat n :: u16) AND 0xE0 = 0xE0) = (224 \<le> n)) \<and>
     (((of_nat n :: u16) AND 0xE0 = 0xC0) = (192 \<le> n \<and> n < 224)) \<and>
     (((of_nat n :: u16) AND 0x80 \<noteq> 0) = (128 \<le> n))"
  by code_simp

lemma byte_class:
  "byte c AND 0xE0 = 0xE0 \<longleftrightarrow> 224 \<le> code c"
  "byte c AND 0xE0 = 0xC0 \<longleftrightarrow> 192 \<le> code c \<and> code c < 224"
  "byte c AND 0x80 = 0 \<longleftrightarrow> code c < 128"
proof -
  have "code c \<in> set [0..<256]" by simp
  from bspec [OF byte_table this]
  show "byte c AND 0xE0 = 0xE0 \<longleftrightarrow> 224 \<le> code c"
    "byte c AND 0xE0 = 0xC0 \<longleftrightarrow> 192 \<le> code c \<and> code c < 224"
    "byte c AND 0x80 = 0 \<longleftrightarrow> code c < 128"
    unfolding byte_def by linarith+
qed

lemma unat_byte: "unat (byte c) = code c"
proof -
  have "code c mod 65536 = code c" by (intro mod_less less_trans [OF code_less_256]) simp
  then show ?thesis by (simp add: byte_def unat_of_nat)
qed

lemma unat_masked:
  "unat (byte a AND 0x0F) = code a mod 16"
  "unat (byte a AND 0x1F) = code a mod 32"
  "unat (byte a AND 0x3F) = code a mod 64"
  by (simp_all add: unsigned_and_eq and_mask_nat unat_byte)

lemma unat_push_bit:
  "unat w * 2 ^ k < 65536 \<Longrightarrow> unat (push_bit k (w :: u16)) = unat w * 2 ^ k"
  unfolding unsigned_push_bit_eq by (simp add: push_bit_eq_mult take_bit_nat_eq_self)

definition wchar2 :: "char \<Rightarrow> char \<Rightarrow> u16" where
  "wchar2 a b = push_bit 6 (byte a AND 0x1F) OR (byte b AND 0x3F)"

definition wchar3 :: "char \<Rightarrow> char \<Rightarrow> char \<Rightarrow> u16" where
  "wchar3 a b c = (push_bit 12 (byte a AND 0x0F) OR push_bit 6 (byte b AND 0x3F)) OR (byte c AND 0x3F)"

lemma unat_two_bytes: "unat (wchar2 a b) = code a mod 32 * 64 + code b mod 64"
proof -
  have "code a mod 32 * 64 < 65536" by (rule less_trans [of _ "32 * 64"]) simp_all
  then have "unat (push_bit 6 (byte a AND 0x1F)) = push_bit 6 (code a mod 32)"
    by (subst unat_push_bit) (simp_all add: unat_masked push_bit_eq_mult)
  then show ?thesis
    using or_add_nat [of "code b mod 64" 6 "code a mod 32"]
    unfolding wchar2_def unsigned_or_eq unat_masked by simp
qed

lemma unat_three_bytes:
  "unat (wchar3 a b c) = code a mod 16 * 4096 + code b mod 64 * 64 + code c mod 64"
proof -
  have small: "code a mod 16 < 16" "code b mod 64 < 64" "code c mod 64 < 64" by simp_all
  then have "code a mod 16 * 4096 < 65536" "code b mod 64 * 64 < 4096" by linarith+
  then have "unat (push_bit 12 (byte a AND 0x0F)) = push_bit 12 (code a mod 16)"
    and "unat (push_bit 6 (byte b AND 0x3F)) = code b mod 64 * 64"
    by (subst unat_push_bit; simp add: unat_masked push_bit_eq_mult)+
  moreover have "push_bit 12 (code a mod 16) OR code b mod 64 * 64 =
      push_bit 6 (code a mod 16 * 64 + code b mod 64)"
    using or_add_nat [of "code b mod 64 * 64" 12 "code a mod 16"] \<open>code b mod 64 * 64 < 4096\<close>
    by (simp add: push_bit_eq_mult)
  ultimately show ?thesis
    using or_add_nat [of "code c mod 64" 6 "code a mod 16 * 64 + code b mod 64"]
    unfolding wchar3_def unsigned_or_eq unat_masked by simp
qed

section \<open>Printing and reading a string\<close>

lemma cstr_simps [simp]: "cstr [] = []" "cstr (c # s) = (if c = CHR 0x00 then [] else c # cstr s)"
  by (simp_all add: cstr_def)

lemma NUL_code: "c = CHR 0x00 \<longleftrightarrow> code c = 0"
  by (simp add: code_eq_iff [symmetric])

lemma tagged_mod:
  "x < 32 \<Longrightarrow> (192 + x) mod 32 = (x :: nat)" "y < 64 \<Longrightarrow> (128 + y) mod 64 = (y :: nat)"
  "x < 16 \<Longrightarrow> (224 + x) mod 16 = (x :: nat)"
  by (rule mod_nat_eqI; simp)+

lemma unescape_two_bytes:
  assumes "0xC2 \<le> code a" and "code a \<le> 0xDF" and "continuation b"
  shows "unescape True (u_escape (ucast (wchar2 a b)) @ t) acc = unescape True t (acc @ [a, b])"
proof -
  obtain x y where x: "code a = 192 + x" "2 \<le> x" "x < 32" and y: "code b = 128 + y" "y < 64"
    using assms le_Suc_ex [of 192 "code a"] le_Suc_ex [of 128 "code b"]
    by (auto simp: continuation_def)
  have n: "unat (wchar2 a b) = x * 64 + y" using x y by (simp add: unat_two_bytes tagged_mod)
  have "char_of (192 + x) = a" "char_of (128 + y) = b" using x y by (metis char_of_char)+
  then have "wchar_to_utf8 (wchar2 a b) 4 = Inr [a, b, CHR 0x00]"
    using x y by (simp add: wchar_to_utf8_arith n)
  moreover have "a \<noteq> CHR 0x00" "b \<noteq> CHR 0x00" using x y by auto
  ultimately show ?thesis by (simp add: unescape_u_escape)
qed

lemma unescape_three_bytes:
  assumes "0xE0 \<le> code a" and "code a \<le> 0xEF" and "continuation b" and "continuation c"
    and "code a = 0xE0 \<longrightarrow> 0xA0 \<le> code b"
  shows "unescape True (u_escape (ucast (wchar3 a b c)) @ t) acc = unescape True t (acc @ [a, b, c])"
proof -
  obtain x y z where x: "code a = 224 + x" "x < 16" and y: "code b = 128 + y" "y < 64"
    and z: "code c = 128 + z" "z < 64"
    using assms le_Suc_ex [of 224 "code a"] le_Suc_ex [of 128 "code b"] le_Suc_ex [of 128 "code c"]
    by (auto simp: continuation_def)
  define m where "m = x * 64 + y"
  have m: "m div 64 = x" "m mod 64 = y" "32 \<le> m" "m < 1024"
    using assms(5) x y by (cases "x = 0", auto simp: m_def)
  have "unat (wchar3 a b c) = (x * 64 + y) * 64 + z"
    using x y z by (simp add: unat_three_bytes tagged_mod)
  then have n: "unat (wchar3 a b c) = m * 64 + z" unfolding m_def .
  have "(m * 64 + z) div 4096 = x" "(m * 64 + z) div 64 = m" "(m * 64 + z) mod 64 = z"
    using m z by (simp_all add: div_mult2_eq [of _ 64 64, simplified])
  moreover have "char_of (224 + x) = a" "char_of (128 + y) = b" "char_of (128 + z) = c"
    using x y z by (metis char_of_char)+
  ultimately have "wchar_to_utf8 (wchar3 a b c) 4 = Inr [a, b, c, CHR 0x00]"
    using m by (simp add: wchar_to_utf8_arith n)
  moreover have "a \<noteq> CHR 0x00" "b \<noteq> CHR 0x00" "c \<noteq> CHR 0x00" using x y z by auto
  ultimately show ?thesis by (simp add: unescape_u_escape)
qed

lemma unescape_ascii:
  assumes "code c \<le> 0x7F" and "code c \<noteq> 0"
  shows "unescape True (escaped_char c @ t) acc = unescape True t (acc @ [c])"
proof (cases "c \<in> {CHR 0x22, CHR 0x5C, CHR 0x08, CHR 0x0C, CHR 0x0A, CHR 0x0D, CHR 0x09}")
  case True
  then show ?thesis
    by (elim insertE emptyE) (simp_all add: escaped_char_def simple_escape_def)
next
  case False
  then have c: "escaped_char c = (if code c \<le> 0x1F then u_escape (word_of_int (signed_char c)) else [c])"
    using assms(1) by (simp add: escaped_char_def signed_char_def)
  let ?w = "of_nat (code c) :: u16"
  have w: "unat ?w = code c" using unat_byte by (simp add: byte_def)
  have "word_of_int (signed_char c) = (ucast ?w :: u32)"
    using assms(1) w by (simp add: signed_char_def) (metis of_nat_unat)
  moreover have "wchar_to_utf8 ?w 4 = Inr [c, CHR 0x00]"
    using assms(1) w by (simp add: wchar_to_utf8_arith)
  ultimately show ?thesis
    using c False assms(2) by (auto simp: unescape_u_escape)
qed

lemma string_loop_ascii:
  "code c \<le> 0x7F \<Longrightarrow> string_loop (c # s) [] = escaped_char c @ string_loop s []"
  using string_loop_append [of s "escaped_char c" "[]"] by (simp add: Let_def byte_class)

lemma string_loop_two_bytes:
  assumes "0xC2 \<le> code a" and "code a \<le> 0xDF" and "continuation b"
  shows "string_loop (a # b # s) [] = u_escape (ucast (wchar2 a b)) @ string_loop s []"
  using string_loop_append [of s "u_escape (ucast (wchar2 a b))" "[]"] assms
  by (simp add: Let_def byte_class continuation_def char_at_def wchar2_def)

lemma string_loop_three_bytes:
  assumes "0xE0 \<le> code a" and "continuation b" and "continuation c"
  shows "string_loop (a # b # c # s) [] = u_escape (ucast (wchar3 a b c)) @ string_loop s []"
  using string_loop_append [of s "u_escape (ucast (wchar3 a b c))" "[]"] assms
  by (simp add: Let_def byte_class continuation_def char_at_def wchar3_def)

lemma utf8_ok_cases:
  assumes "utf8_ok (a # s)"
  obtains (ascii) "code a \<le> 0x7F" "code a \<noteq> 0" "utf8_ok s"
  | (two) b s' where "s = b # s'" "0xC2 \<le> code a" "code a \<le> 0xDF" "continuation b" "utf8_ok s'"
  | (three) b c s' where "s = b # c # s'" "0xE0 \<le> code a" "code a \<le> 0xEF" "continuation b"
      "continuation c" "code a = 0xE0 \<longrightarrow> 0xA0 \<le> code b" "utf8_ok s'"
proof (cases "code a \<le> 0x7F")
  case True
  with assms ascii show ?thesis by simp
next
  case False
  with assms obtain b s' where s: "s = b # s'" by (cases s) simp_all
  show ?thesis
  proof (cases "0xC2 \<le> code a \<and> code a \<le> 0xDF")
    case True
    with False s assms two show ?thesis by simp
  next
    case other: False
    with False s assms obtain c s'' where "s' = c # s''" by (cases s') simp_all
    with False other s assms three show ?thesis by (simp split: if_split_asm)
  qed
qed

lemma unescape_string_loop:
  "utf8_ok s \<Longrightarrow> unescape True (string_loop s [] @ CHR 0x22 # t) acc = Inr (Some (acc @ s))"
proof (induction s arbitrary: acc rule: utf8_ok.induct)
  case (2 a s)
  from "2.prems" show ?case
  proof (cases rule: utf8_ok_cases)
    case ascii
    with 2 show ?thesis by (simp add: string_loop_ascii unescape_ascii del: string_loop.simps)
  next
    case two
    with 2 show ?thesis
      by (simp add: string_loop_two_bytes unescape_two_bytes del: string_loop.simps)
  next
    case three
    with 2 show ?thesis
      by (simp add: string_loop_three_bytes unescape_three_bytes del: string_loop.simps)
  qed
qed simp

lemma utf8_ok_cstr: "utf8_ok s \<Longrightarrow> cstr s = s"
proof (induction s rule: utf8_ok.induct)
  case (2 a s)
  from "2.prems" show ?case
    by (cases rule: utf8_ok_cases) (use 2 in \<open>simp_all add: NUL_code continuation_def\<close>)
qed simp

section \<open>Properties\<close>

text \<open>C4. A string printed as a JSON literal is read back as the same bytes, for every UTF-8 text of
  the basic multilingual plane without zero bytes, whatever follows the literal in the buffer and
  whatever has been decoded before.\<close>

theorem string_literal_roundtrip:
  assumes "utf8_ok s"
  shows "\<exists>body. to_json_string s [] = CHR 0x22 # body \<and>
    unescape True (body @ rest) acc = Inr (Some (acc @ s))"
proof -
  have "to_json_string s [] = CHR 0x22 # string_loop s [] @ [CHR 0x22]"
    using string_loop_append [of s "[CHR 0x22]" "[]"] assms
    by (simp add: to_json_string_def utf8_ok_cstr)
  with unescape_string_loop [OF assms, of rest acc] show ?thesis by simp
qed

theorem string_literal_roundtrip_witness:
  "\<exists>body. to_json_string [CHR ''a'', CHR 0x0A, CHR 0xC3, CHR 0xA9] [] = CHR 0x22 # body \<and>
    unescape True (body @ ''x'') [] = Inr (Some [CHR ''a'', CHR 0x0A, CHR 0xC3, CHR 0xA9])"
  using string_literal_roundtrip [of "[CHR ''a'', CHR 0x0A, CHR 0xC3, CHR 0xA9]" "''x''" "[]"]
  by (simp add: continuation_def)

end
