(* ===== verification/JsonRoundtrip.thy ===== *)
theory JsonRoundtrip
  imports JsonStrings
begin

text \<open>
  Printing an object and reading the text back. The proof follows the three stages of the reader:
  the lexer turns the printed text into the tokens of the object, the splitter passes them on as
  one message, and the parser rebuilds an object with the same meaning.
\<close>

section \<open>Lexing a text in front of another\<close>

definition lex_run :: "'s emitter \<Rightarrow> string \<Rightarrow> JSONLexer \<times> 's \<Rightarrow> 's" where
  "lex_run emit s ls = snd (json_lexer_flush emit (json_lexer_feed emit s ls))"

definition at_start :: "JSONLexer \<Rightarrow> bool" where
  "at_start lx \<longleftrightarrow> lx_state lx = IN_START \<and> lx_token lx = []"

type_synonym event = "string \<times> json_state \<times> int \<times> int"

definition play :: "'s emitter \<Rightarrow> event list \<Rightarrow> 's \<Rightarrow> 's" where
  "play emit evs s = fold (\<lambda>(tok, ty, x, y). emit tok ty x y) evs s"

definition event_tokens :: "event list \<Rightarrow> (json_state \<times> string) list" where
  "event_tokens evs = map (\<lambda>(tok, ty, x, y). (ty, tok)) evs"

lemma play_simps [simp]:
  "play emit [] s = s"
  "play emit ((tok, ty, x, y) # evs) s = play emit evs (emit tok ty x y s)"
  "play emit (evs @ evs') s = play emit evs' (play emit evs s)"
  by (simp_all add: play_def)

lemma event_tokens_simps [simp]:
  "event_tokens [] = []"
  "event_tokens ((tok, ty, x, y) # evs) = (ty, tok) # event_tokens evs"
  "event_tokens (evs @ evs') = event_tokens evs @ event_tokens evs'"
  by (simp_all add: event_tokens_def)

text \<open>
  In front of any text with property \<open>P\<close>, the lexer reads \<open>t\<close> as the tokens \<open>toks\<close> and is then at
  the start of a token.
\<close>

definition lexes ::
  "'s emitter \<Rightarrow> (string \<Rightarrow> bool) \<Rightarrow> string \<Rightarrow> (json_state \<times> string) list \<Rightarrow> bool" where
  "lexes emit P t toks \<longleftrightarrow>
     (\<forall>rest lx s. P rest \<longrightarrow> at_start lx \<longrightarrow>
        (\<exists>lx' evs. at_start lx' \<and> event_tokens evs = toks \<and>
           lex_run emit (t @ rest) (lx, s) = lex_run emit rest (lx', play emit evs s)))"

lemma lexesI:
  assumes "\<And>rest lx s. P rest \<Longrightarrow> at_start lx \<Longrightarrow>
    \<exists>lx' evs. at_start lx' \<and> event_tokens evs = toks \<and>
      lex_run emit (t @ rest) (lx, s) = lex_run emit rest (lx', play emit evs s)"
  shows "lexes emit P t toks"
  using assms by (simp add: lexes_def)

lemma lexesE:
  assumes "lexes emit P t toks" and "P rest" and "at_start lx"
  obtains lx' evs where "at_start lx'" and "event_tokens evs = toks"
    and "lex_run emit (t @ rest) (lx, s) = lex_run emit rest (lx', play emit evs s)"
  using assms unfolding lexes_def by blast

lemma lexes_Nil [simp]: "lexes emit P [] []"
  by (rule lexesI) (metis append_Nil event_tokens_simps(1) play_simps(1))

lemma lexes_append:
  assumes a: "lexes emit P t toks" and b: "lexes emit Q u toks'"
    and PQ: "\<And>rest. Q rest \<Longrightarrow> P (u @ rest)"
  shows "lexes emit Q (t @ u) (toks @ toks')"
proof (rule lexesI)
  fix rest lx s
  assume "Q rest" and "at_start lx"
  then obtain lx1 evs1 where 1: "at_start lx1" "event_tokens evs1 = toks"
    "lex_run emit (t @ u @ rest) (lx, s) = lex_run emit (u @ rest) (lx1, play emit evs1 s)"
    using lexesE [OF a PQ] by metis
  obtain lx2 evs2 where 2: "at_start lx2" "event_tokens evs2 = toks'"
    "lex_run emit (u @ rest) (lx1, play emit evs1 s) =
       lex_run emit rest (lx2, play emit evs2 (play emit evs1 s))"
    using lexesE [OF b \<open>Q rest\<close> 1(1)] by metis
  with 1 show "\<exists>lx' evs. at_start lx' \<and> event_tokens evs = toks @ toks' \<and>
      lex_run emit ((t @ u) @ rest) (lx, s) = lex_run emit rest (lx', play emit evs s)"
    by (intro exI [of _ lx2] exI [of _ "evs1 @ evs2"]) simp
qed

lemma lexes_weaken: "lexes emit P t toks \<Longrightarrow> (\<And>rest. Q rest \<Longrightarrow> P rest) \<Longrightarrow> lexes emit Q t toks"
  by (simp add: lexes_def)

section \<open>Runs through the table\<close>

fun rows :: "json_state \<Rightarrow> string \<Rightarrow> json_state \<Rightarrow> bool" where
  "rows st [] st' \<longleftrightarrow> st = st'"
| "rows st (c # cs) st' \<longleftrightarrow>
     row_state (json_lexer st (code c)) \<and> rows (json_lexer st (code c)) cs st'"

lemma rows_append: "rows st (s @ t) st'' \<longleftrightarrow> (\<exists>st'. rows st s st' \<and> rows st' t st'')"
  by (induction s arbitrary: st) auto

text \<open>The position counters after a character, and one character with them set.\<close>

definition advance :: "char \<Rightarrow> JSONLexer \<Rightarrow> JSONLexer" where
  "advance c lx =
     (if c = CHR 0x0A then lx\<lparr>lx_x := 0, lx_y := lx_y lx + 1\<rparr> else lx\<lparr>lx_x := lx_x lx + 1\<rparr>)"

lemma advance_simps [simp]:
  "lx_state (advance c lx) = lx_state lx"
  "lx_token (advance c lx) = lx_token lx"
  "advance c (lx\<lparr>lx_token := t, lx_state := st\<rparr>) = (advance c lx)\<lparr>lx_token := t, lx_state := st\<rparr>"
  by (simp_all add: advance_def)

lemma feed_char_advance:
  "json_lexer_feed_char emit c flush (lx, s) =
     (case feed_char_loop emit c flush (advance c lx) s of
        (True, lexer, s) \<Rightarrow> (lexer, s)
      | (False, lexer, s) \<Rightarrow>
          if length (lx_token lexer) > MAX_TOKEN_SIZE then
            (lexer\<lparr>lx_token := [], lx_state := IN_START\<rparr>,
             emit (lx_token lexer) (lx_state lexer) (lx_x lexer) (lx_y lexer) s)
          else (lexer, s))"
  unfolding json_lexer_feed_char_def by (simp add: Let_def advance_def)

lemma feed_char_row:
  assumes "row_state (json_lexer (lx_state lx) (code c))"
    and "length (lx_token lx) < MAX_TOKEN_SIZE"
  shows "\<exists>lx'. json_lexer_feed_char emit c False (lx, s) = (lx', s) \<and>
    lx_state lx' = json_lexer (lx_state lx) (code c) \<and> lx_token lx' = lx_token lx @ [c]"
  using assms by (auto simp: feed_char_advance feed_row)

lemma feed_rows:
  assumes "rows (lx_state lx) t st" and "length (lx_token lx) + length t \<le> MAX_TOKEN_SIZE"
  shows "\<exists>lx'. json_lexer_feed emit t (lx, s) = (lx', s) \<and>
    lx_state lx' = st \<and> lx_token lx' = lx_token lx @ t"
  using assms
proof (induction t arbitrary: lx)
  case (Cons c t)
  then obtain lx1 where "json_lexer_feed_char emit c False (lx, s) = (lx1, s)"
    "lx_state lx1 = json_lexer (lx_state lx) (code c)" "lx_token lx1 = lx_token lx @ [c]"
    using feed_char_row [of lx c emit s] by auto
  with Cons.IH [of lx1] Cons.prems show ?case by auto
qed simp

lemma json_lexer_feed_append:
  "json_lexer_feed emit (s @ t) ls = json_lexer_feed emit t (json_lexer_feed emit s ls)"
  by (induction s arbitrary: ls) auto

lemma lex_run_start: "at_start lx \<Longrightarrow> lex_run emit [] (lx, s) = s"
  by (simp add: lex_run_def json_lexer_flush_def at_start_def)

lemma lex_run_rows:
  assumes "rows IN_START t st" and "length t \<le> MAX_TOKEN_SIZE" and "at_start lx"
  obtains lx' where "lx_state lx' = st" and "lx_token lx' = t"
    and "\<And>rest. lex_run emit (t @ rest) (lx, s) = lex_run emit rest (lx', s)"
  using feed_rows [of lx t st emit s] assms
  by (auto simp: at_start_def lex_run_def json_lexer_feed_append)

text \<open>A token that its last character completes.\<close>

lemma lexes_consumed:
  assumes "rows IN_START t st" and "length t \<le> MAX_TOKEN_SIZE"
    and "json_lexer st (code c) = ty" and "token_state ty" and "json_lexer st 0 \<noteq> ty"
  shows "lexes emit (\<lambda>_. True) (t @ [c]) [(ty, t @ [c])]"
proof (rule lexesI)
  fix rest lx s
  assume "at_start lx"
  with assms(1,2) obtain lx1 where lx1: "lx_state lx1 = st" "lx_token lx1 = t"
    "\<And>rest. lex_run emit (t @ rest) (lx, s) = lex_run emit rest (lx1, s)"
    by (metis lex_run_rows)
  let ?lx2 = "advance c lx1"
  have "json_lexer_feed_char emit c False (lx1, s) =
      (?lx2\<lparr>lx_token := [], lx_state := IN_START\<rparr>, emit (t @ [c]) ty (lx_x ?lx2) (lx_y ?lx2) s)"
    using feed_token [of ?lx2 c ty emit False s] lx1 assms by (simp add: feed_char_advance)
  then show "\<exists>lx' evs. at_start lx' \<and> event_tokens evs = [(ty, t @ [c])] \<and>
      lex_run emit ((t @ [c]) @ rest) (lx, s) = lex_run emit rest (lx', play emit evs s)"
    by (intro exI [of _ "?lx2\<lparr>lx_token := [], lx_state := IN_START\<rparr>"]
        exI [of _ "[(t @ [c], ty, lx_x ?lx2, lx_y ?lx2)]"])
      (simp add: lx1(3) at_start_def, simp add: lex_run_def)
qed

text \<open>A token or blank space that ends before the next character, or at the end of the text.\<close>

definition goes_on :: "json_state \<Rightarrow> json_state \<Rightarrow> string \<Rightarrow> bool" where
  "goes_on st ty rest \<longleftrightarrow> (case rest of [] \<Rightarrow> True | c # _ \<Rightarrow> json_lexer st (code c) = ty)"

lemma lexes_lookahead:
  assumes t: "rows IN_START t st" "length t \<le> MAX_TOKEN_SIZE" "st \<noteq> IN_START"
    and ty: "json_lexer st 0 = ty" "token_state ty"
  shows "lexes emit (goes_on st ty) t [(ty, t)]"
proof (rule lexesI)
  fix rest lx s
  assume rest: "goes_on st ty rest" and "at_start lx"
  with t(1,2) obtain lx1 where lx1: "lx_state lx1 = st" "lx_token lx1 = t"
    "\<And>rest. lex_run emit (t @ rest) (lx, s) = lex_run emit rest (lx1, s)"
    by (metis lex_run_rows)
  define c where "c = (case rest of [] \<Rightarrow> CHR 0x00 | c # _ \<Rightarrow> c)"
  have c: "json_lexer st (code c) = ty" using rest ty by (simp add: goes_on_def c_def split: list.splits)
  let ?lx2 = "advance c lx1" and ?lx0 = "lx1\<lparr>lx_token := [], lx_state := IN_START\<rparr>"
  let ?s' = "emit t ty (lx_x ?lx2) (lx_y ?lx2) s"
  have loop: "feed_char_loop emit c flush ?lx2 s =
    (if flush then (False, advance c ?lx0, ?s')
     else feed_char_loop emit c flush (advance c ?lx0) ?s')" for flush
    using feed_lookahead [of ?lx2 c ty emit flush s] c ty lx1 by (simp add: Let_def)
  have "lex_run emit rest (lx1, s) = lex_run emit rest (?lx0, ?s')"
  proof (cases rest)
    case Nil
    then show ?thesis
      using loop [of True] lx1 t(3)
      by (simp add: lex_run_def json_lexer_flush_def feed_char_advance c_def)
  next
    case (Cons c' cs)
    then have "json_lexer_feed_char emit c False (lx1, s) = json_lexer_feed_char emit c False (?lx0, ?s')"
      using loop [of False] by (simp add: feed_char_advance)
    with Cons show ?thesis by (simp add: lex_run_def c_def)
  qed
  with lx1(3) show "\<exists>lx' evs. at_start lx' \<and> event_tokens evs = [(ty, t)] \<and>
      lex_run emit (t @ rest) (lx, s) = lex_run emit rest (lx', play emit evs s)"
    by (intro exI [of _ ?lx0] exI [of _ "[(t, ty, lx_x ?lx2, lx_y ?lx2)]"])
      (simp add: at_start_def)
qed

lemma lexes_skip:
  assumes t: "rows IN_START t st" "length t \<le> MAX_TOKEN_SIZE" "st \<noteq> IN_START"
    and ty: "json_lexer st 0 = JSON_SKIP"
  shows "lexes emit (goes_on st JSON_SKIP) t []"
proof (rule lexesI)
  fix rest lx s
  assume rest: "goes_on st JSON_SKIP rest" and "at_start lx"
  with t(1,2) obtain lx1 where lx1: "lx_state lx1 = st" "lx_token lx1 = t"
    "\<And>rest. lex_run emit (t @ rest) (lx, s) = lex_run emit rest (lx1, s)"
    by (metis lex_run_rows)
  define c where "c = (case rest of [] \<Rightarrow> CHR 0x00 | c # _ \<Rightarrow> c)"
  have c: "json_lexer st (code c) = JSON_SKIP"
    using rest ty by (simp add: goes_on_def c_def split: list.splits)
  let ?lx2 = "advance c lx1" and ?lx0 = "lx1\<lparr>lx_token := [], lx_state := IN_START\<rparr>"
  have loop: "feed_char_loop emit c flush ?lx2 s =
    (if flush then (False, advance c ?lx0, s)
     else feed_char_loop emit c flush (advance c ?lx0) s)" for flush
    using feed_skip [of ?lx2 c emit flush s] c lx1 by (simp add: Let_def)
  have "lex_run emit rest (lx1, s) = lex_run emit rest (?lx0, s)"
  proof (cases rest)
    case Nil
    then show ?thesis
      using loop [of True] lx1 t(3)
      by (simp add: lex_run_def json_lexer_flush_def feed_char_advance c_def)
  next
    case (Cons c' cs)
    then have "json_lexer_feed_char emit c False (lx1, s) = json_lexer_feed_char emit c False (?lx0, s)"
      using loop [of False] by (simp add: feed_char_advance)
    with Cons show ?thesis by (simp add: lex_run_def c_def)
  qed
  with lx1(3) show "\<exists>lx' evs. at_start lx' \<and> event_tokens evs = [] \<and>
      lex_run emit (t @ rest) (lx, s) = lex_run emit rest (lx', play emit evs s)"
    by (intro exI [of _ ?lx0] exI [of _ "[]"]) (simp add: at_start_def)
qed

section \<open>Tokens of the printer\<close>

text \<open>What can follow a number or a keyword in a printed text, and what can follow blank space.\<close>

definition delim :: "string \<Rightarrow> bool" where
  "delim rest \<longleftrightarrow>
     (case rest of [] \<Rightarrow> True | c # _ \<Rightarrow> c \<in> {CHR '','', CHR ''}'', CHR '']'', CHR 0x0A})"

definition solid :: "string \<Rightarrow> bool" where
  "solid rest \<longleftrightarrow> (case rest of [] \<Rightarrow> True | c # _ \<Rightarrow> code c \<le> 0x7F \<and> \<not> space_code (code c))"

lemma lexes_operator:
  assumes "operator_code (code c)"
  shows "lexes emit (\<lambda>_. True) [c] [op_token c]"
proof -
  have "json_lexer IN_START (code c) = JSON_OPERATOR"
    using assms by (auto simp: lex_simps code_ranges)
  then show ?thesis
    using lexes_consumed [of "[]" IN_START c JSON_OPERATOR emit] json_lexer_START_NUL
    by (simp add: token_state_def)
qed

lemma rows_spaces:
  "\<forall>c \<in> set t. space_code (code c) \<Longrightarrow> rows IN_WHITESPACE t IN_WHITESPACE"
  by (induction t) (auto simp: lex_simps row_state_def token_state_def)

lemma lexes_spaces:
  assumes "\<forall>c \<in> set t. space_code (code c)" and "length t \<le> MAX_TOKEN_SIZE"
  shows "lexes emit solid t []"
proof (cases t)
  case (Cons c cs)
  have "space_code (code c)" using assms Cons by simp
  then have "json_lexer IN_START (code c) = IN_WHITESPACE"
    by (auto simp: lex_simps code_ranges)
  with assms Cons rows_spaces [of cs] have "rows IN_START t IN_WHITESPACE"
    by (simp add: row_state_def token_state_def)
  moreover have "goes_on IN_WHITESPACE JSON_SKIP rest" if "solid rest" for rest
    using that by (auto simp: goes_on_def solid_def lex_simps TERMINAL_def split: list.splits)
  moreover have "json_lexer IN_WHITESPACE 0 = JSON_SKIP"
    by (simp add: lex_simps TERMINAL_def code_ranges)
  ultimately show ?thesis
    using assms(2) by (intro lexes_weaken [OF lexes_skip]) auto
qed simp

lemma delim_goes_on:
  "delim rest \<Longrightarrow> st \<in> {IN_ZERO, IN_NONZERO_NUMBER} \<Longrightarrow> goes_on st JSON_INTEGER rest"
  "delim rest \<Longrightarrow> goes_on IN_KEYWORD JSON_KEYWORD rest"
proof -
  assume rest: "delim rest"
  have row: "json_lexer st (code c) = ty"
    if "c \<in> {CHR '','', CHR ''}'', CHR '']'', CHR 0x0A}"
      and "(st, ty) \<in> {(IN_ZERO, JSON_INTEGER), (IN_NONZERO_NUMBER, JSON_INTEGER), (IN_KEYWORD, JSON_KEYWORD)}"
    for c st ty
    using that by (elim insertE emptyE) (simp_all add: lex_simps TERMINAL_def code_ranges)
  show "goes_on st JSON_INTEGER rest" if "st \<in> {IN_ZERO, IN_NONZERO_NUMBER}"
    using rest that by (cases rest) (auto simp: goes_on_def delim_def intro!: row)
  show "goes_on IN_KEYWORD JSON_KEYWORD rest"
    using rest by (cases rest) (auto simp: goes_on_def delim_def intro!: row)
qed

lemma rows_digits:
  "\<forall>c \<in> set t. is_digit c \<Longrightarrow> rows IN_NONZERO_NUMBER t IN_NONZERO_NUMBER"
  by (induction t)
    (auto simp: lex_simps row_state_def token_state_def dec_code_def is_digit_def)

lemma rows_show_nat:
  assumes "st = IN_START \<or> st = IN_NEG_NONZERO_NUMBER"
  shows "\<exists>st'. rows st (show_nat n) st' \<and> st' \<in> {IN_ZERO, IN_NONZERO_NUMBER}"
proof (cases "n = 0")
  case True
  have "json_lexer st 48 = IN_ZERO" using assms by (auto simp: lex_simps)
  with True show ?thesis by (auto simp: show_nat_0 row_state_def token_state_def)
next
  case False
  obtain c cs where s: "show_nat n = c # cs" by (cases "show_nat n") auto
  have "is_digit c" "49 \<le> code c" "\<forall>x \<in> set cs. is_digit x"
    using s False show_nat_digits [of _ n] hd_show_nat [of n] by auto
  then have "json_lexer st (code c) = IN_NONZERO_NUMBER" and "rows IN_NONZERO_NUMBER cs IN_NONZERO_NUMBER"
    using assms rows_digits by (auto simp: lex_simps is_digit_def dec_code_def)
  with s show ?thesis by (auto simp: row_state_def token_state_def)
qed

lemma rows_show_int: "\<exists>st. rows IN_START (show_int i) st \<and> st \<in> {IN_ZERO, IN_NONZERO_NUMBER}"
proof (cases "i < 0")
  case True
  have "json_lexer IN_START 45 = IN_NEG_NONZERO_NUMBER" by (simp add: lex_simps code_ranges)
  with True rows_show_nat [of IN_NEG_NONZERO_NUMBER "nat (- i)"] show ?thesis
    by (auto simp: show_int_def row_state_def token_state_def)
next
  case False
  with rows_show_nat [of IN_START "nat i"] show ?thesis by (simp add: show_int_def)
qed

lemma lexes_int:
  assumes "length (fmt_PRId64 v) \<le> MAX_TOKEN_SIZE"
  shows "lexes emit delim (fmt_PRId64 v) [(JSON_INTEGER, fmt_PRId64 v)]"
proof -
  obtain st where st: "rows IN_START (fmt_PRId64 v) st" "st \<in> {IN_ZERO, IN_NONZERO_NUMBER}"
    using rows_show_int unfolding fmt_PRId64_def by blast
  then have "json_lexer st 0 = JSON_INTEGER" by (auto simp: lex_simps TERMINAL_def code_ranges)
  with st assms show ?thesis
    by (intro lexes_weaken [OF lexes_lookahead [of _ st]])
      (auto simp: token_state_def delim_goes_on)
qed

lemma lexes_bool:
  "lexes emit delim (if b then ''true'' else ''false'') [(JSON_KEYWORD, if b then ''true'' else ''false'')]"
proof -
  have "rows IN_START ''true'' IN_KEYWORD" "rows IN_START ''false'' IN_KEYWORD"
    by (simp_all add: lex_simps code_ranges row_state_def token_state_def)
  then show ?thesis
    by (intro lexes_weaken [OF lexes_lookahead [of _ IN_KEYWORD]])
      (auto simp: token_state_def delim_goes_on lex_simps TERMINAL_def code_ranges MAX_TOKEN_SIZE_def)
qed

lemma rows_u_escape: "rows IN_DQ_STRING (u_escape v) IN_DQ_STRING"
proof -
  obtain a b c d where "u_escape v = [CHR 0x5C, CHR ''u'', a, b, c, d]"
    "hex_code (code a)" "hex_code (code b)" "hex_code (code c)" "hex_code (code d)"
    using u_escape_shape by blast
  then show ?thesis by (simp add: lex_simps row_state_def token_state_def)
qed

lemma rows_escaped_char: "c \<noteq> CHR 0x00 \<Longrightarrow> rows IN_DQ_STRING (escaped_char c) IN_DQ_STRING"
proof (cases "c \<in> {CHR 0x22, CHR 0x5C, CHR 0x08, CHR 0x0C, CHR 0x0A, CHR 0x0D, CHR 0x09}")
  case True
  then show ?thesis
    by (elim insertE emptyE) (simp_all add: escaped_char_def lex_simps row_state_def token_state_def)
next
  case False
  moreover assume "c \<noteq> CHR 0x00"
  ultimately have "code c \<noteq> 0" "code c \<noteq> 34" "code c \<noteq> 92" by (auto simp: code_cases NUL_code)
  moreover have "signed_char c \<le> 0x1F" if "\<not> code c < 128"
  proof -
    have "signed_char c = int (code c) - 256" using that by (simp add: signed_char_def)
    with code_less_256 [of c] show ?thesis by linarith
  qed
  then have "escaped_char c = u_escape (word_of_int (signed_char c)) \<or>
      escaped_char c = [c] \<and> code c < 128"
    using False by (auto simp: escaped_char_def)
  ultimately show ?thesis
    using rows_u_escape by (auto simp: lex_simps text_code_def row_state_def token_state_def)
qed

lemma rows_string_loop:
  "CHR 0x00 \<notin> set s \<Longrightarrow> rows IN_DQ_STRING (string_loop s []) IN_DQ_STRING"
proof (induction s rule: length_induct)
  case (1 s)
  show ?case
  proof (cases s)
    case (Cons c ptr)
    define step where "step = (if byte c AND 0xE0 = 0xE0 \<and> byte (char_at ptr 0) AND 0x80 \<noteq> 0 \<and>
        byte (char_at ptr 1) AND 0x80 \<noteq> 0
      then (drop 2 ptr, u_escape (ucast (wchar3 c (char_at ptr 0) (char_at ptr 1))))
      else if byte c AND 0xE0 = 0xC0 \<and> byte (char_at ptr 0) AND 0x80 \<noteq> 0
      then (drop 1 ptr, u_escape (ucast (wchar2 c (char_at ptr 0))))
      else (ptr, escaped_char c))"
    have "string_loop s [] = string_loop (fst step) (snd step)"
      by (simp add: Cons Let_def step_def wchar2_def wchar3_def)
    then have "string_loop s [] = snd step @ string_loop (fst step) []"
      using string_loop_append [of "fst step" "snd step" "[]"] by simp
    moreover have "rows IN_DQ_STRING (snd step) IN_DQ_STRING"
      using rows_escaped_char [of c] rows_u_escape "1.prems" Cons by (auto simp: step_def)
    moreover have "length (fst step) < length s" "CHR 0x00 \<notin> set (fst step)"
      using "1.prems" Cons by (auto simp: step_def dest: in_set_dropD)
    ultimately show ?thesis using "1.IH" by (auto simp: rows_append)
  qed simp
qed

lemma lexes_string:
  assumes "length (to_json_string k []) \<le> MAX_TOKEN_SIZE"
  shows "lexes emit (\<lambda>_. True) (to_json_string k []) [(JSON_STRING, to_json_string k [])]"
proof -
  let ?t = "CHR 0x22 # string_loop (cstr k) []"
  have eq: "to_json_string k [] = ?t @ [CHR 0x22]"
    using string_loop_append [of "cstr k" "[CHR 0x22]" "[]"] by (simp add: to_json_string_def)
  have "CHR 0x00 \<notin> set (cstr k)" by (auto simp: cstr_def dest: set_takeWhileD)
  then have "rows IN_START ?t IN_DQ_STRING"
    using rows_string_loop by (simp add: lex_simps row_state_def token_state_def)
  moreover have "json_lexer IN_DQ_STRING (code (CHR 0x22)) = JSON_STRING"
    "json_lexer IN_DQ_STRING 0 \<noteq> JSON_STRING"
    by (simp_all add: lex_simps text_code_def)
  ultimately show ?thesis
    unfolding eq using assms eq
    by (intro lexes_consumed) (simp_all add: token_state_def)
qed

section \<open>Lexing a printed object\<close>

lemma newline_spaces: "c \<in> set (newline p i) \<Longrightarrow> space_code (code c)"
  by (auto simp: newline_def blanks_def space_code_def split: if_splits)

lemma lexes_blank:
  assumes "length (t @ newline p i) \<le> MAX_TOKEN_SIZE" and "t = [] \<or> t = '' ''"
  shows "lexes emit solid (t @ newline p i) []"
  using assms(2) by (intro lexes_spaces assms(1)) (auto simp: newline_spaces, simp add: space_code_def)

lemma lexes_close:
  assumes "length (newline p i @ [c]) \<le> MAX_TOKEN_SIZE" and "c = CHR '']'' \<or> c = CHR ''}''"
  shows "lexes emit (\<lambda>_. True) (newline p i @ [c]) [op_token c]"
proof -
  have "lexes emit solid ([] @ newline p i) []" using assms by (intro lexes_blank) auto
  moreover have "lexes emit (\<lambda>_. True) [c] [op_token c]"
    using assms(2) by (intro lexes_operator) (auto simp: operator_code_def)
  ultimately show ?thesis
    using lexes_append [of emit solid "newline p i" "[]" "\<lambda>_. True" "[c]"] assms(2)
    by (auto simp: solid_def space_code_def)
qed

lemma delim_close: "c = CHR '']'' \<or> c = CHR ''}'' \<Longrightarrow> delim ((newline p i @ [c]) @ rest)"
  by (auto simp: delim_def newline_def)

definition element :: "'s emitter \<Rightarrow> string \<Rightarrow> (json_state \<times> string) list \<Rightarrow> bool" where
  "element emit t toks \<longleftrightarrow>
     lexes emit delim t toks \<and> (\<exists>c u. t = c # u \<and> code c \<le> 0x7F \<and> \<not> space_code (code c))"

lemma element_solid: "element emit t toks \<Longrightarrow> solid (t @ rest)"
  by (auto simp: element_def solid_def)

lemma delim_text_seq: "delim rest \<Longrightarrow> delim (text_seq p i False ts @ rest)"
  by (cases ts) (simp_all add: delim_def)

lemma lexes_text_seq:
  assumes "list_all2 (element emit) ts toks" and "length (text_seq p i first ts) \<le> MAX_TOKEN_SIZE"
  shows "lexes emit delim (text_seq p i first ts) (toks_seq first toks)"
  using assms
proof (induction ts toks arbitrary: first rule: list_all2_induct)
  case (Cons t ts tk tks)
  have "lexes emit delim (t @ text_seq p i False ts) (tk @ toks_seq False tks)"
    using Cons delim_text_seq by (intro lexes_append [where P = delim]) (auto simp: element_def)
  note tail = this
  have "lexes emit solid ((if first then [] else '', '') @ newline p i)
      (if first then [] else [op_token (CHR '','')])"
  proof (cases first)
    case True
    with Cons.prems lexes_blank [of "[]" p i emit] show ?thesis by simp
  next
    case False
    have "lexes emit (\<lambda>_. True) '','' [op_token (CHR '','')]"
      by (rule lexes_operator) (simp add: operator_code_def)
    moreover have "lexes emit solid ('' '' @ newline p i) []"
      using Cons.prems False by (intro lexes_blank) auto
    ultimately show ?thesis
      using lexes_append [of emit "\<lambda>_. True" "'',''" _ solid "'' '' @ newline p i"] False by fastforce
  qed
  then have "lexes emit delim (((if first then [] else '', '') @ newline p i) @ t @ text_seq p i False ts)
      ((if first then [] else [op_token (CHR '','')]) @ tk @ toks_seq False tks)"
    using Cons.hyps element_solid by (intro lexes_append [OF _ tail]) force+
  then show ?case by simp
qed simp

lemma lexes_container:
  assumes "list_all2 (element emit) ts toks"
    and "opn = CHR ''['' \<and> c = CHR '']'' \<or> opn = CHR ''{'' \<and> c = CHR ''}''"
    and "length (opn # text_seq p (Suc i) True ts @ newline p i @ [c]) \<le> MAX_TOKEN_SIZE"
  shows "element emit (opn # text_seq p (Suc i) True ts @ newline p i @ [c])
    (op_token opn # toks_seq True toks @ [op_token c])"
proof -
  have body: "lexes emit (\<lambda>_. True) (text_seq p (Suc i) True ts @ newline p i @ [c])
      (toks_seq True toks @ [op_token c])"
    using assms delim_close
    by (intro lexes_append [OF lexes_text_seq lexes_close]) (auto simp del: append_assoc)
  have "lexes emit (\<lambda>_. True) [opn] [op_token opn]"
    using assms(2) by (intro lexes_operator) (auto simp: operator_code_def)
  from lexes_append [OF this body]
  have "lexes emit (\<lambda>_. True) (opn # text_seq p (Suc i) True ts @ newline p i @ [c])
      (op_token opn # toks_seq True toks @ [op_token c])"
    by simp
  then show ?thesis
    using assms(2) unfolding element_def
    by (auto intro: lexes_weaken simp: space_code_def)
qed

lemma length_text_seq: "t \<in> set ts \<Longrightarrow> length t \<le> length (text_seq p i first ts)"
proof (induction ts arbitrary: first)
  case (Cons u ts)
  then consider "t = u" | "length t \<le> length (text_seq p i False ts)" by auto
  then show ?case by cases auto
qed simp

lemma element_pair:
  assumes v: "element emit t toks" and len: "length (to_json_string k []) \<le> MAX_TOKEN_SIZE"
  shows "element emit (to_json_string k [] @ '': '' @ t) (key_toks k @ toks)"
proof -
  have k: "lexes emit (\<lambda>_. True) (to_json_string k []) [(JSON_STRING, to_json_string k [])]"
    using len by (rule lexes_string)
  have c: "lexes emit (\<lambda>_. True) '':'' [op_token (CHR '':'')]"
    by (rule lexes_operator) (simp add: operator_code_def)
  have s: "lexes emit solid '' '' []"
    by (rule lexes_spaces) (simp_all add: space_code_def MAX_TOKEN_SIZE_def)
  have "lexes emit delim ('' '' @ t) ([] @ toks)"
    using v element_solid [OF v] by (intro lexes_append [OF s]) (auto simp: element_def)
  from lexes_append [OF c this] have "lexes emit delim ('':'' @ '' '' @ t) (op_token (CHR '':'') # toks)"
    by simp
  from lexes_append [OF k this]
  have "lexes emit delim (to_json_string k [] @ '': '' @ t) (key_toks k @ toks)"
    by (simp add: key_toks_def)
  moreover obtain u where "to_json_string k [] = CHR 0x22 # u"
    using string_loop_append [of "cstr k" "[CHR 0x22]" "[]"] by (simp add: to_json_string_def)
  ultimately show ?thesis by (simp add: element_def space_code_def)
qed

lemma element_of_lexes:
  "lexes emit P (c # u) toks \<Longrightarrow> (\<And>rest. delim rest \<Longrightarrow> P rest) \<Longrightarrow> code c \<le> 0x7F \<Longrightarrow>
   \<not> space_code (code c) \<Longrightarrow> element emit (c # u) toks"
  by (auto simp: element_def intro: lexes_weaken)

lemma show_int_hd: "\<exists>c u. show_int i = c # u \<and> code c \<le> 0x7F \<and> \<not> space_code (code c)"
proof (cases "i < 0")
  case True
  then show ?thesis by (simp add: show_int_def space_code_def)
next
  case False
  obtain c u where "show_nat (nat i) = c # u" by (cases "show_nat (nat i)") auto
  with False show_nat_digits [of c "nat i"] show ?thesis
    by (auto simp: show_int_def is_digit_def space_code_def)
qed

lemma value_element:
  "printable obj \<Longrightarrow> length (to_json obj [] p i) \<le> MAX_TOKEN_SIZE \<Longrightarrow>
   element emit (to_json obj [] p i) (otoks obj)"
proof (induction obj arbitrary: i rule: qobject_induct)
  case (QInt v)
  with lexes_int [of v emit] show_int_hd [of "sint v"] show ?case
    by (auto simp: element_def fmt_PRId64_def)
next
  case (QString s)
  obtain u where u: "to_json_string s [] = CHR 0x22 # u"
    using string_loop_append [of "cstr s" "[CHR 0x22]" "[]"] by (simp add: to_json_string_def)
  with QString lexes_string [of s emit] show ?case
    by (auto simp: space_code_def intro!: element_of_lexes)
next
  case (QDict d)
  let ?t = "\<lambda>(k, v). to_json_string k [] @ '': '' @ to_json v [] p (Suc i)"
  have "element emit (?t e) (case e of (k, v) \<Rightarrow> key_toks k @ otoks v)"
    if e: "e \<in> set (qdict_entries d)" for e
  proof -
    obtain k v where kv: "e = (k, v)" by (cases e)
    have "length (?t e) \<le> MAX_TOKEN_SIZE"
      using QDict.prems(2) length_text_seq [of "?t e" "map ?t (qdict_entries d)" p "Suc i" True] e
      by (simp add: to_json_QDict del: to_json.simps)
    moreover have "printable v" using QDict.prems(1) e kv by (auto simp: list_all_iff)
    ultimately show ?thesis
      using QDict.IH [of k v "Suc i"] e kv element_pair [of emit _ _ k] by simp
  qed
  then have "list_all2 (element emit) (map ?t (qdict_entries d))
      (map (\<lambda>(k, v). key_toks k @ otoks v) (qdict_entries d))"
    by (simp add: list.rel_map list_all2_same)
  from lexes_container [OF this, of "CHR ''{''" "CHR ''}''" p i] QDict.prems(2) show ?case
    by (simp add: to_json_QDict del: to_json.simps)
next
  case (QList xs)
  have "element emit (to_json x [] p (Suc i)) (otoks x)" if x: "x \<in> set xs" for x
    using QList.IH [OF x, of "Suc i"] QList.prems x
      length_text_seq [of "to_json x [] p (Suc i)" "map (\<lambda>x. to_json x [] p (Suc i)) xs" p "Suc i" True]
    by (simp add: to_json_QList list_all_iff del: to_json.simps)
  then have "list_all2 (element emit) (map (\<lambda>x. to_json x [] p (Suc i)) xs) (map otoks xs)"
    by (simp add: list.rel_map list_all2_same)
  from lexes_container [OF this, of "CHR ''[''" "CHR '']''" p i] QList.prems(2) show ?case
    by (simp add: to_json_QList del: to_json.simps)
next
  case (QBool b)
  with lexes_bool [of emit "b \<noteq> 0"] show ?case
    by (cases "b = 0") (auto simp: space_code_def intro!: element_of_lexes)
qed simp

end
