(* ===== verification/JsonMessages.thy ===== *)
theory JsonMessages
  imports JsonRoundtrip
begin

text \<open>
  The splitter on the tokens of a printed object: they are passed on as one message.
\<close>

section \<open>Counting brackets\<close>

fun count_token :: "json_state \<times> string \<Rightarrow> int \<times> int \<Rightarrow> int \<times> int" where
  "count_token (ty, tok) (b, k) =
     (if ty = JSON_OPERATOR then
        (if tok = ''{'' then (b + 1, k) else if tok = ''}'' then (b - 1, k)
         else if tok = ''['' then (b, k + 1) else if tok = '']'' then (b, k - 1) else (b, k))
      else (b, k))"

definition within :: "int \<times> int \<Rightarrow> bool" where
  "within bk \<longleftrightarrow> 0 \<le> fst bk \<and> fst bk \<le> MAX_NESTING \<and> 0 \<le> snd bk \<and> snd bk \<le> MAX_NESTING \<and>
     (fst bk \<noteq> 0 \<or> snd bk \<noteq> 0)"

definition plain_token :: "json_state \<times> string \<Rightarrow> bool" where
  "plain_token t \<longleftrightarrow> fst t \<noteq> JSON_ERROR \<and> (fst t = JSON_OPERATOR \<longrightarrow> length (snd t) = 1)"

text \<open>The tokens leave the counters within the limits all the way, and as they were.\<close>

fun inside :: "(json_state \<times> string) list \<Rightarrow> int \<times> int \<Rightarrow> bool" where
  "inside [] bk = True"
| "inside (t # ts) bk = (plain_token t \<and> within (count_token t bk) \<and> inside ts (count_token t bk))"

lemma inside_append: "inside (s @ t) bk \<longleftrightarrow> inside s bk \<and> inside t (fold count_token s bk)"
  by (induction s arbitrary: bk) auto

definition balanced :: "(json_state \<times> string) list \<Rightarrow> int \<times> int \<Rightarrow> bool" where
  "balanced ts bk \<longleftrightarrow> inside ts bk \<and> fold count_token ts bk = bk"

lemma balanced_append: "balanced s bk \<Longrightarrow> balanced t bk \<Longrightarrow> balanced (s @ t) bk"
  by (simp add: balanced_def inside_append)

lemma balanced_neutral:
  "within bk \<Longrightarrow> ty \<notin> {JSON_ERROR, JSON_OPERATOR} \<or> (ty, tok) \<in> {op_token (CHR '',''), op_token (CHR '':'')} \<Longrightarrow>
   balanced [(ty, tok)] bk"
  by (cases bk) (auto simp: balanced_def plain_token_def)

lemma balanced_toks_seq:
  "within bk \<Longrightarrow> (\<And>t. t \<in> set ts \<Longrightarrow> balanced t bk) \<Longrightarrow> balanced (toks_seq first ts) bk"
proof (induction ts arbitrary: first)
  case Nil
  show ?case by (simp add: balanced_def)
next
  case (Cons t ts)
  moreover have "balanced (if first then [] else [op_token (CHR '','')]) bk"
    using Cons.prems(1) balanced_neutral by (auto simp: balanced_def plain_token_def)
  ultimately show ?case by (simp add: balanced_append)
qed

definition room :: "nat \<Rightarrow> int \<times> int \<Rightarrow> bool" where
  "room n bk \<longleftrightarrow> within bk \<and> fst bk + int n \<le> MAX_NESTING \<and> snd bk + int n \<le> MAX_NESTING"

lemma balanced_object: "room (nesting obj) bk \<Longrightarrow> balanced (otoks obj) bk"
proof (induction obj arbitrary: bk rule: qobject_induct)
  case (QDict d)
  obtain b k where bk: "bk = (b, k)" by (cases bk)
  let ?mid = "toks_seq True (map (\<lambda>(k, v). key_toks k @ otoks v) (qdict_entries d))"
  have w: "within (b + 1, k)" using QDict.prems by (auto simp: room_def within_def bk)
  have "balanced (otoks v) (b + 1, k)" if "(key, v) \<in> set (qdict_entries d)" for key v
    using nesting_entry [OF that] QDict.prems
    by (intro QDict.IH [OF that]) (auto simp: room_def within_def bk)
  then have "balanced ?mid (b + 1, k)"
    using w by (intro balanced_toks_seq w)
      (auto simp: key_toks_def balanced_neutral intro!: balanced_append [of "[_, _]", simplified]
        balanced_append [of "[_]" _ "[_]", simplified])
  with w QDict.prems show ?case
    by (simp add: bk balanced_def inside_append plain_token_def room_def)
next
  case (QList xs)
  obtain b k where bk: "bk = (b, k)" by (cases bk)
  have w: "within (b, k + 1)" using QList.prems by (auto simp: room_def within_def bk)
  have "balanced (otoks x) (b, k + 1)" if "x \<in> set xs" for x
    using nesting_element [OF that] QList.prems
    by (intro QList.IH [OF that]) (auto simp: room_def within_def bk)
  then have "balanced (toks_seq True (map otoks xs)) (b, k + 1)"
    using w by (intro balanced_toks_seq) auto
  with w QList.prems show ?case
    by (simp add: bk balanced_def inside_append plain_token_def room_def)
qed (auto simp: room_def intro: balanced_neutral, simp add: balanced_def)

section \<open>The splitter\<close>

definition event_object :: "event \<Rightarrow> qobject" where
  "event_object ev = (case ev of (tok, ty, x, y) \<Rightarrow> token_object tok ty x y)"

definition event_size :: "event list \<Rightarrow> nat" where
  "event_size evs = sum_list (map (\<lambda>(tok, ty, x, y). length tok) evs)"

abbreviation mp_counts :: "'s JSONMessageParser \<Rightarrow> int \<times> int" where
  "mp_counts p \<equiv> (mp_brace_count p, mp_bracket_count p)"

lemma count_operator_counts:
  assumes "plain_token (ty, tok)"
  shows "mp_counts (count_operator tok ty p) = count_token (ty, tok) (mp_counts p)"
proof (cases "ty = JSON_OPERATOR")
  case True
  with assms obtain c where "tok = [c]" by (auto simp: plain_token_def length_Suc_conv)
  with True show ?thesis by (simp add: count_operator_def)
qed (simp add: count_operator_def)

lemma process_inside:
  assumes "plain_token (ty, tok)" and "within (count_token (ty, tok) (mp_counts p))"
    and "mp_token_size p + length tok \<le> MAX_TOKEN_SIZE"
  shows "\<exists>p'. json_message_process_token emit tok ty x y p = p' \<and>
    mp_counts p' = count_token (ty, tok) (mp_counts p) \<and>
    mp_tokens p' = mp_tokens p @ [token_object tok ty x y] \<and>
    mp_token_size p' = mp_token_size p + length tok \<and> mp_client p' = mp_client p"
proof -
  obtain b k where bk: "count_token (ty, tok) (mp_counts p) = (b, k)" by (metis surj_pair)
  have q: "mp_brace_count (count_operator tok ty p) = b" "mp_bracket_count (count_operator tok ty p) = k"
    using count_operator_counts [OF assms(1), of p] bk by simp_all
  have "0 \<le> b" "b \<le> MAX_NESTING" "0 \<le> k" "k \<le> MAX_NESTING" "\<not> (b = 0 \<and> k = 0)" "ty \<noteq> JSON_ERROR"
    using assms bk by (simp_all add: within_def plain_token_def)
  then have "json_message_process_token emit tok ty x y p =
      (count_operator tok ty p)\<lparr>mp_token_size := mp_token_size p + length tok,
        mp_tokens := mp_tokens p @ [token_object tok ty x y]\<rparr>"
    using assms(3) by (auto simp: json_message_process_token_def Let_def q qlist_append_obj_def)
  then show ?thesis by (simp add: q bk del: count_token.simps)
qed

lemma play_inside:
  assumes "inside (event_tokens evs) (mp_counts p)"
    and "mp_token_size p + event_size evs \<le> MAX_TOKEN_SIZE"
  shows "\<exists>p'. play (json_message_process_token emit) evs p = p' \<and>
    mp_counts p' = fold count_token (event_tokens evs) (mp_counts p) \<and>
    mp_tokens p' = mp_tokens p @ map event_object evs \<and>
    mp_token_size p' = mp_token_size p + event_size evs \<and> mp_client p' = mp_client p"
  using assms
proof (induction evs arbitrary: p)
  case (Cons ev evs)
  obtain tok ty x y where ev: "ev = (tok, ty, x, y)" by (cases ev)
  let ?p = "json_message_process_token emit tok ty x y p"
  have p: "mp_counts ?p = count_token (ty, tok) (mp_counts p)"
    "mp_tokens ?p = mp_tokens p @ [token_object tok ty x y]"
    "mp_token_size ?p = mp_token_size p + length tok" "mp_client ?p = mp_client p"
    using process_inside [of ty tok p emit x y] Cons.prems ev by (auto simp: event_size_def)
  with Cons.IH [of ?p] Cons.prems ev show ?case
    by (auto simp: event_size_def event_object_def)
qed (simp add: event_size_def)

text \<open>A message ends with the token that brings both counters to zero.\<close>

lemma process_last:
  assumes "plain_token (ty, tok)" and "count_token (ty, tok) (mp_counts p) = (0, 0)"
  shows "mp_client (json_message_process_token emit tok ty x y p) =
    emit (Some (mp_tokens p @ [token_object tok ty x y])) (mp_client p)"
  using assms count_operator_counts [OF assms(1), of p]
  by (simp add: json_message_process_token_def Let_def plain_token_def qlist_append_obj_def
      del: count_token.simps)

lemma event_tokens_snoc:
  assumes "event_tokens evs = ts @ [t]"
  obtains evs' ev where "evs = evs' @ [ev]" and "event_tokens evs' = ts" and "event_tokens [ev] = [t]"
proof (cases evs rule: rev_cases)
  case (snoc evs' ev)
  with assms that show ?thesis by (cases ev) simp
qed (use assms in simp)

lemma otoks_message:
  assumes "nesting obj \<le> nat MAX_NESTING" and "printable obj"
  obtains ts t where "otoks obj = ts @ [t]" and "inside ts (0, 0)" and "plain_token t"
    and "count_token t (fold count_token ts (0, 0)) = (0, 0)"
proof (cases obj)
  case (QDict d)
  let ?mid = "toks_seq True (map (\<lambda>(k, v). key_toks k @ otoks v) (qdict_entries d))"
  have w: "within (1, 0)" by (simp add: within_def MAX_NESTING_def)
  have "room (nesting v) (1, 0)" if "(k, v) \<in> set (qdict_entries d)" for k v
    using nesting_entry [OF that] assms(1) QDict w by (auto simp: room_def MAX_NESTING_def)
  then have "balanced ?mid (1, 0)"
    using w balanced_object
    by (intro balanced_toks_seq) (auto simp: key_toks_def balanced_neutral
        intro!: balanced_append [of "[_, _]", simplified] balanced_append [of "[_]" _ "[_]", simplified])
  then show ?thesis
    using that [of "op_token (CHR ''{'') # ?mid" "op_token (CHR ''}'')"] QDict w
    by (simp add: balanced_def plain_token_def)
next
  case (QList xs)
  let ?mid = "toks_seq True (map otoks xs)"
  have w: "within (0, 1)" by (simp add: within_def MAX_NESTING_def)
  have "room (nesting x) (0, 1)" if "x \<in> set xs" for x
    using nesting_element [OF that] assms(1) QList w by (auto simp: room_def MAX_NESTING_def)
  then have "balanced ?mid (0, 1)" using w balanced_object by (intro balanced_toks_seq) auto
  then show ?thesis
    using that [of "op_token (CHR ''['') # ?mid" "op_token (CHR '']'')"] QList w
    by (simp add: balanced_def plain_token_def)
qed (use that [of "[]"] assms in \<open>auto simp: plain_token_def\<close>)

lemma play_message:
  assumes "nesting obj \<le> nat MAX_NESTING" and "printable obj" and "event_tokens evs = otoks obj"
    and "event_size evs \<le> MAX_TOKEN_SIZE" and p: "p = snd (json_message_parser_init c)"
  shows "mp_client (play (json_message_process_token emit) evs p) = emit (Some (map event_object evs)) c"
proof -
  obtain ts t where t: "otoks obj = ts @ [t]" "inside ts (0, 0)" "plain_token t"
    "count_token t (fold count_token ts (0, 0)) = (0, 0)"
    by (rule otoks_message [OF assms(1,2)])
  then obtain evs' ev where ev: "evs = evs' @ [ev]" "event_tokens evs' = ts" "event_tokens [ev] = [t]"
    using event_tokens_snoc assms(3) by metis
  obtain tok ty x y where tok: "ev = (tok, ty, x, y)" "t = (ty, tok)" using ev(3) by (cases ev) auto
  have p0: "mp_counts p = (0, 0)" "mp_tokens p = []" "mp_token_size p = 0" "mp_client p = c"
    by (simp_all add: p json_message_parser_init_def qlist_new_def)
  let ?q = "play (json_message_process_token emit) evs' p"
  have q: "mp_counts ?q = fold count_token ts (0, 0)" "mp_tokens ?q = map event_object evs'"
    "mp_client ?q = c"
    using play_inside [of evs' p emit] p0 ev t assms(4) by (auto simp: event_size_def)
  have "mp_client (json_message_process_token emit tok ty x y ?q) =
      emit (Some (mp_tokens ?q @ [token_object tok ty x y])) (mp_client ?q)"
    using t tok q(1) by (intro process_last) simp_all
  then show ?thesis using q ev tok by (simp add: event_object_def)
qed

end
