(* ===== verification/JsonReparse.thy ===== *)
theory JsonReparse
  imports JsonMessages
begin

text \<open>
  The parser on the tokens of a printed object, and the round trip through printer and reader.
\<close>

section \<open>Dispatch on the first token\<close>

lemma char_at_simps [simp]: "char_at (c # s) 0 = c" "char_at [c] (Suc 0) = CHR 0x00" "char_at [] n = CHR 0x00"
  by (simp_all add: char_at_def)

lemma operator_token [tok_simps]:
  "carries t JSON_OPERATOR [c] \<Longrightarrow> token_is_operator t d = Inr (c = d)"
  by (simp add: carries_tests)

lemma not_operator [tok_simps]:
  "carries t ty tok \<Longrightarrow> ty \<noteq> JSON_OPERATOR \<Longrightarrow> token_is_operator t d = Inr False"
  by (simp add: carries_tests)

lemma match_no_escape:
  "carries t ty tok \<Longrightarrow> ty \<noteq> JSON_ESCAPE \<Longrightarrow> match_escape t es = Inr None"
  by (induction es) (simp_all add: tok_simps)

lemma parse_object_other:
  "token_is_operator t (CHR ''{'') = Inr False \<Longrightarrow> parse_object pv (t # ts) ap = Inr (None, t # ts, ap)"
  by (simp add: parse_object_def)

lemma parse_array_other:
  "token_is_operator t (CHR ''['') = Inr False \<Longrightarrow> parse_array pv (t # ts) ap = Inr (None, t # ts, ap)"
  by (simp add: parse_array_def)

lemma parse_escape_other:
  "carries t ty tok \<Longrightarrow> ty \<noteq> JSON_ESCAPE \<Longrightarrow> parse_escape (t # ts) ap = Inr (None, t # ts, ap)"
  by (simp add: parse_escape_def match_no_escape del: match_escape.simps split: option.splits)

lemma parse_keyword_other:
  "carries t ty tok \<Longrightarrow> ty \<noteq> JSON_KEYWORD \<Longrightarrow> parse_keyword (t # ts) ap = Inr (None, t # ts, ap)"
  by (simp add: parse_keyword_def tok_simps)

lemma or_else_simps [simp]:
  "or_else (Inr (None, ts, ap)) rule = rule ts ap"
  "or_else (Inr (Some x, ts, ap)) rule = Inr (Some x, ts, ap)"
  by (simp_all add: or_else_def)

lemmas dispatch = parse_object_other parse_array_other parse_escape_other parse_keyword_other

lemma parse_value_literal:
  assumes "carries t ty tok" and "ty \<notin> {JSON_OPERATOR, JSON_ESCAPE, JSON_KEYWORD}"
  shows "parse_value (Suc n) (t # ts) ap = parse_literal (t # ts) ap"
  using assms dispatch not_operator [OF assms(1)] by auto

section \<open>Rebuilding an object\<close>

definition carried :: "qobject list \<Rightarrow> (json_state \<times> string) list \<Rightarrow> bool" where
  "carried os toks \<longleftrightarrow> list_all2 (\<lambda>obj (ty, tok). carries obj ty tok) os toks"

lemma carried_simps [simp]:
  "carried os [] \<longleftrightarrow> os = []"
  "carried os ((ty, tok) # toks) \<longleftrightarrow> (\<exists>obj os'. os = obj # os' \<and> carries obj ty tok \<and> carried os' toks)"
  by (auto simp: carried_def list_all2_Cons2)

lemma carried_append:
  "carried os (s @ t) \<longleftrightarrow> (\<exists>us vs. os = us @ vs \<and> carried us s \<and> carried vs t)"
  unfolding carried_def by (metis list_all2_append2 list_all2_appendI)

text \<open>A rule reads the tokens of an object back to an object with the same meaning.\<close>

definition rebuilds :: "rule \<Rightarrow> qobject \<Rightarrow> bool" where
  "rebuilds pv obj \<longleftrightarrow>
     (\<forall>os rest ap. carried os (otoks obj) \<longrightarrow>
        (\<exists>obj'. pv (os @ rest) ap = Inr (Some obj', rest, ap) \<and> denote obj' = denote obj))"

lemma rebuildsE:
  assumes "rebuilds pv obj" and "carried os (otoks obj)"
  obtains obj' where "pv (os @ rest) ap = Inr (Some obj', rest, ap)" and "denote obj' = denote obj"
  using assms unfolding rebuilds_def by blast

lemma array_loop_rebuilds:
  assumes "\<And>x. x \<in> set xs \<Longrightarrow> rebuilds pv x"
    and "carried os (toks_seq False (map otoks xs))" and "carries t JSON_OPERATOR '']''"
    and "length xs < n"
  shows "\<exists>ys. array_loop pv n acc tokens (os @ t # rest) ap = Inr (Some (QList (acc @ ys)), rest, ap) \<and>
    map denote ys = map denote xs"
  using assms
proof (induction xs arbitrary: os n acc)
  case Nil
  then obtain m where "n = Suc m" by (cases n) auto
  with Nil show ?case by (simp add: operator_token)
next
  case (Cons x xs)
  then obtain m where n: "n = Suc m" "length xs < m" by (cases n) auto
  from Cons.prems(2) obtain c us vs where os: "os = c # us @ vs" "carries c JSON_OPERATOR '',''"
    "carried us (otoks x)" "carried vs (toks_seq False (map otoks xs))"
    by (auto simp: carried_append)
  obtain y where y: "pv (us @ vs @ t # rest) ap = Inr (Some y, vs @ t # rest, ap)" "denote y = denote x"
    using Cons.prems(1) rebuildsE [of pv x us] os(3) by (metis list.set_intros(1))
  obtain ys where "array_loop pv m (qlist_append_obj acc y) tokens (vs @ t # rest) ap =
      Inr (Some (QList (qlist_append_obj acc y @ ys)), rest, ap)" "map denote ys = map denote xs"
    using Cons.IH [of vs m "qlist_append_obj acc y"] Cons.prems os(4) n(2) by auto
  with y os n show ?case
    by (intro exI [of _ "y # ys"]) (simp add: operator_token qlist_append_obj_def)
qed

lemma otoks_not_close:
  assumes "carried us (otoks x)" and "printable x"
  obtains p us' where "us = p # us'" and "token_is_operator p (CHR '']'') = Inr False"
    and "token_is_operator p (CHR ''}'') = Inr False"
proof -
  obtain ty tok toks where "otoks x = (ty, tok) # toks"
    "ty = JSON_OPERATOR \<longrightarrow> tok = ''['' \<or> tok = ''{''"
    using assms(2) by (cases x) auto
  with assms(1) that show ?thesis
    by (cases "ty = JSON_OPERATOR") (fastforce simp: tok_simps)+
qed

lemma length_toks_seq: "length ts \<le> length (toks_seq False ts)"
  by (induction ts) auto

lemma carried_length: "carried os toks \<Longrightarrow> length os = length toks"
  by (simp add: carried_def list_all2_lengthD)

lemma parse_array_rebuilds:
  assumes pv: "\<And>x. x \<in> set xs \<Longrightarrow> rebuilds pv x" and xs: "list_all printable xs"
    and os: "carried os (otoks (QList xs))"
  shows "\<exists>ys. parse_array pv (os @ rest) ap = Inr (Some (QList ys), rest, ap) \<and>
    map denote ys = map denote xs"
proof -
  from os obtain o1 ms c where os': "os = o1 # ms @ [c]" "carries o1 JSON_OPERATOR ''[''"
    "carried ms (toks_seq True (map otoks xs))" "carries c JSON_OPERATOR '']''"
    by (auto simp: carried_append)
  show ?thesis
  proof (cases xs)
    case Nil
    with os' show ?thesis by (simp add: parse_array_def operator_token qlist_new_def)
  next
    case (Cons x xs')
    from os'(3) Cons obtain us vs where ms: "ms = us @ vs" "carried us (otoks x)"
      "carried vs (toks_seq False (map otoks xs'))"
      by (auto simp: carried_append)
    obtain y where y: "pv (us @ vs @ c # rest) ap = Inr (Some y, vs @ c # rest, ap)" "denote y = denote x"
      using pv rebuildsE [of pv x us] ms(2) Cons by (metis list.set_intros(1))
    have "length xs' \<le> length vs"
      using carried_length [OF ms(3)] length_toks_seq [of "map otoks xs'"] by simp
    then obtain ys where ys: "array_loop pv (Suc (length (vs @ c # rest))) [y] (os @ rest) (vs @ c # rest) ap =
        Inr (Some (QList ([y] @ ys)), rest, ap)" "map denote ys = map denote xs'"
      using array_loop_rebuilds [of xs' pv vs c "Suc (length (vs @ c # rest))" "[y]" "os @ rest" rest ap]
        pv Cons ms(3) os'(4) by auto
    obtain p us' where p: "us = p # us'" "token_is_operator p (CHR '']'') = Inr False"
      using otoks_not_close [OF ms(2)] xs Cons by (metis list.pred_inject(2))
    have "parse_array pv (os @ rest) ap =
        array_loop pv (Suc (length (vs @ c # rest))) [y] (os @ rest) (vs @ c # rest) ap"
      using os' ms p y
      by (simp add: parse_array_def operator_token qlist_append_obj_def qlist_new_def
          del: array_loop.simps)
    with ys y Cons show ?thesis by simp
  qed
qed

text \<open>The pairs of a dictionary: the reader inserts a rebuilt value for each key.\<close>

definition same_pairs :: "(string \<times> qobject) list \<Rightarrow> (string \<times> qobject) list \<Rightarrow> bool" where
  "same_pairs = list_all2 (\<lambda>(k, v) (k', v'). k = k' \<and> denote v = denote v')"

abbreviation put_all :: "(string \<times> qobject) list \<Rightarrow> qobject qdict \<Rightarrow> qobject qdict" where
  "put_all kvs d \<equiv> fold (\<lambda>(k, v) d. qdict_put_obj d k v) kvs d"

abbreviation pair_toks :: "string \<times> qobject \<Rightarrow> (json_state \<times> string) list" where
  "pair_toks \<equiv> \<lambda>(k, v). key_toks k @ otoks v"

lemma literal_string:
  assumes "carries t JSON_STRING (to_json_string k [])" and "utf8_ok k"
  shows "parse_literal (t # ts) ap = Inr (Some (QString k), ts, ap)"
proof -
  have "to_json_string k [] = CHR 0x22 # string_loop k [] @ [CHR 0x22]"
    using string_loop_append [of k "[CHR 0x22]" "[]"] assms(2)
    by (simp add: to_json_string_def utf8_ok_cstr)
  with assms unescape_string_loop [OF assms(2), of "[]" "[]"] show ?thesis
    by (simp add: parse_literal_def tok_simps qstring_from_escaped_str_def)
qed

definition reads_string :: "rule \<Rightarrow> bool" where
  "reads_string pv \<longleftrightarrow>
     (\<forall>t k ts ap. carries t JSON_STRING (to_json_string k []) \<and> utf8_ok k \<longrightarrow>
        pv (t # ts) ap = Inr (Some (QString k), ts, ap))"

lemma parse_pair_rebuilds:
  assumes "reads_string pv" and "rebuilds pv v" and "utf8_ok k" and "carried os (pair_toks (k, v))"
  shows "\<exists>v'. parse_pair pv d (os @ rest) ap = Inr ((True, qdict_put_obj d k v'), rest, ap) \<and>
    denote v' = denote v"
proof -
  from assms(4) obtain t c us where os: "os = t # c # us" "carries t JSON_STRING (to_json_string k [])"
    "carries c JSON_OPERATOR '':''" "carried us (otoks v)"
    by (auto simp: key_toks_def carried_append)
  obtain v' where "pv (us @ rest) ap = Inr (Some v', rest, ap)" "denote v' = denote v"
    using rebuildsE [OF assms(2) os(4)] by metis
  moreover have "pv (os @ rest) ap = Inr (Some (QString k), c # us @ rest, ap)"
    using assms(1,3) os unfolding reads_string_def by simp
  ultimately show ?thesis
    using os assms(3) by (auto simp: parse_pair_def Let_def operator_token utf8_ok_cstr)
qed

lemma object_loop_rebuilds:
  assumes pv: "reads_string pv" "\<And>k v. (k, v) \<in> set kvs \<Longrightarrow> rebuilds pv v \<and> utf8_ok k"
    and "carried os (toks_seq False (map pair_toks kvs))" and "carries t JSON_OPERATOR ''}''"
    and "length kvs < n"
  shows "\<exists>kvs'. object_loop pv n d tokens (os @ t # rest) ap =
      Inr (Some (QDict (put_all kvs' d)), rest, ap) \<and> same_pairs kvs' kvs"
  using assms(2-)
proof (induction kvs arbitrary: os n d)
  case Nil
  then obtain m where "n = Suc m" by (cases n) auto
  with Nil show ?case by (simp add: operator_token same_pairs_def)
next
  case (Cons kv kvs)
  obtain k v where kv: "kv = (k, v)" by (cases kv)
  from Cons.prems obtain m where n: "n = Suc m" "length kvs < m" by (cases n) auto
  from Cons.prems(2) obtain c us vs where os: "os = c # us @ vs" "carries c JSON_OPERATOR '',''"
    "carried us (pair_toks kv)" "carried vs (toks_seq False (map pair_toks kvs))"
    by (auto simp: carried_append)
  have "rebuilds pv v" "utf8_ok k" using Cons.prems(1) [of k v] kv by auto
  then obtain v' where v': "parse_pair pv d (us @ vs @ t # rest) ap =
      Inr ((True, qdict_put_obj d k v'), vs @ t # rest, ap)" "denote v' = denote v"
    using parse_pair_rebuilds [OF pv(1), of v k us] os(3) kv by blast
  obtain kvs' where "object_loop pv m (qdict_put_obj d k v') tokens (vs @ t # rest) ap =
      Inr (Some (QDict (put_all kvs' (qdict_put_obj d k v'))), rest, ap)" "same_pairs kvs' kvs"
    using Cons.IH [of vs m "qdict_put_obj d k v'"] Cons.prems os(4) n(2)
    by (metis list.set_intros(2))
  with v' os n kv show ?case
    by (intro exI [of _ "(k, v') # kvs'"]) (simp add: operator_token same_pairs_def)
qed

lemma parse_object_rebuilds:
  assumes pv: "reads_string pv" "\<And>k v. (k, v) \<in> set (qdict_entries d) \<Longrightarrow> rebuilds pv v \<and> utf8_ok k"
    and os: "carried os (otoks (QDict d))"
  shows "\<exists>kvs. parse_object pv (os @ rest) ap = Inr (Some (QDict (put_all kvs qdict_new)), rest, ap) \<and>
    same_pairs kvs (qdict_entries d)"
proof -
  from os obtain o1 ms c where os': "os = o1 # ms @ [c]" "carries o1 JSON_OPERATOR ''{''"
    "carried ms (toks_seq True (map pair_toks (qdict_entries d)))" "carries c JSON_OPERATOR ''}''"
    by (auto simp: carried_append)
  show ?thesis
  proof (cases "qdict_entries d")
    case Nil
    with os' show ?thesis
      by (intro exI [of _ "[]"]) (simp add: parse_object_def operator_token same_pairs_def)
  next
    case (Cons kv kvs)
    obtain k v where kv: "kv = (k, v)" by (cases kv)
    from os'(3) Cons obtain us vs where ms: "ms = us @ vs" "carried us (pair_toks kv)"
      "carried vs (toks_seq False (map pair_toks kvs))"
      by (auto simp: carried_append)
    have "rebuilds pv v" "utf8_ok k" using pv(2) [of k v] Cons kv by auto
    then obtain v' where v': "parse_pair pv qdict_new (us @ vs @ c # rest) ap =
        Inr ((True, qdict_put_obj qdict_new k v'), vs @ c # rest, ap)" "denote v' = denote v"
      using parse_pair_rebuilds [OF pv(1), of v k us] ms(2) kv by blast
    have "length kvs \<le> length vs"
      using carried_length [OF ms(3)] length_toks_seq [of "map pair_toks kvs"] by simp
    then obtain kvs' where kvs': "object_loop pv (Suc (length (vs @ c # rest)))
        (qdict_put_obj qdict_new k v') (os @ rest) (vs @ c # rest) ap =
        Inr (Some (QDict (put_all kvs' (qdict_put_obj qdict_new k v'))), rest, ap)" "same_pairs kvs' kvs"
      using object_loop_rebuilds [OF pv(1), of kvs vs c "Suc (length (vs @ c # rest))"
          "qdict_put_obj qdict_new k v'" "os @ rest" rest ap] pv(2) Cons ms(3) os'(4)
      by (metis le_imp_less_Suc length_append list.set_intros(2) trans_le_add1)
    obtain p us' where p: "us = p # us'" "carries p JSON_STRING (to_json_string k [])"
      using ms(2) kv by (auto simp: key_toks_def)
    have "parse_object pv (os @ rest) ap = object_loop pv (Suc (length (vs @ c # rest)))
        (qdict_put_obj qdict_new k v') (os @ rest) (vs @ c # rest) ap"
      using os' ms p v' not_operator [OF p(2)]
      by (simp add: parse_object_def operator_token del: object_loop.simps)
    with kvs' v' kv Cons show ?thesis
      by (intro exI [of _ "(k, v') # kvs'"]) (simp add: same_pairs_def)
  qed
qed

lemma same_pairs_denote:
  "same_pairs kvs kvs' \<Longrightarrow> map (\<lambda>(k, v). (k, denote v)) kvs = map (\<lambda>(k, v). (k, denote v)) kvs'"
  unfolding same_pairs_def by (induction rule: list_all2_induct) auto

lemma denote_put_all:
  assumes "same_pairs kvs (qdict_entries d)" and "qdict_inv d"
  shows "denote (QDict (put_all kvs qdict_new)) = denote (QDict d)"
proof -
  have eq: "map (\<lambda>(k, v). (k, denote v)) kvs = map (\<lambda>(k, v). (k, denote v)) (qdict_entries d)"
    using same_pairs_denote [OF assms(1)] .
  then have "map fst (map (\<lambda>(k, v). (k, denote v)) kvs) =
      map fst (map (\<lambda>(k, v). (k, denote v)) (qdict_entries d))" by simp
  then have "map fst kvs = map fst (qdict_entries d)" by (simp add: comp_def case_prod_beta)
  then have "distinct (map fst kvs)" using qdict_entries_keys [OF assms(2)] by simp
  then have "qdict_get (put_all kvs qdict_new) = map_of kvs" by (rule qd.get_of_entries)
  then have "denote (QDict (put_all kvs qdict_new)) = JObject (\<lambda>k. map_option denote (map_of kvs k))"
    using qd.invar_puts [OF qdict_inv_new, of kvs] by (simp add: denote_dict del: denote.simps)
  also have "\<dots> = JObject (map_of (map (\<lambda>(k, v). (k, denote v)) kvs))"
    by (simp add: map_of_map fun_eq_iff)
  also have "\<dots> = denote (QDict d)" by (simp add: eq)
  finally show ?thesis .
qed

lemma reads_string_parse_value: "reads_string (parse_value (Suc n))"
  unfolding reads_string_def using parse_value_literal literal_string by auto

lemma parse_value_rebuilds: "printable obj \<Longrightarrow> nesting obj < n \<Longrightarrow> rebuilds (parse_value n) obj"
proof (induction obj arbitrary: n rule: qobject_induct)
  case (QInt i)
  then obtain m where "n = Suc m" by (cases n) auto
  then show ?case
    unfolding rebuilds_def
    by (auto simp: parse_value_literal parse_literal_def tok_simps strtoll10_fmt_PRId64
        simp del: parse_value.simps)
next
  case (QString s)
  then obtain m where "n = Suc m" by (cases n) auto
  with QString reads_string_parse_value [of m] show ?case
    unfolding rebuilds_def reads_string_def by auto
next
  case (QDict d)
  then obtain m where n: "n = Suc (Suc m)" by (cases n; cases "n - 1") auto
  have pv: "rebuilds (parse_value (Suc m)) v \<and> utf8_ok k" if "(k, v) \<in> set (qdict_entries d)" for k v
    using QDict.IH [OF that, of "Suc m"] QDict.prems nesting_entry [OF that] that n
    by (auto simp: list_all_iff)
  show ?case
    unfolding rebuilds_def
  proof (intro allI impI)
    fix os rest ap
    assume "carried os (otoks (QDict d))"
    with parse_object_rebuilds [OF reads_string_parse_value pv, where os = os and rest = rest and ap = ap]
    obtain kvs where "parse_object (parse_value (Suc m)) (os @ rest) ap =
        Inr (Some (QDict (put_all kvs qdict_new)), rest, ap)" "same_pairs kvs (qdict_entries d)"
      by blast
    then show "\<exists>obj'. parse_value n (os @ rest) ap = Inr (Some obj', rest, ap) \<and>
        denote obj' = denote (QDict d)"
      using denote_put_all QDict.prems(1) n by (auto simp del: denote.simps)
  qed
next
  case (QList xs)
  then obtain m where n: "n = Suc (Suc m)" by (cases n; cases "n - 1") auto
  have pv: "rebuilds (parse_value (Suc m)) x" if "x \<in> set xs" for x
    using QList.IH [OF that, of "Suc m"] QList.prems nesting_element [OF that] that n
    by (auto simp: list_all_iff)
  show ?case
    unfolding rebuilds_def
  proof (intro allI impI)
    fix os rest ap
    assume os: "carried os (otoks (QList xs))"
    then obtain t os' where t: "os = t # os'" "carries t JSON_OPERATOR ''[''" by auto
    obtain ys where "parse_array (parse_value (Suc m)) (os @ rest) ap = Inr (Some (QList ys), rest, ap)"
      "map denote ys = map denote xs"
      using parse_array_rebuilds [OF pv _ os, of rest ap] QList.prems(1) by auto
    then show "\<exists>obj'. parse_value n (os @ rest) ap = Inr (Some obj', rest, ap) \<and>
        denote obj' = denote (QList xs)"
      using t n by (auto simp: parse_object_other operator_token simp del: parse_value.simps(1))
  qed
next
  case (QBool b)
  then obtain m where "n = Suc m" by (cases n) auto
  then show ?case
    unfolding rebuilds_def
    by (auto simp: dispatch not_operator parse_keyword_def tok_simps)
qed simp_all

section \<open>The round trip\<close>

lemma length_toks_seq_element: "t \<in> set ts \<Longrightarrow> length t \<le> length (toks_seq first ts)"
proof (induction ts arbitrary: first)
  case (Cons u ts)
  then consider "t = u" | "length t \<le> length (toks_seq False ts)" by auto
  then show ?case by cases auto
qed simp

lemma foldr_max_le: "(\<And>n. n \<in> set ns \<Longrightarrow> n \<le> N) \<Longrightarrow> foldr max ns 0 \<le> (N :: nat)"
  by (induction ns) auto

lemma nesting_tokens: "nesting obj \<le> length (otoks obj)"
proof (induction obj rule: qobject_induct)
  case (QDict d)
  let ?toks = "toks_seq True (map pair_toks (qdict_entries d))"
  have "nesting v \<le> length ?toks" if "(k, v) \<in> set (qdict_entries d)" for k v
    using QDict [OF that] length_toks_seq_element [of "pair_toks (k, v)" "map pair_toks (qdict_entries d)" True]
      that by force
  then have "foldr max (map (\<lambda>(k, v). nesting v) (qdict_entries d)) 0 \<le> length ?toks"
    by (intro foldr_max_le) auto
  then show ?case by simp
next
  case (QList xs)
  have "nesting x \<le> length (toks_seq True (map otoks xs))" if "x \<in> set xs" for x
    using QList [OF that] length_toks_seq_element [of "otoks x" "map otoks xs" True] that by force
  then have "foldr max (map nesting xs) 0 \<le> length (toks_seq True (map otoks xs))"
    by (intro foldr_max_le) auto
  then show ?case by simp
qed simp_all

lemma event_objects_carried: "carried (map event_object evs) (event_tokens evs)"
proof (induction evs)
  case (Cons ev evs)
  then show ?case by (cases ev) (auto simp: event_object_def token_object_carries)
qed simp

text \<open>The tokens of an object are not longer than its text.\<close>

definition toks_size :: "(json_state \<times> string) list \<Rightarrow> nat" where
  "toks_size toks = sum_list (map (\<lambda>(ty, tok). length tok) toks)"

lemma toks_size_simps [simp]:
  "toks_size [] = 0" "toks_size ((ty, tok) # toks) = length tok + toks_size toks"
  "toks_size (s @ t) = toks_size s + toks_size t"
  by (simp_all add: toks_size_def)

lemma event_size_toks: "event_size evs = toks_size (event_tokens evs)"
  by (induction evs) (auto simp: event_size_def)

lemma toks_size_seq:
  "(\<And>x. x \<in> set xs \<Longrightarrow> toks_size (f x) \<le> length (g x)) \<Longrightarrow>
   toks_size (toks_seq first (map f xs)) \<le> length (text_seq p i first (map g xs))"
proof (induction xs arbitrary: first)
  case (Cons x xs)
  have "toks_size (f x) \<le> length (g x)" "toks_size (toks_seq False (map f xs)) \<le> length (text_seq p i False (map g xs))"
    using Cons by auto
  then show ?case by simp
qed simp

lemma toks_size_object: "toks_size (otoks obj) \<le> length (to_json obj [] p i)"
proof (induction obj arbitrary: i rule: qobject_induct)
  case (QDict d)
  let ?g = "\<lambda>(k, v). to_json_string k [] @ '': '' @ to_json v [] p (Suc i)"
  have "toks_size (pair_toks kv) \<le> length (?g kv)" if "kv \<in> set (qdict_entries d)" for kv
    using QDict [of _ _ "Suc i"] that by (cases kv) (force simp: key_toks_def)
  then show ?case
    using toks_size_seq [of "qdict_entries d" pair_toks ?g True p "Suc i"]
    by (simp add: to_json_QDict del: to_json.simps)
next
  case (QList xs)
  then show ?case
    using toks_size_seq [of xs otoks "\<lambda>x. to_json x [] p (Suc i)" True p "Suc i"]
    by (simp add: to_json_QList del: to_json.simps)
qed simp_all

section \<open>No zero byte is printed\<close>

lemma rows_no_NUL: "rows st t st' \<Longrightarrow> CHR 0x00 \<notin> set t"
proof (induction t arbitrary: st)
  case (Cons c t)
  then show ?case
    using json_lexer_NUL [of st] by (auto simp: row_state_def token_state_def)
qed simp

lemma to_json_string_no_NUL: "CHR 0x00 \<notin> set (to_json_string k [])"
proof -
  have "CHR 0x00 \<notin> set (cstr k)" by (auto simp: cstr_def dest: set_takeWhileD)
  then have "CHR 0x00 \<notin> set (string_loop (cstr k) [])" using rows_string_loop rows_no_NUL by blast
  then show ?thesis
    using string_loop_append [of "cstr k" "[CHR 0x22]" "[]"] by (simp add: to_json_string_def)
qed

lemma text_seq_no_NUL:
  "(\<And>t. t \<in> set ts \<Longrightarrow> CHR 0x00 \<notin> set t) \<Longrightarrow> CHR 0x00 \<notin> set (text_seq p i first ts)"
  by (induction ts arbitrary: first) (auto simp: newline_def blanks_def)

lemma to_json_no_NUL: "printable obj \<Longrightarrow> CHR 0x00 \<notin> set (to_json obj [] p i)"
proof (induction obj arbitrary: i rule: qobject_induct)
  case (QInt v)
  then show ?case using rows_show_int [of "sint v"] rows_no_NUL by (auto simp: fmt_PRId64_def)
next
  case (QDict d)
  then have "CHR 0x00 \<notin> set (to_json_string k [] @ '': '' @ to_json v [] p (Suc i))"
    if "(k, v) \<in> set (qdict_entries d)" for k v
    using that QDict.IH [OF that, of "Suc i"] to_json_string_no_NUL by (auto simp: list_all_iff)
  then have "CHR 0x00 \<notin> set (text_seq p (Suc i) True
      (map (\<lambda>(k, v). to_json_string k [] @ '': '' @ to_json v [] p (Suc i)) (qdict_entries d)))"
    by (intro text_seq_no_NUL) auto
  then show ?case by (auto simp: to_json_QDict newline_def blanks_def simp del: to_json.simps)
next
  case (QList xs)
  then have "CHR 0x00 \<notin> set (text_seq p (Suc i) True (map (\<lambda>x. to_json x [] p (Suc i)) xs))"
    by (intro text_seq_no_NUL) (auto simp: list_all_iff)
  then show ?case by (auto simp: to_json_QList newline_def blanks_def simp del: to_json.simps)
qed (simp_all add: to_json_string_no_NUL)

section \<open>Properties\<close>

lemma from_json_to_json:
  assumes obj: "printable obj" "nesting obj \<le> nat MAX_NESTING"
    and len: "length (to_json obj [] p 0) \<le> MAX_TOKEN_SIZE"
  shows "\<exists>obj'. qobject_from_json (to_json obj [] p 0) = Inr (Some obj') \<and> denote obj' = denote obj"
proof -
  let ?t = "to_json obj [] p 0" and ?c = "Inr (None, None) :: JSONParsingState"
  let ?emit = "json_message_process_token parse_json"
  obtain lx m where init: "json_message_parser_init ?c = (lx, m)" by (cases "json_message_parser_init ?c")
  then have start: "at_start lx" by (auto simp: at_start_def json_message_parser_init_def json_lexer_init_def)
  have "lexes ?emit delim ?t (otoks obj)" using value_element [OF obj(1) len, of ?emit] by (simp add: element_def)
  moreover have "delim []" by (simp add: delim_def)
  ultimately obtain lx' evs where run: "at_start lx'" "event_tokens evs = otoks obj"
    "lex_run ?emit ?t (lx, m) = play ?emit evs m"
    using lexesE [of ?emit delim ?t "otoks obj" "[]" lx m] start by (metis append_Nil2 lex_run_start)
  let ?ts = "map event_object evs"
  have "event_size evs \<le> MAX_TOKEN_SIZE"
    using toks_size_object [of obj p 0] len run(2) by (simp add: event_size_toks)
  then have client: "mp_client (play ?emit evs m) = parse_json (Some ?ts) ?c"
    using init by (intro play_message [OF obj(2,1) run(2)]) simp_all
  have "carried ?ts (otoks obj)" using event_objects_carried [of evs] run(2) by simp
  moreover have "nesting obj < Suc (length ?ts)"
    using nesting_tokens [of obj] carried_length [OF calculation] by simp
  ultimately obtain obj' where obj': "parse_value (Suc (length ?ts)) ?ts None = Inr (Some obj', [], None)"
    "denote obj' = denote obj"
    using rebuildsE [OF parse_value_rebuilds [OF obj(1)], of "Suc (length ?ts)" ?ts "[]" None] by auto
  have "cstr ?t = ?t"
    unfolding cstr_def using to_json_no_NUL [OF obj(1)] by (simp add: takeWhile_eq_all_conv) metis
  then have "mp_client (snd (json_message_parser_flush parse_json (json_message_parser_feed parse_json
      (cstr ?t) (json_message_parser_init ?c)))) = Inr (None, Some obj')"
    using run(3) client obj'(1) init
    by (simp add: lex_run_def json_message_parser_feed_def json_message_parser_flush_def parse_json_def
        json_parser_parse_def del: parse_value.simps)
  with obj'(2) show ?thesis
    by (simp add: qobject_from_json_def qobject_from_jsonv_def Let_def)
qed

text \<open>C1. Reading what the compact or the pretty printer wrote gives back an object with the same
  meaning: the same integers, strings, truth values, lists in order and dictionaries as maps. It
  holds for every object without floats whose strings are UTF-8 text of the basic multilingual
  plane, nested within the limit of the reader, whose text fits the limit of 64 MB.\<close>

theorem json_roundtrip:
  assumes "printable obj" and "nesting obj \<le> 1024"
    and "text = qobject_to_json obj \<or> text = qobject_to_json_pretty obj"
    and "length text \<le> MAX_TOKEN_SIZE"
  shows "\<exists>obj'. qobject_from_json text = Inr (Some obj') \<and> denote obj' = denote obj"
  using assms from_json_to_json [of obj False] from_json_to_json [of obj True]
  by (auto simp: qobject_to_json_def qobject_to_json_pretty_def MAX_NESTING_def)

lemma qdict_entries_new [simp]: "qdict_entries qdict_new = []"
  by (simp add: qdict_entries_def qdict_new_def)

definition sample_object :: qobject where
  "sample_object = QList [QInt 5, QDict qdict_new, QString [CHR ''a'', CHR 0x0A], QBool 1]"

lemma sample_object_text:
  "qobject_to_json sample_object =
     ''[5, {}, '' @ [CHR 0x22, CHR ''a'', CHR 0x5C, CHR ''n'', CHR 0x22] @ '', true]''"
  by code_simp

theorem json_roundtrip_witness:
  "\<exists>obj'. qobject_from_json (qobject_to_json sample_object) = Inr (Some obj') \<and>
     denote obj' = denote sample_object"
proof (rule json_roundtrip)
  show "printable sample_object"
    by (simp add: sample_object_def qdict_inv_new)
  show "nesting sample_object \<le> 1024"
    by (simp add: sample_object_def)
  show "qobject_to_json sample_object = qobject_to_json sample_object \<or>
      qobject_to_json sample_object = qobject_to_json_pretty sample_object"
    by simp
  show "length (qobject_to_json sample_object) \<le> MAX_TOKEN_SIZE"
    by (simp add: sample_object_text MAX_TOKEN_SIZE_def)
qed

end
