(* ===== verification/Words.thy ===== *)
theory Words
  imports Prelude "HOL-Library.Signed_Division"
begin

text \<open>
  Machine arithmetic shared by the components of \<^verbatim>\<open>libtcg\<close>: division of signed words as C
  has it (the quotient rounds towards zero), and how the values of words relate to the natural
  numbers under casts, shifts and the joining of two halves.
\<close>

type_synonym u128 = "128 word"

definition sdiv_word :: "'a::len word \<Rightarrow> 'a word \<Rightarrow> 'a word" where
  "sdiv_word x y = word_of_int (sint x sdiv sint y)"

definition smod_word :: "'a::len word \<Rightarrow> 'a word \<Rightarrow> 'a word" where
  "smod_word x y = word_of_int (sint x smod sint y)"

lemma sdiv_int_nat: "int m sdiv int n = int (m div n)"
  by (cases "m = 0"; cases "n = 0") (simp_all add: signed_divide_int_def zdiv_int)

section \<open>Values of words\<close>

lemma unat_ucast_mod: "unat (ucast (w :: 'a::len word) :: 'b::len word) = unat w mod 2 ^ LENGTH('b)"
  by transfer (simp add: take_bit_eq_mod nat_mod_as_int flip: take_bit_eq_mod)

lemma ucast_nat: "(ucast (w :: 'a::len word) :: 'b::len word) = of_nat (unat w)"
  by simp

lemma ucast_of_nat_down: "LENGTH('b) \<le> LENGTH('a) \<Longrightarrow> ucast (of_nat n :: 'a::len word) = (of_nat n :: 'b::len word)"
  by (simp add: word_unat_eq_iff unat_ucast_mod unsigned_of_nat take_bit_eq_mod mod_exp_eq)

lemma unat_ucast_up: "LENGTH('a::len) \<le> LENGTH('b::len) \<Longrightarrow>
    unat (ucast (w :: 'a word) :: 'b word) = unat w"
  by (simp add: unat_ucast_mod) (metis mod_less order_less_le_trans power_increasing
      one_le_numeral unsigned_less)

lemma unat_drop_bit: "unat (drop_bit n (w :: 'a::len word)) = unat w div 2 ^ n"
  unfolding unat_drop_bit_eq by (simp add: drop_bit_eq_div)

lemma uint_drop_bit: "uint (drop_bit n (w :: 'a::len word)) = uint w div 2 ^ n"
  unfolding unsigned_drop_bit_eq by (simp add: drop_bit_eq_div take_bit_int_eq_self)

lemma of_nat_unat_self: "of_nat (unat w) = w"
  by simp

lemma unat_push_bit_mod: "unat (push_bit n (w :: 'a::len word)) = unat w * 2 ^ n mod 2 ^ LENGTH('a)"
  unfolding unsigned_push_bit_eq by (simp add: push_bit_eq_mult take_bit_eq_mod)

lemma unat_and_mask: "unat (w AND mask n :: 'a::len word) = unat w mod 2 ^ n"
  unfolding take_bit_eq_mask [symmetric] unsigned_take_bit_eq by (simp add: take_bit_eq_mod)

lemma unat_or_push_mod:
  assumes "unat x < 2 ^ n"
  shows "unat (push_bit n y OR x :: 'a::len word) = (unat y * 2 ^ n + unat x) mod 2 ^ LENGTH('a)"
proof -
  have "take_bit LENGTH('a) (unat x) = unat x" by (simp add: take_bit_nat_eq_self)
  then have "unat (push_bit n y OR x) = take_bit LENGTH('a) (push_bit n (unat y) OR unat x)"
    unfolding unsigned_or_eq unsigned_push_bit_eq by (simp add: take_bit_or)
  then show ?thesis using assms by (simp add: or_add_nat take_bit_eq_mod)
qed

lemma unat_or_push:
  assumes "unat x < 2 ^ n" and "unat y < 2 ^ (LENGTH('a) - n)" and "n \<le> LENGTH('a)"
  shows "unat (push_bit n y OR x :: 'a::len word) = unat y * 2 ^ n + unat x"
proof -
  have "Suc (unat y) * 2 ^ n \<le> 2 ^ (LENGTH('a) - n) * 2 ^ n"
    using assms(2) by (intro mult_le_mono1) simp
  also have "\<dots> = 2 ^ LENGTH('a)" using assms(3) by (simp flip: power_add)
  finally have "unat y * 2 ^ n + unat x < 2 ^ LENGTH('a)" using assms(1) by simp
  then show ?thesis using assms(1) by (simp add: unat_or_push_mod)
qed

end
