(* ===== verification/HostUtils.thy ===== *)
theory HostUtils
  imports Words
begin

text \<open>
  The arithmetic helpers of \<^verbatim>\<open>libtcg\<close> (\<^verbatim>\<open>host-utils.h\<close>): double-width multiplication and division, in
  the variant for hosts with 128-bit integers and in the portable variant, the counting of bits,
  and the rounding to powers of two. The suffix \<open>_portable\<close> names the definitions of the
  \<^verbatim>\<open>#else\<close> branch. Out parameters are components of the result. The compiler builtins are defined
  by the bit they count; \<open>Undefined\<close> is a division by zero or one whose result does not fit.
\<close>

section \<open>Hosts with 128-bit integers\<close>

text \<open>The results are pairs \<^verbatim>\<open>(*plow, *phigh)\<close>.\<close>

definition mulu64 :: "u64 \<Rightarrow> u64 \<Rightarrow> u64 \<times> u64" where
  "mulu64 a b = (let r = ucast a * ucast b :: u128 in (ucast r, ucast (drop_bit 64 r)))"

definition muls64 :: "u64 \<Rightarrow> u64 \<Rightarrow> u64 \<times> u64" where
  "muls64 a b = (let r = scast a * scast b :: u128 in (ucast r, ucast (signed_drop_bit 64 r)))"

definition muldiv64 :: "u64 \<Rightarrow> u32 \<Rightarrow> u32 \<Rightarrow> u64 res" where
  "muldiv64 a b c =
     (if c = 0 then Inl Undefined
      else Inr (ucast (sdiv_word (ucast a * ucast b) (ucast c) :: u128)))"

text \<open>The result is \<^verbatim>\<open>(return value, *plow, *phigh)\<close>.\<close>

definition divu128 :: "u64 \<Rightarrow> u64 \<Rightarrow> u64 \<Rightarrow> bool \<times> u64 \<times> u64" where
  "divu128 plow phigh divisor =
     (if divisor = 0 then (True, plow, phigh)
      else
        let dividend = push_bit 64 (ucast phigh) OR ucast plow :: u128;
            result = dividend div ucast divisor
        in (result > ucast (- 1 :: u64), ucast result, ucast (dividend mod ucast divisor)))"

text \<open>\<^verbatim>\<open>*plow\<close> is signed here: the \<^verbatim>\<open>|\<close> extends its sign through the upper half.\<close>

definition divs128 :: "u64 \<Rightarrow> u64 \<Rightarrow> u64 \<Rightarrow> (bool \<times> u64 \<times> u64) res" where
  "divs128 plow phigh divisor =
     (if divisor = 0 then Inr (True, plow, phigh)
      else
        let dividend = push_bit 64 (scast phigh) OR scast plow :: u128;
            result = sdiv_word dividend (scast divisor)
        in if sint dividend = - (2 ^ 127) \<and> sint divisor = - 1 then Inl Undefined
           else Inr (result \<noteq> scast (ucast result :: u64), ucast result,
                     ucast (smod_word dividend (scast divisor))))"

section \<open>The portable variant\<close>

definition lo32 :: "u64 \<Rightarrow> u64" where
  "lo32 w = w AND 0xFFFFFFFF"

definition hi32 :: "u64 \<Rightarrow> u64" where
  "hi32 w = drop_bit 32 w"

text \<open>The union of a 64-bit value and its two halves, from the halves.\<close>

definition join32 :: "u64 \<Rightarrow> u64 \<Rightarrow> u64" where
  "join32 low high = push_bit 32 high OR lo32 low"

definition mul64_portable :: "u64 \<Rightarrow> u64 \<Rightarrow> u64 \<times> u64" where
  "mul64_portable a b =
     (let rl = lo32 a * lo32 b;
          rm = lo32 a * hi32 b;
          rn = hi32 a * lo32 b;
          rh = hi32 a * hi32 b;
          c = hi32 rl + lo32 rm + lo32 rn;
          rl = join32 rl (lo32 c);
          c = drop_bit 32 c;
          c = c + hi32 rm + hi32 rn + lo32 rh;
          rh = join32 c (lo32 (hi32 rh + drop_bit 32 c))
      in (rl, rh))"

definition mulu64_portable :: "u64 \<Rightarrow> u64 \<Rightarrow> u64 \<times> u64" where
  "mulu64_portable a b = mul64_portable a b"

definition muls64_portable :: "u64 \<Rightarrow> u64 \<Rightarrow> u64 \<times> u64" where
  "muls64_portable a b =
     (let (plow, rh) = mul64_portable a b;
          rh = (if sint b < 0 then rh - a else rh);
          rh = (if sint a < 0 then rh - b else rh)
      in (plow, rh))"

text \<open>The loop over the 64 bits: the iterations left, \<^verbatim>\<open>dhi\<close> and \<^verbatim>\<open>dlo\<close>.\<close>

fun divu128_loop :: "nat \<Rightarrow> u64 \<Rightarrow> u64 \<Rightarrow> u64 \<Rightarrow> u64 \<times> u64" where
  "divu128_loop 0 divisor dhi dlo = (dhi, dlo)"
| "divu128_loop (Suc n) divisor dhi dlo =
     (let carry = drop_bit 63 dhi;
          dhi = push_bit 1 dhi OR drop_bit 63 dlo
      in if carry \<noteq> 0 \<or> dhi \<ge> divisor
         then divu128_loop n divisor (dhi - divisor) (push_bit 1 dlo OR 1)
         else divu128_loop n divisor dhi (push_bit 1 dlo OR 0))"

definition divu128_portable :: "u64 \<Rightarrow> u64 \<Rightarrow> u64 \<Rightarrow> bool \<times> u64 \<times> u64" where
  "divu128_portable plow phigh divisor =
     (if divisor = 0 then (True, plow, phigh)
      else if phigh = 0 then (False, plow div divisor, plow mod divisor)
      else if phigh > divisor then (True, plow, phigh)
      else let (dhi, dlo) = divu128_loop 64 divisor phigh plow in (False, dlo, dhi))"

definition divs128_portable :: "u64 \<Rightarrow> u64 \<Rightarrow> u64 \<Rightarrow> bool \<times> u64 \<times> u64" where
  "divs128_portable plow phigh divisor =
     (let sgn_dvdnd = (sint phigh < 0);
          sgn_divsr = (sint divisor < 0);
          (plow, phigh) =
            (if sgn_dvdnd then
               let plow = NOT plow; phigh = NOT phigh
               in if plow = - 1 then (0, phigh + 1) else (plow + 1, phigh)
             else (plow, phigh));
          divisor = (if sgn_divsr then 0 - divisor else divisor);
          (overflow, plow, phigh) = divu128_portable plow phigh divisor;
          plow = (if sgn_dvdnd \<noteq> sgn_divsr then 0 - plow else plow);
          overflow = (overflow \<or> ((sint plow < 0) \<noteq> (sgn_dvdnd \<noteq> sgn_divsr)))
      in (overflow, plow, phigh))"

definition muldiv64_portable :: "u64 \<Rightarrow> u32 \<Rightarrow> u32 \<Rightarrow> u64 res" where
  "muldiv64_portable a b c =
     (if c = 0 then Inl Undefined
      else
        let rl = lo32 a * ucast b;
            rh = hi32 a * ucast b;
            rh = rh + drop_bit 32 rl;
            high = rh div ucast c;
            low = (push_bit 32 (rh mod ucast c) + (rl AND 0xFFFFFFFF)) div ucast c
        in Inr (join32 low (lo32 high)))"

section \<open>Counting bits\<close>

definition bits_of :: "'a::len word \<Rightarrow> bool list" where
  "bits_of w = map (bit w) [0..<LENGTH('a)]"

definition builtin_clz :: "'a::len word \<Rightarrow> nat" where
  "builtin_clz w = length (takeWhile Not (rev (bits_of w)))"

definition builtin_ctz :: "'a::len word \<Rightarrow> nat" where
  "builtin_ctz w = length (takeWhile Not (bits_of w))"

definition builtin_popcount :: "'a::len word \<Rightarrow> nat" where
  "builtin_popcount w = length (filter id (bits_of w))"

definition builtin_clrsb :: "'a::len word \<Rightarrow> nat" where
  "builtin_clrsb w =
     (let bs = rev (bits_of w) in length (takeWhile (\<lambda>b. b = hd bs) (tl bs)))"

definition clz32 :: "u32 \<Rightarrow> nat" where
  "clz32 val = (if val \<noteq> 0 then builtin_clz val else 32)"

definition clo32 :: "u32 \<Rightarrow> nat" where
  "clo32 val = clz32 (NOT val)"

definition clz64 :: "u64 \<Rightarrow> nat" where
  "clz64 val = (if val \<noteq> 0 then builtin_clz val else 64)"

definition clo64 :: "u64 \<Rightarrow> nat" where
  "clo64 val = clz64 (NOT val)"

definition ctz32 :: "u32 \<Rightarrow> nat" where
  "ctz32 val = (if val \<noteq> 0 then builtin_ctz val else 32)"

definition cto32 :: "u32 \<Rightarrow> nat" where
  "cto32 val = ctz32 (NOT val)"

definition ctz64 :: "u64 \<Rightarrow> nat" where
  "ctz64 val = (if val \<noteq> 0 then builtin_ctz val else 64)"

definition cto64 :: "u64 \<Rightarrow> nat" where
  "cto64 val = ctz64 (NOT val)"

definition clrsb32 :: "u32 \<Rightarrow> nat" where
  "clrsb32 val = builtin_clrsb val"

definition clrsb32_portable :: "u32 \<Rightarrow> int" where
  "clrsb32_portable val = int (clz32 (val XOR signed_drop_bit 1 val)) - 1"

definition clrsb64 :: "u64 \<Rightarrow> nat" where
  "clrsb64 val = builtin_clrsb val"

definition clrsb64_portable :: "u64 \<Rightarrow> int" where
  "clrsb64_portable val = int (clz64 (val XOR signed_drop_bit 1 val)) - 1"

definition ctpop8 :: "u8 \<Rightarrow> nat" where
  "ctpop8 val = builtin_popcount (ucast val :: u32)"

definition ctpop16 :: "u16 \<Rightarrow> nat" where
  "ctpop16 val = builtin_popcount (ucast val :: u32)"

definition ctpop32 :: "u32 \<Rightarrow> nat" where
  "ctpop32 val = builtin_popcount val"

definition ctpop64 :: "u64 \<Rightarrow> nat" where
  "ctpop64 val = builtin_popcount val"

definition revbit8 :: "u8 \<Rightarrow> u8" where
  "revbit8 x =
     (let x = drop_bit 4 (x AND 0xF0) OR push_bit 4 (x AND 0x0F)
      in drop_bit 3 (x AND 0x88) OR drop_bit 1 (x AND 0x44) OR push_bit 1 (x AND 0x22) OR
         push_bit 3 (x AND 0x11))"

section \<open>Powers of two\<close>

definition is_power_of_2 :: "u64 \<Rightarrow> bool" where
  "is_power_of_2 value = (if value = 0 then False else value AND (value - 1) = 0)"

definition pow2floor :: "u64 \<Rightarrow> u64" where
  "pow2floor value = (if value = 0 then 0 else drop_bit (clz64 value) 0x8000000000000000)"

definition pow2ceil :: "u64 \<Rightarrow> u64" where
  "pow2ceil value =
     (let n = clz64 (value - 1)
      in if n = 0 then of_bool (value = 0) else drop_bit (n - 1) 0x8000000000000000)"

definition pow2roundup32 :: "u32 \<Rightarrow> u32" where
  "pow2roundup32 x =
     (let x = x OR drop_bit 1 x;
          x = x OR drop_bit 2 x;
          x = x OR drop_bit 4 x;
          x = x OR drop_bit 8 x;
          x = x OR drop_bit 16 x
      in x + 1)"

section \<open>Double-width multiplication\<close>

text \<open>The number a pair of low and high half stands for.\<close>

definition val128 :: "u64 \<times> u64 \<Rightarrow> nat" where
  "val128 p = unat (snd p) * 2 ^ 64 + unat (fst p)"

lemma unat_u64_less [simp]: "unat (w :: u64) < 18446744073709551616"
  using unsigned_less [of w] by simp

lemma unat_u32_less [simp]: "unat (w :: u32) < 4294967296"
  using unsigned_less [of w] by simp

lemma val128_eq_iff: "val128 p = val128 q \<longleftrightarrow> p = q"
proof
  assume "val128 p = val128 q"
  then have "val128 p mod 2 ^ 64 = val128 q mod 2 ^ 64" "val128 p div 2 ^ 64 = val128 q div 2 ^ 64"
    by simp_all
  then have "unat (fst p) = unat (fst q)" "unat (snd p) = unat (snd q)" by (simp_all add: val128_def)
  then have "fst p = fst q" "snd p = snd q" by (simp_all only: word_unat_eq_iff)
  then show "p = q" by (rule prod_eqI)
qed simp

lemma mult_less_u128: "(a :: nat) < 2 ^ 64 \<Longrightarrow> b < 2 ^ 64 \<Longrightarrow> a * b < 2 ^ 128"
  using mult_strict_mono [of a "2 ^ 64" b "2 ^ 64"] by (simp flip: power_add)

lemma val128_split:
  fixes r :: u128
  shows "val128 (ucast r, ucast (drop_bit 64 r)) = unat r"
proof -
  have "unat r < 2 ^ 128" using unsigned_less [of r] by simp
  then have "unat r div 2 ^ 64 < 2 ^ 64" by (simp add: div_less_iff_less_mult)
  then show ?thesis by (simp add: val128_def unat_ucast_mod unat_drop_bit)
qed

lemma val128_mulu64: "val128 (mulu64 a b) = unat a * unat b"
proof -
  have "unat (ucast a * ucast b :: u128) = unat a * unat b"
    using mult_less_u128 [of "unat a" "unat b"]
    by (simp add: unat_word_ariths unat_ucast_up del: unat_word_ariths(1))
  then show ?thesis by (simp add: mulu64_def Let_def val128_split)
qed

lemma unat_lo32: "unat (lo32 w) = unat w mod 2 ^ 32"
  using unat_and_mask [of w 32] by (simp add: lo32_def mask_eq_exp_minus_1)

lemma unat_hi32: "unat (hi32 w) = unat w div 2 ^ 32"
  by (simp add: hi32_def unat_drop_bit)

lemma unat_join32: "unat high < 2 ^ 32 \<Longrightarrow> unat (join32 low high) = unat high * 2 ^ 32 + unat low mod 2 ^ 32"
  unfolding join32_def by (subst unat_or_push) (simp_all add: unat_lo32)

lemma unat_add_small: "unat x + unat y < 2 ^ LENGTH('a) \<Longrightarrow> unat (x + y :: 'a::len word) = unat x + unat y"
  by (simp add: unat_word_ariths)

lemma unat_mult_small: "unat x * unat y < 2 ^ LENGTH('a) \<Longrightarrow> unat (x * y :: 'a::len word) = unat x * unat y"
  by (simp add: unat_word_ariths)

text \<open>The schoolbook product on 32-bit digits.\<close>

lemma schoolbook:
  fixes RL RM RN RH B :: nat
  assumes B: "B = 2 ^ 32" and fits: "RH * B ^ 2 + (RM + RN) * B + RL < B ^ 4"
  defines "c \<equiv> RL div B + RM mod B + RN mod B"
  defines "d \<equiv> c div B + RM div B + RN div B + RH mod B"
  shows "RH div B + d div B < B"
    and "((RH div B + d div B) * B + d mod B) * B ^ 2 + ((c mod B) * B + RL mod B) =
         RH * B ^ 2 + (RM + RN) * B + RL"
proof -
  have digits: "x = x div B * B + x mod B" for x :: nat by simp
  have "RH * B ^ 2 + (RM + RN) * B + RL = (RH div B * B + RH mod B) * B ^ 2 +
      (RM div B * B + RM mod B + (RN div B * B + RN mod B)) * B + (RL div B * B + RL mod B)"
    by (simp only: digits [symmetric])
  also have "\<dots> = (RH div B * B + RH mod B + RM div B + RN div B) * B ^ 2 + c * B + RL mod B"
    by (simp only: c_def algebra_simps power2_eq_square)
  also have "\<dots> = (RH div B * B + RH mod B + RM div B + RN div B) * B ^ 2 +
      (c div B * B + c mod B) * B + RL mod B"
    by (simp only: digits [symmetric])
  also have "\<dots> = (RH div B * B + d) * B ^ 2 + (c mod B) * B + RL mod B"
    by (simp only: d_def algebra_simps power2_eq_square)
  also have "\<dots> = (RH div B * B + (d div B * B + d mod B)) * B ^ 2 + (c mod B) * B + RL mod B"
    by (simp only: digits [symmetric])
  also have "\<dots> = ((RH div B + d div B) * B + d mod B) * B ^ 2 + (c mod B) * B + RL mod B"
    by (simp only: algebra_simps)
  finally show eq: "((RH div B + d div B) * B + d mod B) * B ^ 2 + ((c mod B) * B + RL mod B) =
         RH * B ^ 2 + (RM + RN) * B + RL" by simp
  show "RH div B + d div B < B"
  proof (rule ccontr)
    assume "\<not> ?thesis"
    then have "B * B * B ^ 2 \<le> (RH div B + d div B) * B * B ^ 2" by (simp add: mult_le_mono)
    also have "\<dots> \<le> ((RH div B + d div B) * B + d mod B) * B ^ 2 + ((c mod B) * B + RL mod B)"
      by (simp only: add_mult_distrib le_add1 trans_le_add1)
    finally show False using fits unfolding eq by (simp add: power2_eq_square power4_eq_xxxx)
  qed
qed

lemma digits_mult:
  fixes a b B :: nat
  shows "a * b = (a div B) * (b div B) * B ^ 2 + ((a mod B) * (b div B) + (a div B) * (b mod B)) * B
    + (a mod B) * (b mod B)"
proof -
  have digits: "x = x div B * B + x mod B" for x :: nat by simp
  have "a * b = (a div B * B + a mod B) * (b div B * B + b mod B)" by (simp only: digits [symmetric])
  also have "\<dots> = (a div B) * (b div B) * B ^ 2 + ((a mod B) * (b div B) + (a div B) * (b mod B)) * B
    + (a mod B) * (b mod B)"
    by (simp only: algebra_simps power2_eq_square)
  finally show ?thesis .
qed

lemma val128_mul64_portable: "val128 (mul64_portable a b) = unat a * unat b"
proof -
  define B :: nat where "B = 2 ^ 32"
  define al ah bl bh where "al = unat a mod B" and "ah = unat a div B"
    and "bl = unat b mod B" and "bh = unat b div B"
  have small: "al < B" "ah < B" "bl < B" "bh < B"
    by (simp_all add: al_def ah_def bl_def bh_def B_def div_less_iff_less_mult)
  have prod: "x * y < 2 ^ 64" "x * y \<le> (B - 1) * (B - 1)" if "x < B" "y < B" for x y
  proof -
    show le: "x * y \<le> (B - 1) * (B - 1)" using that by (intro mult_le_mono) simp_all
    show "x * y < 2 ^ 64" using le by (rule order_le_less_trans) (simp add: B_def)
  qed
  define RL RM RN RH where "RL = al * bl" and "RM = al * bh" and "RN = ah * bl" and "RH = ah * bh"
  have total: "unat a * unat b = RH * B ^ 2 + (RM + RN) * B + RL"
    unfolding RL_def RM_def RN_def RH_def al_def ah_def bl_def bh_def by (rule digits_mult)
  have fits: "RH * B ^ 2 + (RM + RN) * B + RL < B ^ 4"
    using mult_less_u128 [of "unat a" "unat b"] unfolding total [symmetric] by (simp add: B_def)
  note book = schoolbook [OF B_def fits]
  define rl rm rn rh where "rl = lo32 a * lo32 b" and "rm = lo32 a * hi32 b"
    and "rn = hi32 a * lo32 b" and "rh = hi32 a * hi32 b"
  have r: "unat rl = RL" "unat rm = RM" "unat rn = RN" "unat rh = RH"
    using small prod(1)
    by (simp_all add: rl_def rm_def rn_def rh_def RL_def RM_def RN_def RH_def al_def ah_def bl_def
        bh_def B_def unat_mult_small unat_lo32 unat_hi32)
  define c where "c = hi32 rl + lo32 rm + lo32 rn"
  define d where "d = drop_bit 32 c + hi32 rm + hi32 rn + lo32 rh"
  have div: "x div B < B" if "x \<le> (B - 1) * (B - 1)" for x
    using that by (simp add: B_def div_less_iff_less_mult)
  have lt: "RL div B < B" "RM div B < B" "RN div B < B" "RM mod B < B" "RN mod B < B" "RH mod B < B"
    unfolding RL_def RM_def RN_def using small prod(2) by (auto intro: div)
  have c: "unat c = RL div B + RM mod B + RN mod B"
    using lt unfolding c_def B_def
    by (simp add: unat_add_small r unat_lo32 unat_hi32)
  have d: "unat d = unat c div B + RM div B + RN div B + RH mod B"
    using lt div_less_iff_less_mult [of B "unat c" B] unfolding d_def B_def
    by (simp add: unat_add_small r unat_lo32 unat_hi32 unat_drop_bit)
  have carry: "RH div B + unat d div B < B" using book(1) unfolding c [symmetric] d [symmetric] .
  have h: "unat (hi32 rh + drop_bit 32 d) = RH div B + unat d div B"
    using carry unfolding B_def
    by (simp add: unat_add_small r unat_hi32 unat_drop_bit)
  have "mul64_portable a b = (join32 rl (lo32 c), join32 d (lo32 (hi32 rh + drop_bit 32 d)))"
    unfolding mul64_portable_def Let_def c_def d_def rl_def rm_def rn_def rh_def by simp
  moreover have "unat (join32 rl (lo32 c)) = unat c mod B * B + RL mod B"
    by (simp add: unat_join32 unat_lo32 r B_def)
  moreover have "unat (join32 d (lo32 (hi32 rh + drop_bit 32 d))) = (RH div B + unat d div B) * B + unat d mod B"
    using carry by (simp add: unat_join32 unat_lo32 h B_def)
  ultimately have "val128 (mul64_portable a b) =
      ((RH div B + unat d div B) * B + unat d mod B) * B ^ 2 + (unat c mod B * B + RL mod B)"
    by (simp add: val128_def B_def)
  then show ?thesis using book(2) unfolding total c [symmetric] d [symmetric] by simp
qed

lemma mulu64_portable_eq: "mulu64_portable a b = mulu64 a b"
  unfolding mulu64_portable_def val128_eq_iff [symmetric] val128_mulu64 val128_mul64_portable ..

text \<open>The signed product differs from the unsigned one by multiples of $2^{64}$.\<close>

lemma take_bit_sint: "n \<le> LENGTH('a) \<Longrightarrow> take_bit n (sint (w :: 'a::len word)) = take_bit n (uint w)"
  by transfer (simp add: take_bit_signed_take_bit)

lemma sint_cases: "sint (w :: 'a::len word) = uint w - (if sint w < 0 then 2 ^ LENGTH('a) else 0)"
proof -
  have "sint w mod 2 ^ LENGTH('a) = uint w"
    using take_bit_sint [of "LENGTH('a)" w] by (simp add: take_bit_eq_mod)
  moreover have "- (2 ^ (LENGTH('a) - 1)) \<le> sint w" "sint w < 2 ^ (LENGTH('a) - 1)"
    by (rule sint_ge, rule sint_lt)
  moreover have "(2 :: int) ^ LENGTH('a) = 2 * 2 ^ (LENGTH('a) - 1)"
    by (simp flip: power_Suc)
  ultimately show ?thesis
    by (smt (verit) mod_pos_pos_trivial mod_add_self2)
qed

lemma ucast_sint: "LENGTH('b) \<le> LENGTH('a) \<Longrightarrow> (ucast (w :: 'a::len word) :: 'b::len word) = word_of_int (sint w)"
  by transfer (simp add: take_bit_signed_take_bit)

lemma ucast_uint: "(ucast (w :: 'a::len word) :: 'b::len word) = word_of_int (uint w)"
  by transfer simp

lemma sint_signed_drop_bit: "sint (signed_drop_bit n w) = sint w div 2 ^ n"
  by (simp add: sint_signed_drop_bit_eq drop_bit_eq_div)

lemma abs_sint_mult: "\<bar>sint (a :: u64) * sint (b :: u64)\<bar> \<le> 2 ^ 126"
proof -
  have "\<bar>sint w\<bar> \<le> 2 ^ 63" for w :: u64 using sint_ge [of w] sint_lt [of w] by simp
  then show ?thesis unfolding abs_mult
    using mult_mono [of "\<bar>sint a\<bar>" "2 ^ 63" "\<bar>sint b\<bar>" "2 ^ 63"] by simp
qed

lemma muls64_sint: "muls64 a b =
    (word_of_int (sint a * sint b), word_of_int (sint a * sint b div 2 ^ 64))"
proof -
  define r :: u128 where "r = scast a * scast b"
  have fits: "sint (word_of_int k :: u128) = k" if "\<bar>k\<bar> \<le> 2 ^ 126" for k
    using that by (simp add: signed_of_int signed_take_bit_int_eq_self)
  have "r = word_of_int (sint a * sint b)" unfolding r_def by (simp add: signed_of_int)
  then have "sint r = sint a * sint b" by (simp only: fits [OF abs_sint_mult])
  then show ?thesis
    unfolding muls64_def r_def [symmetric] Let_def by (simp add: ucast_sint sint_signed_drop_bit)
qed

lemma mulu64_uint: "mulu64 a b =
    (word_of_int (uint a * uint b), word_of_int (uint a * uint b div 2 ^ 64))"
proof -
  define r :: u128 where "r = ucast a * ucast b"
  have "uint a * uint b < 2 ^ 128"
  proof -
    have "int (unat a * unat b) < int (2 ^ 128)" unfolding of_nat_less_iff by (rule mult_less_u128) simp_all
    then show ?thesis by simp
  qed
  moreover have "r = word_of_int (uint a * uint b)" unfolding r_def by simp
  moreover have fits: "uint (word_of_int k :: u128) = k" if "0 \<le> k" "k < 2 ^ 128" for k
    using that by (simp add: unsigned_of_int take_bit_int_eq_self)
  ultimately have "uint r = uint a * uint b"
    using fits [of "uint a * uint b"] by (metis mult_nonneg_nonneg unsigned_greater_eq)
  moreover have "mulu64 a b = (ucast r, ucast (drop_bit 64 r))" by (simp add: mulu64_def r_def Let_def)
  ultimately show ?thesis by (simp only: ucast_uint uint_drop_bit)
qed

lemma muls64_portable_eq: "muls64_portable a b = muls64 a b"
proof -
  define s t :: int where "s = (if sint a < 0 then 1 else 0)" and "t = (if sint b < 0 then 1 else 0)"
  define P k where "P = uint a * uint b" and "k = s * t * 2 ^ 64 - t * uint a - s * uint b"
  have "sint a * sint b = (uint a - s * 2 ^ 64) * (uint b - t * 2 ^ 64)"
    by (subst sint_cases [of a], subst sint_cases [of b]) (simp add: s_def t_def)
  also have "\<dots> = P + k * 2 ^ 64" by (simp add: algebra_simps P_def k_def)
  finally have "muls64 a b = (word_of_int (P + k * 2 ^ 64), word_of_int (P div 2 ^ 64 + k))"
    unfolding muls64_sint by simp
  moreover have "word_of_int (P + k * 2 ^ 64) = (word_of_int P :: u64)"
    by transfer (simp add: take_bit_eq_mod)
  moreover have "word_of_int (P div 2 ^ 64 + k) =
      word_of_int (P div 2 ^ 64) - (if sint b < 0 then a else 0) - (if sint a < 0 then b else 0)"
    unfolding k_def s_def t_def by (simp add: word_of_int_eq_iff)
  ultimately show ?thesis
    using mulu64_portable_eq [of a b] mulu64_uint [of a b]
    by (simp add: muls64_portable_def mulu64_portable_def P_def)
qed

section \<open>Double-width division\<close>

lemma val128_dividend: "unat (push_bit 64 (ucast hi) OR ucast lo :: u128) = val128 (lo, hi)"
  by (subst unat_or_push) (simp_all add: val128_def unat_ucast_up)

lemma divu128_values:
  assumes "divisor \<noteq> 0"
  shows "divu128 lo hi divisor =
    (val128 (lo, hi) div unat divisor \<ge> 2 ^ 64, of_nat (val128 (lo, hi) div unat divisor),
     of_nat (val128 (lo, hi) mod unat divisor))"
proof -
  define r :: u128 where "r = push_bit 64 (ucast hi) OR ucast lo"
  have r: "unat r = val128 (lo, hi)" unfolding r_def by (rule val128_dividend)
  have "unat (r div ucast divisor) = val128 (lo, hi) div unat divisor"
    "unat (r mod ucast divisor) = val128 (lo, hi) mod unat divisor"
    by (simp_all add: unat_div unat_mod r unat_ucast_up)
  moreover have "x > ucast (- 1 :: u64) \<longleftrightarrow> unat x \<ge> 2 ^ 64" for x :: u128
    unfolding word_less_nat_alt
    by (subst unat_ucast_up) (auto simp: unsigned_minus_1_eq_mask mask_eq_exp_minus_1)
  ultimately show ?thesis using assms unfolding divu128_def r_def [symmetric] Let_def
    by (simp only: if_False ucast_nat)
qed

text \<open>
  One restoring step doubles the partial remainder and brings in the next bit of the dividend.
  Before the step the upper \<open>n\<close> bits of \<^verbatim>\<open>dlo\<close> are the rest \<open>x\<close> of the dividend and the
  others the quotient \<open>q\<close> so far.
\<close>

lemma shift_in: "unat c < 2 \<Longrightarrow> unat (push_bit 1 (w :: u64) OR c) = (2 * unat w + unat c) mod 2 ^ 64"
  using unat_or_push_mod [of c 1 w] by (simp add: mult.commute)

lemma divu128_step:
  fixes dhi dlo divisor :: u64
  assumes "unat dhi < unat divisor" and "unat dlo = b * 2 ^ 63 + z" and "z < 2 ^ 63" and "b < 2"
  defines "D \<equiv> 2 * unat dhi + b"
  defines "dhi' \<equiv> push_bit 1 dhi OR drop_bit 63 dlo"
  shows "drop_bit 63 dhi \<noteq> 0 \<or> dhi' \<ge> divisor \<longleftrightarrow> D \<ge> unat divisor"
    and "D \<ge> unat divisor \<Longrightarrow> unat (dhi' - divisor) = D - unat divisor"
    and "D < unat divisor \<Longrightarrow> unat dhi' = D"
    and "unat c < 2 \<Longrightarrow> unat (push_bit 1 dlo OR c) = 2 * z + unat c"
proof -
  have top: "unat (drop_bit 63 dlo) = b" using assms(2,3) by (simp add: unat_drop_bit)
  have dhi': "unat dhi' = D mod 2 ^ 64" using top assms(4) unfolding dhi'_def by (subst shift_in) (simp_all add: D_def)
  have div: "unat divisor < 2 ^ 64" "D < 2 * unat divisor" using assms by (simp_all add: D_def)
  have carry: "drop_bit 63 dhi \<noteq> 0 \<longleftrightarrow> D \<ge> 2 ^ 64"
  proof -
    have "drop_bit 63 dhi \<noteq> 0 \<longleftrightarrow> unat dhi div 2 ^ 63 \<noteq> 0"
      by (simp add: unat_eq_zero [symmetric] unat_drop_bit)
    also have "\<dots> \<longleftrightarrow> D \<ge> 2 ^ 64" using assms(4) by (simp add: D_def div_eq_0_iff) linarith
    finally show ?thesis .
  qed
  show "drop_bit 63 dhi \<noteq> 0 \<or> dhi' \<ge> divisor \<longleftrightarrow> D \<ge> unat divisor"
    using order_trans [OF less_imp_le [OF div(1)], of D]
    unfolding carry word_le_nat_alt dhi' by (cases "D < 2 ^ 64") auto
  show "unat dhi' = D" if "D < unat divisor" using less_trans [OF that div(1)] by (simp add: dhi')
  show "unat (dhi' - divisor) = D - unat divisor" if "D \<ge> unat divisor"
  proof -
    have "dhi' = of_nat D" by (simp add: word_unat_eq_iff dhi' unsigned_of_nat take_bit_eq_mod)
    then have "dhi' - divisor = of_nat (D - unat divisor)" using that by (simp add: of_nat_diff)
    moreover have "D - unat divisor < 2 ^ 64" using div by linarith
    ultimately show ?thesis by (simp add: unsigned_of_nat take_bit_nat_eq_self)
  qed
  show "unat (push_bit 1 dlo OR c) = 2 * z + unat c" if "unat c < 2"
  proof -
    have "unat (push_bit 1 dlo OR c) = (b * 2 ^ 64 + (2 * z + unat c)) mod 2 ^ 64"
      unfolding shift_in [OF that] assms(2) by (simp add: algebra_simps)
    also have "\<dots> = 2 * z + unat c" using that assms(3) by simp
    finally show ?thesis .
  qed
qed

lemma divu128_loop_values:
  assumes "unat dhi < unat divisor" and "n \<le> 64"
    and "unat dlo = x * 2 ^ (64 - n) + q" and "x < 2 ^ n" and "q < 2 ^ (64 - n)"
  shows "divu128_loop n divisor dhi dlo =
    (of_nat ((unat dhi * 2 ^ n + x) mod unat divisor),
     of_nat (q * 2 ^ n + (unat dhi * 2 ^ n + x) div unat divisor))"
  using assms
proof (induction n arbitrary: dhi dlo x q)
  case 0
  then have "unat dlo = q" by simp
  then have "dlo = of_nat q" by (metis of_nat_unat_self)
  then show ?case using 0 by simp
next
  case (Suc n)
  define b y where "b = x div 2 ^ n" and "y = x mod 2 ^ n"
  have x: "x = b * 2 ^ n + y" "y < 2 ^ n" "b < 2"
    using Suc.prems(4) unfolding b_def y_def by (simp_all only: div_mult_mod_eq) (simp_all add: div_less_iff_less_mult)
  have len: "(2 :: nat) ^ (64 - n) = 2 * 2 ^ (63 - n)" "(2 :: nat) ^ n * 2 ^ (63 - n) = 2 ^ 63"
    using Suc.prems(2) by (simp_all add: Suc_diff_le flip: power_Suc power_add)
  define z where "z = y * 2 ^ (63 - n) + q"
  have dlo: "unat dlo = b * 2 ^ 63 + z"
    using Suc.prems(3) unfolding x z_def len(2) [symmetric] by (simp add: algebra_simps)
  have "Suc y * 2 ^ (63 - n) \<le> 2 ^ 63" unfolding len(2) [symmetric] using x(2) by (intro mult_le_mono1) simp
  then have z: "z < 2 ^ 63" using Suc.prems(5) by (simp add: z_def)
  note step = divu128_step [OF Suc.prems(1) dlo z x(3)]
  define D where "D = 2 * unat dhi + b"
  have D: "D < 2 * unat divisor" "unat dhi * 2 ^ Suc n + x = D * 2 ^ n + y"
    using Suc.prems(1) x by (simp_all add: D_def algebra_simps)
  show ?case
  proof (cases "D \<ge> unat divisor")
    case True
    then obtain E where E: "D = E + unat divisor" by (metis le_add_diff_inverse2)
    have dlo': "unat (push_bit 1 dlo OR 1) = y * 2 ^ (64 - n) + (2 * q + 1)"
      using step(4) [of 1] by (simp add: z_def len)
    have dhi': "unat ((push_bit 1 dhi OR drop_bit 63 dlo) - divisor) = E"
      using step(2) True by (simp add: E flip: D_def)
    have "unat dhi * 2 ^ Suc n + x = 2 ^ n * unat divisor + (E * 2 ^ n + y)"
      using D(2) by (simp add: E algebra_simps)
    moreover have "unat divisor \<noteq> 0" using Suc.prems(1) by simp
    ultimately have "(unat dhi * 2 ^ Suc n + x) div unat divisor = 2 ^ n + (E * 2 ^ n + y) div unat divisor"
      "(unat dhi * 2 ^ Suc n + x) mod unat divisor = (E * 2 ^ n + y) mod unat divisor"
      by (simp_all only: div_mult_self3 mod_mult_self3 not_False_eq_True)
    moreover have "divu128_loop (Suc n) divisor dhi dlo =
        divu128_loop n divisor ((push_bit 1 dhi OR drop_bit 63 dlo) - divisor) (push_bit 1 dlo OR 1)"
      using step(1) True by (simp add: Let_def flip: D_def)
    ultimately show ?thesis
      using Suc.IH [OF _ _ dlo' x(2), of "(push_bit 1 dhi OR drop_bit 63 dlo) - divisor"] Suc.prems D(1) E
      by (simp only: dhi') (simp add: len algebra_simps)
  next
    case False
    have dlo': "unat (push_bit 1 dlo OR 0) = y * 2 ^ (64 - n) + (2 * q)"
      using step(4) [of 0] by (simp add: z_def len)
    have dhi': "unat (push_bit 1 dhi OR drop_bit 63 dlo) = D"
      using step(3) False by (simp flip: D_def)
    then show ?thesis
      using Suc.IH [OF _ _ dlo' x(2)] Suc.prems D step(1) False
      by (simp add: Let_def len dhi' flip: D_def)
  qed
qed

lemma divu128_portable_eq:
  assumes "phigh < divisor"
  shows "divu128_portable plow phigh divisor = divu128 plow phigh divisor"
proof -
  have less: "unat phigh < unat divisor" using assms by (simp add: word_less_nat_alt)
  have "divisor \<noteq> 0" using assms by auto
  have "Suc (unat phigh) * 2 ^ 64 \<le> unat divisor * 2 ^ 64" using less by (intro mult_le_mono1) simp
  then have "val128 (plow, phigh) < 2 ^ 64 * unat divisor" 
    unfolding val128_def using unat_u64_less [of plow] by (simp del: unat_u64_less)
  then have small: "val128 (plow, phigh) div unat divisor < 2 ^ 64"
    using less by (simp add: div_less_iff_less_mult)
  show ?thesis
  proof (cases "phigh = 0")
    case True
    have "unat (plow div divisor) = unat plow div unat divisor"
      "unat (plow mod divisor) = unat plow mod unat divisor" by (simp_all add: unat_div unat_mod)
    then show ?thesis
      using \<open>divisor \<noteq> 0\<close> small by (simp add: True divu128_portable_def divu128_values val128_def)
         (metis of_nat_unat_self)
  next
    case False
    have "divu128_loop 64 divisor phigh plow =
      (of_nat (val128 (plow, phigh) mod unat divisor), of_nat (val128 (plow, phigh) div unat divisor))"
      using divu128_loop_values [OF less, of 64 plow "unat plow" 0] by (simp add: val128_def)
    then show ?thesis
      using False assms \<open>divisor \<noteq> 0\<close> small by (simp add: divu128_portable_def divu128_values)
  qed
qed

text \<open>
  On hosts without 128-bit integers the double-width products, signed and unsigned, are the
  same as on hosts with them.
\<close>

theorem mul64_variants_agree:
  "mulu64_portable a b = mulu64 a b \<and> muls64_portable a b = muls64 a b"
  by (simp add: mulu64_portable_eq muls64_portable_eq)

text \<open>
  The portable bit-by-bit division agrees with the 128-bit division: unless the upper half
  equals a non-zero divisor, both report the same overflow, and without overflow the same quotient
  and remainder.
\<close>

theorem divu128_variants_agree:
  assumes "phigh \<noteq> divisor \<or> divisor = 0"
  shows "fst (divu128_portable plow phigh divisor) = fst (divu128 plow phigh divisor) \<and>
    (\<not> fst (divu128 plow phigh divisor) \<longrightarrow>
       divu128_portable plow phigh divisor = divu128 plow phigh divisor)"
proof (cases "phigh < divisor \<or> divisor = 0")
  case True
  then show ?thesis by (auto simp: divu128_portable_eq) (simp_all add: divu128_portable_def divu128_def)
next
  case False
  then have "divisor \<noteq> 0" and "phigh > divisor" using assms by auto
  have "unat divisor * 2 ^ 64 \<le> unat phigh * 2 ^ 64"
    using \<open>phigh > divisor\<close> by (simp add: word_less_nat_alt)
  then have "unat divisor * 2 ^ 64 \<le> val128 (plow, phigh)" by (simp add: val128_def)
  then have "val128 (plow, phigh) div unat divisor \<ge> 2 ^ 64"
    using \<open>divisor \<noteq> 0\<close> by (simp add: less_eq_div_iff_mult_less_eq unat_gt_0 mult.commute)
  moreover have "phigh \<noteq> 0" using \<open>phigh > divisor\<close> by auto
  ultimately show ?thesis
    using \<open>divisor \<noteq> 0\<close> \<open>phigh > divisor\<close> by (simp add: divu128_portable_def divu128_values)
qed

theorem divu128_variants_agree_witness:
  "divu128_portable 5 3 7 = (False, 7905747460161236407, 4) \<and> divu128 5 3 7 = (False, 7905747460161236407, 4)"
  using divu128_variants_agree [of 3 7 5] by (simp add: divu128_values val128_def)

text \<open>
  C39. When the upper half equals the divisor the quotient does not fit; the 128-bit division reports
  the overflow and the portable one does not, since it compares with \<^verbatim>\<open>>\<close> instead of \<^verbatim>\<open>>=\<close>.
\<close>

theorem divu128_portable_misses_overflow:
  assumes "divisor \<noteq> 0"
  shows "fst (divu128 plow divisor divisor) \<and> \<not> fst (divu128_portable plow divisor divisor)"
proof
  have "2 ^ 64 * unat divisor \<le> val128 (plow, divisor)" by (simp add: val128_def)
  then show "fst (divu128 plow divisor divisor)"
    using assms by (simp add: divu128_values less_eq_div_iff_mult_less_eq unat_gt_0)
  show "\<not> fst (divu128_portable plow divisor divisor)"
    using assms by (simp add: divu128_portable_def split: prod.split)
qed

theorem divu128_portable_misses_overflow_witness:
  "fst (divu128 0 1 1) \<and> \<not> fst (divu128_portable 0 1 1)"
  using divu128_portable_misses_overflow [of 1 0] by simp

text \<open>
  C40. The signed division on hosts with 128-bit integers extends the sign of the lower half over the
  upper half: when the top bit of \<^verbatim>\<open>*plow\<close> is set, the result does not depend on \<^verbatim>\<open>*phigh\<close>.
\<close>

theorem divs128_loses_high_half:
  assumes "sint plow < 0" and "divisor \<noteq> 0"
  shows "divs128 plow phigh divisor = divs128 plow (- 1) divisor"
proof -
  have "bit (scast plow :: u128) i" if "64 \<le> i" "i < 128" for i
    using assms(1) that bit_last_iff [of plow] by (simp add: bit_signed_iff min_def)
  then have "push_bit 64 (scast phigh) OR scast plow = (scast plow :: u128)" for phigh :: u64
    by (intro bit_word_eqI) (auto simp: bit_or_iff bit_push_bit_iff)
  then show ?thesis using assms(2) by (simp only: divs128_def if_False)
qed

text \<open>The number 2^64 + (2^64 - 1), divided by 2, comes out as 0 instead of 2^64 - 1.\<close>

theorem divs128_loses_high_half_witness:
  "divs128 (- 1) 1 2 = Inr (False, 0, - 1)"
  using divs128_loses_high_half [of "- 1" 2 1] 
  by (simp add: divs128_def sdiv_word_def smod_word_def signed_divide_int_def signed_modulo_int_def
      ucast_sint)

lemma sint_small: "unat w < 2 ^ (LENGTH('a) - 1) \<Longrightarrow> sint (w :: 'a::len word) = int (unat w)"
proof -
  assume "unat w < 2 ^ (LENGTH('a) - 1)"
  then have "int (unat w) < int (2 ^ (LENGTH('a) - 1))" unfolding of_nat_less_iff .
  moreover have "- (2 ^ (LENGTH('a) - 1)) \<le> uint w" by (rule order_trans [of _ 0]) simp_all
  ultimately show ?thesis by (simp add: sint_uint signed_take_bit_int_eq_self)
qed

lemma muldiv64_value: "c \<noteq> 0 \<Longrightarrow> muldiv64 a b c = Inr (of_nat (unat a * unat b div unat c))"
proof -
  assume "c \<noteq> 0"
  have "unat a * unat b \<le> (2 ^ 64 - 1) * (2 ^ 32 - 1)" 
    using Suc_leI [OF unsigned_less [of a]] Suc_leI [OF unsigned_less [of b]]
    by (intro mult_le_mono) simp_all
  then have lt: "unat a * unat b < 2 ^ 127" by (rule order_le_less_trans) simp
  then have "unat (ucast a * ucast b :: u128) = unat a * unat b"
    by (simp add: unat_word_ariths unat_ucast_up)
  then have "sint (ucast a * ucast b :: u128) = int (unat a * unat b)" using lt by (simp add: sint_small)
  moreover have "sint (ucast c :: u128) = int (unat c)"
    using less_trans [OF unat_u32_less [of c]] by (simp add: sint_small unat_ucast_up)
  ultimately have "sdiv_word (ucast a * ucast b) (ucast c :: u128) = of_nat (unat a * unat b div unat c)"
    by (simp only: sdiv_word_def sdiv_int_nat of_int_of_nat_eq)
  then show ?thesis using \<open>c \<noteq> 0\<close> by (simp add: muldiv64_def ucast_of_nat_down)
qed

lemma long_division:
  fixes B c rh rl :: nat
  assumes "0 < c" and "rl < B"
  shows "(rh * B + rl) div c = rh div c * B + (rh mod c * B + rl) div c"
    and "(rh mod c * B + rl) div c < B"
proof -
  have "rh * B + rl = (rh div c * c + rh mod c) * B + rl" by simp
  also have "\<dots> = rh div c * B * c + (rh mod c * B + rl)" by (simp only: algebra_simps)
  finally show "(rh * B + rl) div c = rh div c * B + (rh mod c * B + rl) div c"
    using assms(1) by (simp only: div_mult_self3)
  have "Suc (rh mod c) * B \<le> c * B" using assms(1) by (intro mult_le_mono1) (simp add: Suc_le_eq)
  then show "(rh mod c * B + rl) div c < B"
    using assms by (simp add: div_less_iff_less_mult mult.commute)
qed

lemma muldiv64_portable_value:
  assumes "c \<noteq> 0"
  shows "muldiv64_portable a b c = Inr (of_nat (unat a * unat b div unat c))"
proof -
  define rl :: u64 where "rl = lo32 a * ucast b"
  define rh :: u64 where "rh = hi32 a * ucast b + drop_bit 32 rl"
  define low :: u64 where "low = (push_bit 32 (rh mod ucast c) + (rl AND 0xFFFFFFFF)) div ucast c"
  have b: "unat (ucast b :: u64) = unat b" and c: "unat (ucast c :: u64) = unat c" "0 < unat c"
    using assms by (simp_all add: unat_ucast_up unat_gt_0)
  have prod: "x * unat b \<le> (2 ^ 32 - 1) * (2 ^ 32 - 1)" if "x < 2 ^ 32" for x
    using that Suc_leI [OF unsigned_less [of b]] by (intro mult_le_mono) simp_all
  have rl: "unat rl = unat a mod 2 ^ 32 * unat b"
    using prod [of "unat a mod 2 ^ 32"] unfolding rl_def by (simp add: unat_mult_small b unat_lo32)
  have "unat (hi32 a) < 2 ^ 32" unfolding unat_hi32 by (simp add: div_less_iff_less_mult)
  then have "unat (hi32 a * ucast b) = unat a div 2 ^ 32 * unat b" "unat a div 2 ^ 32 * unat b \<le> (2 ^ 32 - 1) * (2 ^ 32 - 1)"
    using prod [of "unat (hi32 a)"] by (simp_all add: unat_mult_small b unat_hi32)
  moreover have "unat rl div 2 ^ 32 < 2 ^ 32" using unsigned_less [of rl] by (simp add: div_less_iff_less_mult)
  ultimately have rh: "unat rh = unat a div 2 ^ 32 * unat b + unat rl div 2 ^ 32"
    unfolding rh_def by (simp add: unat_add_small unat_drop_bit)
  have total: "unat a * unat b = unat rh * 2 ^ 32 + unat rl mod 2 ^ 32"
  proof -
    have "unat a * unat b = (unat a div 2 ^ 32 * 2 ^ 32 + unat a mod 2 ^ 32) * unat b"
      by (simp only: div_mult_mod_eq)
    also have "\<dots> = unat a div 2 ^ 32 * unat b * 2 ^ 32 + unat rl" by (simp only: rl algebra_simps)
    also have "\<dots> = unat a div 2 ^ 32 * unat b * 2 ^ 32 + (unat rl div 2 ^ 32 * 2 ^ 32 + unat rl mod 2 ^ 32)"
      by (simp only: div_mult_mod_eq)
    finally show ?thesis by (simp only: rh algebra_simps)
  qed
  note ld = long_division [OF c(2), of "unat rl mod 2 ^ 32" "2 ^ 32" "unat rh"]
  have low: "unat low = (unat rh mod unat c * 2 ^ 32 + unat rl mod 2 ^ 32) div unat c"
  proof -
    have "unat rh mod unat c < 2 ^ 32" using less_trans [OF mod_less_divisor [OF c(2)] unat_u32_less] by simp
    then have "unat (push_bit 32 (rh mod ucast c)) = unat rh mod unat c * 2 ^ 32"
      "unat rh mod unat c * 2 ^ 32 \<le> (2 ^ 32 - 1) * 2 ^ 32"
      by (simp_all add: unat_push_bit_mod unat_mod c)
    moreover have "unat (rl AND 0xFFFFFFFF) = unat rl mod 2 ^ 32"
      using unat_lo32 [of rl] by (simp add: lo32_def)
    moreover have "unat rl mod 2 ^ 32 < 2 ^ 32" by simp
    ultimately show ?thesis unfolding low_def unat_div c by (subst unat_add_small) simp_all
  qed
  have "muldiv64_portable a b c = Inr (join32 low (lo32 (rh div ucast c)))"
    using assms unfolding muldiv64_portable_def rl_def [symmetric] rh_def [symmetric] low_def [symmetric] Let_def
    by (simp add: rl_def rh_def low_def)
  moreover have "unat (join32 low (lo32 (rh div ucast c))) = (unat a * unat b div unat c) mod 2 ^ 64"
  proof -
    have "(unat a * unat b div unat c) div 2 ^ 32 = unat rh div unat c"
      "(unat a * unat b div unat c) mod 2 ^ 32 = unat low"
      using ld by (simp_all add: total low)
    then have "unat a * unat b div unat c mod (2 ^ 32 * 2 ^ 32) = 2 ^ 32 * (unat rh div unat c mod 2 ^ 32) + unat low"
      by (simp only: mod_mult2_eq)
    then show ?thesis using ld(2) by (simp add: unat_join32 unat_lo32 unat_div c low)
  qed
  ultimately show ?thesis by (simp add: word_unat_eq_iff unsigned_of_nat take_bit_eq_mod)
qed

text \<open>
  C37. The scaling \<^verbatim>\<open>muldiv64\<close> of the portable variant, with 96-bit intermediate results in two
  64-bit halves, is the one of the 128-bit variant; it is undefined exactly for a zero divisor.
\<close>

theorem muldiv64_variants_agree:
  "muldiv64_portable a b c = muldiv64 a b c \<and>
   muldiv64 a b c = (if c = 0 then Inl Undefined else Inr (of_nat (unat a * unat b div unat c)))"
  by (cases "c = 0") (simp_all add: muldiv64_value muldiv64_portable_value,
      simp_all add: muldiv64_portable_def muldiv64_def)

section \<open>Counting bits and powers of two\<close>

lemma bit_unat_ge:
  assumes "bit (w :: 'a::len word) m"
  shows "2 ^ m \<le> unat w"
proof (rule ccontr)
  assume "\<not> ?thesis"
  then have "\<not> bit (unat w) m" by (simp add: bit_iff_odd)
  then show False using assms bit_imp_le_length [OF assms] by (simp add: bit_unsigned_iff)
qed

lemma unat_lessI:
  assumes "\<And>i. m \<le> i \<Longrightarrow> i < LENGTH('a) \<Longrightarrow> \<not> bit (w :: 'a::len word) i"
  shows "unat w < 2 ^ m"
proof -
  have "w AND mask m = w"
  proof (rule bit_word_eqI)
    show "bit (w AND mask m) n = bit w n" if "n < LENGTH('a)" for n
      using assms [of n] that by (cases "m \<le> n") (auto simp: bit_simps)
  qed
  then show ?thesis using unat_and_mask [of w m] by (metis mod_less_divisor zero_less_numeral zero_less_power)
qed

lemma builtin_clz_bits:
  fixes w :: "'a::len word"
  assumes "w \<noteq> 0"
  shows "builtin_clz w < LENGTH('a)" and "bit w (LENGTH('a) - 1 - builtin_clz w)"
    and "LENGTH('a) - builtin_clz w \<le> i \<Longrightarrow> i < LENGTH('a) \<Longrightarrow> \<not> bit w i"
proof -
  let ?bs = "rev (bits_of w)"
  have len: "length ?bs = LENGTH('a)" by (simp add: bits_of_def)
  have nth: "?bs ! i = bit w (LENGTH('a) - 1 - i)" if "i < LENGTH('a)" for i
    using that by (simp add: bits_of_def rev_nth)
  obtain j where j: "bit w j" using assms by (metis bit_word_eqI bit_0_eq bot_apply bot_bool_def)
  then have "j < LENGTH('a)" by (rule bit_imp_le_length)
  then have "\<exists>b\<in>set ?bs. b" using j by (auto simp: bits_of_def)
  then show lt: "builtin_clz w < LENGTH('a)"
    unfolding builtin_clz_def using len takeWhile_stops [of ?bs Not] by simp
  then show "bit w (LENGTH('a) - 1 - builtin_clz w)"
    using nth_length_takeWhile [of Not ?bs] nth len unfolding builtin_clz_def by simp
  show "\<not> bit w i" if "LENGTH('a) - builtin_clz w \<le> i" "i < LENGTH('a)"
  proof -
    define k where "k = LENGTH('a) - 1 - i"
    have k: "k < builtin_clz w" "i = LENGTH('a) - 1 - k" "k < LENGTH('a)" using that lt by (auto simp: k_def)
    then have "takeWhile Not ?bs ! k = ?bs ! k" "\<not> takeWhile Not ?bs ! k"
      using takeWhile_nth [of k Not ?bs] set_takeWhileD [of _ Not ?bs] nth_mem [of k "takeWhile Not ?bs"]
      by (auto simp: builtin_clz_def)
    then show ?thesis using nth [of k] k by simp
  qed
qed

lemma clz64_bounds:
  assumes "w \<noteq> 0"
  shows "clz64 w < 64" and "2 ^ (63 - clz64 w) \<le> unat w" and "unat w < 2 ^ (64 - clz64 w)"
  using builtin_clz_bits [OF assms] assms
  by (auto simp: clz64_def intro: bit_unat_ge unat_lessI)

lemma clz32_bounds:
  assumes "w \<noteq> 0"
  shows "clz32 w < 32" and "2 ^ (31 - clz32 w) \<le> unat w" and "unat w < 2 ^ (32 - clz32 w)"
  using builtin_clz_bits [OF assms] assms
  by (auto simp: clz32_def intro: bit_unat_ge unat_lessI)

lemma top_bit_shift: "n \<le> 63 \<Longrightarrow> unat (drop_bit n (0x8000000000000000 :: u64)) = 2 ^ (63 - n)"
  using power_diff [of "2 :: nat" n 63] by (simp add: unat_drop_bit)

lemma pow2floor_value: "v \<noteq> 0 \<Longrightarrow> unat (pow2floor v) = 2 ^ (63 - clz64 v)"
  using clz64_bounds(1) [of v] by (simp add: pow2floor_def top_bit_shift)

lemma unat_pred: "(v :: 'a::len word) \<noteq> 0 \<Longrightarrow> unat (v - 1) = unat v - 1"
  by (metis unat_minus_one)

lemma is_power_of_2_iff: "is_power_of_2 v \<longleftrightarrow> v \<noteq> 0 \<and> pow2floor v = v"
proof (cases "v = 0")
  case False
  define k where "k = 63 - clz64 v"
  have "Suc k = 64 - clz64 v" using clz64_bounds(1) [OF False] by (simp add: k_def)
  then have k: "2 ^ k \<le> unat v" "unat v < 2 ^ Suc k" "k < 64"
    using clz64_bounds [OF False] by (simp_all only: k_def)
  have floor: "unat (pow2floor v) = 2 ^ k" using pow2floor_value [OF False] by (simp add: k_def)
  show ?thesis
  proof
    assume "is_power_of_2 v"
    then have zero: "v AND (v - 1) = 0" using False by (simp add: is_power_of_2_def)
    show "v \<noteq> 0 \<and> pow2floor v = v"
    proof (rule ccontr)
      assume "\<not> ?thesis"
      then have "unat v - 1 \<ge> 2 ^ k" using False floor k(1) by (auto simp: word_unat_eq_iff)
      then have "unat v div 2 ^ k = 1" "(unat v - 1) div 2 ^ k = 1"
        using k(2) by (auto intro!: div_nat_eqI)
      then have "bit (unat v) k" "bit (unat (v - 1)) k" using False by (simp_all add: bit_iff_odd unat_pred)
      then have "bit v k" "bit (v - 1) k" by (simp_all add: bit_unsigned_iff)
      then have "bit (v AND (v - 1)) k" by (simp add: bit_and_iff)
      then show False by (simp add: zero)
    qed
  next
    assume "v \<noteq> 0 \<and> pow2floor v = v"
    then have "v = of_nat (2 ^ k)" using floor by (metis of_nat_unat_self)
    then have "v = 2 ^ k" by simp
    then have "v AND (v - 1) = 2 ^ k AND mask k" by (simp add: mask_eq_exp_minus_1)
    also have "\<dots> = 0" by (rule bit_word_eqI) (auto simp: bit_simps)
    finally show "is_power_of_2 v" using False by (simp add: is_power_of_2_def)
  qed
qed (simp add: is_power_of_2_def)

lemma pow2ceil_value:
  assumes "v \<noteq> 0" and "unat v \<le> 2 ^ 63"
  shows "\<exists>k \<le> 63. unat (pow2ceil v) = 2 ^ k \<and> unat v \<le> 2 ^ k \<and> (\<forall>j < k. 2 ^ j < unat v)"
proof (cases "v = 1")
  case True
  then show ?thesis by (intro exI [of _ 0]) (simp add: pow2ceil_def clz64_def)
next
  case False
  then have ne: "v - 1 \<noteq> 0" by simp
  define n where "n = clz64 (v - 1)"
  have n: "n < 64" "2 ^ (63 - n) \<le> unat v - 1" "unat v - 1 < 2 ^ (64 - n)"
    using clz64_bounds [OF ne] unat_pred [OF assms(1)] by (simp_all add: n_def)
  have "n \<noteq> 0"
  proof
    assume "n = 0"
    then show False using n(2) assms by (simp add: unat_gt_0) 
  qed
  have "63 - (n - 1) = 64 - n" using \<open>n \<noteq> 0\<close> n(1) by simp
  then have "unat (pow2ceil v) = 2 ^ (64 - n)"
    using \<open>n \<noteq> 0\<close> n(1) by (simp add: pow2ceil_def top_bit_shift flip: n_def)
  moreover have "2 ^ j < unat v" if "j < 64 - n" for j
  proof -
    have "(2 :: nat) ^ j \<le> 2 ^ (63 - n)" using that by (intro power_increasing) simp_all
    moreover have "0 < unat v" using assms(1) by (simp add: unat_gt_0)
    ultimately show ?thesis using n(2) by linarith
  qed
  moreover have "unat v \<le> 2 ^ (64 - n)" "64 - n \<le> 63" using n(3) \<open>n \<noteq> 0\<close> by linarith+
  ultimately show ?thesis by (intro exI [of _ "64 - n"]) simp
qed

lemma clz64_top: "2 ^ 63 \<le> unat w \<Longrightarrow> clz64 w = 0"
proof -
  assume large: "2 ^ 63 \<le> unat w"
  then have "w \<noteq> 0" by auto
  from order_le_less_trans [OF large clz64_bounds(3) [OF this]]
  have "63 < 64 - clz64 w" by (rule power_less_imp_less_exp [rotated]) simp
  then show ?thesis by simp
qed

lemma pow2ceil_large: "2 ^ 63 < unat v \<Longrightarrow> pow2ceil v = 0"
proof -
  assume large: "2 ^ 63 < unat v"
  then have "v \<noteq> 0" by auto
  then have "clz64 (v - 1) = 0" using large by (intro clz64_top) (simp add: unat_pred)
  then show ?thesis using \<open>v \<noteq> 0\<close> by (simp add: pow2ceil_def)
qed

text \<open>
  Rounding to powers of two: a value is recognised as a power of two exactly when it is one;
  rounding down gives the largest power not above the value; rounding up gives the least power not
  below it, or 0 when that power does not fit 64 bits, and 1 for the value 0.
\<close>

theorem pow2_rounding:
  "(is_power_of_2 v \<longleftrightarrow> (\<exists>k < 64. unat v = 2 ^ k)) \<and>
   (if v = 0 then pow2floor v = 0
    else \<exists>k < 64. unat (pow2floor v) = 2 ^ k \<and> 2 ^ k \<le> unat v \<and> unat v < 2 * 2 ^ k) \<and>
   (if v = 0 then pow2ceil v = 1
    else if unat v > 2 ^ 63 then pow2ceil v = 0
    else \<exists>k < 64. unat (pow2ceil v) = 2 ^ k \<and> unat v \<le> 2 ^ k \<and> (\<forall>j < k. 2 ^ j < unat v))"
proof (cases "v = 0")
  case True
  have "clz64 (- 1) = 0" by (rule clz64_top) (simp add: unsigned_minus_1_eq_mask mask_eq_exp_minus_1)
  then show ?thesis using True by (simp add: is_power_of_2_def pow2floor_def pow2ceil_def)
next
  case False
  have floor: "\<exists>k < 64. unat (pow2floor v) = 2 ^ k \<and> 2 ^ k \<le> unat v \<and> unat v < 2 * 2 ^ k"
  proof -
    have "Suc (63 - clz64 v) = 64 - clz64 v" using clz64_bounds(1) [OF False] by simp
    then have "unat v < 2 ^ Suc (63 - clz64 v)" using clz64_bounds(3) [OF False] by (simp only:)
    then show ?thesis
      using clz64_bounds(2) [OF False] pow2floor_value [OF False]
      by (intro exI [of _ "63 - clz64 v"]) simp
  qed
  then obtain k where k: "k < 64" "unat (pow2floor v) = 2 ^ k" "2 ^ k \<le> unat v" "unat v < 2 ^ Suc k" by auto
  have "pow2floor v = v \<longleftrightarrow> (\<exists>k < 64. unat v = 2 ^ k)"
  proof
    assume "\<exists>k < 64. unat v = 2 ^ k"
    then obtain j where "unat v = 2 ^ j" by blast
    have "k \<le> j" using k(3) unfolding \<open>unat v = 2 ^ j\<close> by (rule power_le_imp_le_exp [rotated]) simp
    moreover have "j < Suc k" using k(4) unfolding \<open>unat v = 2 ^ j\<close> by (rule power_less_imp_less_exp [rotated]) simp
    ultimately have "j = k" by simp
    then show "pow2floor v = v" using k(2) \<open>unat v = 2 ^ j\<close> by (simp add: word_unat_eq_iff)
  qed (metis k(1,2))
  then show ?thesis
    using False floor pow2ceil_value [OF False] pow2ceil_large [of v]
    by (auto simp: is_power_of_2_iff le_less_Suc_eq not_less)
qed

end
