(* ===== verification/BitOps.thy ===== *)
theory BitOps
  imports HostUtils
begin

text \<open>
  Bit arrays, rotations and bit fields of \<^verbatim>\<open>libtcg\<close> (\<^verbatim>\<open>bitops.h\<close>). A bit array is the list of
  its 64-bit longs; an access past its end is \<open>Undefined\<close>. The bit number is a C \<^verbatim>\<open>long\<close>, which
  the macros \<^verbatim>\<open>BIT_MASK\<close> and \<^verbatim>\<open>BIT_WORD\<close> read as unsigned. The names \<^verbatim>\<open>set_bit\<close> and \<^verbatim>\<open>test_bit\<close> carry
  the suffix \<open>_mem\<close>, as do the other operations of bit arrays.
\<close>

section \<open>Bit arrays\<close>

definition BITS_PER_LONG :: nat where
  "BITS_PER_LONG = 64"

definition BIT_MASK :: "u64 \<Rightarrow> u64" where
  "BIT_MASK nr = push_bit (unat nr mod BITS_PER_LONG) 1"

definition BIT_WORD :: "u64 \<Rightarrow> nat" where
  "BIT_WORD nr = unat nr div BITS_PER_LONG"

text \<open>Reading and updating the long that holds a bit.\<close>

definition modify_long :: "u64 \<Rightarrow> (u64 \<Rightarrow> u64) \<Rightarrow> u64 list \<Rightarrow> u64 list res" where
  "modify_long nr f addr =
     (if BIT_WORD nr < length addr then Inr (addr[BIT_WORD nr := f (addr ! BIT_WORD nr)])
      else Inl Undefined)"

definition read_long :: "u64 \<Rightarrow> u64 list \<Rightarrow> u64 res" where
  "read_long nr addr = (if BIT_WORD nr < length addr then Inr (addr ! BIT_WORD nr) else Inl Undefined)"

definition set_bit_mem :: "u64 \<Rightarrow> u64 list \<Rightarrow> u64 list res" where
  "set_bit_mem nr addr = modify_long nr (\<lambda>p. p OR BIT_MASK nr) addr"

definition set_bit_atomic :: "u64 \<Rightarrow> u64 list \<Rightarrow> u64 list res" where
  "set_bit_atomic nr addr = modify_long nr (\<lambda>p. p OR BIT_MASK nr) addr"

definition clear_bit_mem :: "u64 \<Rightarrow> u64 list \<Rightarrow> u64 list res" where
  "clear_bit_mem nr addr = modify_long nr (\<lambda>p. p AND NOT (BIT_MASK nr)) addr"

definition change_bit_mem :: "u64 \<Rightarrow> u64 list \<Rightarrow> u64 list res" where
  "change_bit_mem nr addr = modify_long nr (\<lambda>p. p XOR BIT_MASK nr) addr"

definition test_and_set_bit :: "u64 \<Rightarrow> u64 list \<Rightarrow> (bool \<times> u64 list) res" where
  "test_and_set_bit nr addr =
     bind_res (read_long nr addr) (\<lambda>old.
       bind_res (modify_long nr (\<lambda>_. old OR BIT_MASK nr) addr) (\<lambda>addr.
         Inr (old AND BIT_MASK nr \<noteq> 0, addr)))"

definition test_and_clear_bit :: "u64 \<Rightarrow> u64 list \<Rightarrow> (bool \<times> u64 list) res" where
  "test_and_clear_bit nr addr =
     bind_res (read_long nr addr) (\<lambda>old.
       bind_res (modify_long nr (\<lambda>_. old AND NOT (BIT_MASK nr)) addr) (\<lambda>addr.
         Inr (old AND BIT_MASK nr \<noteq> 0, addr)))"

definition test_and_change_bit :: "u64 \<Rightarrow> u64 list \<Rightarrow> (bool \<times> u64 list) res" where
  "test_and_change_bit nr addr =
     bind_res (read_long nr addr) (\<lambda>old.
       bind_res (modify_long nr (\<lambda>_. old XOR BIT_MASK nr) addr) (\<lambda>addr.
         Inr (old AND BIT_MASK nr \<noteq> 0, addr)))"

definition test_bit_mem :: "u64 \<Rightarrow> u64 list \<Rightarrow> bool res" where
  "test_bit_mem nr addr =
     bind_res (read_long nr addr) (\<lambda>p.
       Inr (1 AND drop_bit (unat (nr AND (of_nat BITS_PER_LONG - 1))) p \<noteq> 0))"

text \<open>The arguments are the longs from \<^verbatim>\<open>addr\<close> on and the counter \<^verbatim>\<open>result\<close>.\<close>

function find_first_loop :: "u64 list \<Rightarrow> nat \<Rightarrow> nat \<Rightarrow> nat res" where
  "find_first_loop addr sz result =
     (if result < sz then
        case addr of
          [] \<Rightarrow> Inl Undefined
        | tmp # addr \<Rightarrow>
            if tmp \<noteq> 0 then
              let result = result + ctz64 tmp in Inr (if result < sz then result else sz)
            else find_first_loop addr sz (result + BITS_PER_LONG)
      else Inr sz)"
  by pat_completeness auto
termination
  by (relation "measure (\<lambda>(addr, _, _). length addr)") auto

declare find_first_loop.simps [simp del]

definition find_first_bit :: "u64 list \<Rightarrow> nat \<Rightarrow> nat res" where
  "find_first_bit addr sz = find_first_loop addr sz 0"

section \<open>Rotations\<close>

text \<open>
  The operands of 8 and 16 bits are promoted to \<^verbatim>\<open>int\<close>: a shift by 32 and more is undefined, and
  so is a left shift out of the positive range. \<open>rest_shift n shift\<close> is \<^verbatim>\<open>(n - shift) & (n - 1)\<close> on
  unsigned integers.
\<close>

definition rest_shift :: "u32 \<Rightarrow> u32 \<Rightarrow> nat" where
  "rest_shift n shift = unat ((n - shift) AND (n - 1))"

definition rol8 :: "u8 \<Rightarrow> u32 \<Rightarrow> u8 res" where
  "rol8 w shift =
     (if unat shift < 32 \<and> unat w * 2 ^ unat shift < 2 ^ 31
      then Inr (push_bit (unat shift) w OR drop_bit (rest_shift 8 shift) w) else Inl Undefined)"

definition ror8 :: "u8 \<Rightarrow> u32 \<Rightarrow> u8 res" where
  "ror8 w shift =
     (if unat shift < 32
      then Inr (drop_bit (unat shift) w OR push_bit (rest_shift 8 shift) w) else Inl Undefined)"

definition rol16 :: "u16 \<Rightarrow> u32 \<Rightarrow> u16 res" where
  "rol16 w shift =
     (if unat shift < 32 \<and> unat w * 2 ^ unat shift < 2 ^ 31
      then Inr (push_bit (unat shift) w OR drop_bit (rest_shift 16 shift) w) else Inl Undefined)"

definition ror16 :: "u16 \<Rightarrow> u32 \<Rightarrow> u16 res" where
  "ror16 w shift =
     (if unat shift < 32
      then Inr (drop_bit (unat shift) w OR push_bit (rest_shift 16 shift) w) else Inl Undefined)"

definition rol32 :: "u32 \<Rightarrow> u32 \<Rightarrow> u32 res" where
  "rol32 w shift =
     (if unat shift < 32
      then Inr (push_bit (unat shift) w OR drop_bit (rest_shift 32 shift) w) else Inl Undefined)"

definition ror32 :: "u32 \<Rightarrow> u32 \<Rightarrow> u32 res" where
  "ror32 w shift =
     (if unat shift < 32
      then Inr (drop_bit (unat shift) w OR push_bit (rest_shift 32 shift) w) else Inl Undefined)"

definition rol64 :: "u64 \<Rightarrow> u32 \<Rightarrow> u64 res" where
  "rol64 w shift =
     (if unat shift < 64
      then Inr (push_bit (unat shift) w OR drop_bit (rest_shift 64 shift) w) else Inl Undefined)"

definition ror64 :: "u64 \<Rightarrow> u32 \<Rightarrow> u64 res" where
  "ror64 w shift =
     (if unat shift < 64
      then Inr (drop_bit (unat shift) w OR push_bit (rest_shift 64 shift) w) else Inl Undefined)"

section \<open>Bit fields\<close>

definition MAKE_64BIT_MASK :: "int \<Rightarrow> int \<Rightarrow> u64 res" where
  "MAKE_64BIT_MASK shift len =
     (if 0 < len \<and> len \<le> 64 \<and> 0 \<le> shift \<and> shift < 64
      then Inr (push_bit (nat shift) (drop_bit (nat (64 - len)) (NOT 0)))
      else Inl Undefined)"

definition extract32 :: "u32 \<Rightarrow> int \<Rightarrow> int \<Rightarrow> u32 res" where
  "extract32 value start len =
     assert_res (start \<ge> 0 \<and> len > 0 \<and> len \<le> 32 - start)
       (Inr (drop_bit (nat start) value AND drop_bit (nat (32 - len)) (NOT 0)))"

definition extract64 :: "u64 \<Rightarrow> int \<Rightarrow> int \<Rightarrow> u64 res" where
  "extract64 value start len =
     assert_res (start \<ge> 0 \<and> len > 0 \<and> len \<le> 64 - start)
       (Inr (drop_bit (nat start) value AND drop_bit (nat (64 - len)) (NOT 0)))"

definition sextract32 :: "u32 \<Rightarrow> int \<Rightarrow> int \<Rightarrow> u32 res" where
  "sextract32 value start len =
     assert_res (start \<ge> 0 \<and> len > 0 \<and> len \<le> 32 - start)
       (Inr (signed_drop_bit (nat (32 - len)) (push_bit (nat (32 - len - start)) value)))"

definition sextract64 :: "u64 \<Rightarrow> int \<Rightarrow> int \<Rightarrow> u64 res" where
  "sextract64 value start len =
     assert_res (start \<ge> 0 \<and> len > 0 \<and> len \<le> 64 - start)
       (Inr (signed_drop_bit (nat (64 - len)) (push_bit (nat (64 - len - start)) value)))"

definition deposit32 :: "u32 \<Rightarrow> int \<Rightarrow> int \<Rightarrow> u32 \<Rightarrow> u32 res" where
  "deposit32 value start len fieldval =
     assert_res (start \<ge> 0 \<and> len > 0 \<and> len \<le> 32 - start)
       (let mask = push_bit (nat start) (drop_bit (nat (32 - len)) (NOT 0))
        in Inr ((value AND NOT mask) OR (push_bit (nat start) fieldval AND mask)))"

definition deposit64 :: "u64 \<Rightarrow> int \<Rightarrow> int \<Rightarrow> u64 \<Rightarrow> u64 res" where
  "deposit64 value start len fieldval =
     assert_res (start \<ge> 0 \<and> len > 0 \<and> len \<le> 64 - start)
       (let mask = push_bit (nat start) (drop_bit (nat (64 - len)) (NOT 0))
        in Inr ((value AND NOT mask) OR (push_bit (nat start) fieldval AND mask)))"

section \<open>Rounding macros\<close>

text \<open>\<^verbatim>\<open>rounding.h\<close>, on 64-bit unsigned operands.\<close>

definition ALIGN_DOWN :: "u64 \<Rightarrow> u64 \<Rightarrow> u64 res" where
  "ALIGN_DOWN base sz = (if sz = 0 then Inl Undefined else Inr (base div sz * sz))"

definition ALIGN_UP :: "u64 \<Rightarrow> u64 \<Rightarrow> u64 res" where
  "ALIGN_UP base sz = ALIGN_DOWN (base + sz - 1) base"

definition ROUND_UP :: "u64 \<Rightarrow> u64 \<Rightarrow> u64" where
  "ROUND_UP base sz = (base + sz - 1) AND (- sz)"

definition DIV_ROUND_UP :: "u64 \<Rightarrow> u64 \<Rightarrow> u64 res" where
  "DIV_ROUND_UP base sz = (if sz = 0 then Inl Undefined else Inr ((base + sz - 1) div sz))"

section \<open>A bit array is a set of numbers\<close>

text \<open>
  The contract of a bit array: a carrier of valid numbers that no operation changes, an abstraction
  to the set of the bits that are set, and the four operations on it.
\<close>

locale bit_set =
  fixes valid :: "'i \<Rightarrow> 'b \<Rightarrow> bool" and elems :: "'b \<Rightarrow> 'i set"
    and test :: "'i \<Rightarrow> 'b \<Rightarrow> bool res" and ins del flip :: "'i \<Rightarrow> 'b \<Rightarrow> 'b res"
  assumes test_elems: "valid i b \<Longrightarrow> test i b = Inr (i \<in> elems b)"
    and ins_elems: "valid i b \<Longrightarrow> \<exists>b'. ins i b = Inr b' \<and> elems b' = insert i (elems b) \<and> (\<forall>j. valid j b' = valid j b)"
    and del_elems: "valid i b \<Longrightarrow> \<exists>b'. del i b = Inr b' \<and> elems b' = elems b - {i} \<and> (\<forall>j. valid j b' = valid j b)"
    and flip_elems: "valid i b \<Longrightarrow> \<exists>b'. flip i b = Inr b' \<and>
          elems b' = (if i \<in> elems b then elems b - {i} else insert i (elems b)) \<and> (\<forall>j. valid j b' = valid j b)"
begin

lemma ins_all_elems:
  "(\<forall>i \<in> set is. valid i b) \<Longrightarrow>
   \<exists>b'. foldl (\<lambda>r i. bind_res r (ins i)) (Inr b) is = Inr b' \<and> elems b' = elems b \<union> set is"
proof (induction "is" arbitrary: b)
  case (Cons i "is")
  then obtain b' where "ins i b = Inr b'" "elems b' = insert i (elems b)" "\<forall>j. valid j b' = valid j b"
    using ins_elems [of i b] by auto
  then show ?case using Cons.IH [of b'] Cons.prems by auto
qed simp

lemma flip_twice: "valid i b \<Longrightarrow> \<exists>b'. bind_res (flip i b) (flip i) = Inr b' \<and> elems b' = elems b"
proof -
  assume "valid i b"
  then obtain b' where b': "flip i b = Inr b'" "valid i b'"
    "elems b' = (if i \<in> elems b then elems b - {i} else insert i (elems b))"
    using flip_elems by metis
  then show ?thesis using flip_elems [of i b'] by (auto simp: insert_absorb split: if_splits)
qed

lemma del_after_ins: "valid i b \<Longrightarrow> \<exists>b'. bind_res (ins i b) (del i) = Inr b' \<and> elems b' = elems b - {i}"
  using ins_elems [of i b] del_elems by fastforce

end

definition in_array :: "u64 \<Rightarrow> u64 list \<Rightarrow> bool" where
  "in_array nr addr \<longleftrightarrow> BIT_WORD nr < length addr"

definition bits_set :: "u64 list \<Rightarrow> u64 set" where
  "bits_set addr = {nr. in_array nr addr \<and> bit (addr ! BIT_WORD nr) (unat nr mod BITS_PER_LONG)}"

lemma bit_BIT_MASK: "bit (BIT_MASK nr) i \<longleftrightarrow> i = unat nr mod BITS_PER_LONG"
  by (auto simp: BIT_MASK_def bit_simps BITS_PER_LONG_def)

lemma unat_eq_div_mod: "unat i div 64 = unat j div 64 \<Longrightarrow> unat i mod 64 = unat j mod 64 \<Longrightarrow> i = (j :: u64)"
  by (metis div_mult_mod_eq word_unat_eq_iff)

lemma modify_long_elems:
  assumes "in_array nr addr"
    and "\<And>p k. k < 64 \<Longrightarrow> bit (f p) k \<longleftrightarrow> (if k = unat nr mod BITS_PER_LONG then g (bit p k) else bit p k)"
  shows "\<exists>addr'. modify_long nr f addr = Inr addr' \<and>
    bits_set addr' = {j. if j = nr then g (nr \<in> bits_set addr) else j \<in> bits_set addr} \<and>
    (\<forall>j. in_array j addr' = in_array j addr)"
proof -
  have "BIT_WORD j = BIT_WORD nr \<Longrightarrow> unat j mod 64 = unat nr mod 64 \<Longrightarrow> j = nr" for j
    by (simp add: BIT_WORD_def BITS_PER_LONG_def unat_eq_div_mod)
  then show ?thesis
    using assms unfolding modify_long_def bits_set_def in_array_def BITS_PER_LONG_def
    by (auto simp: nth_list_update)
qed

lemma mask_bits:
  "bit (p OR BIT_MASK nr) k \<longleftrightarrow> (if k = unat nr mod BITS_PER_LONG then True else bit p k)"
  "k < 64 \<Longrightarrow> bit (p AND NOT (BIT_MASK nr)) k \<longleftrightarrow> (if k = unat nr mod BITS_PER_LONG then False else bit p k)"
  "bit (p XOR BIT_MASK nr) k \<longleftrightarrow> (if k = unat nr mod BITS_PER_LONG then \<not> bit p k else bit p k)"
  by (auto simp: bit_or_iff bit_and_iff bit_xor_iff bit_not_iff bit_BIT_MASK)

lemma test_bit_mem_elems: "in_array nr addr \<Longrightarrow> test_bit_mem nr addr = Inr (nr \<in> bits_set addr)"
proof -
  assume "in_array nr addr"
  have "nr AND (of_nat BITS_PER_LONG - 1) = nr AND mask 6"
    by (simp add: BITS_PER_LONG_def mask_eq_exp_minus_1)
  then have "unat (nr AND (of_nat BITS_PER_LONG - 1)) = unat nr mod BITS_PER_LONG"
    by (simp only: unat_and_mask) (simp add: BITS_PER_LONG_def)
  moreover have "1 AND drop_bit k p \<noteq> 0 \<longleftrightarrow> bit p k" for p :: u64 and k
    by (simp add: one_and_eq bit_iff_odd_drop_bit odd_iff_mod_2_eq_one)
  ultimately show ?thesis
    using \<open>in_array nr addr\<close> by (simp add: test_bit_mem_def read_long_def bits_set_def in_array_def)
qed

interpretation ba: bit_set in_array bits_set test_bit_mem set_bit_mem clear_bit_mem change_bit_mem
proof
  fix nr addr
  assume arr: "in_array nr addr"
  show "test_bit_mem nr addr = Inr (nr \<in> bits_set addr)" by (rule test_bit_mem_elems [OF arr])
  show "\<exists>b'. set_bit_mem nr addr = Inr b' \<and> bits_set b' = insert nr (bits_set addr) \<and>
      (\<forall>j. in_array j b' = in_array j addr)"
    using modify_long_elems [OF arr, of _ "\<lambda>_. True", OF mask_bits(1)] by (auto simp: set_bit_mem_def)
  show "\<exists>b'. clear_bit_mem nr addr = Inr b' \<and> bits_set b' = bits_set addr - {nr} \<and>
      (\<forall>j. in_array j b' = in_array j addr)"
    using modify_long_elems [OF arr, of _ "\<lambda>_. False", OF mask_bits(2)] by (auto simp: clear_bit_mem_def)
  show "\<exists>b'. change_bit_mem nr addr = Inr b' \<and>
      bits_set b' = (if nr \<in> bits_set addr then bits_set addr - {nr} else insert nr (bits_set addr)) \<and>
      (\<forall>j. in_array j b' = in_array j addr)"
    using modify_long_elems [OF arr, of _ Not, OF mask_bits(3)] by (auto simp: change_bit_mem_def)
qed

lemma old_and_mask: "p AND BIT_MASK nr \<noteq> 0 \<longleftrightarrow> bit p (unat nr mod BITS_PER_LONG)"
proof -
  have "p AND BIT_MASK nr \<noteq> 0 \<longleftrightarrow> (\<exists>k. bit (p AND BIT_MASK nr) k)"
    by (metis bit_word_eqI bit_0_eq bot_apply bot_bool_def)
  then show ?thesis by (simp add: bit_and_iff bit_BIT_MASK)
qed

lemma test_and_ops:
  "in_array nr addr \<Longrightarrow> test_and_set_bit nr addr = map_sum id (Pair (nr \<in> bits_set addr)) (set_bit_mem nr addr)"
  "in_array nr addr \<Longrightarrow> test_and_clear_bit nr addr = map_sum id (Pair (nr \<in> bits_set addr)) (clear_bit_mem nr addr)"
  "in_array nr addr \<Longrightarrow> test_and_change_bit nr addr = map_sum id (Pair (nr \<in> bits_set addr)) (change_bit_mem nr addr)"
  by (simp_all add: test_and_set_bit_def test_and_clear_bit_def test_and_change_bit_def set_bit_mem_def
      clear_bit_mem_def change_bit_mem_def modify_long_def read_long_def in_array_def bits_set_def old_and_mask)

text \<open>
  C40. A bit array implements a set of numbers: setting, clearing and toggling a bit inside the array
  are insertion, removal and symmetric difference on the set of the bits that are set, the
  test-and-modify operations do the same and return the old membership, and testing is membership;
  outside the array every operation is undefined.
\<close>

theorem bit_array_implements_set:
  "if in_array nr addr then
     test_bit_mem nr addr = Inr (nr \<in> bits_set addr) \<and>
     (\<exists>a. set_bit_mem nr addr = Inr a \<and> test_and_set_bit nr addr = Inr (nr \<in> bits_set addr, a) \<and>
          bits_set a = insert nr (bits_set addr)) \<and>
     (\<exists>a. clear_bit_mem nr addr = Inr a \<and> test_and_clear_bit nr addr = Inr (nr \<in> bits_set addr, a) \<and>
          bits_set a = bits_set addr - {nr}) \<and>
     (\<exists>a. change_bit_mem nr addr = Inr a \<and> test_and_change_bit nr addr = Inr (nr \<in> bits_set addr, a) \<and>
          bits_set a = (if nr \<in> bits_set addr then bits_set addr - {nr} else insert nr (bits_set addr)))
   else test_bit_mem nr addr = Inl Undefined \<and> set_bit_mem nr addr = Inl Undefined \<and>
     clear_bit_mem nr addr = Inl Undefined \<and> change_bit_mem nr addr = Inl Undefined \<and>
     test_and_set_bit nr addr = Inl Undefined \<and> test_and_clear_bit nr addr = Inl Undefined \<and>
     test_and_change_bit nr addr = Inl Undefined"
proof (cases "in_array nr addr")
  case True
  then show ?thesis
    using ba.ins_elems [OF True] ba.del_elems [OF True] ba.flip_elems [OF True]
    by (auto simp: test_and_ops test_bit_mem_elems)
next
  case False
  then show ?thesis
    by (simp add: in_array_def test_bit_mem_def set_bit_mem_def clear_bit_mem_def change_bit_mem_def
        test_and_set_bit_def test_and_clear_bit_def test_and_change_bit_def modify_long_def read_long_def)
qed

section \<open>Searching the first bit\<close>

lemma builtin_ctz_bits:
  fixes w :: "'a::len word"
  assumes "w \<noteq> 0"
  shows "builtin_ctz w < LENGTH('a)" and "bit w (builtin_ctz w)" and "i < builtin_ctz w \<Longrightarrow> \<not> bit w i"
proof -
  have len: "length (bits_of w) = LENGTH('a)" by (simp add: bits_of_def)
  have nth: "bits_of w ! i = bit w i" if "i < LENGTH('a)" for i using that by (simp add: bits_of_def)
  obtain j where j: "bit w j" using assms by (metis bit_word_eqI bit_0_eq bot_apply bot_bool_def)
  then have "j < LENGTH('a)" by (rule bit_imp_le_length)
  then have "\<exists>b\<in>set (bits_of w). b" using j by (auto simp: bits_of_def)
  then show lt: "builtin_ctz w < LENGTH('a)"
    unfolding builtin_ctz_def using len takeWhile_stops [of "bits_of w" Not] by simp
  then show "bit w (builtin_ctz w)"
    using nth_length_takeWhile [of Not "bits_of w"] nth len unfolding builtin_ctz_def by simp
  show "\<not> bit w i" if "i < builtin_ctz w"
    using that lt nth [of i] takeWhile_nth [of i Not "bits_of w"] set_takeWhileD [of _ Not "bits_of w"]
      nth_mem [of i "takeWhile Not (bits_of w)"] by (auto simp: builtin_ctz_def)
qed

text \<open>Bit \<open>k\<close> of the memory region.\<close>

definition mem_bit :: "u64 list \<Rightarrow> nat \<Rightarrow> bool" where
  "mem_bit addr k \<longleftrightarrow> bit (addr ! (k div 64)) (k mod 64)"

lemma mem_bit_Cons: "mem_bit (p # addr) k = (if k < 64 then bit p k else mem_bit addr (k - 64))"
  by (cases "k < 64") (auto simp: mem_bit_def nth_Cons' le_div_geq le_mod_geq not_less)

lemma find_first_loop_spec:
  assumes "sz \<le> result + 64 * length addr"
  shows "\<exists>r \<le> sz. find_first_loop addr sz result = Inr r \<and> (\<forall>k. result + k < r \<longrightarrow> \<not> mem_bit addr k) \<and>
    (r < sz \<longrightarrow> result \<le> r \<and> mem_bit addr (r - result))"
  using assms
proof (induction addr arbitrary: result)
  case Nil
  then show ?case by (subst find_first_loop.simps) simp
next
  case (Cons p addr)
  consider "sz \<le> result" | "result < sz" "p = 0" | "result < sz" "p \<noteq> 0" by linarith
  then show ?case
  proof cases
    case 1
    then show ?thesis by (subst find_first_loop.simps) simp
  next
    case 2
    then obtain r where r: "r \<le> sz" "find_first_loop addr sz (result + 64) = Inr r"
      "\<And>k. result + 64 + k < r \<Longrightarrow> \<not> mem_bit addr k"
      "r < sz \<Longrightarrow> result + 64 \<le> r \<and> mem_bit addr (r - (result + 64))"
      using Cons.IH [of "result + 64"] Cons.prems by auto
    have "find_first_loop (p # addr) sz result = Inr r"
      using 2 r(2) by (subst find_first_loop.simps) (simp add: BITS_PER_LONG_def)
    moreover have "\<not> mem_bit (p # addr) k" if "result + k < r" for k
      using that r(3) [of "k - 64"] 2 by (auto simp: mem_bit_Cons)
    moreover have "result \<le> r \<and> mem_bit (p # addr) (r - result)" if "r < sz"
      using r(4) [OF that] by (auto simp: mem_bit_Cons)
    ultimately show ?thesis using r(1) by blast
  next
    case 3
    have "find_first_loop (p # addr) sz result = Inr (min sz (result + builtin_ctz p))"
      using 3 by (subst find_first_loop.simps) (auto simp: Let_def ctz64_def)
    then show ?thesis
      using builtin_ctz_bits [OF 3(2)] by (auto simp: mem_bit_Cons min_def)
  qed
qed

text \<open>
  Searching a memory region that holds at least the given number of bits returns the number of
  its first set bit, or the size when there is none.
\<close>

theorem find_first_bit_finds_first:
  assumes "sz \<le> 64 * length addr"
  shows "\<exists>r \<le> sz. find_first_bit addr sz = Inr r \<and> (\<forall>k < r. \<not> mem_bit addr k) \<and> (r < sz \<longrightarrow> mem_bit addr r)"
  using find_first_loop_spec [of sz 0 addr] assms by (simp add: find_first_bit_def)

theorem find_first_bit_finds_first_witness:
  "\<exists>r \<le> 100. find_first_bit [0, 48] 100 = Inr r \<and> (\<forall>k < r. \<not> mem_bit [0, 48] k) \<and> (r < 100 \<longrightarrow> mem_bit [0, 48] r)"
  using find_first_bit_finds_first [of 100 "[0, 48]"] by simp

section \<open>Rotations and fields, bit by bit\<close>

lemma rest_shift_value:
  assumes "n = 2 ^ k" and "k < 32" and "unat s < n"
  shows "rest_shift (of_nat n) s = (n - unat s) mod n"
proof -
  have "n < 2 ^ 32" using power_strict_increasing [of k 32 "2 :: nat"] assms(1,2) by simp
  then have n: "unat (of_nat n :: u32) = n" by (simp add: unsigned_of_nat take_bit_nat_eq_self)
  have "(of_nat n :: u32) - 1 = mask k" using assms(1) by (simp add: mask_eq_exp_minus_1)
  then have "rest_shift (of_nat n) s = unat (of_nat n - s) mod n"
    by (simp add: rest_shift_def unat_and_mask assms(1))
  moreover have "unat (of_nat n - s) = n - unat s"
    using assms(3) n by (simp add: unat_sub word_le_nat_alt)
  ultimately show ?thesis by simp
qed

lemma mod_once: "L \<le> n \<Longrightarrow> n < 2 * L \<Longrightarrow> n mod L = n - (L :: nat)"
  by (simp add: le_mod_geq)

lemma rotl_bits:
  fixes w :: "'a::len word"
  assumes "s < LENGTH('a)"
  shows "push_bit s w OR drop_bit ((LENGTH('a) - s) mod LENGTH('a)) w = word_rotl s w"
proof (cases "s = 0")
  case False
  show ?thesis
  proof (rule bit_word_eqI)
    fix i assume "i < LENGTH('a)"
    then show "bit (push_bit s w OR drop_bit ((LENGTH('a) - s) mod LENGTH('a)) w) i = bit (word_rotl s w) i"
      using assms False
      by (cases "s \<le> i")
        (auto simp: bit_or_iff bit_push_bit_iff bit_drop_bit_eq bit_word_rotl_iff mod_once add.commute
          dest: bit_imp_le_length)
  qed
qed (simp, rule bit_word_eqI, simp add: bit_word_rotl_iff)

lemma rotr_bits:
  fixes w :: "'a::len word"
  assumes "s < LENGTH('a)"
  shows "drop_bit s w OR push_bit ((LENGTH('a) - s) mod LENGTH('a)) w = word_rotr s w"
proof (cases "s = 0")
  case False
  show ?thesis
  proof (rule bit_word_eqI)
    fix i assume "i < LENGTH('a)"
    then show "bit (drop_bit s w OR push_bit ((LENGTH('a) - s) mod LENGTH('a)) w) i = bit (word_rotr s w) i"
      using assms False
      by (cases "i + s < LENGTH('a)")
        (auto simp: bit_or_iff bit_push_bit_iff bit_drop_bit_eq bit_word_rotr_iff mod_once add.commute
          dest: bit_imp_le_length)
  qed
qed (simp, rule bit_word_eqI, simp add: bit_word_rotr_iff)

lemma promoted_shift_fits:
  fixes w :: "'a::len word"
  assumes "s < LENGTH('a)" and "LENGTH('a) \<le> 16"
  shows "unat w * 2 ^ s < 2 ^ 31"
proof -
  have "unat w * 2 ^ s < 2 ^ LENGTH('a) * 2 ^ s" by simp
  also have "\<dots> \<le> 2 ^ 31" unfolding power_add [symmetric] using assms by (intro power_increasing) simp_all
  finally show ?thesis .
qed

lemma rotate_values:
  "unat s < 8 \<Longrightarrow> rol8 b s = Inr (word_rotl (unat s) b) \<and> ror8 b s = Inr (word_rotr (unat s) b)"
  "unat s < 16 \<Longrightarrow> rol16 h s = Inr (word_rotl (unat s) h) \<and> ror16 h s = Inr (word_rotr (unat s) h)"
  "unat s < 32 \<Longrightarrow> rol32 w s = Inr (word_rotl (unat s) w) \<and> ror32 w s = Inr (word_rotr (unat s) w)"
  "unat s < 64 \<Longrightarrow> rol64 d s = Inr (word_rotl (unat s) d) \<and> ror64 d s = Inr (word_rotr (unat s) d)"
  using rest_shift_value [of 8 3 s] rotl_bits [of "unat s" b] rotr_bits [of "unat s" b]
    promoted_shift_fits [of "unat s" b]
  apply (simp add: rol8_def ror8_def)
  using rest_shift_value [of 16 4 s] rotl_bits [of "unat s" h] rotr_bits [of "unat s" h]
    promoted_shift_fits [of "unat s" h]
  apply (simp add: rol16_def ror16_def)
  using rest_shift_value [of 32 5 s] rotl_bits [of "unat s" w] rotr_bits [of "unat s" w]
  apply (simp add: rol32_def ror32_def)
  using rest_shift_value [of 64 6 s] rotl_bits [of "unat s" d] rotr_bits [of "unat s" d]
  apply (simp add: rol64_def ror64_def)
  done

text \<open>
  For a shift below the width the rotations of all four widths are well defined and rotate; the
  wider shifts of the 8- and 16-bit variants are excluded.
\<close>

theorem rotations_rotate:
  "(unat s < 8 \<longrightarrow> rol8 b s = Inr (word_rotl (unat s) b) \<and> ror8 b s = Inr (word_rotr (unat s) b)) \<and>
   (unat s < 16 \<longrightarrow> rol16 h s = Inr (word_rotl (unat s) h) \<and> ror16 h s = Inr (word_rotr (unat s) h)) \<and>
   (unat s < 32 \<longrightarrow> rol32 w s = Inr (word_rotl (unat s) w) \<and> ror32 w s = Inr (word_rotr (unat s) w)) \<and>
   (unat s < 64 \<longrightarrow> rol64 d s = Inr (word_rotl (unat s) d) \<and> ror64 d s = Inr (word_rotr (unat s) d))"
  by (simp add: rotate_values)

theorem rotations_rotate_witness:
  "rol8 0x81 1 = Inr (word_rotl 1 0x81) \<and> rol8 0x81 1 = Inr 3 \<and>
   ror64 3 1 = Inr (word_rotr 1 3) \<and> ror64 3 1 = Inr 0x8000000000000001"
  using rotations_rotate [of 1 "0x81" 0 0 3] by (simp add: rol8_def ror64_def rest_shift_def)

section \<open>Bit fields, bit by bit\<close>

lemma ones_bits: "l \<le> LENGTH('a) \<Longrightarrow> bit (drop_bit (LENGTH('a) - l) (NOT 0) :: 'a::len word) i \<longleftrightarrow> i < l"
  by (auto simp: bit_simps)

lemma field_bits:
  fixes v f :: "'a::len word"
  assumes "0 < l" and "s + l \<le> LENGTH('a)" and "i < LENGTH('a)"
  shows "bit (drop_bit s v AND drop_bit (LENGTH('a) - l) (NOT 0)) i \<longleftrightarrow> i < l \<and> bit v (s + i)"
    and "bit (signed_drop_bit (LENGTH('a) - l) (push_bit (LENGTH('a) - l - s) v)) i \<longleftrightarrow> bit v (s + min i (l - 1))"
    and "bit ((v AND NOT (push_bit s (drop_bit (LENGTH('a) - l) (NOT 0)))) OR
        (push_bit s f AND push_bit s (drop_bit (LENGTH('a) - l) (NOT 0)))) i \<longleftrightarrow>
      (if s \<le> i \<and> i < s + l then bit f (i - s) else bit v i)"
  using assms by (auto simp: bit_simps ones_bits add.commute)

lemma field_roundtrip:
  fixes v f :: "'a::len word"
  assumes "0 < l" and "s + l \<le> LENGTH('a)"
  defines "ones \<equiv> drop_bit (LENGTH('a) - l) (NOT 0) :: 'a word"
  shows "drop_bit s ((v AND NOT (push_bit s ones)) OR (push_bit s f AND push_bit s ones)) AND ones = f AND mask l"
    and "(v AND NOT (push_bit s ones)) OR (push_bit s (drop_bit s v AND ones) AND push_bit s ones) = v"
  using assms(1,2) unfolding ones_def
  by (auto intro!: bit_word_eqI simp: bit_simps ones_bits)

lemma fields64:
  assumes "0 \<le> s" and "0 < l" and "s + l \<le> 64"
  shows "\<exists>x y z. extract64 v s l = Inr x \<and> sextract64 v s l = Inr y \<and> deposit64 v s l f = Inr z \<and>
        (\<forall>i < 64. (bit x i \<longleftrightarrow> i < nat l \<and> bit v (nat s + i)) \<and>
           (bit y i \<longleftrightarrow> bit v (nat s + min i (nat l - 1))) \<and>
           (bit z i \<longleftrightarrow> (if nat s \<le> i \<and> i < nat s + nat l then bit f (i - nat s) else bit v i))) \<and>
        extract64 z s l = Inr (f AND mask (nat l)) \<and> deposit64 v s l x = Inr v"
proof -
  have nats: "nat (64 - l) = 64 - nat l" "nat (64 - l - s) = 64 - nat l - nat s"
    and pos: "0 < nat l" "nat s + nat l \<le> LENGTH(64)" and len: "l \<le> 64 - s"
    using assms by (simp_all add: nat_diff_distrib)
  show ?thesis
    unfolding extract64_def sextract64_def deposit64_def Let_def nats
    using field_bits [OF pos] field_roundtrip [OF pos] assms len by simp
qed

lemma fields32:
  assumes "0 \<le> s" and "0 < l" and "s + l \<le> 32"
  shows "\<exists>x y z. extract32 v s l = Inr x \<and> sextract32 v s l = Inr y \<and> deposit32 v s l f = Inr z \<and>
        (\<forall>i < 32. (bit x i \<longleftrightarrow> i < nat l \<and> bit v (nat s + i)) \<and>
           (bit y i \<longleftrightarrow> bit v (nat s + min i (nat l - 1))) \<and>
           (bit z i \<longleftrightarrow> (if nat s \<le> i \<and> i < nat s + nat l then bit f (i - nat s) else bit v i))) \<and>
        extract32 z s l = Inr (f AND mask (nat l)) \<and> deposit32 v s l x = Inr v"
proof -
  have nats: "nat (32 - l) = 32 - nat l" "nat (32 - l - s) = 32 - nat l - nat s"
    and pos: "0 < nat l" "nat s + nat l \<le> LENGTH(32)" and len: "l \<le> 32 - s"
    using assms by (simp_all add: nat_diff_distrib)
  show ?thesis
    unfolding extract32_def sextract32_def deposit32_def Let_def nats
    using field_bits [OF pos] field_roundtrip [OF pos] assms len by simp
qed

text \<open>
  Bit fields of 32- and 64-bit values: when the field lies inside the value, extracting it gives
  its bits with zeros above or, sign-extended, its top bit above; depositing replaces exactly the bits
  of the field; extracting what was deposited gives the low bits of the deposited value, and depositing
  what was extracted changes nothing. Every other field is refused by an assertion.
\<close>

theorem bit_fields:
  "(if 0 \<le> s \<and> 0 < l \<and> s + l \<le> 64 then
      \<exists>x y z. extract64 v s l = Inr x \<and> sextract64 v s l = Inr y \<and> deposit64 v s l f = Inr z \<and>
        (\<forall>i < 64. (bit x i \<longleftrightarrow> i < nat l \<and> bit v (nat s + i)) \<and>
           (bit y i \<longleftrightarrow> bit v (nat s + min i (nat l - 1))) \<and>
           (bit z i \<longleftrightarrow> (if nat s \<le> i \<and> i < nat s + nat l then bit f (i - nat s) else bit v i))) \<and>
        extract64 z s l = Inr (f AND mask (nat l)) \<and> deposit64 v s l x = Inr v
    else extract64 v s l = Inl Assert \<and> sextract64 v s l = Inl Assert \<and> deposit64 v s l f = Inl Assert) \<and>
   (if 0 \<le> s \<and> 0 < l \<and> s + l \<le> 32 then
      \<exists>x y z. extract32 v' s l = Inr x \<and> sextract32 v' s l = Inr y \<and> deposit32 v' s l f' = Inr z \<and>
        (\<forall>i < 32. (bit x i \<longleftrightarrow> i < nat l \<and> bit v' (nat s + i)) \<and>
           (bit y i \<longleftrightarrow> bit v' (nat s + min i (nat l - 1))) \<and>
           (bit z i \<longleftrightarrow> (if nat s \<le> i \<and> i < nat s + nat l then bit f' (i - nat s) else bit v' i))) \<and>
        extract32 z s l = Inr (f' AND mask (nat l)) \<and> deposit32 v' s l x = Inr v'
    else extract32 v' s l = Inl Assert \<and> sextract32 v' s l = Inl Assert \<and> deposit32 v' s l f' = Inl Assert)"
  using fields64 [of s l v f] fields32 [of s l v' f']
  by (auto simp: extract64_def sextract64_def deposit64_def extract32_def sextract32_def deposit32_def
      assert_res_def)

theorem bit_fields_witness:
  "(\<exists>x z. extract64 0xABCD 4 8 = Inr x \<and> (\<forall>i < 64. bit x i \<longleftrightarrow> i < 8 \<and> bit (0xABCD :: u64) (4 + i)) \<and>
      deposit64 0xABCD 4 8 5 = Inr z \<and> extract64 z 4 8 = Inr (5 AND mask 8)) \<and>
   extract64 0xABCD 60 8 = Inl Assert"
proof -
  have "nat 4 = 4" "nat 8 = 8" by simp_all
  then show ?thesis
    using bit_fields [of 4 8 "0xABCD" 5 0 0] bit_fields [of 60 8 "0xABCD" 5 0 0] by auto
qed

section \<open>Rounding\<close>

lemma unat_round:
  fixes base sz :: u64
  assumes "unat base + unat sz \<le> 2 ^ 64" and "sz \<noteq> 0"
  shows "unat (base + sz - 1) = unat base + unat sz - 1"
proof -
  have "0 < unat sz" using assms(2) by (simp add: unat_gt_0)
  then have "unat base + unat (sz - 1) = unat base + unat sz - 1" "unat base + unat sz - 1 < 2 ^ 64"
    using assms unat_pred [OF assms(2)] by linarith+
  then have "unat (base + (sz - 1)) = unat base + unat sz - 1" by (simp add: unat_add_small)
  then show ?thesis by (simp add: algebra_simps)
qed

text \<open>
  Aligning a value upwards leaves every value from the alignment on unchanged instead of
  rounding it to the next multiple, and the value 0 divides by zero: the macro rounds down to a
  multiple of the value itself.
\<close>

theorem align_up_does_not_align:
  assumes "sz \<noteq> 0" and "sz \<le> base" and "unat base + unat sz \<le> 2 ^ 64"
  shows "ALIGN_UP base sz = Inr base \<and> ALIGN_UP 0 sz = Inl Undefined"
proof -
  have pos: "0 < unat sz" "unat sz \<le> unat base"
    using assms(1,2) by (simp_all add: unat_gt_0 word_le_nat_alt)
  have "unat ((base + sz - 1) div base) = (unat base + unat sz - 1) div unat base"
    using assms by (simp add: unat_div unat_round)
  also have "\<dots> = 1" using pos by (intro div_nat_eqI) simp_all
  finally have "(base + sz - 1) div base = 1" by (simp add: word_unat_eq_iff)
  moreover have "base \<noteq> 0" using pos by auto
  ultimately show ?thesis by (simp add: ALIGN_UP_def ALIGN_DOWN_def)
qed

text \<open>The example of the comment: 4097 should be aligned to 8192.\<close>

theorem align_up_does_not_align_witness: "ALIGN_UP 4097 4096 = Inr 4097 \<and> ALIGN_UP 0 4096 = Inl Undefined"
  using align_up_does_not_align [of 4096 4097] by simp

lemma unat_and_minus_power:
  fixes x :: "'a::len word"
  assumes "k < LENGTH('a)"
  shows "unat (x AND - (2 ^ k)) = unat x div 2 ^ k * 2 ^ k"
proof -
  have "- (2 ^ k) = (NOT (mask k) :: 'a word)" by (simp add: mask_eq_exp_minus_1 minus_eq_not_minus_1)
  then have "x AND - (2 ^ k) = push_bit k (drop_bit k x)"
    by (intro bit_word_eqI) (auto simp: bit_simps)
  moreover have "unat x div 2 ^ k * 2 ^ k \<le> unat x" by simp
  ultimately show ?thesis
    using order_le_less_trans [OF _ unsigned_less [of x, where 'a = nat]]
    by (simp only: unat_push_bit_mod unat_drop_bit mod_less)
qed

text \<open>
  Rounding up to a power of two gives the least multiple of it that is not below the value, and
  the rounding division the least quotient that covers the value, as long as the sum does not wrap.
\<close>

theorem round_up_least_multiple:
  assumes "sz = 2 ^ k" and "k < 64" and "unat base + 2 ^ k \<le> 2 ^ 64"
  shows "\<exists>q. DIV_ROUND_UP base sz = Inr q \<and> unat (ROUND_UP base sz) = unat q * 2 ^ k \<and>
    unat base \<le> unat q * 2 ^ k \<and> unat q * 2 ^ k < unat base + 2 ^ k"
proof -
  have "unat (of_nat (2 ^ k) :: u64) = 2 ^ k"
    using assms(2) unfolding unsigned_of_nat by (simp add: take_bit_nat_eq_self)
  then have sz: "unat sz = 2 ^ k" "sz \<noteq> 0" using assms(1,2) by auto
  then have x: "unat (base + sz - 1) = unat base + 2 ^ k - 1" using assms(3) by (simp add: unat_round)
  define n where "n = unat base + 2 ^ k - 1"
  have "n < n div 2 ^ k * 2 ^ k + 2 ^ k"
    using mod_less_divisor [of "2 ^ k" n] div_mult_mod_eq [of n "2 ^ k"] by (metis add_less_cancel_left zero_less_power zero_less_numeral)
  then have "unat base \<le> n div 2 ^ k * 2 ^ k" unfolding n_def by linarith
  moreover have "n div 2 ^ k * 2 ^ k \<le> n" by simp
  then have "n div 2 ^ k * 2 ^ k < unat base + 2 ^ k" unfolding n_def by (rule order_le_less_trans) simp
  ultimately show ?thesis
    using sz assms(1,2) x by (simp add: DIV_ROUND_UP_def ROUND_UP_def unat_div unat_and_minus_power n_def)
qed

theorem round_up_least_multiple_witness:
  "\<exists>q. DIV_ROUND_UP 4097 4096 = Inr q \<and> unat (ROUND_UP 4097 4096) = unat q * 4096 \<and>
    4097 \<le> unat q * 4096 \<and> unat q * 4096 < 4097 + 4096"
  using round_up_least_multiple [of 4096 12 4097] by simp

end
