(* ===== verification/TcgRuntime.thy ===== *)
theory TcgRuntime
  imports BitOps
begin

text \<open>
  The out-of-line helpers of the translated code (\<^verbatim>\<open>libtcg/src/tcg-runtime.c\<close>): division, shifts,
  high halves of products and the counting of bits. Division by zero, the one quotient that does
  not fit, and shifts by the width and more are \<open>Undefined\<close>.
\<close>

section \<open>32-bit helpers\<close>

definition helper_div_i32 :: "u32 \<Rightarrow> u32 \<Rightarrow> u32 res" where
  "helper_div_i32 arg1 arg2 =
     (if arg2 = 0 \<or> (sint arg1 = - (2 ^ 31) \<and> arg2 = - 1) then Inl Undefined
      else Inr (sdiv_word arg1 arg2))"

definition helper_rem_i32 :: "u32 \<Rightarrow> u32 \<Rightarrow> u32 res" where
  "helper_rem_i32 arg1 arg2 =
     (if arg2 = 0 \<or> (sint arg1 = - (2 ^ 31) \<and> arg2 = - 1) then Inl Undefined
      else Inr (smod_word arg1 arg2))"

definition helper_divu_i32 :: "u32 \<Rightarrow> u32 \<Rightarrow> u32 res" where
  "helper_divu_i32 arg1 arg2 = (if arg2 = 0 then Inl Undefined else Inr (arg1 div arg2))"

definition helper_remu_i32 :: "u32 \<Rightarrow> u32 \<Rightarrow> u32 res" where
  "helper_remu_i32 arg1 arg2 = (if arg2 = 0 then Inl Undefined else Inr (arg1 mod arg2))"

section \<open>64-bit helpers\<close>

definition helper_shl_i64 :: "u64 \<Rightarrow> u64 \<Rightarrow> u64 res" where
  "helper_shl_i64 arg1 arg2 = (if arg2 < 64 then Inr (push_bit (unat arg2) arg1) else Inl Undefined)"

definition helper_shr_i64 :: "u64 \<Rightarrow> u64 \<Rightarrow> u64 res" where
  "helper_shr_i64 arg1 arg2 = (if arg2 < 64 then Inr (drop_bit (unat arg2) arg1) else Inl Undefined)"

definition helper_sar_i64 :: "u64 \<Rightarrow> u64 \<Rightarrow> u64 res" where
  "helper_sar_i64 arg1 arg2 =
     (if 0 \<le> sint arg2 \<and> sint arg2 < 64 then Inr (signed_drop_bit (nat (sint arg2)) arg1) else Inl Undefined)"

definition helper_div_i64 :: "u64 \<Rightarrow> u64 \<Rightarrow> u64 res" where
  "helper_div_i64 arg1 arg2 =
     (if arg2 = 0 \<or> (sint arg1 = - (2 ^ 63) \<and> arg2 = - 1) then Inl Undefined
      else Inr (sdiv_word arg1 arg2))"

definition helper_rem_i64 :: "u64 \<Rightarrow> u64 \<Rightarrow> u64 res" where
  "helper_rem_i64 arg1 arg2 =
     (if arg2 = 0 \<or> (sint arg1 = - (2 ^ 63) \<and> arg2 = - 1) then Inl Undefined
      else Inr (smod_word arg1 arg2))"

definition helper_divu_i64 :: "u64 \<Rightarrow> u64 \<Rightarrow> u64 res" where
  "helper_divu_i64 arg1 arg2 = (if arg2 = 0 then Inl Undefined else Inr (arg1 div arg2))"

definition helper_remu_i64 :: "u64 \<Rightarrow> u64 \<Rightarrow> u64 res" where
  "helper_remu_i64 arg1 arg2 = (if arg2 = 0 then Inl Undefined else Inr (arg1 mod arg2))"

definition helper_muluh_i64 :: "u64 \<Rightarrow> u64 \<Rightarrow> u64" where
  "helper_muluh_i64 arg1 arg2 = (let (l, h) = mulu64 arg1 arg2 in h)"

definition helper_mulsh_i64 :: "u64 \<Rightarrow> u64 \<Rightarrow> u64" where
  "helper_mulsh_i64 arg1 arg2 = (let (l, h) = muls64 arg1 arg2 in h)"

definition helper_clz_i32 :: "u32 \<Rightarrow> u32 \<Rightarrow> u32" where
  "helper_clz_i32 arg zero_val = (if arg \<noteq> 0 then of_nat (clz32 arg) else zero_val)"

definition helper_ctz_i32 :: "u32 \<Rightarrow> u32 \<Rightarrow> u32" where
  "helper_ctz_i32 arg zero_val = (if arg \<noteq> 0 then of_nat (ctz32 arg) else zero_val)"

definition helper_clz_i64 :: "u64 \<Rightarrow> u64 \<Rightarrow> u64" where
  "helper_clz_i64 arg zero_val = (if arg \<noteq> 0 then of_nat (clz64 arg) else zero_val)"

definition helper_ctz_i64 :: "u64 \<Rightarrow> u64 \<Rightarrow> u64" where
  "helper_ctz_i64 arg zero_val = (if arg \<noteq> 0 then of_nat (ctz64 arg) else zero_val)"

definition helper_clrsb_i32 :: "u32 \<Rightarrow> u32" where
  "helper_clrsb_i32 arg = of_nat (clrsb32 arg)"

definition helper_clrsb_i64 :: "u64 \<Rightarrow> u64" where
  "helper_clrsb_i64 arg = of_nat (clrsb64 arg)"

definition helper_ctpop_i32 :: "u32 \<Rightarrow> u32" where
  "helper_ctpop_i32 arg = of_nat (ctpop32 arg)"

definition helper_ctpop_i64 :: "u64 \<Rightarrow> u64" where
  "helper_ctpop_i64 arg = of_nat (ctpop64 arg)"

section \<open>Division of signed words\<close>

lemma sint_word_of_int_small:
  "- (2 ^ (LENGTH('a) - 1)) \<le> k \<Longrightarrow> k < 2 ^ (LENGTH('a) - 1) \<Longrightarrow> sint (word_of_int k :: 'a::len word) = k"
  by (simp add: signed_of_int signed_take_bit_int_eq_self)

lemma signed_division_fits:
  fixes a b :: "'a::len word"
  assumes "b \<noteq> 0" and "\<not> (sint a = - (2 ^ (LENGTH('a) - 1)) \<and> b = - 1)"
  shows "sint (sdiv_word a b) = sint a sdiv sint b" and "sint (smod_word a b) = sint a smod sint b"
proof -
  define M :: int where "M = 2 ^ (LENGTH('a) - 1)"
  have range: "- M \<le> sint w" "sint w < M" for w :: "'a word"
    unfolding M_def by (rule sint_ge, rule sint_lt)
  have b: "sint b \<noteq> 0" using assms(1) by (simp add: signed_eq_0_iff)
  have b1: "sint b = - 1 \<longleftrightarrow> b = - 1" by (metis signed_minus_1 signed_word_eqI)
  have ab: "\<not> (sint a = - M \<and> sint b = - 1)" using assms(2) b1 by (simp add: M_def)
  have "sint a sdiv sint b \<noteq> M"
  proof
    assume eq: "sint a sdiv sint b = M"
    have "M \<le> \<bar>sint a\<bar>" using sdiv_int_range [of "sint a" "sint b"] eq by simp
    then have "sint a = - M" using range [of a] by linarith
    moreover have "sint a \<noteq> 0" using \<open>sint a = - M\<close> by (simp add: M_def)
    ultimately show False using int_sdiv_negated_is_minus1 [of "sint a" "sint b"] eq ab by simp
  qed
  then have "- M \<le> sint a sdiv sint b" "sint a sdiv sint b < M"
    using sdiv_int_range [of "sint a" "sint b"] range [of a] by auto
  then show "sint (sdiv_word a b) = sint a sdiv sint b"
    unfolding sdiv_word_def M_def by (rule sint_word_of_int_small)
  have "- M \<le> sint a smod sint b" "sint a smod sint b < M"
    using smod_int_range [OF b, of "sint a"] range [of b] by auto
  then show "sint (smod_word a b) = sint a smod sint b"
    unfolding smod_word_def M_def by (rule sint_word_of_int_small)
qed

text \<open>
  The division helpers are defined exactly when the divisor is not zero and, for signed
  operands, the quotient fits; then quotient and remainder are those of division rounding
  towards zero, without wrap-around.
\<close>

theorem division_helpers:
  "(if b = 0 \<or> (sint a = - (2 ^ 31) \<and> b = - 1)
    then helper_div_i32 a b = Inl Undefined \<and> helper_rem_i32 a b = Inl Undefined
    else \<exists>q r. helper_div_i32 a b = Inr q \<and> helper_rem_i32 a b = Inr r \<and>
      sint q = sint a sdiv sint b \<and> sint r = sint a smod sint b \<and> sint a = sint q * sint b + sint r) \<and>
   (if d = 0 \<or> (sint c = - (2 ^ 63) \<and> d = - 1)
    then helper_div_i64 c d = Inl Undefined \<and> helper_rem_i64 c d = Inl Undefined
    else \<exists>q r. helper_div_i64 c d = Inr q \<and> helper_rem_i64 c d = Inr r \<and>
      sint q = sint c sdiv sint d \<and> sint r = sint c smod sint d \<and> sint c = sint q * sint d + sint r)"
  using signed_division_fits [of b a] signed_division_fits [of d c]
  by (simp add: helper_div_i32_def helper_rem_i32_def helper_div_i64_def helper_rem_i64_def
      sdiv_mult_smod_eq)

text \<open>
  The helpers for the high half of a product return the product divided by $2^{64}$ and
  rounded down, for unsigned and for signed operands.
\<close>

theorem high_product_helpers:
  "unat (helper_muluh_i64 a b) = unat a * unat b div 2 ^ 64 \<and>
   sint (helper_mulsh_i64 a b) = sint a * sint b div 2 ^ 64"
proof
  have "val128 (mulu64 a b) div 2 ^ 64 = unat (snd (mulu64 a b))" by (simp add: val128_def)
  then show "unat (helper_muluh_i64 a b) = unat a * unat b div 2 ^ 64"
    by (simp add: helper_muluh_i64_def val128_mulu64 split: prod.split)
  have abs: "\<bar>sint a * sint b\<bar> \<le> 2 ^ 126" by (rule abs_sint_mult)
  then have "- (2 ^ 126) div 2 ^ 64 \<le> sint a * sint b div 2 ^ 64" "sint a * sint b div 2 ^ 64 \<le> 2 ^ 126 div 2 ^ 64"
    by (intro zdiv_mono1; simp)+
  then have "sint (word_of_int (sint a * sint b div 2 ^ 64) :: u64) = sint a * sint b div 2 ^ 64"
    by (intro sint_word_of_int_small) simp_all
  then show "sint (helper_mulsh_i64 a b) = sint a * sint b div 2 ^ 64"
    unfolding helper_mulsh_i64_def muls64_sint by simp
qed

end
