(* ===== verification/GVec.thy ===== *)
theory GVec
  imports TcgRuntime
begin

text \<open>
  The frame of the vector helpers (\<^verbatim>\<open>libtcg/src/tcg-runtime-gvec.c\<close>, \<^verbatim>\<open>tcg-gvec-desc.h\<close> and
  \<^verbatim>\<open>simd_desc\<close> of \<^verbatim>\<open>tcg-op-gvec.c\<close>): memory as a function from addresses to bytes, little-endian
  loads and stores of every width, the descriptor word, and the loops over the elements of two and
  three operands. The macro \<^verbatim>\<open>CONFIG_VECTOR16\<close> is defined nowhere, so the element types are the
  scalar ones. The helpers are in \<open>GVecHelpers\<close>; the operands may overlap as the code allows.
\<close>

section \<open>Memory\<close>

type_synonym mem = "nat \<Rightarrow> u8"

definition ld :: "mem \<Rightarrow> nat \<Rightarrow> 'a::len word" where
  "ld m p = horner_sum of_bool 2 (map (\<lambda>i. bit (m (p + i div 8)) (i mod 8)) [0..<LENGTH('a)])"

definition st :: "nat \<Rightarrow> 'a::len word \<Rightarrow> mem \<Rightarrow> mem" where
  "st p w m = (\<lambda>q. if p \<le> q \<and> q < p + LENGTH('a) div 8 then ucast (drop_bit (8 * (q - p)) w) else m q)"

text \<open>\<^verbatim>\<open>check_overlap_2\<close> as a condition: the operands are the same or apart.\<close>

definition overlap_ok :: "nat \<Rightarrow> nat \<Rightarrow> nat \<Rightarrow> bool" where
  "overlap_ok d a n \<longleftrightarrow> d = a \<or> d + n \<le> a \<or> a + n \<le> d"

text \<open>Copying between regions that overlap partly is undefined.\<close>

definition memcpy :: "nat \<Rightarrow> nat \<Rightarrow> nat \<Rightarrow> mem \<Rightarrow> mem res" where
  "memcpy d a n m =
     (if overlap_ok d a n then Inr (\<lambda>q. if d \<le> q \<and> q < d + n then m (a + (q - d)) else m q)
      else Inl Undefined)"

section \<open>Descriptors\<close>

definition SIMD_OPRSZ_SHIFT :: int where "SIMD_OPRSZ_SHIFT = 0"
definition SIMD_OPRSZ_BITS :: int where "SIMD_OPRSZ_BITS = 5"
definition SIMD_MAXSZ_SHIFT :: int where "SIMD_MAXSZ_SHIFT = SIMD_OPRSZ_SHIFT + SIMD_OPRSZ_BITS"
definition SIMD_MAXSZ_BITS :: int where "SIMD_MAXSZ_BITS = 5"
definition SIMD_DATA_SHIFT :: int where "SIMD_DATA_SHIFT = SIMD_MAXSZ_SHIFT + SIMD_MAXSZ_BITS"
definition SIMD_DATA_BITS :: int where "SIMD_DATA_BITS = 32 - SIMD_DATA_SHIFT"

definition simd_desc :: "u32 \<Rightarrow> u32 \<Rightarrow> u32 \<Rightarrow> u32 res" where
  "simd_desc oprsz maxsz data =
     assert_res (oprsz mod 8 = 0 \<and> oprsz \<le> push_bit (nat SIMD_OPRSZ_BITS) 8)
       (assert_res (maxsz mod 8 = 0 \<and> maxsz \<le> push_bit (nat SIMD_MAXSZ_BITS) 8)
         (bind_res (sextract32 data 0 SIMD_DATA_BITS) (\<lambda>x.
            assert_res (data = x)
              (let oprsz = oprsz div 8 - 1; maxsz = maxsz div 8 - 1 in
               bind_res (deposit32 0 SIMD_OPRSZ_SHIFT SIMD_OPRSZ_BITS oprsz) (\<lambda>desc.
               bind_res (deposit32 desc SIMD_MAXSZ_SHIFT SIMD_MAXSZ_BITS maxsz) (\<lambda>desc.
               deposit32 desc SIMD_DATA_SHIFT SIMD_DATA_BITS data))))))"

definition simd_oprsz :: "u32 \<Rightarrow> nat res" where
  "simd_oprsz desc =
     bind_res (extract32 desc SIMD_OPRSZ_SHIFT SIMD_OPRSZ_BITS) (\<lambda>x. Inr (unat ((x + 1) * 8)))"

definition simd_maxsz :: "u32 \<Rightarrow> nat res" where
  "simd_maxsz desc =
     bind_res (extract32 desc SIMD_MAXSZ_SHIFT SIMD_MAXSZ_BITS) (\<lambda>x. Inr (unat ((x + 1) * 8)))"

definition simd_data :: "u32 \<Rightarrow> int res" where
  "simd_data desc = bind_res (sextract32 desc SIMD_DATA_SHIFT SIMD_DATA_BITS) (\<lambda>x. Inr (sint x))"

section \<open>Loops\<close>

text \<open>\<^verbatim>\<open>for (; i < n; i += k)\<close> over a body that updates the memory.\<close>

function for_loop :: "nat \<Rightarrow> nat \<Rightarrow> nat \<Rightarrow> (nat \<Rightarrow> mem \<Rightarrow> mem) \<Rightarrow> mem \<Rightarrow> mem" where
  "for_loop i n k body m =
     (if i < n \<and> 0 < k then for_loop (i + k) n k body (body i m) else m)"
  by pat_completeness auto
termination
  by (relation "measure (\<lambda>(i, n, k, body, m). n - i)") auto

declare for_loop.simps [simp del]

definition clear_high :: "nat \<Rightarrow> nat \<Rightarrow> u32 \<Rightarrow> mem \<Rightarrow> mem res" where
  "clear_high d oprsz desc m =
     bind_res (simd_maxsz desc) (\<lambda>maxsz.
       Inr (if maxsz > oprsz then for_loop oprsz maxsz 8 (\<lambda>i. st (d + i) (0 :: u64)) m else m))"

text \<open>
  The common shape of the helpers: the element type fixes the step, the operation on the elements
  is an argument. A scalar operand is cast to the element type before the loop.
\<close>

definition gvec_3 :: "('a::len word \<Rightarrow> 'a word \<Rightarrow> 'a word) \<Rightarrow> nat \<Rightarrow> nat \<Rightarrow> nat \<Rightarrow> u32 \<Rightarrow> mem \<Rightarrow> mem res" where
  "gvec_3 f d a b desc m =
     bind_res (simd_oprsz desc) (\<lambda>oprsz.
       clear_high d oprsz desc
         (for_loop 0 oprsz (LENGTH('a) div 8) (\<lambda>i m. st (d + i) (f (ld m (a + i)) (ld m (b + i))) m) m))"

definition gvec_2 :: "('a::len word \<Rightarrow> 'a word) \<Rightarrow> nat \<Rightarrow> nat \<Rightarrow> u32 \<Rightarrow> mem \<Rightarrow> mem res" where
  "gvec_2 f d a desc m =
     bind_res (simd_oprsz desc) (\<lambda>oprsz.
       clear_high d oprsz desc
         (for_loop 0 oprsz (LENGTH('a) div 8) (\<lambda>i m. st (d + i) (f (ld m (a + i))) m) m))"

definition gvec_2s :: "('a::len word \<Rightarrow> 'a word \<Rightarrow> 'a word) \<Rightarrow> nat \<Rightarrow> nat \<Rightarrow> u64 \<Rightarrow> u32 \<Rightarrow> mem \<Rightarrow> mem res" where
  "gvec_2s f d a b desc m =
     bind_res (simd_oprsz desc) (\<lambda>oprsz.
       let vecb = ucast b in
       clear_high d oprsz desc
         (for_loop 0 oprsz (LENGTH('a) div 8) (\<lambda>i m. st (d + i) (f (ld m (a + i)) vecb) m) m))"

text \<open>
  A shift by an immediate: the elements are shifted in \<^verbatim>\<open>int\<close> or, when they are wider, in their own
  type; other shift counts than those from 0 to that width are \<open>Undefined\<close>.
\<close>

definition gvec_2i :: "(nat \<Rightarrow> 'a::len word \<Rightarrow> 'a word) \<Rightarrow> nat \<Rightarrow> nat \<Rightarrow> u32 \<Rightarrow> mem \<Rightarrow> mem res" where
  "gvec_2i f d a desc m =
     bind_res (simd_oprsz desc) (\<lambda>oprsz.
     bind_res (simd_data desc) (\<lambda>shift.
       if 0 \<le> shift \<and> shift < int (max 32 LENGTH('a)) then
         clear_high d oprsz desc
           (for_loop 0 oprsz (LENGTH('a) div 8) (\<lambda>i m. st (d + i) (f (nat shift) (ld m (a + i))) m) m)
       else Inl Undefined))"

section \<open>Loads and stores\<close>

lemma bit_ld: "bit (ld m p :: 'a::len word) i \<longleftrightarrow> i < LENGTH('a) \<and> bit (m (p + i div 8)) (i mod 8)"
  unfolding ld_def by (auto simp: bit_horner_sum_bit_word_iff)

lemma ld_cong:
  "(\<And>q. p \<le> q \<Longrightarrow> q < p + LENGTH('a) div 8 \<Longrightarrow> m q = m' q) \<Longrightarrow> 8 dvd LENGTH('a) \<Longrightarrow>
   (ld m p :: 'a::len word) = ld m' p"
  by (rule bit_word_eqI) (auto simp: bit_ld elim!: dvdE)

lemma ld_st_same: "8 dvd LENGTH('a) \<Longrightarrow> ld (st p w m) p = (w :: 'a::len word)"
  by (rule bit_word_eqI) (auto simp: bit_ld st_def bit_simps elim!: dvdE)

lemma st_other: "q < p \<or> p + LENGTH('a) div 8 \<le> q \<Longrightarrow> st p (w :: 'a::len word) m q = m q"
  by (auto simp: st_def)

section \<open>What a loop over elements does\<close>

lemma dvd_gap: "s dvd i \<Longrightarrow> s dvd n \<Longrightarrow> i < n \<Longrightarrow> i + s \<le> (n :: nat)"
  by (metis dvd_def dvd_diff_nat dvd_imp_le le_diff_conv2 less_imp_le zero_less_diff add.commute)

text \<open>
  The value \<open>g i\<close> stored in iteration \<open>i\<close> may read the memory, but not the bytes the earlier
  iterations have written.
\<close>

lemma for_loop_elems:
  fixes g :: "nat \<Rightarrow> mem \<Rightarrow> 'a::len word"
  defines "s \<equiv> LENGTH('a) div 8"
  assumes "8 dvd LENGTH('a)" and "s dvd n" and "s dvd i" and "i \<le> n"
    and local: "\<And>k m m'. s dvd k \<Longrightarrow> k < n \<Longrightarrow> (\<And>q. \<not> (d \<le> q \<and> q < d + k) \<Longrightarrow> m q = m' q) \<Longrightarrow> g k m = g k m'"
    and "\<And>q. \<not> (d \<le> q \<and> q < d + i) \<Longrightarrow> m q = m0 q"
    and "\<And>k. s dvd k \<Longrightarrow> k < i \<Longrightarrow> ld m (d + k) = g k m0"
  shows "(\<forall>k < n. s dvd k \<longrightarrow> ld (for_loop i n s (\<lambda>i m. st (d + i) (g i m) m) m) (d + k) = g k m0) \<and>
    (\<forall>q. \<not> (d \<le> q \<and> q < d + n) \<longrightarrow> for_loop i n s (\<lambda>i m. st (d + i) (g i m) m) m q = m0 q)"
  using assms(4,5,7,8)
proof (induction "n - i" arbitrary: i m rule: less_induct)
  case less
  let ?body = "\<lambda>i m. st (d + i) (g i m) m"
  have s: "0 < s" using \<open>8 dvd LENGTH('a)\<close> unfolding s_def
    by (metis dvd_div_mult_self len_not_eq_0 mult_0 neq0_conv)
  show ?case
  proof (cases "i < n")
    case False
    then have "i = n" using less.prems(2) by simp
    then show ?thesis using less.prems by (subst (1 2) for_loop.simps) auto
  next
    case True
    have gap: "i + s \<le> n" using dvd_gap less.prems(1) \<open>s dvd n\<close> True by blast
    define m' where "m' = ?body i m"
    have g: "g i m = g i m0" using local [OF less.prems(1) True less.prems(3)] .
    have same: "m' q = m0 q" if "\<not> (d \<le> q \<and> q < d + (i + s))" for q
      using that less.prems(3) unfolding m'_def s_def by (subst st_other) auto
    have elems: "ld m' (d + k) = g k m0" if "s dvd k" "k < i + s" for k
    proof (cases "k = i")
      case True
      then show ?thesis unfolding m'_def g by (simp add: ld_st_same \<open>8 dvd LENGTH('a)\<close>)
    next
      case False
      have "k < i"
      proof (rule ccontr)
        assume "\<not> k < i"
        then have "i < k" using False by simp
        then have "i + s \<le> k" using dvd_gap that(1) less.prems(1) by blast
        then show False using that(2) by simp
      qed
      then have "k + s \<le> i" using dvd_gap that(1) less.prems(1) by blast
      then have "ld m' (d + k) = (ld m (d + k) :: 'a word)"
        unfolding m'_def by (intro ld_cong st_other \<open>8 dvd LENGTH('a)\<close>) (simp add: s_def)
      then show ?thesis using less.prems(4) that(1) \<open>k < i\<close> by simp
    qed
    have step: "for_loop i n s ?body m = for_loop (i + s) n s ?body m'"
      using True s by (subst for_loop.simps) (simp add: m'_def)
    have "n - (i + s) < n - i" "s dvd i + s" using True s less.prems(1) by simp_all
    then show ?thesis unfolding step
      by (rule less.hyps [OF _ _ gap]) (fact same, fact elems)
  qed
qed

lemma for_loop_elems_0:
  fixes g :: "nat \<Rightarrow> mem \<Rightarrow> 'a::len word"
  assumes "8 dvd LENGTH('a)" and "LENGTH('a) div 8 dvd n"
    and "\<And>k m m'. LENGTH('a) div 8 dvd k \<Longrightarrow> k < n \<Longrightarrow>
      (\<And>q. \<not> (d \<le> q \<and> q < d + k) \<Longrightarrow> m q = m' q) \<Longrightarrow> g k m = g k m'"
  shows "k < n \<Longrightarrow> LENGTH('a) div 8 dvd k \<Longrightarrow>
      ld (for_loop 0 n (LENGTH('a) div 8) (\<lambda>i m. st (d + i) (g i m) m) m) (d + k) = g k m"
    and "\<not> (d \<le> q \<and> q < d + n) \<Longrightarrow> for_loop 0 n (LENGTH('a) div 8) (\<lambda>i m. st (d + i) (g i m) m) m q = m q"
proof -
  let ?M = "for_loop 0 n (LENGTH('a) div 8) (\<lambda>i m. st (d + i) (g i m) m) m"
  have "(\<forall>k < n. LENGTH('a) div 8 dvd k \<longrightarrow> ld ?M (d + k) = g k m) \<and> (\<forall>q. \<not> (d \<le> q \<and> q < d + n) \<longrightarrow> ?M q = m q)"
    by (rule for_loop_elems [OF assms(1,2) dvd_0_right le0 assms(3)]) simp_all
  then show "k < n \<Longrightarrow> LENGTH('a) div 8 dvd k \<Longrightarrow> ld ?M (d + k) = g k m"
    and "\<not> (d \<le> q \<and> q < d + n) \<Longrightarrow> ?M q = m q"
    by blast+
qed

lemma st_zero: "st p (0 :: u64) m q = (if p \<le> q \<and> q < p + 8 then 0 else m q)"
  by (simp add: st_def)

lemma clear_loop:
  assumes "8 dvd i" and "8 dvd n"
  shows "for_loop i n 8 (\<lambda>i. st (d + i) (0 :: u64)) m q = (if d + i \<le> q \<and> q < d + n then 0 else m q)"
  using assms
proof (induction "n - i" arbitrary: i m rule: less_induct)
  case less
  show ?case
  proof (cases "i < n")
    case True
    have "i + 8 \<le> n" using dvd_gap less.prems True by blast
    moreover have "for_loop i n 8 (\<lambda>i. st (d + i) (0 :: u64)) m =
        for_loop (i + 8) n 8 (\<lambda>i. st (d + i) (0 :: u64)) (st (d + i) (0 :: u64) m)"
      using True by (subst for_loop.simps) simp
    ultimately show ?thesis
      using less.hyps [of "i + 8" "st (d + i) (0 :: u64) m"] less.prems True by (auto simp: st_zero)
  qed (subst for_loop.simps, auto)
qed

section \<open>Descriptors decoded\<close>

lemmas simd_shapes = SIMD_OPRSZ_SHIFT_def SIMD_OPRSZ_BITS_def SIMD_MAXSZ_SHIFT_def SIMD_MAXSZ_BITS_def
  SIMD_DATA_SHIFT_def SIMD_DATA_BITS_def

definition oprsz_of :: "u32 \<Rightarrow> nat" where
  "oprsz_of desc = (unat desc mod 32 + 1) * 8"

definition maxsz_of :: "u32 \<Rightarrow> nat" where
  "maxsz_of desc = (unat desc div 32 mod 32 + 1) * 8"

lemma unat_size_of: "unat ((w AND mask 5) * 8 + 8 :: u32) = 8 + unat w mod 32 * 8"
  using unat_and_mask [of w 5] by (simp add: unat_word_ariths)

lemma simd_oprsz_value: "simd_oprsz desc = Inr (oprsz_of desc)"
  by (simp add: simd_oprsz_def extract32_def simd_shapes unat_size_of oprsz_of_def)

lemma simd_maxsz_value: "simd_maxsz desc = Inr (maxsz_of desc)"
  by (simp add: simd_maxsz_def extract32_def simd_shapes unat_size_of maxsz_of_def unat_drop_bit)

lemma size_of_bounds [simp]:
  "8 dvd oprsz_of desc" "0 < oprsz_of desc" "oprsz_of desc \<le> 256"
  "8 dvd maxsz_of desc" "0 < maxsz_of desc" "maxsz_of desc \<le> 256"
  by (simp_all add: oprsz_of_def maxsz_of_def Suc_le_eq)

lemma simd_data_value: "\<exists>shift. simd_data desc = Inr shift"
  by (simp add: simd_data_def sextract32_def simd_shapes)

section \<open>What a vector helper promises\<close>

text \<open>
  The memory afterwards: the elements of the destination up to the operation size, zeros up to the
  maximal size, and everything else as before.
\<close>

definition vec_result :: "(nat \<Rightarrow> 'a::len word) \<Rightarrow> nat \<Rightarrow> u32 \<Rightarrow> mem \<Rightarrow> mem \<Rightarrow> bool" where
  "vec_result e d desc m m' \<longleftrightarrow>
     (\<forall>k < oprsz_of desc. LENGTH('a) div 8 dvd k \<longrightarrow> ld m' (d + k) = e k) \<and>
     (\<forall>q. d + oprsz_of desc \<le> q \<and> q < d + maxsz_of desc \<longrightarrow> m' q = 0) \<and>
     (\<forall>q. q < d \<or> d + max (oprsz_of desc) (maxsz_of desc) \<le> q \<longrightarrow> m' q = m q)"

lemma clear_high_value:
  "8 dvd n \<Longrightarrow> \<exists>m'. clear_high d n desc m = Inr m' \<and>
     (\<forall>q. m' q = (if d + n \<le> q \<and> q < d + maxsz_of desc then 0 else m q))"
  by (auto simp: clear_high_def simd_maxsz_value clear_loop)

text \<open>One lemma for all loops: only the locality of the stored value is left to show.\<close>

lemma vec_loop:
  fixes g :: "nat \<Rightarrow> mem \<Rightarrow> 'a::len word"
  assumes "8 dvd LENGTH('a)" and "LENGTH('a) div 8 dvd 8"
    and "\<And>k m m'. LENGTH('a) div 8 dvd k \<Longrightarrow> k < oprsz_of desc \<Longrightarrow>
      (\<And>q. \<not> (d \<le> q \<and> q < d + k) \<Longrightarrow> m q = m' q) \<Longrightarrow> g k m = g k m'"
  shows "\<exists>m'. clear_high d (oprsz_of desc) desc
      (for_loop 0 (oprsz_of desc) (LENGTH('a) div 8) (\<lambda>i m. st (d + i) (g i m) m) m) = Inr m' \<and>
    vec_result (\<lambda>k. g k m) d desc m m'"
proof -
  let ?n = "oprsz_of desc"
  define M where "M = for_loop 0 ?n (LENGTH('a) div 8) (\<lambda>i m. st (d + i) (g i m) m) m"
  have dvd: "LENGTH('a) div 8 dvd ?n" using assms(2) size_of_bounds(1) by (rule dvd_trans)
  have elems: "ld M (d + k) = g k m" if "k < ?n" "LENGTH('a) div 8 dvd k" for k
    unfolding M_def by (rule for_loop_elems_0(1) [OF assms(1) dvd assms(3) that])
  have frame: "M q = m q" if "\<not> (d \<le> q \<and> q < d + ?n)" for q
    unfolding M_def by (rule for_loop_elems_0(2) [OF assms(1) dvd assms(3) that])
  obtain m' where m': "clear_high d ?n desc M = Inr m'"
    "\<And>q. m' q = (if d + ?n \<le> q \<and> q < d + maxsz_of desc then 0 else M q)"
    using clear_high_value [of ?n d desc M] by auto
  have "ld m' (d + k) = (ld M (d + k) :: 'a word)" if "k < ?n" "LENGTH('a) div 8 dvd k" for k
    using dvd_gap [OF that(2) dvd that(1)] m'(2) assms(1) by (intro ld_cong) auto
  then have "vec_result (\<lambda>k. g k m) d desc m m'"
    using elems frame m'(2) by (auto simp: vec_result_def)
  then show ?thesis using m'(1) unfolding M_def by blast
qed

text \<open>A load of an operand that is the destination or apart from it is local.\<close>

lemma operand_local:
  assumes "overlap_ok d a n" and "8 dvd LENGTH('a)" and "LENGTH('a) div 8 dvd 8" and "8 dvd n"
    and "LENGTH('a) div 8 dvd k" and "k < n" and "\<And>q. \<not> (d \<le> q \<and> q < d + k) \<Longrightarrow> m q = m' q"
  shows "(ld m (a + k) :: 'a::len word) = ld m' (a + k)"
proof (rule ld_cong)
  fix q assume q: "a + k \<le> q" "q < a + k + LENGTH('a) div 8"
  have "k + LENGTH('a) div 8 \<le> n" using dvd_gap assms(5,6) dvd_trans [OF assms(3,4)] by blast
  then show "m q = m' q" using assms(1,7) q unfolding overlap_ok_def by auto
qed (rule assms(2))

definition elementwise3 :: "(nat \<Rightarrow> nat \<Rightarrow> nat \<Rightarrow> u32 \<Rightarrow> mem \<Rightarrow> mem res) \<Rightarrow> ('a::len word \<Rightarrow> 'a word \<Rightarrow> 'a word) \<Rightarrow> bool" where
  "elementwise3 h f \<longleftrightarrow> (\<forall>d a b desc m.
     overlap_ok d a (oprsz_of desc) \<and> overlap_ok d b (oprsz_of desc) \<longrightarrow>
     (\<exists>m'. h d a b desc m = Inr m' \<and> vec_result (\<lambda>k. f (ld m (a + k)) (ld m (b + k))) d desc m m'))"

definition elementwise2 :: "(nat \<Rightarrow> nat \<Rightarrow> u32 \<Rightarrow> mem \<Rightarrow> mem res) \<Rightarrow> ('a::len word \<Rightarrow> 'a word) \<Rightarrow> bool" where
  "elementwise2 h f \<longleftrightarrow> (\<forall>d a desc m.
     overlap_ok d a (oprsz_of desc) \<longrightarrow>
     (\<exists>m'. h d a desc m = Inr m' \<and> vec_result (\<lambda>k. f (ld m (a + k))) d desc m m'))"

definition elementwise2s :: "(nat \<Rightarrow> nat \<Rightarrow> u64 \<Rightarrow> u32 \<Rightarrow> mem \<Rightarrow> mem res) \<Rightarrow> ('a::len word \<Rightarrow> 'a word \<Rightarrow> 'a word) \<Rightarrow> bool" where
  "elementwise2s h f \<longleftrightarrow> (\<forall>d a b desc m.
     overlap_ok d a (oprsz_of desc) \<longrightarrow>
     (\<exists>m'. h d a b desc m = Inr m' \<and> vec_result (\<lambda>k. f (ld m (a + k)) (ucast b)) d desc m m'))"

definition elementwise2i :: "(nat \<Rightarrow> nat \<Rightarrow> u32 \<Rightarrow> mem \<Rightarrow> mem res) \<Rightarrow> (nat \<Rightarrow> 'a::len word \<Rightarrow> 'a word) \<Rightarrow> bool" where
  "elementwise2i h f \<longleftrightarrow> (\<forall>d a desc m shift.
     overlap_ok d a (oprsz_of desc) \<and> simd_data desc = Inr shift \<longrightarrow>
     (if 0 \<le> shift \<and> shift < int (max 32 LENGTH('a)) then
        \<exists>m'. h d a desc m = Inr m' \<and> vec_result (\<lambda>k. f (nat shift) (ld m (a + k))) d desc m m'
      else h d a desc m = Inl Undefined))"

text \<open>The widths of the elements: 8, 16, 32 and 64 bits.\<close>

lemma elementwise_gvec:
  assumes "8 dvd LENGTH('a)" and "LENGTH('a) div 8 dvd 8"
  shows "elementwise3 (gvec_3 f) (f :: 'a::len word \<Rightarrow> 'a word \<Rightarrow> 'a word)"
    and "elementwise2 (gvec_2 g) (g :: 'a word \<Rightarrow> 'a word)"
    and "elementwise2s (gvec_2s f) f"
    and "elementwise2i (gvec_2i h) (h :: nat \<Rightarrow> 'a word \<Rightarrow> 'a word)"
proof -
  note local = operand_local [OF _ assms size_of_bounds(1)]
  show "elementwise3 (gvec_3 f) f"
    unfolding elementwise3_def gvec_3_def
    by (auto simp: simd_oprsz_value intro!: vec_loop [OF assms] arg_cong2 [of _ _ _ _ f] local)
  show "elementwise2 (gvec_2 g) g"
    unfolding elementwise2_def gvec_2_def
    by (auto simp: simd_oprsz_value intro!: vec_loop [OF assms] arg_cong [of _ _ g] local)
  show "elementwise2s (gvec_2s f) f"
    unfolding elementwise2s_def gvec_2s_def Let_def
    by (auto simp: simd_oprsz_value intro!: vec_loop [OF assms] arg_cong2 [of _ _ _ _ f] local)
  show "elementwise2i (gvec_2i h) h"
    unfolding elementwise2i_def gvec_2i_def
    by (auto simp: simd_oprsz_value intro!: vec_loop [OF assms] arg_cong [of _ _ "h _"] local)
qed

end
