(* ===== verification/GVecHelpers.thy ===== *)
theory GVecHelpers
  imports GVec
begin

text \<open>
  The vector helpers of \<^verbatim>\<open>libtcg/src/tcg-runtime-gvec.c\<close>, in the order of the file: one definition
  per helper, with the operation on its elements and their width.
\<close>

section \<open>Arithmetic\<close>

definition helper_gvec_add8 :: "nat \<Rightarrow> nat \<Rightarrow> nat \<Rightarrow> u32 \<Rightarrow> mem \<Rightarrow> mem res" where
  "helper_gvec_add8 d a b desc m =
     gvec_3 (\<lambda>(x :: u8) y. x + y) d a b desc m"

definition helper_gvec_add16 :: "nat \<Rightarrow> nat \<Rightarrow> nat \<Rightarrow> u32 \<Rightarrow> mem \<Rightarrow> mem res" where
  "helper_gvec_add16 d a b desc m =
     gvec_3 (\<lambda>(x :: u16) y. x + y) d a b desc m"

definition helper_gvec_add32 :: "nat \<Rightarrow> nat \<Rightarrow> nat \<Rightarrow> u32 \<Rightarrow> mem \<Rightarrow> mem res" where
  "helper_gvec_add32 d a b desc m =
     gvec_3 (\<lambda>(x :: u32) y. x + y) d a b desc m"

definition helper_gvec_add64 :: "nat \<Rightarrow> nat \<Rightarrow> nat \<Rightarrow> u32 \<Rightarrow> mem \<Rightarrow> mem res" where
  "helper_gvec_add64 d a b desc m =
     gvec_3 (\<lambda>(x :: u64) y. x + y) d a b desc m"

definition helper_gvec_adds8 :: "nat \<Rightarrow> nat \<Rightarrow> u64 \<Rightarrow> u32 \<Rightarrow> mem \<Rightarrow> mem res" where
  "helper_gvec_adds8 d a b desc m =
     gvec_2s (\<lambda>(x :: u8) vecb. x + vecb) d a b desc m"

definition helper_gvec_adds16 :: "nat \<Rightarrow> nat \<Rightarrow> u64 \<Rightarrow> u32 \<Rightarrow> mem \<Rightarrow> mem res" where
  "helper_gvec_adds16 d a b desc m =
     gvec_2s (\<lambda>(x :: u16) vecb. x + vecb) d a b desc m"

definition helper_gvec_adds32 :: "nat \<Rightarrow> nat \<Rightarrow> u64 \<Rightarrow> u32 \<Rightarrow> mem \<Rightarrow> mem res" where
  "helper_gvec_adds32 d a b desc m =
     gvec_2s (\<lambda>(x :: u32) vecb. x + vecb) d a b desc m"

definition helper_gvec_adds64 :: "nat \<Rightarrow> nat \<Rightarrow> u64 \<Rightarrow> u32 \<Rightarrow> mem \<Rightarrow> mem res" where
  "helper_gvec_adds64 d a b desc m =
     gvec_2s (\<lambda>(x :: u64) vecb. x + vecb) d a b desc m"

definition helper_gvec_sub8 :: "nat \<Rightarrow> nat \<Rightarrow> nat \<Rightarrow> u32 \<Rightarrow> mem \<Rightarrow> mem res" where
  "helper_gvec_sub8 d a b desc m =
     gvec_3 (\<lambda>(x :: u8) y. x - y) d a b desc m"

definition helper_gvec_sub16 :: "nat \<Rightarrow> nat \<Rightarrow> nat \<Rightarrow> u32 \<Rightarrow> mem \<Rightarrow> mem res" where
  "helper_gvec_sub16 d a b desc m =
     gvec_3 (\<lambda>(x :: u16) y. x - y) d a b desc m"

definition helper_gvec_sub32 :: "nat \<Rightarrow> nat \<Rightarrow> nat \<Rightarrow> u32 \<Rightarrow> mem \<Rightarrow> mem res" where
  "helper_gvec_sub32 d a b desc m =
     gvec_3 (\<lambda>(x :: u32) y. x - y) d a b desc m"

definition helper_gvec_sub64 :: "nat \<Rightarrow> nat \<Rightarrow> nat \<Rightarrow> u32 \<Rightarrow> mem \<Rightarrow> mem res" where
  "helper_gvec_sub64 d a b desc m =
     gvec_3 (\<lambda>(x :: u64) y. x - y) d a b desc m"

definition helper_gvec_subs8 :: "nat \<Rightarrow> nat \<Rightarrow> u64 \<Rightarrow> u32 \<Rightarrow> mem \<Rightarrow> mem res" where
  "helper_gvec_subs8 d a b desc m =
     gvec_2s (\<lambda>(x :: u8) vecb. x - vecb) d a b desc m"

definition helper_gvec_subs16 :: "nat \<Rightarrow> nat \<Rightarrow> u64 \<Rightarrow> u32 \<Rightarrow> mem \<Rightarrow> mem res" where
  "helper_gvec_subs16 d a b desc m =
     gvec_2s (\<lambda>(x :: u16) vecb. x - vecb) d a b desc m"

definition helper_gvec_subs32 :: "nat \<Rightarrow> nat \<Rightarrow> u64 \<Rightarrow> u32 \<Rightarrow> mem \<Rightarrow> mem res" where
  "helper_gvec_subs32 d a b desc m =
     gvec_2s (\<lambda>(x :: u32) vecb. x - vecb) d a b desc m"

definition helper_gvec_subs64 :: "nat \<Rightarrow> nat \<Rightarrow> u64 \<Rightarrow> u32 \<Rightarrow> mem \<Rightarrow> mem res" where
  "helper_gvec_subs64 d a b desc m =
     gvec_2s (\<lambda>(x :: u64) vecb. x - vecb) d a b desc m"

definition helper_gvec_mul8 :: "nat \<Rightarrow> nat \<Rightarrow> nat \<Rightarrow> u32 \<Rightarrow> mem \<Rightarrow> mem res" where
  "helper_gvec_mul8 d a b desc m =
     gvec_3 (\<lambda>(x :: u8) y. x * y) d a b desc m"

definition helper_gvec_mul16 :: "nat \<Rightarrow> nat \<Rightarrow> nat \<Rightarrow> u32 \<Rightarrow> mem \<Rightarrow> mem res" where
  "helper_gvec_mul16 d a b desc m =
     gvec_3 (\<lambda>(x :: u16) y. x * y) d a b desc m"

definition helper_gvec_mul32 :: "nat \<Rightarrow> nat \<Rightarrow> nat \<Rightarrow> u32 \<Rightarrow> mem \<Rightarrow> mem res" where
  "helper_gvec_mul32 d a b desc m =
     gvec_3 (\<lambda>(x :: u32) y. x * y) d a b desc m"

definition helper_gvec_mul64 :: "nat \<Rightarrow> nat \<Rightarrow> nat \<Rightarrow> u32 \<Rightarrow> mem \<Rightarrow> mem res" where
  "helper_gvec_mul64 d a b desc m =
     gvec_3 (\<lambda>(x :: u64) y. x * y) d a b desc m"

definition helper_gvec_muls8 :: "nat \<Rightarrow> nat \<Rightarrow> u64 \<Rightarrow> u32 \<Rightarrow> mem \<Rightarrow> mem res" where
  "helper_gvec_muls8 d a b desc m =
     gvec_2s (\<lambda>(x :: u8) vecb. x * vecb) d a b desc m"

definition helper_gvec_muls16 :: "nat \<Rightarrow> nat \<Rightarrow> u64 \<Rightarrow> u32 \<Rightarrow> mem \<Rightarrow> mem res" where
  "helper_gvec_muls16 d a b desc m =
     gvec_2s (\<lambda>(x :: u16) vecb. x * vecb) d a b desc m"

definition helper_gvec_muls32 :: "nat \<Rightarrow> nat \<Rightarrow> u64 \<Rightarrow> u32 \<Rightarrow> mem \<Rightarrow> mem res" where
  "helper_gvec_muls32 d a b desc m =
     gvec_2s (\<lambda>(x :: u32) vecb. x * vecb) d a b desc m"

definition helper_gvec_muls64 :: "nat \<Rightarrow> nat \<Rightarrow> u64 \<Rightarrow> u32 \<Rightarrow> mem \<Rightarrow> mem res" where
  "helper_gvec_muls64 d a b desc m =
     gvec_2s (\<lambda>(x :: u64) vecb. x * vecb) d a b desc m"

definition helper_gvec_neg8 :: "nat \<Rightarrow> nat \<Rightarrow> u32 \<Rightarrow> mem \<Rightarrow> mem res" where
  "helper_gvec_neg8 d a desc m =
     gvec_2 (\<lambda>x :: u8. - x) d a desc m"

definition helper_gvec_neg16 :: "nat \<Rightarrow> nat \<Rightarrow> u32 \<Rightarrow> mem \<Rightarrow> mem res" where
  "helper_gvec_neg16 d a desc m =
     gvec_2 (\<lambda>x :: u16. - x) d a desc m"

definition helper_gvec_neg32 :: "nat \<Rightarrow> nat \<Rightarrow> u32 \<Rightarrow> mem \<Rightarrow> mem res" where
  "helper_gvec_neg32 d a desc m =
     gvec_2 (\<lambda>x :: u32. - x) d a desc m"

definition helper_gvec_neg64 :: "nat \<Rightarrow> nat \<Rightarrow> u32 \<Rightarrow> mem \<Rightarrow> mem res" where
  "helper_gvec_neg64 d a desc m =
     gvec_2 (\<lambda>x :: u64. - x) d a desc m"

section \<open>Copies\<close>

definition helper_gvec_mov :: "nat \<Rightarrow> nat \<Rightarrow> u32 \<Rightarrow> mem \<Rightarrow> mem res" where
  "helper_gvec_mov d a desc m =
     bind_res (simd_oprsz desc) (\<lambda>oprsz.
       bind_res (memcpy d a oprsz m) (\<lambda>m. clear_high d oprsz desc m))"

definition helper_gvec_dup64 :: "nat \<Rightarrow> u32 \<Rightarrow> u64 \<Rightarrow> mem \<Rightarrow> mem res" where
  "helper_gvec_dup64 d desc c m =
     bind_res (simd_oprsz desc) (\<lambda>oprsz.
       if c = 0 then clear_high d 0 desc m
       else clear_high d oprsz desc (for_loop 0 oprsz 8 (\<lambda>i m. st (d + i) c m) m))"

definition helper_gvec_dup32 :: "nat \<Rightarrow> u32 \<Rightarrow> u32 \<Rightarrow> mem \<Rightarrow> mem res" where
  "helper_gvec_dup32 d desc c m =
     bind_res (simd_oprsz desc) (\<lambda>oprsz.
       if c = 0 then clear_high d 0 desc m
       else clear_high d oprsz desc (for_loop 0 oprsz 4 (\<lambda>i m. st (d + i) c m) m))"

definition helper_gvec_dup16 :: "nat \<Rightarrow> u32 \<Rightarrow> u32 \<Rightarrow> mem \<Rightarrow> mem res" where
  "helper_gvec_dup16 d desc c m =
     helper_gvec_dup32 d desc (0x00010001 * (c AND 0xFFFF)) m"

definition helper_gvec_dup8 :: "nat \<Rightarrow> u32 \<Rightarrow> u32 \<Rightarrow> mem \<Rightarrow> mem res" where
  "helper_gvec_dup8 d desc c m =
     helper_gvec_dup32 d desc (0x01010101 * (c AND 0xFF)) m"

section \<open>Bitwise operations\<close>

definition helper_gvec_not :: "nat \<Rightarrow> nat \<Rightarrow> u32 \<Rightarrow> mem \<Rightarrow> mem res" where
  "helper_gvec_not d a desc m =
     gvec_2 (\<lambda>x :: u64. NOT x) d a desc m"

definition helper_gvec_and :: "nat \<Rightarrow> nat \<Rightarrow> nat \<Rightarrow> u32 \<Rightarrow> mem \<Rightarrow> mem res" where
  "helper_gvec_and d a b desc m =
     gvec_3 (\<lambda>(x :: u64) y. x AND y) d a b desc m"

definition helper_gvec_or :: "nat \<Rightarrow> nat \<Rightarrow> nat \<Rightarrow> u32 \<Rightarrow> mem \<Rightarrow> mem res" where
  "helper_gvec_or d a b desc m =
     gvec_3 (\<lambda>(x :: u64) y. x OR y) d a b desc m"

definition helper_gvec_xor :: "nat \<Rightarrow> nat \<Rightarrow> nat \<Rightarrow> u32 \<Rightarrow> mem \<Rightarrow> mem res" where
  "helper_gvec_xor d a b desc m =
     gvec_3 (\<lambda>(x :: u64) y. x XOR y) d a b desc m"

definition helper_gvec_andc :: "nat \<Rightarrow> nat \<Rightarrow> nat \<Rightarrow> u32 \<Rightarrow> mem \<Rightarrow> mem res" where
  "helper_gvec_andc d a b desc m =
     gvec_3 (\<lambda>(x :: u64) y. x AND NOT y) d a b desc m"

definition helper_gvec_orc :: "nat \<Rightarrow> nat \<Rightarrow> nat \<Rightarrow> u32 \<Rightarrow> mem \<Rightarrow> mem res" where
  "helper_gvec_orc d a b desc m =
     gvec_3 (\<lambda>(x :: u64) y. x OR NOT y) d a b desc m"

definition helper_gvec_nand :: "nat \<Rightarrow> nat \<Rightarrow> nat \<Rightarrow> u32 \<Rightarrow> mem \<Rightarrow> mem res" where
  "helper_gvec_nand d a b desc m =
     gvec_3 (\<lambda>(x :: u64) y. NOT (x AND y)) d a b desc m"

definition helper_gvec_nor :: "nat \<Rightarrow> nat \<Rightarrow> nat \<Rightarrow> u32 \<Rightarrow> mem \<Rightarrow> mem res" where
  "helper_gvec_nor d a b desc m =
     gvec_3 (\<lambda>(x :: u64) y. NOT (x OR y)) d a b desc m"

definition helper_gvec_eqv :: "nat \<Rightarrow> nat \<Rightarrow> nat \<Rightarrow> u32 \<Rightarrow> mem \<Rightarrow> mem res" where
  "helper_gvec_eqv d a b desc m =
     gvec_3 (\<lambda>(x :: u64) y. NOT (x XOR y)) d a b desc m"

definition helper_gvec_ands :: "nat \<Rightarrow> nat \<Rightarrow> u64 \<Rightarrow> u32 \<Rightarrow> mem \<Rightarrow> mem res" where
  "helper_gvec_ands d a b desc m =
     gvec_2s (\<lambda>(x :: u64) vecb. x AND vecb) d a b desc m"

definition helper_gvec_xors :: "nat \<Rightarrow> nat \<Rightarrow> u64 \<Rightarrow> u32 \<Rightarrow> mem \<Rightarrow> mem res" where
  "helper_gvec_xors d a b desc m =
     gvec_2s (\<lambda>(x :: u64) vecb. x XOR vecb) d a b desc m"

definition helper_gvec_ors :: "nat \<Rightarrow> nat \<Rightarrow> u64 \<Rightarrow> u32 \<Rightarrow> mem \<Rightarrow> mem res" where
  "helper_gvec_ors d a b desc m =
     gvec_2s (\<lambda>(x :: u64) vecb. x OR vecb) d a b desc m"

section \<open>Shifts by an immediate\<close>

definition helper_gvec_shl8i :: "nat \<Rightarrow> nat \<Rightarrow> u32 \<Rightarrow> mem \<Rightarrow> mem res" where
  "helper_gvec_shl8i d a desc m =
     gvec_2i (\<lambda>shift (x :: u8). push_bit shift x) d a desc m"

definition helper_gvec_shl16i :: "nat \<Rightarrow> nat \<Rightarrow> u32 \<Rightarrow> mem \<Rightarrow> mem res" where
  "helper_gvec_shl16i d a desc m =
     gvec_2i (\<lambda>shift (x :: u16). push_bit shift x) d a desc m"

definition helper_gvec_shl32i :: "nat \<Rightarrow> nat \<Rightarrow> u32 \<Rightarrow> mem \<Rightarrow> mem res" where
  "helper_gvec_shl32i d a desc m =
     gvec_2i (\<lambda>shift (x :: u32). push_bit shift x) d a desc m"

definition helper_gvec_shl64i :: "nat \<Rightarrow> nat \<Rightarrow> u32 \<Rightarrow> mem \<Rightarrow> mem res" where
  "helper_gvec_shl64i d a desc m =
     gvec_2i (\<lambda>shift (x :: u64). push_bit shift x) d a desc m"

definition helper_gvec_shr8i :: "nat \<Rightarrow> nat \<Rightarrow> u32 \<Rightarrow> mem \<Rightarrow> mem res" where
  "helper_gvec_shr8i d a desc m =
     gvec_2i (\<lambda>shift (x :: u8). drop_bit shift x) d a desc m"

definition helper_gvec_shr16i :: "nat \<Rightarrow> nat \<Rightarrow> u32 \<Rightarrow> mem \<Rightarrow> mem res" where
  "helper_gvec_shr16i d a desc m =
     gvec_2i (\<lambda>shift (x :: u16). drop_bit shift x) d a desc m"

definition helper_gvec_shr32i :: "nat \<Rightarrow> nat \<Rightarrow> u32 \<Rightarrow> mem \<Rightarrow> mem res" where
  "helper_gvec_shr32i d a desc m =
     gvec_2i (\<lambda>shift (x :: u32). drop_bit shift x) d a desc m"

definition helper_gvec_shr64i :: "nat \<Rightarrow> nat \<Rightarrow> u32 \<Rightarrow> mem \<Rightarrow> mem res" where
  "helper_gvec_shr64i d a desc m =
     gvec_2i (\<lambda>shift (x :: u64). drop_bit shift x) d a desc m"

definition helper_gvec_sar8i :: "nat \<Rightarrow> nat \<Rightarrow> u32 \<Rightarrow> mem \<Rightarrow> mem res" where
  "helper_gvec_sar8i d a desc m =
     gvec_2i (\<lambda>shift (x :: u8). signed_drop_bit shift x) d a desc m"

definition helper_gvec_sar16i :: "nat \<Rightarrow> nat \<Rightarrow> u32 \<Rightarrow> mem \<Rightarrow> mem res" where
  "helper_gvec_sar16i d a desc m =
     gvec_2i (\<lambda>shift (x :: u16). signed_drop_bit shift x) d a desc m"

definition helper_gvec_sar32i :: "nat \<Rightarrow> nat \<Rightarrow> u32 \<Rightarrow> mem \<Rightarrow> mem res" where
  "helper_gvec_sar32i d a desc m =
     gvec_2i (\<lambda>shift (x :: u32). signed_drop_bit shift x) d a desc m"

definition helper_gvec_sar64i :: "nat \<Rightarrow> nat \<Rightarrow> u32 \<Rightarrow> mem \<Rightarrow> mem res" where
  "helper_gvec_sar64i d a desc m =
     gvec_2i (\<lambda>shift (x :: u64). signed_drop_bit shift x) d a desc m"

section \<open>Comparisons\<close>

text \<open>\<^verbatim>\<open>DO_CMP0\<close> negates the truth value: all bits set for true.\<close>

definition helper_gvec_eq8 :: "nat \<Rightarrow> nat \<Rightarrow> nat \<Rightarrow> u32 \<Rightarrow> mem \<Rightarrow> mem res" where
  "helper_gvec_eq8 d a b desc m =
     gvec_3 (\<lambda>(x :: u8) y. - of_bool (x = y)) d a b desc m"

definition helper_gvec_ne8 :: "nat \<Rightarrow> nat \<Rightarrow> nat \<Rightarrow> u32 \<Rightarrow> mem \<Rightarrow> mem res" where
  "helper_gvec_ne8 d a b desc m =
     gvec_3 (\<lambda>(x :: u8) y. - of_bool (x \<noteq> y)) d a b desc m"

definition helper_gvec_lt8 :: "nat \<Rightarrow> nat \<Rightarrow> nat \<Rightarrow> u32 \<Rightarrow> mem \<Rightarrow> mem res" where
  "helper_gvec_lt8 d a b desc m =
     gvec_3 (\<lambda>(x :: u8) y. - of_bool (sint x < sint y)) d a b desc m"

definition helper_gvec_le8 :: "nat \<Rightarrow> nat \<Rightarrow> nat \<Rightarrow> u32 \<Rightarrow> mem \<Rightarrow> mem res" where
  "helper_gvec_le8 d a b desc m =
     gvec_3 (\<lambda>(x :: u8) y. - of_bool (sint x \<le> sint y)) d a b desc m"

definition helper_gvec_ltu8 :: "nat \<Rightarrow> nat \<Rightarrow> nat \<Rightarrow> u32 \<Rightarrow> mem \<Rightarrow> mem res" where
  "helper_gvec_ltu8 d a b desc m =
     gvec_3 (\<lambda>(x :: u8) y. - of_bool (x < y)) d a b desc m"

definition helper_gvec_leu8 :: "nat \<Rightarrow> nat \<Rightarrow> nat \<Rightarrow> u32 \<Rightarrow> mem \<Rightarrow> mem res" where
  "helper_gvec_leu8 d a b desc m =
     gvec_3 (\<lambda>(x :: u8) y. - of_bool (x \<le> y)) d a b desc m"

definition helper_gvec_eq16 :: "nat \<Rightarrow> nat \<Rightarrow> nat \<Rightarrow> u32 \<Rightarrow> mem \<Rightarrow> mem res" where
  "helper_gvec_eq16 d a b desc m =
     gvec_3 (\<lambda>(x :: u16) y. - of_bool (x = y)) d a b desc m"

definition helper_gvec_ne16 :: "nat \<Rightarrow> nat \<Rightarrow> nat \<Rightarrow> u32 \<Rightarrow> mem \<Rightarrow> mem res" where
  "helper_gvec_ne16 d a b desc m =
     gvec_3 (\<lambda>(x :: u16) y. - of_bool (x \<noteq> y)) d a b desc m"

definition helper_gvec_lt16 :: "nat \<Rightarrow> nat \<Rightarrow> nat \<Rightarrow> u32 \<Rightarrow> mem \<Rightarrow> mem res" where
  "helper_gvec_lt16 d a b desc m =
     gvec_3 (\<lambda>(x :: u16) y. - of_bool (sint x < sint y)) d a b desc m"

definition helper_gvec_le16 :: "nat \<Rightarrow> nat \<Rightarrow> nat \<Rightarrow> u32 \<Rightarrow> mem \<Rightarrow> mem res" where
  "helper_gvec_le16 d a b desc m =
     gvec_3 (\<lambda>(x :: u16) y. - of_bool (sint x \<le> sint y)) d a b desc m"

definition helper_gvec_ltu16 :: "nat \<Rightarrow> nat \<Rightarrow> nat \<Rightarrow> u32 \<Rightarrow> mem \<Rightarrow> mem res" where
  "helper_gvec_ltu16 d a b desc m =
     gvec_3 (\<lambda>(x :: u16) y. - of_bool (x < y)) d a b desc m"

definition helper_gvec_leu16 :: "nat \<Rightarrow> nat \<Rightarrow> nat \<Rightarrow> u32 \<Rightarrow> mem \<Rightarrow> mem res" where
  "helper_gvec_leu16 d a b desc m =
     gvec_3 (\<lambda>(x :: u16) y. - of_bool (x \<le> y)) d a b desc m"

definition helper_gvec_eq32 :: "nat \<Rightarrow> nat \<Rightarrow> nat \<Rightarrow> u32 \<Rightarrow> mem \<Rightarrow> mem res" where
  "helper_gvec_eq32 d a b desc m =
     gvec_3 (\<lambda>(x :: u32) y. - of_bool (x = y)) d a b desc m"

definition helper_gvec_ne32 :: "nat \<Rightarrow> nat \<Rightarrow> nat \<Rightarrow> u32 \<Rightarrow> mem \<Rightarrow> mem res" where
  "helper_gvec_ne32 d a b desc m =
     gvec_3 (\<lambda>(x :: u32) y. - of_bool (x \<noteq> y)) d a b desc m"

definition helper_gvec_lt32 :: "nat \<Rightarrow> nat \<Rightarrow> nat \<Rightarrow> u32 \<Rightarrow> mem \<Rightarrow> mem res" where
  "helper_gvec_lt32 d a b desc m =
     gvec_3 (\<lambda>(x :: u32) y. - of_bool (sint x < sint y)) d a b desc m"

definition helper_gvec_le32 :: "nat \<Rightarrow> nat \<Rightarrow> nat \<Rightarrow> u32 \<Rightarrow> mem \<Rightarrow> mem res" where
  "helper_gvec_le32 d a b desc m =
     gvec_3 (\<lambda>(x :: u32) y. - of_bool (sint x \<le> sint y)) d a b desc m"

definition helper_gvec_ltu32 :: "nat \<Rightarrow> nat \<Rightarrow> nat \<Rightarrow> u32 \<Rightarrow> mem \<Rightarrow> mem res" where
  "helper_gvec_ltu32 d a b desc m =
     gvec_3 (\<lambda>(x :: u32) y. - of_bool (x < y)) d a b desc m"

definition helper_gvec_leu32 :: "nat \<Rightarrow> nat \<Rightarrow> nat \<Rightarrow> u32 \<Rightarrow> mem \<Rightarrow> mem res" where
  "helper_gvec_leu32 d a b desc m =
     gvec_3 (\<lambda>(x :: u32) y. - of_bool (x \<le> y)) d a b desc m"

definition helper_gvec_eq64 :: "nat \<Rightarrow> nat \<Rightarrow> nat \<Rightarrow> u32 \<Rightarrow> mem \<Rightarrow> mem res" where
  "helper_gvec_eq64 d a b desc m =
     gvec_3 (\<lambda>(x :: u64) y. - of_bool (x = y)) d a b desc m"

definition helper_gvec_ne64 :: "nat \<Rightarrow> nat \<Rightarrow> nat \<Rightarrow> u32 \<Rightarrow> mem \<Rightarrow> mem res" where
  "helper_gvec_ne64 d a b desc m =
     gvec_3 (\<lambda>(x :: u64) y. - of_bool (x \<noteq> y)) d a b desc m"

definition helper_gvec_lt64 :: "nat \<Rightarrow> nat \<Rightarrow> nat \<Rightarrow> u32 \<Rightarrow> mem \<Rightarrow> mem res" where
  "helper_gvec_lt64 d a b desc m =
     gvec_3 (\<lambda>(x :: u64) y. - of_bool (sint x < sint y)) d a b desc m"

definition helper_gvec_le64 :: "nat \<Rightarrow> nat \<Rightarrow> nat \<Rightarrow> u32 \<Rightarrow> mem \<Rightarrow> mem res" where
  "helper_gvec_le64 d a b desc m =
     gvec_3 (\<lambda>(x :: u64) y. - of_bool (sint x \<le> sint y)) d a b desc m"

definition helper_gvec_ltu64 :: "nat \<Rightarrow> nat \<Rightarrow> nat \<Rightarrow> u32 \<Rightarrow> mem \<Rightarrow> mem res" where
  "helper_gvec_ltu64 d a b desc m =
     gvec_3 (\<lambda>(x :: u64) y. - of_bool (x < y)) d a b desc m"

definition helper_gvec_leu64 :: "nat \<Rightarrow> nat \<Rightarrow> nat \<Rightarrow> u32 \<Rightarrow> mem \<Rightarrow> mem res" where
  "helper_gvec_leu64 d a b desc m =
     gvec_3 (\<lambda>(x :: u64) y. - of_bool (x \<le> y)) d a b desc m"

section \<open>Saturating arithmetic\<close>

text \<open>
  The 8- and 16-bit variants compute in \<^verbatim>\<open>int\<close> and clamp; the others test for the overflow of the
  wrapped result. The signed addition and subtraction wrap, as that test presumes.
\<close>

definition helper_gvec_ssadd8 :: "nat \<Rightarrow> nat \<Rightarrow> nat \<Rightarrow> u32 \<Rightarrow> mem \<Rightarrow> mem res" where
  "helper_gvec_ssadd8 d a b desc m =
     gvec_3 (\<lambda>(x :: u8) y. let r = sint x + sint y in
       word_of_int (if r > 127 then 127 else if r < - 128 then - 128 else r)) d a b desc m"

definition helper_gvec_ssadd16 :: "nat \<Rightarrow> nat \<Rightarrow> nat \<Rightarrow> u32 \<Rightarrow> mem \<Rightarrow> mem res" where
  "helper_gvec_ssadd16 d a b desc m =
     gvec_3 (\<lambda>(x :: u16) y. let r = sint x + sint y in
       word_of_int (if r > 32767 then 32767 else if r < - 32768 then - 32768 else r)) d a b desc m"

definition helper_gvec_ssadd32 :: "nat \<Rightarrow> nat \<Rightarrow> nat \<Rightarrow> u32 \<Rightarrow> mem \<Rightarrow> mem res" where
  "helper_gvec_ssadd32 d a b desc m =
     gvec_3 (\<lambda>(ai :: u32) bi. let di = ai + bi in
       if sint ((di XOR ai) AND NOT (ai XOR bi)) < 0
       then if sint di < 0 then 0x7FFFFFFF else 0x80000000 else di) d a b desc m"

definition helper_gvec_ssadd64 :: "nat \<Rightarrow> nat \<Rightarrow> nat \<Rightarrow> u32 \<Rightarrow> mem \<Rightarrow> mem res" where
  "helper_gvec_ssadd64 d a b desc m =
     gvec_3 (\<lambda>(ai :: u64) bi. let di = ai + bi in
       if sint ((di XOR ai) AND NOT (ai XOR bi)) < 0
       then if sint di < 0 then 0x7FFFFFFFFFFFFFFF else 0x8000000000000000 else di) d a b desc m"

definition helper_gvec_sssub8 :: "nat \<Rightarrow> nat \<Rightarrow> nat \<Rightarrow> u32 \<Rightarrow> mem \<Rightarrow> mem res" where
  "helper_gvec_sssub8 d a b desc m =
     gvec_3 (\<lambda>(x :: u8) y. let r = sint x - sint y in
       word_of_int (if r > 127 then 127 else if r < - 128 then - 128 else r)) d a b desc m"

definition helper_gvec_sssub16 :: "nat \<Rightarrow> nat \<Rightarrow> nat \<Rightarrow> u32 \<Rightarrow> mem \<Rightarrow> mem res" where
  "helper_gvec_sssub16 d a b desc m =
     gvec_3 (\<lambda>(x :: u16) y. let r = sint x - sint y in
       word_of_int (if r > 32767 then 32767 else if r < - 32768 then - 32768 else r)) d a b desc m"

definition helper_gvec_sssub32 :: "nat \<Rightarrow> nat \<Rightarrow> nat \<Rightarrow> u32 \<Rightarrow> mem \<Rightarrow> mem res" where
  "helper_gvec_sssub32 d a b desc m =
     gvec_3 (\<lambda>(ai :: u32) bi. let di = ai - bi in
       if sint ((di XOR ai) AND (ai XOR bi)) < 0
       then if sint di < 0 then 0x7FFFFFFF else 0x80000000 else di) d a b desc m"

definition helper_gvec_sssub64 :: "nat \<Rightarrow> nat \<Rightarrow> nat \<Rightarrow> u32 \<Rightarrow> mem \<Rightarrow> mem res" where
  "helper_gvec_sssub64 d a b desc m =
     gvec_3 (\<lambda>(ai :: u64) bi. let di = ai - bi in
       if sint ((di XOR ai) AND (ai XOR bi)) < 0
       then if sint di < 0 then 0x7FFFFFFFFFFFFFFF else 0x8000000000000000 else di) d a b desc m"

definition helper_gvec_usadd8 :: "nat \<Rightarrow> nat \<Rightarrow> nat \<Rightarrow> u32 \<Rightarrow> mem \<Rightarrow> mem res" where
  "helper_gvec_usadd8 d a b desc m =
     gvec_3 (\<lambda>(x :: u8) y. let r = unat x + unat y in of_nat (if r > 255 then 255 else r)) d a b desc m"

definition helper_gvec_usadd16 :: "nat \<Rightarrow> nat \<Rightarrow> nat \<Rightarrow> u32 \<Rightarrow> mem \<Rightarrow> mem res" where
  "helper_gvec_usadd16 d a b desc m =
     gvec_3 (\<lambda>(x :: u16) y. let r = unat x + unat y in of_nat (if r > 65535 then 65535 else r)) d a b desc m"

definition helper_gvec_usadd32 :: "nat \<Rightarrow> nat \<Rightarrow> nat \<Rightarrow> u32 \<Rightarrow> mem \<Rightarrow> mem res" where
  "helper_gvec_usadd32 d a b desc m =
     gvec_3 (\<lambda>(ai :: u32) bi. let di = ai + bi in if di < ai then 0xFFFFFFFF else di) d a b desc m"

definition helper_gvec_usadd64 :: "nat \<Rightarrow> nat \<Rightarrow> nat \<Rightarrow> u32 \<Rightarrow> mem \<Rightarrow> mem res" where
  "helper_gvec_usadd64 d a b desc m =
     gvec_3 (\<lambda>(ai :: u64) bi. let di = ai + bi in if di < ai then 0xFFFFFFFFFFFFFFFF else di) d a b desc m"

definition helper_gvec_ussub8 :: "nat \<Rightarrow> nat \<Rightarrow> nat \<Rightarrow> u32 \<Rightarrow> mem \<Rightarrow> mem res" where
  "helper_gvec_ussub8 d a b desc m =
     gvec_3 (\<lambda>(x :: u8) y. let r = uint x - uint y in word_of_int (if r < 0 then 0 else r)) d a b desc m"

definition helper_gvec_ussub16 :: "nat \<Rightarrow> nat \<Rightarrow> nat \<Rightarrow> u32 \<Rightarrow> mem \<Rightarrow> mem res" where
  "helper_gvec_ussub16 d a b desc m =
     gvec_3 (\<lambda>(x :: u16) y. let r = uint x - uint y in word_of_int (if r < 0 then 0 else r)) d a b desc m"

definition helper_gvec_ussub32 :: "nat \<Rightarrow> nat \<Rightarrow> nat \<Rightarrow> u32 \<Rightarrow> mem \<Rightarrow> mem res" where
  "helper_gvec_ussub32 d a b desc m =
     gvec_3 (\<lambda>(ai :: u32) bi. let di = ai - bi in if ai < bi then 0 else di) d a b desc m"

definition helper_gvec_ussub64 :: "nat \<Rightarrow> nat \<Rightarrow> nat \<Rightarrow> u32 \<Rightarrow> mem \<Rightarrow> mem res" where
  "helper_gvec_ussub64 d a b desc m =
     gvec_3 (\<lambda>(ai :: u64) bi. let di = ai - bi in if ai < bi then 0 else di) d a b desc m"

section \<open>Minimum and maximum\<close>

definition helper_gvec_smin8 :: "nat \<Rightarrow> nat \<Rightarrow> nat \<Rightarrow> u32 \<Rightarrow> mem \<Rightarrow> mem res" where
  "helper_gvec_smin8 d a b desc m =
     gvec_3 (\<lambda>(aa :: u8) bb. if sint aa < sint bb then aa else bb) d a b desc m"

definition helper_gvec_smin16 :: "nat \<Rightarrow> nat \<Rightarrow> nat \<Rightarrow> u32 \<Rightarrow> mem \<Rightarrow> mem res" where
  "helper_gvec_smin16 d a b desc m =
     gvec_3 (\<lambda>(aa :: u16) bb. if sint aa < sint bb then aa else bb) d a b desc m"

definition helper_gvec_smin32 :: "nat \<Rightarrow> nat \<Rightarrow> nat \<Rightarrow> u32 \<Rightarrow> mem \<Rightarrow> mem res" where
  "helper_gvec_smin32 d a b desc m =
     gvec_3 (\<lambda>(aa :: u32) bb. if sint aa < sint bb then aa else bb) d a b desc m"

definition helper_gvec_smin64 :: "nat \<Rightarrow> nat \<Rightarrow> nat \<Rightarrow> u32 \<Rightarrow> mem \<Rightarrow> mem res" where
  "helper_gvec_smin64 d a b desc m =
     gvec_3 (\<lambda>(aa :: u64) bb. if sint aa < sint bb then aa else bb) d a b desc m"

definition helper_gvec_smax8 :: "nat \<Rightarrow> nat \<Rightarrow> nat \<Rightarrow> u32 \<Rightarrow> mem \<Rightarrow> mem res" where
  "helper_gvec_smax8 d a b desc m =
     gvec_3 (\<lambda>(aa :: u8) bb. if sint aa > sint bb then aa else bb) d a b desc m"

definition helper_gvec_smax16 :: "nat \<Rightarrow> nat \<Rightarrow> nat \<Rightarrow> u32 \<Rightarrow> mem \<Rightarrow> mem res" where
  "helper_gvec_smax16 d a b desc m =
     gvec_3 (\<lambda>(aa :: u16) bb. if sint aa > sint bb then aa else bb) d a b desc m"

definition helper_gvec_smax32 :: "nat \<Rightarrow> nat \<Rightarrow> nat \<Rightarrow> u32 \<Rightarrow> mem \<Rightarrow> mem res" where
  "helper_gvec_smax32 d a b desc m =
     gvec_3 (\<lambda>(aa :: u32) bb. if sint aa > sint bb then aa else bb) d a b desc m"

definition helper_gvec_smax64 :: "nat \<Rightarrow> nat \<Rightarrow> nat \<Rightarrow> u32 \<Rightarrow> mem \<Rightarrow> mem res" where
  "helper_gvec_smax64 d a b desc m =
     gvec_3 (\<lambda>(aa :: u64) bb. if sint aa > sint bb then aa else bb) d a b desc m"

definition helper_gvec_umin8 :: "nat \<Rightarrow> nat \<Rightarrow> nat \<Rightarrow> u32 \<Rightarrow> mem \<Rightarrow> mem res" where
  "helper_gvec_umin8 d a b desc m =
     gvec_3 (\<lambda>(aa :: u8) bb. if aa < bb then aa else bb) d a b desc m"

definition helper_gvec_umin16 :: "nat \<Rightarrow> nat \<Rightarrow> nat \<Rightarrow> u32 \<Rightarrow> mem \<Rightarrow> mem res" where
  "helper_gvec_umin16 d a b desc m =
     gvec_3 (\<lambda>(aa :: u16) bb. if aa < bb then aa else bb) d a b desc m"

definition helper_gvec_umin32 :: "nat \<Rightarrow> nat \<Rightarrow> nat \<Rightarrow> u32 \<Rightarrow> mem \<Rightarrow> mem res" where
  "helper_gvec_umin32 d a b desc m =
     gvec_3 (\<lambda>(aa :: u32) bb. if aa < bb then aa else bb) d a b desc m"

definition helper_gvec_umin64 :: "nat \<Rightarrow> nat \<Rightarrow> nat \<Rightarrow> u32 \<Rightarrow> mem \<Rightarrow> mem res" where
  "helper_gvec_umin64 d a b desc m =
     gvec_3 (\<lambda>(aa :: u64) bb. if aa < bb then aa else bb) d a b desc m"

definition helper_gvec_umax8 :: "nat \<Rightarrow> nat \<Rightarrow> nat \<Rightarrow> u32 \<Rightarrow> mem \<Rightarrow> mem res" where
  "helper_gvec_umax8 d a b desc m =
     gvec_3 (\<lambda>(aa :: u8) bb. if aa > bb then aa else bb) d a b desc m"

definition helper_gvec_umax16 :: "nat \<Rightarrow> nat \<Rightarrow> nat \<Rightarrow> u32 \<Rightarrow> mem \<Rightarrow> mem res" where
  "helper_gvec_umax16 d a b desc m =
     gvec_3 (\<lambda>(aa :: u16) bb. if aa > bb then aa else bb) d a b desc m"

definition helper_gvec_umax32 :: "nat \<Rightarrow> nat \<Rightarrow> nat \<Rightarrow> u32 \<Rightarrow> mem \<Rightarrow> mem res" where
  "helper_gvec_umax32 d a b desc m =
     gvec_3 (\<lambda>(aa :: u32) bb. if aa > bb then aa else bb) d a b desc m"

definition helper_gvec_umax64 :: "nat \<Rightarrow> nat \<Rightarrow> nat \<Rightarrow> u32 \<Rightarrow> mem \<Rightarrow> mem res" where
  "helper_gvec_umax64 d a b desc m =
     gvec_3 (\<lambda>(aa :: u64) bb. if aa > bb then aa else bb) d a b desc m"

end
