(* ===== verification/GVecSpec.thy ===== *)
theory GVecSpec
  imports GVecHelpers
begin

text \<open>
  What the vector helpers compute, for all of them at once: the elements of the destination are the
  operation on the elements of the sources as they were before the call, also when the destination
  is one of the sources; the rest of the destination is cleared and other memory is kept. The
  saturating operations are related to clamping on the integers, the descriptor word to its parts.
\<close>

section \<open>Saturation\<close>

definition clamp :: "int \<Rightarrow> int \<Rightarrow> int \<Rightarrow> int" where
  "clamp l h k = (if k > h then h else if k < l then l else k)"

lemma sint_half_range:
  fixes w :: "'a::len word"
  shows "- (2 ^ (LENGTH('a) - 1)) \<le> sint w" and "sint w < 2 ^ (LENGTH('a) - 1)"
  by (rule sint_ge, rule sint_lt)

lemma twice_half: "(2 :: int) * 2 ^ (LENGTH('a::len) - 1) = 2 ^ LENGTH('a)"
  by (simp flip: power_Suc)

lemma word_of_int_shift: "(word_of_int (k + 2 ^ LENGTH('a)) :: 'a::len word) = word_of_int k"
  "(word_of_int (k - 2 ^ LENGTH('a)) :: 'a::len word) = word_of_int k"
  by simp_all

lemma sint_wrap:
  fixes k :: int
  defines "M \<equiv> 2 ^ (LENGTH('a::len) - 1)"
  assumes "- 2 * M \<le> k" and "k < 2 * M"
  shows "sint (word_of_int k :: 'a word) = (if k \<ge> M then k - 2 * M else if k < - M then k + 2 * M else k)"
proof -
  have small: "sint (word_of_int j :: 'a word) = j" if "- M \<le> j" "j < M" for j
    using that sint_word_of_int_small unfolding M_def by blast
  consider "k \<ge> M" | "k < - M" | "- M \<le> k" "k < M" by linarith
  then show ?thesis
  proof cases
    case 1
    have "(word_of_int (k - 2 * M) :: 'a word) = word_of_int k"
      unfolding M_def twice_half by (rule word_of_int_shift)
    then show ?thesis using 1 small [of "k - 2 * M"] assms(3) by simp
  next
    case 2
    have "0 < M" by (simp add: M_def)
    moreover have "(word_of_int (k + 2 * M) :: 'a word) = word_of_int k"
      unfolding M_def twice_half by (rule word_of_int_shift)
    ultimately show ?thesis using 2 small [of "k + 2 * M"] assms(2) by simp
  qed (simp add: small)
qed

lemma sint_neg_bit: "sint (w :: 'a::len word) < 0 \<longleftrightarrow> bit w (LENGTH('a) - 1)"
  using bit_last_iff [of w] by simp

text \<open>The overflow tests of the 32- and 64-bit variants: signs that cannot come from a true sum.\<close>

lemma saturating_add:
  fixes a b :: "'a::len word"
  defines "M \<equiv> 2 ^ (LENGTH('a) - 1)"
  shows "(let di = a + b in if sint ((di XOR a) AND NOT (a XOR b)) < 0
      then if sint di < 0 then word_of_int (M - 1) else word_of_int (- M) else di) =
    word_of_int (clamp (- M) (M - 1) (sint a + sint b))"
proof -
  have M: "0 < M" "- M \<le> sint a" "sint a < M" "- M \<le> sint b" "sint b < M"
    unfolding M_def by (simp_all only: sint_half_range) simp
  have sum: "a + b = word_of_int (sint a + sint b)" by simp
  have di: "sint (a + b) = (if sint a + sint b \<ge> M then sint a + sint b - 2 * M
      else if sint a + sint b < - M then sint a + sint b + 2 * M else sint a + sint b)"
    unfolding sum using M sint_wrap [of "sint a + sint b", where 'a = 'a] unfolding M_def by simp
  have "sint ((a + b XOR a) AND NOT (a XOR b)) < 0 \<longleftrightarrow>
      (sint (a + b) < 0) \<noteq> (sint a < 0) \<and> (sint a < 0) = (sint b < 0)"
    by (simp add: sint_neg_bit bit_and_iff bit_xor_iff bit_not_iff)
  also have "\<dots> \<longleftrightarrow> \<not> (- M \<le> sint a + sint b \<and> sint a + sint b < M)"
    unfolding di using M by auto
  finally have overflow: "sint ((a + b XOR a) AND NOT (a XOR b)) < 0 \<longleftrightarrow>
      \<not> (- M \<le> sint a + sint b \<and> sint a + sint b < M)" .
  show ?thesis
  proof (cases "- M \<le> sint a + sint b \<and> sint a + sint b < M")
    case True
    then show ?thesis using overflow by (simp add: clamp_def Let_def)
  next
    case False
    then show ?thesis using overflow di M by (auto simp: clamp_def Let_def)
  qed
qed

lemma saturating_sub:
  fixes a b :: "'a::len word"
  defines "M \<equiv> 2 ^ (LENGTH('a) - 1)"
  shows "(let di = a - b in if sint ((di XOR a) AND (a XOR b)) < 0
      then if sint di < 0 then word_of_int (M - 1) else word_of_int (- M) else di) =
    word_of_int (clamp (- M) (M - 1) (sint a - sint b))"
proof -
  have M: "0 < M" "- M \<le> sint a" "sint a < M" "- M \<le> sint b" "sint b < M"
    unfolding M_def by (simp_all only: sint_half_range) simp
  have sum: "a - b = word_of_int (sint a - sint b)" by simp
  have di: "sint (a - b) = (if sint a - sint b \<ge> M then sint a - sint b - 2 * M
      else if sint a - sint b < - M then sint a - sint b + 2 * M else sint a - sint b)"
    unfolding sum using M sint_wrap [of "sint a - sint b", where 'a = 'a] unfolding M_def by simp
  have "sint ((a - b XOR a) AND (a XOR b)) < 0 \<longleftrightarrow>
      (sint (a - b) < 0) \<noteq> (sint a < 0) \<and> (sint a < 0) \<noteq> (sint b < 0)"
    by (simp add: sint_neg_bit bit_and_iff bit_xor_iff)
  also have "\<dots> \<longleftrightarrow> \<not> (- M \<le> sint a - sint b \<and> sint a - sint b < M)"
    unfolding di using M by auto
  finally have overflow: "sint ((a - b XOR a) AND (a XOR b)) < 0 \<longleftrightarrow>
      \<not> (- M \<le> sint a - sint b \<and> sint a - sint b < M)" .
  show ?thesis
  proof (cases "- M \<le> sint a - sint b \<and> sint a - sint b < M")
    case True
    then show ?thesis using overflow by (simp add: clamp_def Let_def)
  next
    case False
    then show ?thesis using overflow di M by (auto simp: clamp_def Let_def)
  qed
qed

lemma unsigned_saturating_add:
  fixes a b :: "'a::len word"
  shows "(let di = a + b in if di < a then - 1 else di) = of_nat (min (2 ^ LENGTH('a) - 1) (unat a + unat b))"
proof (cases "unat a + unat b < 2 ^ LENGTH('a)")
  case True
  then have "unat (a + b) = unat a + unat b" by (rule unat_add_small)
  then have "\<not> a + b < a" by (simp add: word_less_nat_alt)
  then have "(let di = a + b in if di < a then - 1 else di) = of_nat (unat a + unat b)" by simp
  then show ?thesis using True by (simp add: min_absorb2 del: of_nat_add)
next
  case False
  have "unat a + unat b < 2 * 2 ^ LENGTH('a)" 
    using unsigned_less [of a, where 'a = nat] unsigned_less [of b, where 'a = nat] by linarith
  then have "unat (a + b) = unat a + unat b - 2 ^ LENGTH('a)"
    using False by (simp add: unat_word_ariths mod_once)
  then have "a + b < a"
    using False unsigned_less [of b, where 'a = nat] unfolding word_less_nat_alt by linarith
  moreover have "(of_nat (2 ^ LENGTH('a) - 1) :: 'a word) = - 1" by (simp add: of_nat_diff)
  ultimately show ?thesis using False by (auto simp: Let_def min_def)
qed

lemma unsigned_clamped_sub:
  fixes a b :: "'a::len word"
  shows "(let r = uint a - uint b in word_of_int (if r < 0 then 0 else r)) = (of_nat (unat a - unat b) :: 'a word)"
proof (cases "a < b")
  case True
  have "uint a < uint b" using True by (simp add: word_less_def)
  moreover have "unat a < unat b" using True by (simp add: word_less_nat_alt)
  ultimately show ?thesis by (simp add: Let_def)
next
  case False
  have "\<not> uint a < uint b" using False by (simp add: word_less_def)
  moreover have "unat b \<le> unat a" using False by (simp add: word_le_nat_alt not_less)
  ultimately show ?thesis by (simp add: Let_def of_nat_diff)
qed

lemma unsigned_saturating_sub:
  fixes a b :: "'a::len word"
  shows "(let di = a - b in if a < b then 0 else di) = of_nat (unat a - unat b)"
  by (auto simp: Let_def word_less_nat_alt not_less of_nat_diff)

section \<open>Elementwise operations\<close>

lemma elementwise3I:
  "(\<And>d a b desc m. h d a b desc m = gvec_3 g d a b desc m) \<Longrightarrow> (\<And>x y. g x y = f x y) \<Longrightarrow>
   8 dvd LENGTH('a) \<Longrightarrow> LENGTH('a) div 8 dvd 8 \<Longrightarrow> elementwise3 h (f :: 'a::len word \<Rightarrow> 'a word \<Rightarrow> 'a word)"
proof -
  assume h: "\<And>d a b desc m. h d a b desc m = gvec_3 g d a b desc m" and g: "\<And>x y. g x y = f x y"
    and len: "8 dvd LENGTH('a)" "LENGTH('a) div 8 dvd 8"
  have "g = f" using g by (simp add: fun_eq_iff)
  moreover have "h = gvec_3 g" using h by (simp add: fun_eq_iff)
  ultimately show ?thesis using elementwise_gvec(1) [OF len] by simp
qed

lemma elementwise2I:
  "(\<And>d a desc m. h d a desc m = gvec_2 g d a desc m) \<Longrightarrow> (\<And>x. g x = f x) \<Longrightarrow>
   8 dvd LENGTH('a) \<Longrightarrow> LENGTH('a) div 8 dvd 8 \<Longrightarrow> elementwise2 h (f :: 'a::len word \<Rightarrow> 'a word)"
proof -
  assume h: "\<And>d a desc m. h d a desc m = gvec_2 g d a desc m" and g: "\<And>x. g x = f x"
    and len: "8 dvd LENGTH('a)" "LENGTH('a) div 8 dvd 8"
  have "g = f" using g by (simp add: fun_eq_iff)
  moreover have "h = gvec_2 g" using h by (simp add: fun_eq_iff)
  ultimately show ?thesis using elementwise_gvec(2) [OF len] by simp
qed

lemma elementwise2sI:
  "(\<And>d a b desc m. h d a b desc m = gvec_2s g d a b desc m) \<Longrightarrow> (\<And>x y. g x y = f x y) \<Longrightarrow>
   8 dvd LENGTH('a) \<Longrightarrow> LENGTH('a) div 8 dvd 8 \<Longrightarrow> elementwise2s h (f :: 'a::len word \<Rightarrow> 'a word \<Rightarrow> 'a word)"
proof -
  assume h: "\<And>d a b desc m. h d a b desc m = gvec_2s g d a b desc m" and g: "\<And>x y. g x y = f x y"
    and len: "8 dvd LENGTH('a)" "LENGTH('a) div 8 dvd 8"
  have "g = f" using g by (simp add: fun_eq_iff)
  moreover have "h = gvec_2s g" using h by (simp add: fun_eq_iff)
  ultimately show ?thesis using elementwise_gvec(3) [OF len] by simp
qed

lemma elementwise2iI:
  "(\<And>d a desc m. h d a desc m = gvec_2i g d a desc m) \<Longrightarrow> (\<And>n x. g n x = f n x) \<Longrightarrow>
   8 dvd LENGTH('a) \<Longrightarrow> LENGTH('a) div 8 dvd 8 \<Longrightarrow> elementwise2i h (f :: nat \<Rightarrow> 'a::len word \<Rightarrow> 'a word)"
proof -
  assume h: "\<And>d a desc m. h d a desc m = gvec_2i g d a desc m" and g: "\<And>n x. g n x = f n x"
    and len: "8 dvd LENGTH('a)" "LENGTH('a) div 8 dvd 8"
  have "g = f" using g by (simp add: fun_eq_iff)
  moreover have "h = gvec_2i g" using h by (simp add: fun_eq_iff)
  ultimately show ?thesis using elementwise_gvec(4) [OF len] by simp
qed

lemmas elementwise_intros = elementwise3I elementwise2I elementwise2sI elementwise2iI

lemmas gvec_arithmetic_defs =
  helper_gvec_add8_def helper_gvec_add16_def helper_gvec_add32_def helper_gvec_add64_def
  helper_gvec_adds8_def helper_gvec_adds16_def helper_gvec_adds32_def helper_gvec_adds64_def
  helper_gvec_sub8_def helper_gvec_sub16_def helper_gvec_sub32_def helper_gvec_sub64_def
  helper_gvec_subs8_def helper_gvec_subs16_def helper_gvec_subs32_def helper_gvec_subs64_def
  helper_gvec_mul8_def helper_gvec_mul16_def helper_gvec_mul32_def helper_gvec_mul64_def
  helper_gvec_muls8_def helper_gvec_muls16_def helper_gvec_muls32_def helper_gvec_muls64_def
  helper_gvec_neg8_def helper_gvec_neg16_def helper_gvec_neg32_def helper_gvec_neg64_def

text \<open>
  The arithmetic vector helpers compute sum, difference, product and negation modulo the
  element width, element by element, with a second vector or with a scalar.
\<close>

theorem gvec_arithmetic:
  "elementwise3 helper_gvec_add8 (\<lambda>(x :: u8) y. x + y) \<and>
   elementwise3 helper_gvec_add16 (\<lambda>(x :: u16) y. x + y) \<and>
   elementwise3 helper_gvec_add32 (\<lambda>(x :: u32) y. x + y) \<and>
   elementwise3 helper_gvec_add64 (\<lambda>(x :: u64) y. x + y) \<and>
   elementwise2s helper_gvec_adds8 (\<lambda>(x :: u8) y. x + y) \<and>
   elementwise2s helper_gvec_adds16 (\<lambda>(x :: u16) y. x + y) \<and>
   elementwise2s helper_gvec_adds32 (\<lambda>(x :: u32) y. x + y) \<and>
   elementwise2s helper_gvec_adds64 (\<lambda>(x :: u64) y. x + y) \<and>
   elementwise3 helper_gvec_sub8 (\<lambda>(x :: u8) y. x - y) \<and>
   elementwise3 helper_gvec_sub16 (\<lambda>(x :: u16) y. x - y) \<and>
   elementwise3 helper_gvec_sub32 (\<lambda>(x :: u32) y. x - y) \<and>
   elementwise3 helper_gvec_sub64 (\<lambda>(x :: u64) y. x - y) \<and>
   elementwise2s helper_gvec_subs8 (\<lambda>(x :: u8) y. x - y) \<and>
   elementwise2s helper_gvec_subs16 (\<lambda>(x :: u16) y. x - y) \<and>
   elementwise2s helper_gvec_subs32 (\<lambda>(x :: u32) y. x - y) \<and>
   elementwise2s helper_gvec_subs64 (\<lambda>(x :: u64) y. x - y) \<and>
   elementwise3 helper_gvec_mul8 (\<lambda>(x :: u8) y. x * y) \<and>
   elementwise3 helper_gvec_mul16 (\<lambda>(x :: u16) y. x * y) \<and>
   elementwise3 helper_gvec_mul32 (\<lambda>(x :: u32) y. x * y) \<and>
   elementwise3 helper_gvec_mul64 (\<lambda>(x :: u64) y. x * y) \<and>
   elementwise2s helper_gvec_muls8 (\<lambda>(x :: u8) y. x * y) \<and>
   elementwise2s helper_gvec_muls16 (\<lambda>(x :: u16) y. x * y) \<and>
   elementwise2s helper_gvec_muls32 (\<lambda>(x :: u32) y. x * y) \<and>
   elementwise2s helper_gvec_muls64 (\<lambda>(x :: u64) y. x * y) \<and>
   elementwise2 helper_gvec_neg8 (\<lambda>x :: u8. - x) \<and>
   elementwise2 helper_gvec_neg16 (\<lambda>x :: u16. - x) \<and>
   elementwise2 helper_gvec_neg32 (\<lambda>x :: u32. - x) \<and>
   elementwise2 helper_gvec_neg64 (\<lambda>x :: u64. - x)"
  by (intro conjI; (rule elementwise_intros, rule gvec_arithmetic_defs, simp_all))

lemmas gvec_bitwise_defs =
  helper_gvec_not_def helper_gvec_and_def helper_gvec_or_def helper_gvec_xor_def
  helper_gvec_andc_def helper_gvec_orc_def helper_gvec_nand_def helper_gvec_nor_def
  helper_gvec_eqv_def helper_gvec_ands_def helper_gvec_xors_def helper_gvec_ors_def
  helper_gvec_shl8i_def helper_gvec_shl16i_def helper_gvec_shl32i_def helper_gvec_shl64i_def
  helper_gvec_shr8i_def helper_gvec_shr16i_def helper_gvec_shr32i_def helper_gvec_shr64i_def
  helper_gvec_sar8i_def helper_gvec_sar16i_def helper_gvec_sar32i_def helper_gvec_sar64i_def

text \<open>
  The bitwise vector helpers and the shifts by an immediate work element by element; a shift
  count that is negative or too large for the type the elements are shifted in is undefined.
\<close>

theorem gvec_bitwise:
  "elementwise2 helper_gvec_not (\<lambda>x :: u64. NOT x) \<and>
   elementwise3 helper_gvec_and (\<lambda>(x :: u64) y. x AND y) \<and>
   elementwise3 helper_gvec_or (\<lambda>(x :: u64) y. x OR y) \<and>
   elementwise3 helper_gvec_xor (\<lambda>(x :: u64) y. x XOR y) \<and>
   elementwise3 helper_gvec_andc (\<lambda>(x :: u64) y. x AND NOT y) \<and>
   elementwise3 helper_gvec_orc (\<lambda>(x :: u64) y. x OR NOT y) \<and>
   elementwise3 helper_gvec_nand (\<lambda>(x :: u64) y. NOT (x AND y)) \<and>
   elementwise3 helper_gvec_nor (\<lambda>(x :: u64) y. NOT (x OR y)) \<and>
   elementwise3 helper_gvec_eqv (\<lambda>(x :: u64) y. NOT (x XOR y)) \<and>
   elementwise2s helper_gvec_ands (\<lambda>(x :: u64) y. x AND y) \<and>
   elementwise2s helper_gvec_xors (\<lambda>(x :: u64) y. x XOR y) \<and>
   elementwise2s helper_gvec_ors (\<lambda>(x :: u64) y. x OR y) \<and>
   elementwise2i helper_gvec_shl8i (\<lambda>n (x :: u8). push_bit n x) \<and>
   elementwise2i helper_gvec_shl16i (\<lambda>n (x :: u16). push_bit n x) \<and>
   elementwise2i helper_gvec_shl32i (\<lambda>n (x :: u32). push_bit n x) \<and>
   elementwise2i helper_gvec_shl64i (\<lambda>n (x :: u64). push_bit n x) \<and>
   elementwise2i helper_gvec_shr8i (\<lambda>n (x :: u8). drop_bit n x) \<and>
   elementwise2i helper_gvec_shr16i (\<lambda>n (x :: u16). drop_bit n x) \<and>
   elementwise2i helper_gvec_shr32i (\<lambda>n (x :: u32). drop_bit n x) \<and>
   elementwise2i helper_gvec_shr64i (\<lambda>n (x :: u64). drop_bit n x) \<and>
   elementwise2i helper_gvec_sar8i (\<lambda>n (x :: u8). signed_drop_bit n x) \<and>
   elementwise2i helper_gvec_sar16i (\<lambda>n (x :: u16). signed_drop_bit n x) \<and>
   elementwise2i helper_gvec_sar32i (\<lambda>n (x :: u32). signed_drop_bit n x) \<and>
   elementwise2i helper_gvec_sar64i (\<lambda>n (x :: u64). signed_drop_bit n x)"
  by (intro conjI; (rule elementwise_intros, rule gvec_bitwise_defs, simp_all))

lemmas gvec_comparisons_defs =
  helper_gvec_eq8_def helper_gvec_ne8_def helper_gvec_lt8_def helper_gvec_le8_def
  helper_gvec_ltu8_def helper_gvec_leu8_def helper_gvec_eq16_def helper_gvec_ne16_def
  helper_gvec_lt16_def helper_gvec_le16_def helper_gvec_ltu16_def helper_gvec_leu16_def
  helper_gvec_eq32_def helper_gvec_ne32_def helper_gvec_lt32_def helper_gvec_le32_def
  helper_gvec_ltu32_def helper_gvec_leu32_def helper_gvec_eq64_def helper_gvec_ne64_def
  helper_gvec_lt64_def helper_gvec_le64_def helper_gvec_ltu64_def helper_gvec_leu64_def

text \<open>
  The comparing vector helpers set every element to all ones where the comparison holds,
  signed or unsigned, and to zero elsewhere.
\<close>

theorem gvec_comparisons:
  "elementwise3 helper_gvec_eq8 (\<lambda>(x :: u8) y. if x = y then - 1 else 0) \<and>
   elementwise3 helper_gvec_ne8 (\<lambda>(x :: u8) y. if x \<noteq> y then - 1 else 0) \<and>
   elementwise3 helper_gvec_lt8 (\<lambda>(x :: u8) y. if sint x < sint y then - 1 else 0) \<and>
   elementwise3 helper_gvec_le8 (\<lambda>(x :: u8) y. if sint x \<le> sint y then - 1 else 0) \<and>
   elementwise3 helper_gvec_ltu8 (\<lambda>(x :: u8) y. if unat x < unat y then - 1 else 0) \<and>
   elementwise3 helper_gvec_leu8 (\<lambda>(x :: u8) y. if unat x \<le> unat y then - 1 else 0) \<and>
   elementwise3 helper_gvec_eq16 (\<lambda>(x :: u16) y. if x = y then - 1 else 0) \<and>
   elementwise3 helper_gvec_ne16 (\<lambda>(x :: u16) y. if x \<noteq> y then - 1 else 0) \<and>
   elementwise3 helper_gvec_lt16 (\<lambda>(x :: u16) y. if sint x < sint y then - 1 else 0) \<and>
   elementwise3 helper_gvec_le16 (\<lambda>(x :: u16) y. if sint x \<le> sint y then - 1 else 0) \<and>
   elementwise3 helper_gvec_ltu16 (\<lambda>(x :: u16) y. if unat x < unat y then - 1 else 0) \<and>
   elementwise3 helper_gvec_leu16 (\<lambda>(x :: u16) y. if unat x \<le> unat y then - 1 else 0) \<and>
   elementwise3 helper_gvec_eq32 (\<lambda>(x :: u32) y. if x = y then - 1 else 0) \<and>
   elementwise3 helper_gvec_ne32 (\<lambda>(x :: u32) y. if x \<noteq> y then - 1 else 0) \<and>
   elementwise3 helper_gvec_lt32 (\<lambda>(x :: u32) y. if sint x < sint y then - 1 else 0) \<and>
   elementwise3 helper_gvec_le32 (\<lambda>(x :: u32) y. if sint x \<le> sint y then - 1 else 0) \<and>
   elementwise3 helper_gvec_ltu32 (\<lambda>(x :: u32) y. if unat x < unat y then - 1 else 0) \<and>
   elementwise3 helper_gvec_leu32 (\<lambda>(x :: u32) y. if unat x \<le> unat y then - 1 else 0) \<and>
   elementwise3 helper_gvec_eq64 (\<lambda>(x :: u64) y. if x = y then - 1 else 0) \<and>
   elementwise3 helper_gvec_ne64 (\<lambda>(x :: u64) y. if x \<noteq> y then - 1 else 0) \<and>
   elementwise3 helper_gvec_lt64 (\<lambda>(x :: u64) y. if sint x < sint y then - 1 else 0) \<and>
   elementwise3 helper_gvec_le64 (\<lambda>(x :: u64) y. if sint x \<le> sint y then - 1 else 0) \<and>
   elementwise3 helper_gvec_ltu64 (\<lambda>(x :: u64) y. if unat x < unat y then - 1 else 0) \<and>
   elementwise3 helper_gvec_leu64 (\<lambda>(x :: u64) y. if unat x \<le> unat y then - 1 else 0)"
  by (intro conjI; (rule elementwise_intros, rule gvec_comparisons_defs, simp_all add: word_less_nat_alt word_le_nat_alt))

text \<open>The elements of the saturating helpers, width by width.\<close>

lemma sat_add8:
  "(let r = sint (x :: u8) + sint (y :: u8) in word_of_int (if r > 127 then 127 else if r < - 128 then - 128 else r)) =
   (word_of_int (clamp (- (2 ^ 7)) (2 ^ 7 - 1) (sint x + sint y)) :: u8)"
  by (simp add: clamp_def Let_def)

lemma sat_add16:
  "(let r = sint (x :: u16) + sint (y :: u16) in word_of_int (if r > 32767 then 32767 else if r < - 32768 then - 32768 else r)) =
   (word_of_int (clamp (- (2 ^ 15)) (2 ^ 15 - 1) (sint x + sint y)) :: u16)"
  by (simp add: clamp_def Let_def)

lemma sat_add32:
  "(let di = (x :: u32) + y in if sint ((di XOR x) AND NOT (x XOR y)) < 0 then if sint di < 0 then 0x7FFFFFFF else 0x80000000 else di) =
   word_of_int (clamp (- (2 ^ 31)) (2 ^ 31 - 1) (sint x + sint y))"
  proof -
  have limits: "(word_of_int (2 ^ (LENGTH(32) - 1) - 1) :: u32) = 0x7FFFFFFF"
    "(word_of_int (- (2 ^ (LENGTH(32) - 1))) :: u32) = 0x80000000" by simp_all
  show ?thesis using saturating_add [of x y] unfolding limits by simp
qed

lemma sat_add64:
  "(let di = (x :: u64) + y in if sint ((di XOR x) AND NOT (x XOR y)) < 0 then if sint di < 0 then 0x7FFFFFFFFFFFFFFF else 0x8000000000000000 else di) =
   word_of_int (clamp (- (2 ^ 63)) (2 ^ 63 - 1) (sint x + sint y))"
  proof -
  have limits: "(word_of_int (2 ^ (LENGTH(64) - 1) - 1) :: u64) = 0x7FFFFFFFFFFFFFFF"
    "(word_of_int (- (2 ^ (LENGTH(64) - 1))) :: u64) = 0x8000000000000000" by simp_all
  show ?thesis using saturating_add [of x y] unfolding limits by simp
qed

lemma sat_sub8:
  "(let r = sint (x :: u8) - sint (y :: u8) in word_of_int (if r > 127 then 127 else if r < - 128 then - 128 else r)) =
   (word_of_int (clamp (- (2 ^ 7)) (2 ^ 7 - 1) (sint x - sint y)) :: u8)"
  by (simp add: clamp_def Let_def)

lemma sat_sub16:
  "(let r = sint (x :: u16) - sint (y :: u16) in word_of_int (if r > 32767 then 32767 else if r < - 32768 then - 32768 else r)) =
   (word_of_int (clamp (- (2 ^ 15)) (2 ^ 15 - 1) (sint x - sint y)) :: u16)"
  by (simp add: clamp_def Let_def)

lemma sat_sub32:
  "(let di = (x :: u32) - y in if sint ((di XOR x) AND (x XOR y)) < 0 then if sint di < 0 then 0x7FFFFFFF else 0x80000000 else di) =
   word_of_int (clamp (- (2 ^ 31)) (2 ^ 31 - 1) (sint x - sint y))"
  proof -
  have limits: "(word_of_int (2 ^ (LENGTH(32) - 1) - 1) :: u32) = 0x7FFFFFFF"
    "(word_of_int (- (2 ^ (LENGTH(32) - 1))) :: u32) = 0x80000000" by simp_all
  show ?thesis using saturating_sub [of x y] unfolding limits by simp
qed

lemma sat_sub64:
  "(let di = (x :: u64) - y in if sint ((di XOR x) AND (x XOR y)) < 0 then if sint di < 0 then 0x7FFFFFFFFFFFFFFF else 0x8000000000000000 else di) =
   word_of_int (clamp (- (2 ^ 63)) (2 ^ 63 - 1) (sint x - sint y))"
  proof -
  have limits: "(word_of_int (2 ^ (LENGTH(64) - 1) - 1) :: u64) = 0x7FFFFFFFFFFFFFFF"
    "(word_of_int (- (2 ^ (LENGTH(64) - 1))) :: u64) = 0x8000000000000000" by simp_all
  show ?thesis using saturating_sub [of x y] unfolding limits by simp
qed

lemma usat_add8:
  "(let r = unat (x :: u8) + unat (y :: u8) in of_nat (if r > 255 then 255 else r)) =
   (of_nat (min (2 ^ 8 - 1) (unat x + unat y)) :: u8)"
  by (simp add: Let_def min_def)

lemma usat_sub8:
  "(let r = uint (x :: u8) - uint (y :: u8) in word_of_int (if r < 0 then 0 else r)) = (of_nat (unat x - unat y) :: u8)"
  by (rule unsigned_clamped_sub)

lemma usat_add16:
  "(let r = unat (x :: u16) + unat (y :: u16) in of_nat (if r > 65535 then 65535 else r)) =
   (of_nat (min (2 ^ 16 - 1) (unat x + unat y)) :: u16)"
  by (simp add: Let_def min_def)

lemma usat_sub16:
  "(let r = uint (x :: u16) - uint (y :: u16) in word_of_int (if r < 0 then 0 else r)) = (of_nat (unat x - unat y) :: u16)"
  by (rule unsigned_clamped_sub)

lemma usat_add32:
  "(let di = (x :: u32) + y in if di < x then 0xFFFFFFFF else di) = of_nat (min (2 ^ 32 - 1) (unat x + unat y))"
  proof -
  have ones: "(- 1 :: u32) = 0xFFFFFFFF" by simp
  show ?thesis using unsigned_saturating_add [of x y] unfolding ones by simp
qed

lemma usat_add64:
  "(let di = (x :: u64) + y in if di < x then 0xFFFFFFFFFFFFFFFF else di) = of_nat (min (2 ^ 64 - 1) (unat x + unat y))"
  proof -
  have ones: "(- 1 :: u64) = 0xFFFFFFFFFFFFFFFF" by simp
  show ?thesis using unsigned_saturating_add [of x y] unfolding ones by simp
qed

lemmas sat_simps = sat_add8 sat_add16 sat_add32 sat_add64 sat_sub8 sat_sub16 sat_sub32 sat_sub64 usat_add8 usat_sub8 usat_add16 usat_sub16 usat_add32 usat_add64 unsigned_saturating_sub

lemmas gvec_saturating_defs =
  helper_gvec_ssadd8_def helper_gvec_ssadd16_def helper_gvec_ssadd32_def helper_gvec_ssadd64_def
  helper_gvec_sssub8_def helper_gvec_sssub16_def helper_gvec_sssub32_def helper_gvec_sssub64_def
  helper_gvec_usadd8_def helper_gvec_usadd16_def helper_gvec_usadd32_def helper_gvec_usadd64_def
  helper_gvec_ussub8_def helper_gvec_ussub16_def helper_gvec_ussub32_def helper_gvec_ussub64_def


lemma min_max_select: "(if x < y then x else y) = min x (y :: 'a::len word)" "(if y < x then x else y) = max x y"
  by (auto simp: min_def max_def)

lemmas gvec_min_max_defs =
  helper_gvec_smin8_def helper_gvec_smin16_def helper_gvec_smin32_def helper_gvec_smin64_def
  helper_gvec_smax8_def helper_gvec_smax16_def helper_gvec_smax32_def helper_gvec_smax64_def
  helper_gvec_umin8_def helper_gvec_umin16_def helper_gvec_umin32_def helper_gvec_umin64_def
  helper_gvec_umax8_def helper_gvec_umax16_def helper_gvec_umax32_def helper_gvec_umax64_def

text \<open>
  The minimum and maximum helpers select, element by element, the smaller or larger value in
  the signed or unsigned order.
\<close>

theorem gvec_min_max:
  "elementwise3 helper_gvec_smin8 (\<lambda>(x :: u8) y. if sint x < sint y then x else y) \<and>
   elementwise3 helper_gvec_smin16 (\<lambda>(x :: u16) y. if sint x < sint y then x else y) \<and>
   elementwise3 helper_gvec_smin32 (\<lambda>(x :: u32) y. if sint x < sint y then x else y) \<and>
   elementwise3 helper_gvec_smin64 (\<lambda>(x :: u64) y. if sint x < sint y then x else y) \<and>
   elementwise3 helper_gvec_smax8 (\<lambda>(x :: u8) y. if sint x > sint y then x else y) \<and>
   elementwise3 helper_gvec_smax16 (\<lambda>(x :: u16) y. if sint x > sint y then x else y) \<and>
   elementwise3 helper_gvec_smax32 (\<lambda>(x :: u32) y. if sint x > sint y then x else y) \<and>
   elementwise3 helper_gvec_smax64 (\<lambda>(x :: u64) y. if sint x > sint y then x else y) \<and>
   elementwise3 helper_gvec_umin8 (\<lambda>(x :: u8) y. min x y) \<and>
   elementwise3 helper_gvec_umin16 (\<lambda>(x :: u16) y. min x y) \<and>
   elementwise3 helper_gvec_umin32 (\<lambda>(x :: u32) y. min x y) \<and>
   elementwise3 helper_gvec_umin64 (\<lambda>(x :: u64) y. min x y) \<and>
   elementwise3 helper_gvec_umax8 (\<lambda>(x :: u8) y. max x y) \<and>
   elementwise3 helper_gvec_umax16 (\<lambda>(x :: u16) y. max x y) \<and>
   elementwise3 helper_gvec_umax32 (\<lambda>(x :: u32) y. max x y) \<and>
   elementwise3 helper_gvec_umax64 (\<lambda>(x :: u64) y. max x y)"
  by (intro conjI; (rule elementwise_intros, rule gvec_min_max_defs, simp_all add: min_max_select))

section \<open>Copies\<close>

lemma ld_byte: "(ld m p :: u8) = m p"
  by (rule bit_word_eqI) (simp add: bit_ld)

lemma ld_part:
  assumes "8 dvd LENGTH('a)" and "8 dvd LENGTH('b)" and "n + LENGTH('b) div 8 \<le> LENGTH('a) div 8"
  shows "(ld m (p + n) :: 'b::len word) = ucast (drop_bit (8 * n) (ld m p :: 'a::len word))"
  using assms by (intro bit_word_eqI) (auto simp: bit_ld bit_simps add.assoc elim!: dvdE)

lemma vec_result_part:
  fixes w :: "'a::len word" and v :: "'b::len word"
  assumes "vec_result (\<lambda>_. w) d desc m m'" and "8 dvd LENGTH('a)" and "8 dvd LENGTH('b)"
    and "LENGTH('b) div 8 dvd LENGTH('a) div 8" and "LENGTH('a) div 8 dvd 8"
    and "\<And>n. n < LENGTH('a) div 8 \<Longrightarrow> LENGTH('b) div 8 dvd n \<Longrightarrow> ucast (drop_bit (8 * n) w) = v"
  shows "vec_result (\<lambda>_. v) d desc m m'"
proof -
  let ?s = "LENGTH('a) div 8" and ?t = "LENGTH('b) div 8"
  have "ld m' (d + k) = v" if k: "k < oprsz_of desc" "?t dvd k" for k
  proof -
    have "0 < ?s" using assms(2) by (metis dvd_div_mult_self len_not_eq_0 mult_0 neq0_conv)
    define j n where "j = k div ?s * ?s" and "n = k mod ?s"
    have jn: "k = j + n" by (simp only: j_def n_def div_mult_mod_eq)
    have jn: "k = j + n" "n < ?s" "?s dvd j" using \<open>0 < ?s\<close> jn by (simp_all add: j_def n_def)
    have "?t dvd n" unfolding n_def using k(2) assms(4) by (rule dvd_mod)
    then have "n + ?t \<le> ?s" using dvd_gap assms(4) jn(2) by blast
    then have "(ld m' (d + j + n) :: 'b word) = ucast (drop_bit (8 * n) (ld m' (d + j) :: 'a word))"
      by (rule ld_part [OF assms(2,3)])
    moreover have "ld m' (d + j) = w" using assms(1) k(1) jn by (simp add: vec_result_def)
    ultimately show ?thesis using assms(6) [OF jn(2) \<open>?t dvd n\<close>] jn(1) by (simp add: add.assoc)
  qed
  then show ?thesis using assms(1) by (simp add: vec_result_def)
qed

lemma dup_result:
  fixes c :: "'a::len word"
  assumes "8 dvd LENGTH('a)" and "LENGTH('a) div 8 dvd 8" and "oprsz_of desc \<le> maxsz_of desc"
  shows "\<exists>m'. (if c = 0 then clear_high d 0 desc m
       else clear_high d (oprsz_of desc) desc
         (for_loop 0 (oprsz_of desc) (LENGTH('a) div 8) (\<lambda>i m. st (d + i) c m) m)) = Inr m' \<and>
    vec_result (\<lambda>_. c) d desc m m'"
proof (cases "c = 0")
  case True
  obtain m' where m': "clear_high d 0 desc m = Inr m'" "\<And>q. m' q = (if d \<le> q \<and> q < d + maxsz_of desc then 0 else m q)"
    using clear_high_value [of 0 d desc m] by auto
  have "ld m' (d + k) = c" if "k < oprsz_of desc" "LENGTH('a) div 8 dvd k" for k
  proof -
    have "k + LENGTH('a) div 8 \<le> oprsz_of desc"
      using dvd_gap [OF that(2) _ that(1)] dvd_trans [OF assms(2) size_of_bounds(1)] by blast
    then have "ld m' (d + k) = (ld (\<lambda>_. 0) (d + k) :: 'a word)"
      using assms(1,3) m'(2) by (intro ld_cong) auto
    also have "\<dots> = c" unfolding True by (rule bit_word_eqI) (simp add: bit_ld)
    finally show ?thesis .
  qed
  then show ?thesis using True m' assms(3) by (auto simp: vec_result_def)
next
  case False
  then show ?thesis using vec_loop [OF assms(1,2), of desc d "\<lambda>_ _. c" m] by simp
qed

lemma digit: "(x :: nat) < B \<Longrightarrow> (y * B + x) mod B = x" "x < B \<Longrightarrow> (y * B + x) div B = y"
  by simp_all

lemma repeated_halves:
  fixes c :: u32
  assumes "n < 4" and "2 dvd n"
  shows "(ucast (drop_bit (8 * n) (0x00010001 * (c AND 0xFFFF))) :: u16) = ucast c"
proof -
  define x where "x = unat c mod 65536"
  have x: "x < 65536" by (simp add: x_def)
  have "unat (c AND 0xFFFF) = x" using unat_and_mask [of c 16] by (simp add: x_def mask_eq_exp_minus_1)
  then have "unat (0x00010001 * (c AND 0xFFFF)) = x * 65536 + x" using x by (simp add: unat_word_ariths)
  moreover have "n = 0 \<or> n = 2" using assms by (auto elim!: dvdE)
  moreover have "(x * 65536 + x) mod 65536 = x" "(x * 65536 + x) div 65536 mod 65536 = x"
    using x by (simp_all only: digit mod_less)
  ultimately have "unat (ucast (drop_bit (8 * n) (0x00010001 * (c AND 0xFFFF))) :: u16) = x"
    by (auto simp: unat_ucast_mod unat_drop_bit)
  then show ?thesis by (simp add: word_unat_eq_iff unat_ucast_mod x_def)
qed

lemma repeated_bytes:
  fixes c :: u32
  assumes "n < 4"
  shows "(ucast (drop_bit (8 * n) (0x01010101 * (c AND 0xFF))) :: u8) = ucast c"
proof -
  define x where "x = unat c mod 256"
  have x: "x < 256" by (simp add: x_def)
  have "unat (c AND 0xFF) = x" using unat_and_mask [of c 8] by (simp add: x_def mask_eq_exp_minus_1)
  then have w: "unat (0x01010101 * (c AND 0xFF)) = ((x * 256 + x) * 256 + x) * 256 + x"
    using x by (simp add: unat_word_ariths)
  define y3 y2 where "y3 = (x * 256 + x) * 256 + x" and "y2 = x * 256 + x"
  have "(y3 * 256 + x) mod 256 = x" "(y3 * 256 + x) div 256 = y3" "y3 = y2 * 256 + x"
    "(y2 * 256 + x) mod 256 = x" "(y2 * 256 + x) div 256 = y2" "y2 mod 256 = x" "y2 div 256 = x"
    using x digit [of x 256] by (simp_all only: y3_def y2_def)
  moreover have "n = 0 \<or> n = 1 \<or> n = 2 \<or> n = 3" using assms by auto
  moreover have "v div 65536 = v div 256 div 256" "v div 16777216 = v div 256 div 256 div 256" for v :: nat
    by (simp_all add: div_mult2_eq [symmetric])
  ultimately have "unat (ucast (drop_bit (8 * n) (0x01010101 * (c AND 0xFF))) :: u8) = x"
    using x unfolding unat_ucast_mod unat_drop_bit w y3_def [symmetric] by auto
  then show ?thesis by (simp add: word_unat_eq_iff unat_ucast_mod x_def)
qed

text \<open>
  Filling a vector: when the operation size does not exceed the maximal size, the 64-, 32-, 16-
  and 8-bit variants set every element to the (truncated) value, also where the wide store repeats a
  narrow value and where a zero is written by clearing.
\<close>

theorem gvec_dup:
  assumes "oprsz_of desc \<le> maxsz_of desc"
  shows "(\<exists>m'. helper_gvec_dup64 d desc c m = Inr m' \<and> vec_result (\<lambda>_. c) d desc m m') \<and>
    (\<exists>m'. helper_gvec_dup32 d desc w m = Inr m' \<and> vec_result (\<lambda>_. w) d desc m m') \<and>
    (\<exists>m'. helper_gvec_dup16 d desc w m = Inr m' \<and> vec_result (\<lambda>_. ucast w :: u16) d desc m m') \<and>
    (\<exists>m'. helper_gvec_dup8 d desc w m = Inr m' \<and> vec_result (\<lambda>_. ucast w :: u8) d desc m m')"
proof -
  have dup32: "\<exists>m'. helper_gvec_dup32 d desc v m = Inr m' \<and> vec_result (\<lambda>_. v) d desc m m'" for v
    using dup_result [of desc v d m] assms
    by (cases "v = 0") (simp_all add: helper_gvec_dup32_def simd_oprsz_value)
  have "\<exists>m'. helper_gvec_dup64 d desc c m = Inr m' \<and> vec_result (\<lambda>_. c) d desc m m'"
    using dup_result [of desc c d m] assms
    by (cases "c = 0") (simp_all add: helper_gvec_dup64_def simd_oprsz_value)
  moreover have "\<exists>m'. helper_gvec_dup16 d desc w m = Inr m' \<and> vec_result (\<lambda>_. ucast w :: u16) d desc m m'"
  proof -
    obtain m' where "helper_gvec_dup32 d desc (0x00010001 * (w AND 0xFFFF)) m = Inr m'" "vec_result (\<lambda>_. 0x00010001 * (w AND 0xFFFF)) d desc m m'"
      using dup32 by blast
    moreover have "vec_result (\<lambda>_. ucast w :: u16) d desc m m'"
      by (rule vec_result_part [OF calculation(2)]) (simp_all add: repeated_halves)
    ultimately show ?thesis by (auto simp: helper_gvec_dup16_def)
  qed
  moreover have "\<exists>m'. helper_gvec_dup8 d desc w m = Inr m' \<and> vec_result (\<lambda>_. ucast w :: u8) d desc m m'"
  proof -
    obtain m' where "helper_gvec_dup32 d desc (0x01010101 * (w AND 0xFF)) m = Inr m'" "vec_result (\<lambda>_. 0x01010101 * (w AND 0xFF)) d desc m m'"
      using dup32 by blast
    moreover have "vec_result (\<lambda>_. ucast w :: u8) d desc m m'"
      by (rule vec_result_part [OF calculation(2)]) (simp_all add: repeated_bytes)
    ultimately show ?thesis by (auto simp: helper_gvec_dup8_def)
  qed
  ultimately show ?thesis using dup32 by blast
qed

theorem gvec_dup_witness:
  "oprsz_of 0 = 8 \<and> maxsz_of 0 = 8 \<and>
   (\<exists>m'. helper_gvec_dup8 16 0 7 (\<lambda>_. 0) = Inr m' \<and> vec_result (\<lambda>_. 7 :: u8) 16 0 (\<lambda>_. 0) m')"
  using gvec_dup [of 0 16 0 "\<lambda>_. 0" 7] by (simp add: oprsz_of_def maxsz_of_def)

text \<open>
  Copying a vector copies its bytes and clears the rest of the destination; a source that
  overlaps the destination partly is undefined.
\<close>

theorem gvec_mov:
  "if overlap_ok d a (oprsz_of desc)
   then \<exists>m'. helper_gvec_mov d a desc m = Inr m' \<and> vec_result (\<lambda>k. m (a + k)) d desc m m'
   else helper_gvec_mov d a desc m = Inl Undefined"
proof (cases "overlap_ok d a (oprsz_of desc)")
  case True
  define M where "M = (\<lambda>q. if d \<le> q \<and> q < d + oprsz_of desc then m (a + (q - d)) else m q)"
  obtain m' where "clear_high d (oprsz_of desc) desc M = Inr m'"
    "\<And>q. m' q = (if d + oprsz_of desc \<le> q \<and> q < d + maxsz_of desc then 0 else M q)"
    using clear_high_value [of "oprsz_of desc" d desc M] by auto
  then show ?thesis
    using True by (auto simp: helper_gvec_mov_def simd_oprsz_value memcpy_def vec_result_def ld_byte M_def)
qed (simp add: helper_gvec_mov_def simd_oprsz_value memcpy_def)

section \<open>Descriptors\<close>

text \<open>The three fields of a descriptor, joined.\<close>

lemma simd_desc_value:
  assumes "unat oprsz mod 8 = 0" and "unat oprsz \<le> 256" and "unat maxsz mod 8 = 0" and "unat maxsz \<le> 256"
    and "sextract32 data 0 22 = Inr data"
  shows "\<exists>desc. simd_desc oprsz maxsz data = Inr desc \<and>
    (\<forall>i < 32. bit desc i \<longleftrightarrow>
       (if i < 5 then bit (oprsz div 8 - 1) i else if i < 10 then bit (maxsz div 8 - 1) (i - 5) else bit data (i - 10)))"
proof -
  have "oprsz mod 8 = 0" "maxsz mod 8 = 0" "oprsz \<le> 256" "maxsz \<le> 256"
    using assms by (simp_all add: word_unat_eq_iff unat_mod word_le_nat_alt)
  moreover obtain d1 where d1: "deposit32 0 0 5 (oprsz div 8 - 1) = Inr d1"
    "\<forall>i < 32. bit d1 i \<longleftrightarrow> (if i < 5 then bit (oprsz div 8 - 1) i else False)"
    using fields32 [of 0 5 0 "oprsz div 8 - 1"] by auto
  moreover obtain d2 where d2: "deposit32 d1 5 5 (maxsz div 8 - 1) = Inr d2"
    "\<forall>i < 32. bit d2 i \<longleftrightarrow> (if 5 \<le> i \<and> i < 10 then bit (maxsz div 8 - 1) (i - 5) else bit d1 i)"
    using fields32 [of 5 5 d1 "maxsz div 8 - 1"] by auto
  moreover obtain d3 where d3: "deposit32 d2 10 22 data = Inr d3"
    "\<forall>i < 32. bit d3 i \<longleftrightarrow> (if 10 \<le> i \<and> i < 32 then bit data (i - 10) else bit d2 i)"
    using fields32 [of 10 22 d2 data] by auto
  ultimately show ?thesis
    using assms(5) by (auto simp: simd_desc_def simd_shapes Let_def)
qed

lemma field_size:
  fixes x :: u32
  assumes "unat x mod 8 = 0" and "unat x \<le> 256"
  shows "(unat (x div 8 - 1) mod 32 + 1) * 8 = (if x = 0 then 256 else unat x)"
proof (cases "x = 0")
  case True
  then show ?thesis using unat_and_mask [of "- 1 :: u32" 5] by (simp add: mask_eq_exp_minus_1)
next
  case False
  obtain k where k: "unat x = 8 * k" using assms(1) by (metis mod_0_imp_dvd dvdE)
  have "0 < k" "k \<le> 32" using False assms(2) k by (auto simp: word_unat_eq_iff)
  have "unat (x div 8) = k" by (simp add: unat_div k)
  then have "x div 8 \<noteq> 0" using \<open>0 < k\<close> by auto
  then have "unat (x div 8 - 1) = k - 1" using \<open>unat (x div 8) = k\<close> by (simp add: unat_pred)
  then show ?thesis using False \<open>0 < k\<close> \<open>k \<le> 32\<close> k by simp
qed

text \<open>
  A descriptor keeps its parts: for sizes that are multiples of 8 up to 256 and data of 22 signed
  bits the decoded sizes and data are the encoded ones, except that a size of 0, which the assertions
  accept, decodes as 256.
\<close>

theorem simd_desc_roundtrip:
  assumes "unat oprsz mod 8 = 0" and "unat oprsz \<le> 256" and "unat maxsz mod 8 = 0" and "unat maxsz \<le> 256"
    and "- (2 ^ 21) \<le> sint data" and "sint data < 2 ^ 21"
  shows "\<exists>desc. simd_desc oprsz maxsz data = Inr desc \<and>
    simd_oprsz desc = Inr (if oprsz = 0 then 256 else unat oprsz) \<and>
    simd_maxsz desc = Inr (if maxsz = 0 then 256 else unat maxsz) \<and>
    simd_data desc = Inr (sint data)"
proof -
  have "signed_take_bit 21 (sint data) = sint data" using assms(5,6) by (simp add: signed_take_bit_int_eq_self)
  then have A: "bit (sint data) i = bit (sint data) (min 21 i)" for i
    using bit_signed_take_bit_iff [of 21 "sint data" i] by simp
  have B: "bit (sint data) k = bit data k" if "k < 32" for k
    using that by (simp add: bit_signed_iff min_absorb2)
  have sign: "bit data i = bit data (min i 21)" if "i < 32" for i
    using A [of i] B [OF that] B [of "min 21 i"] by (simp add: min.commute)
  obtain x where x: "sextract32 data 0 22 = Inr x" "\<forall>i < 32. bit x i = bit data (min i 21)"
    using fields32 [of 0 22 data data] by auto
  have "x = data"
  proof (rule bit_word_eqI)
    show "bit x n = bit data n" if "n < LENGTH(32)" for n using that x(2) sign [of n] by simp
  qed
  then obtain desc where desc: "simd_desc oprsz maxsz data = Inr desc"
    "\<forall>i < 32. bit desc i \<longleftrightarrow> (if i < 5 then bit (oprsz div 8 - 1) i
       else if i < 10 then bit (maxsz div 8 - 1) (i - 5) else bit data (i - 10))"
    using simd_desc_value [OF assms(1-4), of data] x(1) by auto
  have "desc AND mask 5 = (oprsz div 8 - 1) AND mask 5"
    using desc(2) by (intro bit_word_eqI) (auto simp: bit_simps)
  then have "oprsz_of desc = (unat (oprsz div 8 - 1) mod 32 + 1) * 8"
    using unat_and_mask [of desc 5] unat_and_mask [of "oprsz div 8 - 1" 5] by (simp add: oprsz_of_def)
  moreover have "drop_bit 5 desc AND mask 5 = (maxsz div 8 - 1) AND mask 5"
    using desc(2) by (intro bit_word_eqI) (auto simp: bit_simps)
  then have "maxsz_of desc = (unat (maxsz div 8 - 1) mod 32 + 1) * 8"
    using unat_and_mask [of "drop_bit 5 desc" 5] unat_and_mask [of "maxsz div 8 - 1" 5]
    by (simp add: maxsz_of_def unat_drop_bit)
  moreover obtain y where y: "sextract32 desc 10 22 = Inr y" "\<forall>i < 32. bit y i = bit desc (10 + min i 21)"
    using fields32 [of 10 22 desc desc] by auto
  have "y = data"
  proof (rule bit_word_eqI)
    show "bit y n = bit data n" if "n < LENGTH(32)" for n
      using that y(2) desc(2) sign [of n] by (simp add: min_def split: if_splits)
  qed
  ultimately show ?thesis
    using desc(1) y(1) field_size [OF assms(1,2)] field_size [OF assms(3,4)]
    by (simp add: simd_oprsz_value simd_maxsz_value simd_data_def simd_shapes)
qed

theorem simd_desc_roundtrip_witness:
  "\<exists>desc. simd_desc 16 32 (- 3) = Inr desc \<and> simd_oprsz desc = Inr 16 \<and> simd_maxsz desc = Inr 32 \<and>
     simd_data desc = Inr (- 3)"
  using simd_desc_roundtrip [of 16 32 "- 3"] by simp

end
