(* ===== verification/HWBar.thy ===== *)
theory HWBar
  imports GVec CText
begin

text \<open>
  The base of the device models (\<^verbatim>\<open>afl-proxy/aplib/HWModel.h\<close>, classes \<^verbatim>\<open>Bar\<close> and \<^verbatim>\<open>HWModel\<close>,
  and \<^verbatim>\<open>EnvKnob.h\<close>): the memory of a base address register as an optional byte array, and the
  dispatch of reads and writes between the probing model of a device and its registers. The
  virtual methods of a concrete device are an argument, as are the environment of the process and
  the shared memory a register is moved to. An access outside the array is \<open>Undefined\<close>.
\<close>

section \<open>Environment knobs\<close>

datatype EnvKnob = Mk_EnvKnob (knob_name: string) (knob_value: string)

definition new_EnvKnob :: "(string \<Rightarrow> string option) \<Rightarrow> string \<Rightarrow> EnvKnob" where
  "new_EnvKnob getenv name =
     (case getenv name of None \<Rightarrow> Mk_EnvKnob name '''' | Some val \<Rightarrow> Mk_EnvKnob name val)"

definition isPresented :: "EnvKnob \<Rightarrow> bool" where
  "isPresented k = (length (knob_value k) \<noteq> 0)"

definition isSet :: "EnvKnob \<Rightarrow> bool" where
  "isSet k =
     (if length (knob_value k) = 0 then False
      else if knob_value k = ''true'' then True
      else if knob_value k = ''false'' \<or> knob_value k = ''0'' then False
      else True)"

text \<open>\<^verbatim>\<open>atoi\<close> is \<^verbatim>\<open>(int) strtol(s, NULL, 10)\<close>.\<close>

definition atoi :: "string \<Rightarrow> int" where
  "atoi s = sint (ucast (strtoll10 s) :: u32)"

definition getIntValue :: "EnvKnob \<Rightarrow> int res" where
  "getIntValue k = assert_res (length (knob_value k) \<noteq> 0) (Inr (atoi (knob_value k)))"

definition getUInt16Value :: "EnvKnob \<Rightarrow> u16 res" where
  "getUInt16Value k = assert_res (length (knob_value k) \<noteq> 0) (Inr (word_of_int (atoi (knob_value k))))"

definition getUInt32Value :: "EnvKnob \<Rightarrow> u32 res" where
  "getUInt32Value k = assert_res (length (knob_value k) \<noteq> 0) (Inr (word_of_int (atoi (knob_value k))))"

definition getStringValue :: "EnvKnob \<Rightarrow> string" where
  "getStringValue k = knob_value k"

section \<open>Byte arrays\<close>

type_synonym buffer = "u8 list option"

definition calloc :: "int \<Rightarrow> buffer" where
  "calloc n = (if n > 0 then Some (replicate (nat n) 0) else None)"

text \<open>Reading and writing \<open>n\<close> bytes at an address; no access at all when \<open>n\<close> is 0.\<close>

definition buf_get :: "buffer \<Rightarrow> nat \<Rightarrow> nat \<Rightarrow> u8 list res" where
  "buf_get d a n =
     (if n = 0 then Inr []
      else case d of
        None \<Rightarrow> Inl Undefined
      | Some bs \<Rightarrow> if a + n \<le> length bs then Inr (take n (drop a bs)) else Inl Undefined)"

definition buf_set :: "buffer \<Rightarrow> nat \<Rightarrow> u8 list \<Rightarrow> buffer res" where
  "buf_set d a xs =
     (if xs = [] then Inr d
      else case d of
        None \<Rightarrow> Inl Undefined
      | Some bs \<Rightarrow>
          if a + length xs \<le> length bs then Inr (Some (take a bs @ xs @ drop (a + length xs) bs))
          else Inl Undefined)"

text \<open>Little-endian integers and their bytes.\<close>

definition le_word :: "u8 list \<Rightarrow> 'a::len word" where
  "le_word bs = ld (\<lambda>i. if i < length bs then bs ! i else 0) 0"

definition le_bytes :: "nat \<Rightarrow> 'a::len word \<Rightarrow> u8 list" where
  "le_bytes n w = map (\<lambda>i. ucast (drop_bit (8 * i) w)) [0..<n]"

section \<open>Base address registers\<close>

record bar =
  barType :: int
  barIdx :: int
  barSize :: int
  bar_data :: buffer
  bar_shm :: bool

definition PCI_BAR_TYPE_MMIO :: int where "PCI_BAR_TYPE_MMIO = 1"
definition PCI_BAR_TYPE_PIO :: int where "PCI_BAR_TYPE_PIO = 0"

definition new_Bar :: "int \<Rightarrow> int \<Rightarrow> int \<Rightarrow> bar" where
  "new_Bar t i s =
     \<lparr>barType = t, barIdx = i, barSize = s, bar_data = (if s \<noteq> 0 then calloc s else None),
      bar_shm = False\<rparr>"

definition barPresent :: "bar \<Rightarrow> bool" where
  "barPresent b = (bar_data b \<noteq> None)"

text \<open>\<^verbatim>\<open>operator[]\<close>: the comparison converts the size to an unsigned 64-bit number.\<close>

definition bar_at :: "bar \<Rightarrow> u64 \<Rightarrow> u8 res" where
  "bar_at b idx =
     assert_res (idx < word_of_int (barSize b))
       (bind_res (buf_get (bar_data b) (unat idx) 1) (\<lambda>bs. Inr (hd bs)))"

text \<open>\<open>shm_mem\<close> is the memory of the shared region, \<open>None\<close> when it cannot be opened.\<close>

definition swithToSHM :: "(int \<Rightarrow> u8 list option) \<Rightarrow> bar \<Rightarrow> bar res" where
  "swithToSHM shm_mem b =
     (if \<not> barPresent b then Inr b
      else case shm_mem (barIdx b) of
        None \<Rightarrow> Inl Assert
      | Some bs \<Rightarrow> Inr (b\<lparr>bar_data := Some bs, bar_shm := True\<rparr>))"

definition bar_load :: "nat \<Rightarrow> bar \<Rightarrow> int \<Rightarrow> u8 list res" where
  "bar_load n b addr = (if addr < 0 then Inl Undefined else buf_get (bar_data b) (nat addr) n)"

definition bar_store :: "bar \<Rightarrow> int \<Rightarrow> u8 list \<Rightarrow> bar res" where
  "bar_store b addr xs =
     (if addr < 0 then Inl Undefined
      else bind_res (buf_set (bar_data b) (nat addr) xs) (\<lambda>d. Inr (b\<lparr>bar_data := d\<rparr>)))"

definition get1B :: "bar \<Rightarrow> int \<Rightarrow> u8 res" where
  "get1B b addr = bind_res (bar_load 1 b addr) (\<lambda>bs. Inr (le_word bs))"

definition get2B :: "bar \<Rightarrow> int \<Rightarrow> u16 res" where
  "get2B b addr = bind_res (bar_load 2 b addr) (\<lambda>bs. Inr (le_word bs))"

definition get4B :: "bar \<Rightarrow> int \<Rightarrow> u32 res" where
  "get4B b addr = bind_res (bar_load 4 b addr) (\<lambda>bs. Inr (le_word bs))"

definition get8B :: "bar \<Rightarrow> int \<Rightarrow> u64 res" where
  "get8B b addr = bind_res (bar_load 8 b addr) (\<lambda>bs. Inr (le_word bs))"

definition set1B :: "bar \<Rightarrow> int \<Rightarrow> u8 \<Rightarrow> bar res" where
  "set1B b addr d = bar_store b addr (le_bytes 1 d)"

definition set2B :: "bar \<Rightarrow> int \<Rightarrow> u16 \<Rightarrow> bar res" where
  "set2B b addr d = bar_store b addr (le_bytes 2 d)"

definition set4B :: "bar \<Rightarrow> int \<Rightarrow> u32 \<Rightarrow> bar res" where
  "set4B b addr d = bar_store b addr (le_bytes 4 d)"

definition set8B :: "bar \<Rightarrow> int \<Rightarrow> u64 \<Rightarrow> bar res" where
  "set8B b addr d = bar_store b addr (le_bytes 8 d)"

text \<open>The destination of a read is returned with the number of bytes.\<close>

definition bar_read :: "bar \<Rightarrow> u64 \<Rightarrow> nat \<Rightarrow> (nat \<times> u8 list) res" where
  "bar_read b addr n = bind_res (buf_get (bar_data b) (unat addr) n) (\<lambda>bs. Inr (n, bs))"

definition bar_write :: "bar \<Rightarrow> u64 \<Rightarrow> u64 \<Rightarrow> nat \<Rightarrow> bar res" where
  "bar_write b d addr n =
     (if n \<le> 8
      then bind_res (buf_set (bar_data b) (unat addr) (le_bytes n d)) (\<lambda>d. Inr (b\<lparr>bar_data := d\<rparr>))
      else Inl Undefined)"

definition setType :: "bar \<Rightarrow> int \<Rightarrow> bar" where
  "setType b t = b\<lparr>barType := t\<rparr>"

definition setIdx :: "bar \<Rightarrow> int \<Rightarrow> bar" where
  "setIdx b i = b\<lparr>barIdx := i\<rparr>"

text \<open>Freeing the memory of a shared region is undefined.\<close>

definition setSize :: "bar \<Rightarrow> int \<Rightarrow> bar res" where
  "setSize b i =
     (if barPresent b \<and> bar_shm b then Inl Undefined
      else Inr (b\<lparr>barSize := i, bar_data := (if i \<noteq> 0 then calloc i else None)\<rparr>))"

section \<open>Device models\<close>

text \<open>The count of registers is not initialised before \<^verbatim>\<open>setupBar\<close>.\<close>

record HWModel =
  vid :: u16
  pid :: u16
  subvid :: u16
  subpid :: u16
  devclass :: u32
  revision :: u16
  hw_name :: string
  redirectR :: bool
  msixBarIdx :: int
  pciBarCnt :: "int option"
  bars :: "bar list"
  dmasg :: "(u64 \<times> u64) list"

definition new_HWModel :: "(string \<Rightarrow> string option) \<Rightarrow> string \<Rightarrow> u16 \<Rightarrow> u16 \<Rightarrow> u16 \<Rightarrow> u16 \<Rightarrow> u32 \<Rightarrow> u16 \<Rightarrow> int \<Rightarrow> HWModel" where
  "new_HWModel getenv name v p sv sp cls rv msix =
     (let knob = new_EnvKnob getenv ''NO_REDIRECT_READ'' in
      \<lparr>vid = v, pid = p, subvid = sv, subpid = sp, devclass = cls, revision = rv, hw_name = name,
       redirectR = (if isPresented knob \<and> isSet knob then False else True), msixBarIdx = msix,
       pciBarCnt = None, bars = [], dmasg = []\<rparr>)"

fun push_bars :: "(int \<times> int) list \<Rightarrow> int \<Rightarrow> bar list \<Rightarrow> bar list" where
  "push_bars [] cnt bs = bs"
| "push_bars ((t, s) # lst) cnt bs = push_bars lst (cnt + 1) (bs @ [new_Bar t cnt s])"

definition setupBar :: "HWModel \<Rightarrow> (int \<times> int) list \<Rightarrow> HWModel" where
  "setupBar m lst = m\<lparr>pciBarCnt := Some (int (length lst)), bars := push_bars lst 0 (bars m)\<rparr>"

definition hw_swithToSHM :: "(int \<Rightarrow> u8 list option) \<Rightarrow> HWModel \<Rightarrow> HWModel res" where
  "hw_swithToSHM shm_mem m =
     bind_res (foldl (\<lambda>r b. bind_res r (\<lambda>bs. bind_res (swithToSHM shm_mem b) (\<lambda>b. Inr (bs @ [b]))))
                 (Inr []) (bars m))
       (\<lambda>bs. Inr (m\<lparr>bars := bs\<rparr>))"

text \<open>
  \<open>dev_read\<close> is the virtual \<^verbatim>\<open>read\<close> without a register: the number of bytes, the bytes, and the new
  state of the device.
\<close>

definition hw_read :: "('d \<Rightarrow> u64 \<Rightarrow> nat \<Rightarrow> nat \<times> u8 list \<times> 'd) \<Rightarrow> HWModel \<Rightarrow> 'd \<Rightarrow> u64 \<Rightarrow> nat \<Rightarrow> int \<Rightarrow>
    (nat \<times> u8 list \<times> 'd) res" where
  "hw_read dev_read m dev addr n bar_no =
     (let (ret, dest, dev) = dev_read dev addr n in
      if ret \<noteq> 0 then Inr (ret, dest, dev)
      else if redirectR m then Inr (0, dest, dev)
      else if bar_no \<ge> 0 \<and> nat bar_no < length (bars m) then
        bind_res (bar_read (bars m ! nat bar_no) addr n) (\<lambda>(k, bs). Inr (k, bs @ drop n dest, dev))
      else Inr (0, dest, dev))"

definition hw_write :: "('d \<Rightarrow> u64 \<Rightarrow> u64 \<Rightarrow> nat \<Rightarrow> 'd) \<Rightarrow> HWModel \<Rightarrow> 'd \<Rightarrow> u64 \<Rightarrow> u64 \<Rightarrow> nat \<Rightarrow> int \<Rightarrow>
    (HWModel \<times> 'd) res" where
  "hw_write dev_write m dev data addr n bar_no =
     (let dev = dev_write dev data addr n in
      if bar_no \<ge> 0 \<and> nat bar_no < length (bars m) then
        bind_res (bar_write (bars m ! nat bar_no) data addr n) (\<lambda>b.
          Inr (m\<lparr>bars := (bars m)[nat bar_no := b]\<rparr>, dev))
      else Inr (m, dev))"

definition getPCIBarType :: "HWModel \<Rightarrow> int \<Rightarrow> int res" where
  "getPCIBarType m idx =
     (case pciBarCnt m of
        None \<Rightarrow> Inl Undefined
      | Some cnt \<Rightarrow>
          assert_res (idx \<ge> 0 \<and> idx < cnt)
            (if nat idx < length (bars m) then Inr (barType (bars m ! nat idx)) else Inl Undefined))"

definition getPCIBarSize :: "HWModel \<Rightarrow> int \<Rightarrow> int res" where
  "getPCIBarSize m idx =
     (case pciBarCnt m of
        None \<Rightarrow> Inl Undefined
      | Some cnt \<Rightarrow>
          assert_res (idx \<ge> 0 \<and> idx < cnt)
            (if nat idx < length (bars m) then Inr (barSize (bars m ! nat idx)) else Inl Undefined))"

section \<open>Laws of byte arrays\<close>

text \<open>
  The contract of a byte-addressed memory: what was stored is read back, other places keep their
  contents, and what can be read and written does not change.
\<close>

locale byte_memory =
  fixes get :: "'m \<Rightarrow> nat \<Rightarrow> nat \<Rightarrow> u8 list res" and put :: "'m \<Rightarrow> nat \<Rightarrow> u8 list \<Rightarrow> 'm res"
  assumes get_put_same: "put m a xs = Inr m' \<Longrightarrow> get m' a (length xs) = Inr xs"
    and get_put_other: "put m a xs = Inr m' \<Longrightarrow> b + n \<le> a \<or> a + length xs \<le> b \<Longrightarrow> get m' b n = get m b n"
    and put_defined: "(\<exists>m'. put m a xs = Inr m') \<longleftrightarrow> (\<exists>ys. get m a (length xs) = Inr ys)"
begin

lemma put_twice_apart:
  assumes "put m a xs = Inr m'" and "put m' b ys = Inr m''" and "a + length xs \<le> b \<or> b + length ys \<le> a"
  shows "get m'' a (length xs) = Inr xs" and "get m'' b (length ys) = Inr ys"
  using get_put_same [OF assms(1)] get_put_same [OF assms(2)] get_put_other [OF assms(2), of a "length xs"] assms(3)
  by auto

lemma put_after_put: "put m a xs = Inr m' \<Longrightarrow> length ys = length xs \<Longrightarrow> \<exists>m''. put m' a ys = Inr m''"
  using get_put_same put_defined by metis

end

lemma length_le_bytes [simp]: "length (le_bytes n w) = n"
  by (simp add: le_bytes_def)

lemma buf_get_set_same: "buf_set d a xs = Inr d' \<Longrightarrow> buf_get d' a (length xs) = Inr xs"
  by (auto simp: buf_set_def buf_get_def split: if_splits option.splits)

lemma take_drop_update:
  assumes "a + length xs \<le> length bs" and "b + n \<le> a \<or> a + length xs \<le> b"
  shows "take n (drop b (take a bs @ xs @ drop (a + length xs) bs)) = take n (drop b bs)"
proof (cases "b + n \<le> a")
  case True
  then have "take (n + b) (take a bs @ xs @ drop (a + length xs) bs) = take (n + b) bs"
    using assms(1) by (simp add: min_def)
  then show ?thesis by (simp only: take_drop)
next
  case False
  then show ?thesis using assms by simp
qed

lemma buf_get_set_other:
  assumes "buf_set d a xs = Inr d'" and "b + n \<le> a \<or> a + length xs \<le> b"
  shows "buf_get d' b n = buf_get d b n"
  using assms take_drop_update [of a xs _ b n]
  by (auto simp: buf_set_def buf_get_def split: if_splits option.splits)

lemma buf_set_defined: "(\<exists>d'. buf_set d a xs = Inr d') \<longleftrightarrow> (\<exists>ys. buf_get d a (length xs) = Inr ys)"
  by (auto simp: buf_set_def buf_get_def split: option.splits)

interpretation bm: byte_memory buf_get buf_set
  by unfold_locales (fact buf_get_set_same, fact buf_get_set_other, fact buf_set_defined)

lemma bit_le_word: "bit (le_word bs :: 'a::len word) i \<longleftrightarrow> i < LENGTH('a) \<and> i div 8 < length bs \<and> bit (bs ! (i div 8)) (i mod 8)"
  by (auto simp: le_word_def bit_ld)

lemma le_word_bytes: "LENGTH('a) = 8 * n \<Longrightarrow> le_word (le_bytes n w) = (w :: 'a::len word)"
  by (rule bit_word_eqI) (auto simp: bit_le_word le_bytes_def bit_simps)

lemma le_word_bytes_mask: "8 * n \<le> LENGTH('a) \<Longrightarrow> le_word (le_bytes n w) = (w AND mask (8 * n) :: 'a::len word)"
  by (rule bit_word_eqI) (auto simp: bit_le_word le_bytes_def bit_simps)

lemma bar_load_store: "bar_store b addr xs = Inr b' \<Longrightarrow> bar_load (length xs) b' addr = Inr xs"
  by (auto simp: bar_store_def bar_load_def bind_res_eq_Inr bm.get_put_same split: if_splits)

text \<open>
  A value stored in a register of a device is read back unchanged, in each of the four widths.
\<close>

theorem bar_set_get:
  "(set1B b addr v1 = Inr b' \<longrightarrow> get1B b' addr = Inr v1) \<and>
   (set2B b addr v2 = Inr b' \<longrightarrow> get2B b' addr = Inr v2) \<and>
   (set4B b addr v4 = Inr b' \<longrightarrow> get4B b' addr = Inr v4) \<and>
   (set8B b addr v8 = Inr b' \<longrightarrow> get8B b' addr = Inr v8)"
  using bar_load_store [of b addr "le_bytes 1 v1" b'] bar_load_store [of b addr "le_bytes 2 v2" b']
    bar_load_store [of b addr "le_bytes 4 v4" b'] bar_load_store [of b addr "le_bytes 8 v8" b']
  by (auto simp: get1B_def get2B_def get4B_def get8B_def set1B_def set2B_def set4B_def set8B_def le_word_bytes)

theorem bar_set_get_witness:
  "\<exists>b'. set4B (new_Bar 1 0 16) 8 0xDEADBEEF = Inr b' \<and> get4B b' 8 = Inr 0xDEADBEEF"
proof -
  obtain b' where "set4B (new_Bar 1 0 16) 8 0xDEADBEEF = Inr b'"
    by (simp add: set4B_def bar_store_def new_Bar_def calloc_def buf_set_def le_bytes_def)
  then show ?thesis using bar_set_get [of "new_Bar 1 0 16" 8 0 b' 0 "0xDEADBEEF" 0] by blast
qed

section \<open>Devices\<close>

lemma push_bars_append: "push_bars lst cnt bs = bs @ push_bars lst cnt []"
proof (induction lst arbitrary: cnt bs)
  case (Cons p lst)
  obtain t s where "p = (t, s)" by fastforce
  then show ?case using Cons.IH [of "cnt + 1" "bs @ [new_Bar t cnt s]"] Cons.IH [of "cnt + 1" "[new_Bar t cnt s]"]
    by simp
qed simp

lemma push_bars_nth:
  "i < length lst \<Longrightarrow> push_bars lst cnt [] ! i = new_Bar (fst (lst ! i)) (cnt + int i) (snd (lst ! i))"
proof (induction lst arbitrary: cnt i)
  case (Cons p lst)
  obtain t s where "p = (t, s)" by fastforce
  then show ?case
    using Cons push_bars_append [of lst "cnt + 1" "[new_Bar t cnt s]"]
    by (cases i) (auto simp: algebra_simps)
qed simp

lemma length_push_bars: "length (push_bars lst cnt []) = length lst"
proof (induction lst arbitrary: cnt)
  case (Cons p lst)
  obtain t s where "p = (t, s)" by fastforce
  then show ?case using Cons push_bars_append [of lst "cnt + 1" "[new_Bar t cnt s]"] by simp
qed simp

text \<open>
  After a device has set up its registers, the type and the size of each one are those of the
  list, every register has the memory of its size, cleared, and every other number is refused.
\<close>

theorem setupBar_registers:
  assumes "\<forall>p \<in> set lst. 0 \<le> snd p"
  shows "let m = setupBar (new_HWModel getenv name v p sv sp cls rv msix) lst in
    if 0 \<le> idx \<and> idx < int (length lst) then
      getPCIBarType m idx = Inr (fst (lst ! nat idx)) \<and> getPCIBarSize m idx = Inr (snd (lst ! nat idx)) \<and>
      barIdx (bars m ! nat idx) = idx \<and>
      bar_data (bars m ! nat idx) =
        (if snd (lst ! nat idx) = 0 then None else Some (replicate (nat (snd (lst ! nat idx))) 0))
    else getPCIBarType m idx = Inl Assert \<and> getPCIBarSize m idx = Inl Assert"
proof (cases "0 \<le> idx \<and> idx < int (length lst)")
  case True
  then have "nat idx < length lst" by auto
  then have "0 \<le> snd (lst ! nat idx)" using assms by auto
  then show ?thesis
    using True \<open>nat idx < length lst\<close>
    by (simp add: setupBar_def new_HWModel_def Let_def getPCIBarType_def getPCIBarSize_def push_bars_nth
        length_push_bars) (simp add: new_Bar_def calloc_def)
qed (auto simp: setupBar_def Let_def getPCIBarType_def getPCIBarSize_def)

theorem setupBar_registers_witness:
  "let m = setupBar (new_HWModel (\<lambda>_. None) ''dev'' 1 2 0 0 0 0 (- 1)) [(1, 4096), (0, 64)] in
   getPCIBarType m 1 = Inr 0 \<and> getPCIBarSize m 1 = Inr 64 \<and> bar_data (bars m ! 1) = Some (replicate 64 0)"
  using setupBar_registers [of "[(1, 4096), (0, 64)]" "\<lambda>_. None" "''dev''" 1 2 0 0 0 0 "- 1" 1]
  by (simp add: Let_def)

text \<open>
  Dispatch of accesses: a write reaches the model of the device and the register; a read that
  the model of the device does not answer and that is not redirected returns, from the same register
  and place, the bytes last written there.
\<close>

theorem hw_write_read:
  assumes "hw_write dev_write m dev data addr n bar_no = Inr (m', dev')"
    and "0 \<le> bar_no" and "nat bar_no < length (bars m)" and "\<not> redirectR m"
    and "fst (dev_read dev' addr n) = 0"
  shows "dev' = dev_write dev data addr n \<and>
    (\<exists>dest. hw_read dev_read m' dev' addr n bar_no = Inr (n, le_bytes n data @ drop n dest, snd (snd (dev_read dev' addr n))))"
proof -
  obtain b' where b': "bar_write (bars m ! nat bar_no) data addr n = Inr b'"
    "m' = m\<lparr>bars := (bars m)[nat bar_no := b']\<rparr>" "dev' = dev_write dev data addr n"
    using assms(1-3) by (auto simp: hw_write_def Let_def bind_res_eq_Inr split: if_splits)
  have "bar_read b' addr n = Inr (n, le_bytes n data)"
    using b'(1) bm.get_put_same [of _ _ "le_bytes n data"]
    by (auto simp: bar_write_def bar_read_def bind_res_eq_Inr split: if_splits)
  then show ?thesis
    using assms(2-5) b'(2,3)
    by (cases "dev_read dev' addr n") (auto simp: hw_read_def Let_def)
qed

theorem hw_write_read_witness:
  "let m = setupBar (new_HWModel (\<lambda>_. Some ''1'') ''dev'' 1 2 0 0 0 0 (- 1)) [(1, 16)] in
   \<exists>m' dest. hw_write (\<lambda>d _ _ _. d) m () 0x1234 4 2 0 = Inr (m', ()) \<and>
     hw_read (\<lambda>d _ _. (0, [], d)) m' () 4 2 0 = Inr (2, [0x34, 0x12] @ drop 2 dest, ())"
proof -
  define m where "m = setupBar (new_HWModel (\<lambda>_. Some ''1'') ''dev'' 1 2 0 0 0 0 (- 1)) [(1, 16)]"
  have m: "bars m = [new_Bar 1 0 16]" "\<not> redirectR m"
    by (simp_all add: m_def setupBar_def new_HWModel_def new_EnvKnob_def isPresented_def isSet_def Let_def)
  obtain m' where m': "hw_write (\<lambda>d _ _ _. d) m () 0x1234 4 2 0 = Inr (m', ())"
    by (simp add: hw_write_def m bar_write_def new_Bar_def calloc_def buf_set_def le_bytes_def)
  have "le_bytes 2 (0x1234 :: u64) = [0x34, 0x12]" by (simp add: le_bytes_def upt_rec)
  then show ?thesis
    using hw_write_read [OF m', of "\<lambda>d _ _. (0, [], d)"] m m' unfolding m_def [symmetric] Let_def by auto
qed

end
