(* ===== verification/HWInput.thy ===== *)
theory HWInput
  imports HWBar "HOL-Library.AList"
begin

text \<open>
  The constrained inputs of a device model (\<^verbatim>\<open>afl-proxy/aplib/HWModel.h\<close>, classes \<^verbatim>\<open>HWInput\<close> and
  \<^verbatim>\<open>DMAInputModel\<close>): from the interesting bits, magic values and range limits of a field a
  dictionary of values is generated, and the fuzzer's bytes are replaced by values of it. The
  values \<^verbatim>\<open>rand()\<close> is going to return are an argument. A \<^verbatim>\<open>std::set\<close> is the sorted list of its
  elements, an \<^verbatim>\<open>unordered_map\<close> the list of its pairs in the order of iteration.
\<close>

section \<open>Random numbers\<close>

type_synonym rands = "nat \<Rightarrow> nat"

definition draw :: "rands \<Rightarrow> nat \<times> rands" where
  "draw r = (r 0, \<lambda>k. r (Suc k))"

definition yes :: "int \<Rightarrow> rands \<Rightarrow> bool \<times> rands" where
  "yes prob r = (let (x, r) = draw r in (int (x mod 100) + 1 \<le> prob, r))"

section \<open>Random DMA data\<close>

text \<open>A write to the physical memory of the emulator: the address and the bytes.\<close>

type_synonym phys_write = "u64 \<times> u8 list"

definition writeRandomDataToPhyMemGeneric :: "u64 \<Rightarrow> u64 \<Rightarrow> rands \<Rightarrow> phys_write \<times> rands" where
  "writeRandomDataToPhyMemGeneric dst sz r =
     ((dst, map (\<lambda>i. of_nat (r i)) [0..<unat sz]), \<lambda>k. r (unat sz + k))"

definition feedRandomDMAData :: "HWModel \<Rightarrow> rands \<Rightarrow> phys_write list \<times> rands" where
  "feedRandomDMAData m r =
     fold (\<lambda>(addr, len) (ws, r). let (w, r) = writeRandomDataToPhyMemGeneric addr len r in (ws @ [w], r))
       (dmasg m) ([], r)"

lemma random_dma_regions:
  "fst (fold (\<lambda>(addr, len) (ws, r). let (w, r) = writeRandomDataToPhyMemGeneric addr len r in (ws @ [w], r)) ps (ws, r)) =
   ws @ map2 (\<lambda>p bs. (fst p, bs)) ps
     (map (\<lambda>i. map (\<lambda>j. of_nat (r (sum_list (map (unat \<circ> snd) (take i ps)) + j))) [0..<unat (snd (ps ! i))]) [0..<length ps])"
proof (induction ps arbitrary: ws r)
  case (Cons p ps)
  have "[0..<length (p # ps)] = 0 # map Suc [0..<length ps]" by (simp add: upt_conv_Cons map_Suc_upt del: upt_Suc)
  then show ?case
    using Cons [of "ws @ [(fst p, map (\<lambda>i. of_nat (r i)) [0..<unat (snd p)])]" "\<lambda>k. r (unat (snd p) + k)"]
    by (cases p) (simp add: writeRandomDataToPhyMemGeneric_def add.assoc comp_def del: upt_Suc)
qed simp

section \<open>Selections\<close>

text \<open>\<open>selectN\<close> and the loop of its last statement, from the counter \<open>i\<close> on.\<close>

function (sequential) selectN :: "nat \<Rightarrow> nat \<Rightarrow> nat list list \<Rightarrow> nat list \<Rightarrow> nat \<Rightarrow> nat list list"
  and select_loop :: "nat \<Rightarrow> nat \<Rightarrow> nat list list \<Rightarrow> nat list \<Rightarrow> nat \<Rightarrow> nat list list" where
  "selectN start tot res path n =
     (if length path = n then res @ [path]
      else if tot - start + length path < n then res
      else select_loop start tot res path n)"
| "select_loop i tot res path n =
     (if i < tot
      then select_loop (i + 1) tot (selectN (i + 1) tot res (path @ [i]) n) path n
      else res)"
  by pat_completeness auto
termination
  by (relation "measure (\<lambda>x. case x of
        Inl (start, tot, res, path, n) \<Rightarrow> 2 * (tot - start) + 1
      | Inr (i, tot, res, path, n) \<Rightarrow> 2 * (tot - i))") auto

declare selectN.simps [simp del] select_loop.simps [simp del]

definition powerSet :: "nat \<Rightarrow> nat list list" where
  "powerSet n = fold (\<lambda>i res. selectN 0 n res [] i) [1..<n + 1] []"

section \<open>Constrained inputs\<close>

record HWInput =
  magic_values :: "u64 list"
  important_bits :: u64
  range_special_vals :: "u64 list"
  bits_comb_set :: "u64 list"
  bits_combinations :: "u64 list"
  bits_vec :: "u64 list"
  dict :: "u64 list"
  use_model_prob :: int
  hw_offset :: int
  n_bytes :: int

definition or_all :: "u64 list \<Rightarrow> u64" where
  "or_all bs = fold (\<lambda>b v. v OR b) bs 0"

definition generateBitCombs :: "HWInput \<Rightarrow> HWInput" where
  "generateBitCombs h =
     (if bits_vec h = [] then h\<lparr>important_bits := 0\<rparr>
      else
        let imp = or_all (bits_vec h); h = h\<lparr>important_bits := imp\<rparr> in
        if length (bits_vec h) > 4 then
          h\<lparr>bits_combinations := bits_combinations h @ [imp] @ bits_vec h @ [0, NOT imp]\<rparr>
        else
          let s = fold (\<lambda>comb s. insort_insert (or_all (map ((!) (bits_vec h)) comb)) s)
                    (powerSet (length (bits_vec h))) (bits_comb_set h);
              s = insort_insert (NOT imp) (insort_insert 0 s)
          in h\<lparr>bits_comb_set := s, bits_combinations := bits_combinations h @ s\<rparr>)"

definition genDict :: "HWInput \<Rightarrow> HWInput" where
  "genDict h =
     (let h = generateBitCombs h
      in h\<lparr>dict := dict h @ magic_values h @ bits_combinations h @ range_special_vals h\<rparr>)"

definition new_HWInput :: "int \<Rightarrow> int \<Rightarrow> u64 list \<Rightarrow> u64 list \<Rightarrow> u64 list \<Rightarrow> int \<Rightarrow> HWInput" where
  "new_HWInput off nbytes bits magics range_specials prob =
     genDict \<lparr>magic_values = magics, important_bits = 0, range_special_vals = range_specials,
       bits_comb_set = [], bits_combinations = [], bits_vec = bits, dict = [],
       use_model_prob = prob, hw_offset = off, n_bytes = nbytes\<rparr>"

definition hw_setProb :: "HWInput \<Rightarrow> int \<Rightarrow> HWInput" where
  "hw_setProb h prob = h\<lparr>use_model_prob := prob\<rparr>"

definition modelRand :: "HWInput \<Rightarrow> rands \<Rightarrow> (u64 \<times> rands) res" where
  "modelRand h r =
     (let (x, r) = draw r in
      if dict h = [] then Inl Undefined else Inr (dict h ! (x mod length (dict h)), r))"

definition hybridRand :: "HWInput \<Rightarrow> u64 \<Rightarrow> rands \<Rightarrow> u64 \<times> rands" where
  "hybridRand h original r =
     (if bits_combinations h \<noteq> [] then
        let (x, r) = draw r in (bits_combinations h ! (x mod length (bits_combinations h)) OR original, r)
      else (original, r))"

definition RANDOM_MODE :: int where "RANDOM_MODE = 0"
definition DICT_MODE :: int where "DICT_MODE = 1"

definition feedData :: "HWInput \<Rightarrow> int \<Rightarrow> u64 \<Rightarrow> rands \<Rightarrow> (u64 \<times> rands) res" where
  "feedData h mode original r =
     (if mode = RANDOM_MODE then
        let (y, r) = yes (use_model_prob h) r in
        if y then modelRand h r
        else let (y, r) = yes 50 r in
             if y then Inr (hybridRand h original r) else Inr (original, r)
      else if dict h = [] then Inl Undefined
      else Inr (dict h ! (unat original mod length (dict h)), r))"

record DMAInputModel =
  buffer_len :: int
  struct_len :: int
  dma_fields :: "(int \<times> HWInput) list"

definition new_DMAInputModel :: "int \<Rightarrow> int \<Rightarrow> (int \<times> HWInput) list \<Rightarrow> DMAInputModel" where
  "new_DMAInputModel len struct_sz mdl = \<lparr>buffer_len = len, struct_len = struct_sz, dma_fields = mdl\<rparr>"

section \<open>The selections are the subsets\<close>

fun combs :: "nat \<Rightarrow> nat \<Rightarrow> nat \<Rightarrow> nat list list" where
  "combs s t 0 = [[]]"
| "combs s t (Suc k) = concat (map (\<lambda>i. map (Cons i) (combs (Suc i) t k)) [s..<t])"

lemma combs_none: "t - s < k \<Longrightarrow> combs s t k = []"
proof (induction k arbitrary: s)
  case (Suc k)
  then show ?case by (auto simp: concat_eq_Nil_conv)
qed simp

lemma combs_step: "s < t \<Longrightarrow> combs s t (Suc k) = map (Cons s) (combs (Suc s) t k) @ combs (Suc s) t (Suc k)"
  by (simp add: upt_rec [of s])

lemma select_combs:
  "length path \<le> n \<Longrightarrow> selectN s t res path n = res @ map ((@) path) (combs s t (n - length path))"
  "length path < n \<Longrightarrow> select_loop s t res path n = res @ map ((@) path) (combs s t (n - length path))"
proof (induction s t res path n and s t res path n rule: selectN_select_loop.induct)
  case (1 s t res path n)
  show ?case
    using 1 combs_none [of t s "n - length path"] by (subst selectN.simps) auto
next
  case (2 s t res path n)
  obtain k where k: "n - length path = Suc k" using 2(3) by (metis Suc_diff_Suc)
  then have k': "n - length (path @ [s]) = k" by simp
  show ?case
  proof (cases "s < t")
    case True
    have "select_loop s t res path n =
        (res @ map ((@) (path @ [s])) (combs (Suc s) t k)) @ map ((@) path) (combs (Suc s) t (Suc k))"
      using 2 True k k' by (subst select_loop.simps) simp
    moreover have "(@) (path @ [s]) = (@) path \<circ> Cons s" by (rule ext) simp
    ultimately show ?thesis unfolding k combs_step [OF True] by (simp del: combs.simps)
  next
    case False
    then show ?thesis using k by (subst select_loop.simps) simp
  qed
qed

lemma set_combs: "set (combs s t k) = {xs. length xs = k \<and> sorted_wrt (<) xs \<and> set xs \<subseteq> {s..<t}}"
proof (induction k arbitrary: s)
  case (Suc k)
  have "i # ys \<in> set (combs s t (Suc k)) \<longleftrightarrow> s \<le> i \<and> i < t \<and> ys \<in> set (combs (Suc i) t k)" for i ys
    by auto
  moreover have "[] \<notin> set (combs s t (Suc k))" by auto
  ultimately have "xs \<in> set (combs s t (Suc k)) \<longleftrightarrow> length xs = Suc k \<and> sorted_wrt (<) xs \<and> set xs \<subseteq> {s..<t}" for xs
    by (cases xs) (auto simp: Suc.IH subset_eq Suc_le_eq simp del: combs.simps)
  then show ?case by blast
qed auto

lemma distinct_combs: "distinct (combs s t k)"
proof (induction k arbitrary: s)
  case (Suc k)
  have "distinct (concat (map (\<lambda>i. map (Cons i) (combs (Suc i) t k)) is))" if "distinct is" for "is"
    using that by (induction "is") (auto simp: distinct_map Suc)
  then show ?case by simp
qed simp

lemma append_Nil_id: "(@) [] = id"
  by (rule ext) simp

lemma powerSet_combs: "powerSet n = concat (map (combs 0 n) [1..<n + 1])"
proof -
  have "fold (\<lambda>i res. selectN 0 n res [] i) is res = res @ concat (map (combs 0 n) is)" for "is" res
    by (induction "is" arbitrary: res) (simp_all add: select_combs append_Nil_id)
  then show ?thesis by (simp add: powerSet_def)
qed

lemma powerSet_subsets: "set ` set (powerSet n) = {S. S \<noteq> {} \<and> S \<subseteq> {0..<n}}"
proof (intro set_eqI iffI)
  fix S assume "S \<in> {S. S \<noteq> {} \<and> S \<subseteq> {0..<n}}"
  then have S: "S \<noteq> {}" "S \<subseteq> {0..<n}" "finite S" by (auto intro: finite_subset)
  define xs where "xs = sorted_list_of_set S"
  have "length xs = card S" "sorted_wrt (<) xs" "set xs = S" using S(3) by (simp_all add: xs_def)
  moreover have "card S \<ge> 1" "card S \<le> n"
    using S card_mono [of "{0..<n}" S] by (simp_all add: Suc_le_eq card_gt_0_iff)
  ultimately have "xs \<in> set (powerSet n)" using S(2) by (auto simp: powerSet_combs set_combs)
  then show "S \<in> set ` set (powerSet n)" using \<open>set xs = S\<close> by blast
next
  fix S assume "S \<in> set ` set (powerSet n)"
  then show "S \<in> {S. S \<noteq> {} \<and> S \<subseteq> {0..<n}}" by (fastforce simp: powerSet_combs set_combs)
qed

text \<open>
  The enumeration of bit combinations lists every non-empty set of indices exactly once, as its
  increasing list.
\<close>

theorem powerSet_enumerates_subsets:
  "distinct (powerSet n) \<and> inj_on set (set (powerSet n)) \<and>
   set ` set (powerSet n) = {S. S \<noteq> {} \<and> S \<subseteq> {0..<n}}"
proof (intro conjI)
  have len: "xs \<in> set (combs 0 n k) \<Longrightarrow> length xs = k" for xs k by (simp add: set_combs)
  have "distinct (concat (map (combs 0 n) is))" if "distinct is" for "is"
    using that by (induction "is") (auto simp: distinct_combs dest!: len)
  then show "distinct (powerSet n)" by (simp add: powerSet_combs)
  have sorted: "sorted_wrt (<) xs" if "xs \<in> set (powerSet n)" for xs
    using that by (auto simp: powerSet_combs set_combs)
  then show "inj_on set (set (powerSet n))"
    by (auto simp: inj_on_def intro: strict_sorted_equal)
  show "set ` set (powerSet n) = {S. S \<noteq> {} \<and> S \<subseteq> {0..<n}}" by (rule powerSet_subsets)
qed

section \<open>Dictionaries\<close>

lemma fold_or: "fold (\<lambda>b v. v OR b) bs a = a OR or_all bs"
proof (induction bs arbitrary: a)
  case (Cons b bs)
  show ?case using Cons [of "a OR b"] Cons [of b] by (simp add: or_all_def or.assoc)
qed (simp add: or_all_def)

lemma or_all_Cons [simp]: "or_all [] = 0" "or_all (b # bs) = b OR or_all bs"
  using fold_or [of bs b] by (simp_all add: or_all_def)

lemma bit_or_all: "bit (or_all bs) i \<longleftrightarrow> (\<exists>b \<in> set bs. bit b i)"
  by (induction bs) (auto simp: bit_or_iff)

lemma or_all_cong: "set as = set bs \<Longrightarrow> or_all as = or_all bs"
  by (rule bit_word_eqI) (simp add: bit_or_all)

lemma set_fold_insort: "set (fold (\<lambda>x s. insort_insert (f x) s) xs s) = f ` set xs \<union> set s"
  by (induction xs arbitrary: s) (auto simp: set_insort_insert)

lemma sorted_fold_insort:
  "sorted s \<and> distinct s \<Longrightarrow> sorted (fold (\<lambda>x s. insort_insert (f x) s) xs s) \<and>
     distinct (fold (\<lambda>x s. insort_insert (f x) s) xs s)"
  by (induction xs arbitrary: s) (auto simp: sorted_insort_insert distinct_insort_insert)

text \<open>The combinations of at most four interesting bit masks.\<close>

lemma or_all_powerSet:
  "(\<lambda>comb. or_all (map ((!) bits) comb)) ` set (powerSet (length bits)) = {or_all bs | bs. bs \<noteq> [] \<and> set bs \<subseteq> set bits}"
proof (intro set_eqI iffI)
  fix v assume "v \<in> (\<lambda>comb. or_all (map ((!) bits) comb)) ` set (powerSet (length bits))"
  then obtain comb where "v = or_all (map ((!) bits) comb)" "comb \<noteq> []" "set comb \<subseteq> {0..<length bits}"
    by (fastforce simp: powerSet_combs set_combs)
  moreover have "set (map ((!) bits) comb) \<subseteq> set bits" using calculation(3) by fastforce
  ultimately show "v \<in> {or_all bs | bs. bs \<noteq> [] \<and> set bs \<subseteq> set bits}" by blast
next
  fix v assume "v \<in> {or_all bs | bs. bs \<noteq> [] \<and> set bs \<subseteq> set bits}"
  then obtain bs where bs: "v = or_all bs" "bs \<noteq> []" "set bs \<subseteq> set bits" by blast
  define S where "S = {i. i < length bits \<and> bits ! i \<in> set bs}"
  have "S \<subseteq> {0..<length bits}" "(!) bits ` S = set bs"
    using bs(3) by (auto simp: S_def in_set_conv_nth subset_eq)
  moreover have "S \<noteq> {}" using bs(2) calculation(2) by auto
  ultimately have "S \<in> set ` set (powerSet (length bits))" using powerSet_subsets by blast
  then obtain comb where "comb \<in> set (powerSet (length bits))" "set comb = S" by blast
  moreover have "or_all (map ((!) bits) comb) = v"
    unfolding bs(1) using \<open>(!) bits ` S = set bs\<close> \<open>set comb = S\<close> by (intro or_all_cong) simp
  ultimately show "v \<in> (\<lambda>comb. or_all (map ((!) bits) comb)) ` set (powerSet (length bits))" by blast
qed

text \<open>
  C12. The dictionary of a new input: the magic values, the bit values and the range limits, in this
  order. Of up to four bit masks the bit values are all unions of them and the complement of their
  union, ascending and without repetition; of more masks they are the union, the single masks, zero
  and the complement.
\<close>

theorem dictionary_contents:
  "\<exists>cs. dict (new_HWInput off nb bits magics ranges prob) = magics @ cs @ ranges \<and>
     bits_combinations (new_HWInput off nb bits magics ranges prob) = cs \<and>
     (if bits = [] then cs = []
      else if length bits \<le> 4 then
        sorted cs \<and> distinct cs \<and> set cs = insert (NOT (or_all bits)) {or_all bs | bs. set bs \<subseteq> set bits}
      else cs = [or_all bits] @ bits @ [0, NOT (or_all bits)])"
proof (cases "bits \<noteq> [] \<and> length bits \<le> 4")
  case False
  then show ?thesis by (auto simp: new_HWInput_def genDict_def generateBitCombs_def Let_def)
next
  case True
  define s where "s = fold (\<lambda>comb s. insort_insert (or_all (map ((!) bits) comb)) s) (powerSet (length bits)) []"
  define cs where "cs = insort_insert (NOT (or_all bits)) (insort_insert 0 s)"
  have "sorted s \<and> distinct s" unfolding s_def by (rule sorted_fold_insort) simp
  then have "sorted cs" "distinct cs" by (simp_all add: cs_def sorted_insort_insert distinct_insort_insert)
  moreover have "set cs = insert (NOT (or_all bits)) (insert 0 {or_all bs | bs. bs \<noteq> [] \<and> set bs \<subseteq> set bits})"
    unfolding cs_def set_insort_insert s_def set_fold_insort or_all_powerSet by simp
  moreover have "insert 0 {or_all bs | bs. bs \<noteq> [] \<and> set bs \<subseteq> set bits} = {or_all bs | bs. set bs \<subseteq> set bits}"
    by (auto intro: exI [of _ "[]"])
  ultimately show ?thesis
    using True by (intro exI [of _ cs])
      (simp add: new_HWInput_def genDict_def generateBitCombs_def Let_def s_def cs_def)
qed

text \<open>
  Replacing the fuzzer's data: an input with a dictionary always yields a value, in dictionary
  mode one of the dictionary, in random mode one of the dictionary, the original, or the original
  with a bit combination set; an input without a dictionary divides by zero in dictionary mode, and
  in random mode as soon as the model is chosen.
\<close>

theorem feedData_values:
  "if dict h \<noteq> [] then
     \<exists>v r'. feedData h mode original r = Inr (v, r') \<and>
       (v \<in> set (dict h) \<or>
        mode = RANDOM_MODE \<and> (v = original \<or> (\<exists>c \<in> set (bits_combinations h). v = c OR original)))
   else if mode = RANDOM_MODE \<and> \<not> fst (yes (use_model_prob h) r)
     then \<exists>v r'. feedData h mode original r = Inr (v, r')
   else feedData h mode original r = Inl Undefined"
proof (cases "dict h = []")
  case True
  then show ?thesis by (auto simp: feedData_def modelRand_def split: prod.split)
next
  case False
  have pick: "xs ! (k mod length xs) \<in> set xs" if "xs \<noteq> []" for xs :: "u64 list" and k
    using that by simp
  have hybrid: "fst (hybridRand h original r) = original \<or>
      (\<exists>c \<in> set (bits_combinations h). fst (hybridRand h original r) = c OR original)" for r
    using pick by (auto simp: hybridRand_def draw_def Let_def)
  obtain b1 r1 where b1: "yes (use_model_prob h) r = (b1, r1)" by fastforce
  obtain b2 r2 where b2: "yes 50 r1 = (b2, r2)" by fastforce
  obtain v3 r3 where v3: "hybridRand h original r2 = (v3, r3)" by fastforce
  have "v3 = original \<or> (\<exists>c \<in> set (bits_combinations h). v3 = c OR original)"
    using hybrid [of r2] by (simp add: v3)
  then show ?thesis
    using False by (simp add: feedData_def modelRand_def draw_def b1 b2 v3)
qed

end
