(* ===== verification/Stage2.thy ===== *)
theory Stage2
  imports HWInput
begin

text \<open>
  The second-stage device model (\<^verbatim>\<open>afl-proxy/aplib/HWModel.h\<close>, class \<^verbatim>\<open>Stage2HWModel\<close>): the capture
  of the addresses of DMA buffers a driver writes to registers, the search for buffers those point
  to, and the feeding of constrained fuzz data into registers, DMA buffers and USB transfers. The
  physical memory of the emulator is an argument of the operations that read it; the operations
  that write it return the calls in their order. The mutex is not modelled: each operation is one
  critical section. Reads and writes outside the arrays given by the caller are \<open>Undefined\<close>.
\<close>

section \<open>State\<close>

record Stage2HWModel =
  dev_name :: string
  mmio_inputs :: "(int \<times> HWInput) list"
  usb_inputs :: "(int \<times> HWInput) list"
  dma_inputs :: "(int \<times> DMAInputModel) list"
  dma_regs :: "u64 \<rightharpoonup> int"
  dma_hi_reg :: int
  dma_low_reg :: int
  dma_low_addr :: u64
  dma_high_addr :: u64
  dma_low_high_sz :: u64
  s2_dmasg :: "(u64 \<times> u64) list"
  dma_starts :: "u64 list"
  level1_dmas :: "(u64 \<times> u64) list"
  level1_dma_set :: bool
  secondary_dma_infos :: "int \<rightharpoonup> (int \<times> int \<times> int) list"
  s2_mode :: int

text \<open>The members without an initialiser start with arbitrary values, given as arguments.\<close>

definition new_Stage2HWModel :: "string \<Rightarrow> (int \<times> HWInput) list \<Rightarrow> DMAInputModel list \<Rightarrow> u64 \<Rightarrow> u64 \<Rightarrow> u64 \<Rightarrow> Stage2HWModel" where
  "new_Stage2HWModel name mmio_mdl dma_mdl lo hi sz =
     \<lparr>dev_name = name, mmio_inputs = mmio_mdl, usb_inputs = [],
      dma_inputs = fold (\<lambda>m d. AList.update (buffer_len m) m d) dma_mdl [],
      dma_regs = Map.empty, dma_hi_reg = - 1, dma_low_reg = - 1, dma_low_addr = lo, dma_high_addr = hi,
      dma_low_high_sz = sz, s2_dmasg = [], dma_starts = [], level1_dmas = [], level1_dma_set = False,
      secondary_dma_infos = Map.empty, s2_mode = RANDOM_MODE\<rparr>"

definition PAGE_MASK :: u64 where
  "PAGE_MASK = NOT 0xFFF"

definition rand64 :: "rands \<Rightarrow> u64 \<times> rands" where
  "rand64 r = (let (a, r) = draw r; (b, r) = draw r in (push_bit 32 (of_nat a) OR of_nat b, r))"

section \<open>Configuration\<close>

definition map_inputs :: "(HWInput \<Rightarrow> HWInput) \<Rightarrow> (int \<times> HWInput) list \<Rightarrow> (int \<times> HWInput) list" where
  "map_inputs f = map (\<lambda>(k, h). (k, f h))"

definition s2_setProb :: "Stage2HWModel \<Rightarrow> int \<Rightarrow> Stage2HWModel" where
  "s2_setProb s prob =
     s\<lparr>mmio_inputs := map_inputs (\<lambda>h. hw_setProb h prob) (mmio_inputs s),
       dma_inputs := map (\<lambda>(k, m). (k, m\<lparr>dma_fields := map_inputs (\<lambda>h. hw_setProb h prob) (dma_fields m)\<rparr>))
                       (dma_inputs s),
       usb_inputs := map_inputs (\<lambda>h. hw_setProb h prob) (usb_inputs s)\<rparr>"

definition setMode :: "Stage2HWModel \<Rightarrow> int \<Rightarrow> Stage2HWModel" where
  "setMode s m = s\<lparr>s2_mode := m\<rparr>"

definition addDMARegion :: "Stage2HWModel \<Rightarrow> u64 \<times> u64 \<Rightarrow> Stage2HWModel" where
  "addDMARegion s p = s\<lparr>s2_dmasg := s2_dmasg s @ [p]\<rparr>"

definition setDMARegions :: "Stage2HWModel \<Rightarrow> (u64 \<times> u64) list \<Rightarrow> Stage2HWModel" where
  "setDMARegions s p = s\<lparr>s2_dmasg := p\<rparr>"

definition setDMAReg :: "Stage2HWModel \<Rightarrow> u64 \<Rightarrow> int \<Rightarrow> Stage2HWModel" where
  "setDMAReg s dma_reg dma_sz = s\<lparr>dma_regs := (dma_regs s)(dma_reg \<mapsto> dma_sz)\<rparr>"

definition setSecondaryDMAInfo :: "Stage2HWModel \<Rightarrow> int \<Rightarrow> int \<Rightarrow> int \<Rightarrow> int \<Rightarrow> Stage2HWModel" where
  "setSecondaryDMAInfo s dma_struct_sz dma_buf_sz offset l2_dma_buf_sz =
     (let old = (case secondary_dma_infos s dma_buf_sz of None \<Rightarrow> [] | Some v \<Rightarrow> v) in
      s\<lparr>secondary_dma_infos :=
          (secondary_dma_infos s)(dma_buf_sz \<mapsto> old @ [(dma_struct_sz, offset, l2_dma_buf_sz)])\<rparr>)"

definition isLevel1DMASet :: "Stage2HWModel \<Rightarrow> bool" where
  "isLevel1DMASet s = level1_dma_set s"

definition setDMATopHalfReg :: "Stage2HWModel \<Rightarrow> int \<Rightarrow> int \<Rightarrow> Stage2HWModel" where
  "setDMATopHalfReg s reg sz = s\<lparr>dma_hi_reg := reg, dma_low_high_sz := word_of_int sz\<rparr>"

definition setDMABottomHalfReg :: "Stage2HWModel \<Rightarrow> int \<Rightarrow> int \<Rightarrow> Stage2HWModel" where
  "setDMABottomHalfReg s reg sz = s\<lparr>dma_low_reg := reg, dma_low_high_sz := word_of_int sz\<rparr>"

definition setUSBModel :: "Stage2HWModel \<Rightarrow> (int \<times> HWInput) list \<Rightarrow> Stage2HWModel" where
  "setUSBModel s usb_mdl = s\<lparr>usb_inputs := map_inputs genDict usb_mdl\<rparr>"

definition hasUSBModel :: "Stage2HWModel \<Rightarrow> bool" where
  "hasUSBModel s = (usb_inputs s \<noteq> [])"

section \<open>Capture of DMA buffers\<close>

definition setOneDMA :: "Stage2HWModel \<Rightarrow> Stage2HWModel" where
  "setOneDMA s =
     (let dma_addr = push_bit 16 (dma_high_addr s) OR dma_low_addr s in
      if dma_addr \<notin> set (dma_starts s) then
        s\<lparr>dma_starts := insort_insert dma_addr (dma_starts s),
          level1_dmas := level1_dmas s @ [(dma_addr, dma_low_high_sz s)],
          s2_dmasg := s2_dmasg s @ [(dma_addr, dma_low_high_sz s)],
          level1_dma_set := True\<rparr>
      else s)"

definition captureDMARegistration :: "Stage2HWModel \<Rightarrow> int \<Rightarrow> u64 \<Rightarrow> Stage2HWModel" where
  "captureDMARegistration s reg value =
     (case dma_regs s (word_of_int reg) of
        Some sz \<Rightarrow>
          let sz = (if sz = 0 then 4096 else sz);
              s = s\<lparr>level1_dma_set := True\<rparr>;
              page_aligned_addr = value AND PAGE_MASK
          in if page_aligned_addr \<notin> set (dma_starts s) then
               s\<lparr>dma_starts := insort_insert page_aligned_addr (dma_starts s),
                 level1_dmas := level1_dmas s @ [(page_aligned_addr, word_of_int sz)],
                 s2_dmasg := s2_dmasg s @ [(page_aligned_addr, word_of_int sz)]\<rparr>
             else s
      | None \<Rightarrow> s)"

text \<open>
  The search for buffers that descriptors in the captured buffers point to. \<open>phys\<close> is the physical
  memory. The loop over \<^verbatim>\<open>dmasg\<close> uses iterators of that vector; appending to the vector
  invalidates them, so that the step to the next region after an append is \<open>Undefined\<close>.
\<close>

definition secondary_addr :: "(u64 \<Rightarrow> nat \<Rightarrow> u8 list) \<Rightarrow> u64 \<Rightarrow> u64" where
  "secondary_addr phys phy_addr = le_word (phys phy_addr 4) AND PAGE_MASK"

definition scan_slot :: "(u64 \<Rightarrow> nat \<Rightarrow> u8 list) \<Rightarrow> u64 \<Rightarrow> int \<times> int \<times> int \<Rightarrow> int \<Rightarrow> Stage2HWModel \<times> bool \<Rightarrow> Stage2HWModel \<times> bool" where
  "scan_slot phys dma_addr sec i = (\<lambda>(s, pushed).
     case sec of (struct_sz, offset, l2_dma_sz) \<Rightarrow>
       let phy_addr = dma_addr + word_of_int (i * struct_sz) + word_of_int offset;
           addr = secondary_addr phys phy_addr
       in if addr \<noteq> 0 \<and> addr \<notin> set (dma_starts s) then
            (s\<lparr>s2_dmasg := s2_dmasg s @ [(addr, word_of_int l2_dma_sz)],
               dma_starts := insort_insert addr (dma_starts s)\<rparr>, True)
          else (s, pushed))"

fun scan_infos :: "(u64 \<Rightarrow> nat \<Rightarrow> u8 list) \<Rightarrow> u64 \<Rightarrow> int \<Rightarrow> (int \<times> int \<times> int) list \<Rightarrow> Stage2HWModel \<times> bool \<Rightarrow>
    (Stage2HWModel \<times> bool) res" where
  "scan_infos phys dma_addr dma_len [] acc = Inr acc"
| "scan_infos phys dma_addr dma_len (sec # secs) acc =
     (if fst sec = 0 then Inl Undefined
      else if dma_len smod fst sec \<noteq> 0 then Inl Assert
      else scan_infos phys dma_addr dma_len secs
             (fold (scan_slot phys dma_addr sec) (map int [0..<nat (dma_len sdiv fst sec)]) acc))"

fun scan_regions :: "(u64 \<Rightarrow> nat \<Rightarrow> u8 list) \<Rightarrow> (u64 \<times> u64) list \<Rightarrow> Stage2HWModel \<Rightarrow> Stage2HWModel res" where
  "scan_regions phys [] s = Inr s"
| "scan_regions phys (p # ps) s =
     (let dma_len = sint (ucast (snd p) :: u32) in
      case secondary_dma_infos s dma_len of
        None \<Rightarrow> scan_regions phys ps s
      | Some secs \<Rightarrow>
          bind_res (scan_infos phys (fst p) dma_len secs (s, False)) (\<lambda>(s, pushed).
            if pushed then Inl Undefined else scan_regions phys ps s))"

definition scanSecondaryDMABuffer :: "(u64 \<Rightarrow> nat \<Rightarrow> u8 list) \<Rightarrow> Stage2HWModel \<Rightarrow> Stage2HWModel res" where
  "scanSecondaryDMABuffer phys s = scan_regions phys (s2_dmasg s) s"

section \<open>Feeding data\<close>

text \<open>\<^verbatim>\<open>memcpy\<close> of \<open>n\<close> bytes from an array, given from the pointer on.\<close>

definition copy_from :: "u8 list \<Rightarrow> int \<Rightarrow> int \<Rightarrow> u8 list res" where
  "copy_from bs off n =
     (if n = 0 then Inr []
      else if 0 \<le> off \<and> 0 < n \<and> off + n \<le> int (length bs) then Inr (take (nat n) (drop (nat off) bs))
      else Inl Undefined)"

text \<open>The \<open>n\<close> low bytes of a 64-bit value.\<close>

definition copy_u64 :: "u64 \<Rightarrow> int \<Rightarrow> u8 list res" where
  "copy_u64 v n = (if 0 \<le> n \<and> n \<le> 8 then Inr (le_bytes (nat n) v) else Inl Undefined)"

text \<open>Overwriting bytes of an array.\<close>

definition copy_to :: "u8 list \<Rightarrow> int \<Rightarrow> u8 list \<Rightarrow> u8 list res" where
  "copy_to dst off xs =
     (if xs = [] then Inr dst
      else if 0 \<le> off \<and> off + int (length xs) \<le> int (length dst)
      then Inr (take (nat off) dst @ xs @ drop (nat off + length xs) dst)
      else Inl Undefined)"

definition feedFuzzMMIOData :: "Stage2HWModel \<Rightarrow> int \<Rightarrow> u8 list \<Rightarrow> int \<Rightarrow> u8 list \<Rightarrow> rands \<Rightarrow> (u8 list \<times> rands) res" where
  "feedFuzzMMIOData s offset dst sz afl_data r =
     (case map_of (mmio_inputs s) offset of
        Some hwi \<Rightarrow>
          if sz > 8 then Inl Undefined
          else bind_res (copy_from afl_data 0 sz) (\<lambda>bs.
               bind_res (feedData hwi (s2_mode s) (le_word bs) r) (\<lambda>(data, r).
               bind_res (copy_u64 data sz) (\<lambda>xs.
               bind_res (copy_to dst 0 xs) (\<lambda>dst. Inr (dst, r)))))
      | None \<Rightarrow>
          bind_res (copy_from afl_data 0 sz) (\<lambda>bs.
          bind_res (copy_to dst 0 bs) (\<lambda>dst. Inr (dst, r))))"

text \<open>
  The loop over the structures of a buffer, for one field of a model: \<open>data\<close> is the fuzz data,
  \<open>pos\<close> the place in it that is used for the buffer, \<open>is\<close> the structures still to do.
\<close>

fun dma_structs :: "int \<Rightarrow> u8 list \<Rightarrow> nat \<Rightarrow> bool \<Rightarrow> u64 \<Rightarrow> int \<Rightarrow> int \<Rightarrow> HWInput \<Rightarrow> int list \<Rightarrow> phys_write list \<Rightarrow> rands \<Rightarrow>
    (phys_write list \<times> rands) res" where
  "dma_structs md data pos overflowed addr slen offset hwi [] ws r = Inr (ws, r)"
| "dma_structs md data pos overflowed addr slen offset hwi (i # is) ws r =
     (let off = offset + slen * i in
      bind_res (if overflowed then Inr (rand64 r)
                else bind_res (copy_from data (int pos + off) 1) (\<lambda>bs. Inr (le_word bs, r))) (\<lambda>(orig, r).
      bind_res (feedData hwi md orig r) (\<lambda>(model_data, r).
      bind_res (copy_u64 model_data (n_bytes hwi)) (\<lambda>xs.
        dma_structs md data pos overflowed addr slen offset hwi is (ws @ [(addr + word_of_int off, xs)]) r))))"

definition loop_cnt :: "u64 \<Rightarrow> int \<Rightarrow> int res" where
  "loop_cnt len slen =
     (if len > word_of_int slen then
        if word_of_int slen = (0 :: u64) then Inl Undefined
        else if len mod word_of_int slen = 0 then Inr (sint (ucast (len div word_of_int slen) :: u32))
        else Inr 1
      else Inr 1)"

fun dma_fields_loop :: "int \<Rightarrow> u8 list \<Rightarrow> nat \<Rightarrow> bool \<Rightarrow> u64 \<Rightarrow> u64 \<Rightarrow> int \<Rightarrow> (int \<times> HWInput) list \<Rightarrow> phys_write list \<Rightarrow> rands \<Rightarrow>
    (phys_write list \<times> rands) res" where
  "dma_fields_loop md data pos overflowed addr len slen [] ws r = Inr (ws, r)"
| "dma_fields_loop md data pos overflowed addr len slen ((offset, hwi) # fs) ws r =
     bind_res (loop_cnt len slen) (\<lambda>cnt.
     bind_res (dma_structs md data pos overflowed addr slen offset hwi (map int [0..<nat cnt]) ws r) (\<lambda>(ws, r).
       dma_fields_loop md data pos overflowed addr len slen fs ws r))"

fun dma_models_loop :: "int \<Rightarrow> u8 list \<Rightarrow> nat \<Rightarrow> bool \<Rightarrow> u64 \<Rightarrow> u64 \<Rightarrow> (int \<times> DMAInputModel) list \<Rightarrow> phys_write list \<Rightarrow> rands \<Rightarrow>
    (phys_write list \<times> rands) res" where
  "dma_models_loop md data pos overflowed addr len [] ws r = Inr (ws, r)"
| "dma_models_loop md data pos overflowed addr len ((_, mdl) # ms) ws r =
     bind_res (dma_fields_loop md data pos overflowed addr len (struct_len mdl) (dma_fields mdl) ws r) (\<lambda>(ws, r).
       dma_models_loop md data pos overflowed addr len ms ws r)"

fun dma_regions_loop :: "Stage2HWModel \<Rightarrow> u8 list \<Rightarrow> bool \<Rightarrow> (u64 \<times> u64) list \<Rightarrow> nat \<Rightarrow> phys_write list \<Rightarrow> rands \<Rightarrow>
    (phys_write list \<times> rands) res" where
  "dma_regions_loop s data use_model [] pos ws r = Inr (ws, r)"
| "dma_regions_loop s data use_model ((addr, len) # ps) pos ws r =
     (let n = unat len;
          pos = (if pos + n > length data then 0 else pos);
          overflowed = (pos + n > length data);
          ws = (if overflowed then ws else ws @ [(addr, take n (drop pos data))])
      in bind_res (if use_model then dma_models_loop (s2_mode s) data pos overflowed addr len (dma_inputs s) ws r
                   else Inr (ws, r)) (\<lambda>(ws, r).
           dma_regions_loop s data use_model ps (pos + n) ws r))"

definition feedFuzzDMAData :: "Stage2HWModel \<Rightarrow> u8 list \<Rightarrow> bool \<Rightarrow> rands \<Rightarrow> (phys_write list \<times> rands) res" where
  "feedFuzzDMAData s data use_model r = dma_regions_loop s data use_model (s2_dmasg s) 0 [] r"

text \<open>The same for a buffer the emulator hands over; \<open>use_prob\<close> decides on each value.\<close>

fun qemu_structs :: "int \<Rightarrow> u8 list \<Rightarrow> int \<Rightarrow> int \<Rightarrow> int \<Rightarrow> HWInput \<Rightarrow> int list \<Rightarrow> u8 list \<Rightarrow> rands \<Rightarrow> (u8 list \<times> rands) res" where
  "qemu_structs md afl_data use_prob slen offset hwi [] buf r = Inr (buf, r)"
| "qemu_structs md afl_data use_prob slen offset hwi (i # is) buf r =
     (let off = offset + slen * i in
      if afl_data = [] then Inl Undefined
      else
        let wrapped_addr = off smod int (length afl_data) in
        bind_res (copy_from afl_data wrapped_addr 1) (\<lambda>bs.
        bind_res (feedData hwi md (le_word bs) r) (\<lambda>(model_data, r).
          let (y, r) = yes use_prob r in
          bind_res (if y then bind_res (copy_u64 model_data (n_bytes hwi)) (copy_to buf off) else Inr buf) (\<lambda>buf.
            qemu_structs md afl_data use_prob slen offset hwi is buf r))))"

definition qemu_loop_cnt :: "int \<Rightarrow> int \<Rightarrow> int res" where
  "qemu_loop_cnt len slen =
     (if len > slen then
        if slen = 0 then Inl Undefined
        else if len smod slen = 0 then Inr (len sdiv slen) else Inr 1
      else Inr 1)"

fun qemu_fields :: "int \<Rightarrow> u8 list \<Rightarrow> int \<Rightarrow> int \<Rightarrow> int \<Rightarrow> (int \<times> HWInput) list \<Rightarrow> u8 list \<Rightarrow> rands \<Rightarrow> (u8 list \<times> rands) res" where
  "qemu_fields md afl_data use_prob len slen [] buf r = Inr (buf, r)"
| "qemu_fields md afl_data use_prob len slen ((offset, hwi) # fs) buf r =
     bind_res (qemu_loop_cnt len slen) (\<lambda>cnt.
     bind_res (qemu_structs md afl_data use_prob slen offset hwi (map int [0..<nat cnt]) buf r) (\<lambda>(buf, r).
       qemu_fields md afl_data use_prob len slen fs buf r))"

fun qemu_models :: "int \<Rightarrow> u8 list \<Rightarrow> int \<Rightarrow> int \<Rightarrow> (int \<times> DMAInputModel) list \<Rightarrow> u8 list \<Rightarrow> rands \<Rightarrow> (u8 list \<times> rands) res" where
  "qemu_models md afl_data use_prob len [] buf r = Inr (buf, r)"
| "qemu_models md afl_data use_prob len ((_, mdl) # ms) buf r =
     bind_res (qemu_fields md afl_data use_prob len (struct_len mdl) (dma_fields mdl) buf r) (\<lambda>(buf, r).
       qemu_models md afl_data use_prob len ms buf r)"

definition fuzzQEMU_DMABuffer :: "Stage2HWModel \<Rightarrow> u8 list \<Rightarrow> u8 list \<Rightarrow> int \<Rightarrow> rands \<Rightarrow> (u8 list \<times> rands) res" where
  "fuzzQEMU_DMABuffer s buffer afl_data use_prob r =
     qemu_models (s2_mode s) afl_data use_prob (int (length buffer)) (dma_inputs s) buffer r"

text \<open>USB transfers: the raw data first, then the constrained fields over it.\<close>

fun usb_fields :: "int \<Rightarrow> u8 list \<Rightarrow> (int \<times> HWInput) list \<Rightarrow> u8 list \<Rightarrow> rands \<Rightarrow> (u8 list \<times> rands) res" where
  "usb_fields md afl_data [] dest r = Inr (dest, r)"
| "usb_fields md afl_data ((offset, hwi) # fs) dest r =
     (if offset \<ge> int (length dest) then usb_fields md afl_data fs dest r
      else
        let field_sz = (if offset + n_bytes hwi > int (length dest) then int (length dest) - offset else n_bytes hwi) in
        if field_sz > 8 then Inl Undefined
        else
          bind_res (if offset < int (length afl_data)
                    then bind_res (copy_from afl_data (offset smod int (length afl_data)) field_sz) (\<lambda>bs. Inr (le_word bs))
                    else Inr 0) (\<lambda>orig.
          bind_res (feedData hwi md orig r) (\<lambda>(model_data, r).
          bind_res (copy_u64 model_data field_sz) (\<lambda>xs.
          bind_res (copy_to dest offset xs) (\<lambda>dest.
            usb_fields md afl_data fs dest r)))))"

definition feedFuzzUSBData :: "Stage2HWModel \<Rightarrow> u8 list \<Rightarrow> u8 list \<Rightarrow> rands \<Rightarrow> (u8 list \<times> rands) res" where
  "feedFuzzUSBData s dest afl_data r =
     (let copy_len = (if length dest < length afl_data then length dest else length afl_data) in
      bind_res (copy_to dest 0 (take copy_len afl_data)) (\<lambda>dest.
        usb_fields (s2_mode s) afl_data (usb_inputs s) dest r))"

end
