(* ===== verification/Stage2Feed.thy ===== *)
theory Stage2Feed
  imports Stage2
begin

text \<open>
  The feeding of data by the second-stage model: which bytes the device sees, and when the
  operations stay inside the fuzzer's data, the destination and the DMA buffers.
\<close>

declare of_nat_unat [simp del]

section \<open>Copies\<close>

lemma copy_to_defined:
  "0 \<le> off \<Longrightarrow> off + int (length xs) \<le> int (length dst) \<Longrightarrow>
   copy_to dst off xs = Inr (take (nat off) dst @ xs @ drop (nat off + length xs) dst)"
  by (simp add: copy_to_def)

lemma length_overwrite: "a + length xs \<le> length dst \<Longrightarrow> length (take a dst @ xs @ drop (a + length xs) dst) = length dst"
  by simp

lemma nth_overwrite_other:
  "a + length xs \<le> length dst \<Longrightarrow> k < a \<or> a + length xs \<le> k \<Longrightarrow>
   (take a dst @ xs @ drop (a + length xs) dst) ! k = dst ! k"
  by (auto simp: nth_append)

lemma copy_from_defined:
  "0 \<le> off \<Longrightarrow> 0 < n \<Longrightarrow> off + n \<le> int (length bs) \<Longrightarrow> copy_from bs off n = Inr (take (nat n) (drop (nat off) bs))"
  by (simp add: copy_from_def)

lemma feedData_total: "dict h \<noteq> [] \<Longrightarrow> \<exists>v r'. feedData h mode original r = Inr (v, r')"
  by (auto simp: feedData_def modelRand_def split: prod.split)

section \<open>Registers\<close>

text \<open>
  A read of a register: without a constraint the device sees the fuzzer's bytes; with one it
  sees the bytes of the value the constraint makes of them. In both cases the bytes behind the
  access keep their values.
\<close>

theorem mmio_feed:
  assumes "0 < sz" and "sz \<le> 8" and "sz \<le> int (length afl)" and "sz \<le> int (length dst)"
  shows "case map_of (mmio_inputs s) offset of
      None \<Rightarrow> feedFuzzMMIOData s offset dst sz afl r = Inr (take (nat sz) afl @ drop (nat sz) dst, r)
    | Some h \<Rightarrow> feedFuzzMMIOData s offset dst sz afl r =
        bind_res (feedData h (s2_mode s) (le_word (take (nat sz) afl)) r)
          (\<lambda>(v, r'). Inr (le_bytes (nat sz) v @ drop (nat sz) dst, r'))"
  using assms by (auto simp: feedFuzzMMIOData_def copy_from_defined copy_u64_def copy_to_defined
      intro!: bind_res_cong split: option.split)

theorem mmio_feed_witness:
  "feedFuzzMMIOData (new_Stage2HWModel ''dev'' [(4, new_HWInput 4 2 [] [0x1234] [] 100)] [] 0 0 0) 4 [1, 2, 3] 2 [9, 9] (\<lambda>_. 0) =
     Inr ([0x34, 0x12, 3], \<lambda>_. 0)"
proof -
  have "feedData (new_HWInput 4 2 [] [0x1234] [] 100) RANDOM_MODE x (\<lambda>_. 0) = Inr (0x1234, \<lambda>_. 0)" for x
    by (simp add: feedData_def new_HWInput_def genDict_def generateBitCombs_def yes_def draw_def modelRand_def)
  moreover have "le_bytes 2 (0x1234 :: u64) = [0x34, 0x12]" by (simp add: le_bytes_def upt_rec)
  ultimately show ?thesis
    using mmio_feed [of 2 "[9, 9]" "[1, 2, 3]" "new_Stage2HWModel ''dev'' [(4, new_HWInput 4 2 [] [0x1234] [] 100)] [] 0 0 0" 4 "\<lambda>_. 0"]
    by (simp add: new_Stage2HWModel_def)
qed

section \<open>USB transfers\<close>

text \<open>
  A field is well formed when it has a dictionary and at most eight bytes; it straddles when it
  starts inside the fuzzer's data and ends, after being cut to the destination, outside.
\<close>

definition field_wf :: "int \<times> HWInput \<Rightarrow> bool" where
  "field_wf f \<longleftrightarrow> dict (snd f) \<noteq> [] \<and> 0 < n_bytes (snd f) \<and> n_bytes (snd f) \<le> 8 \<and> 0 \<le> fst f"

definition usb_straddles :: "nat \<Rightarrow> nat \<Rightarrow> int \<times> HWInput \<Rightarrow> bool" where
  "usb_straddles n afl_len f \<longleftrightarrow>
     fst f < int n \<and> fst f < int afl_len \<and> min (fst f + n_bytes (snd f)) (int n) > int afl_len"

definition covers :: "int \<times> HWInput \<Rightarrow> nat \<Rightarrow> bool" where
  "covers f k \<longleftrightarrow> fst f \<le> int k \<and> int k < fst f + n_bytes (snd f)"

lemma usb_field_step:
  assumes "field_wf (offset, h)" and "\<not> usb_straddles (length dest) (length afl) (offset, h)"
  shows "\<exists>dest' r'. usb_fields md afl ((offset, h) # fs) dest r = usb_fields md afl fs dest' r' \<and>
    length dest' = length dest \<and> (\<forall>k < length dest. \<not> covers (offset, h) k \<longrightarrow> dest' ! k = dest ! k)"
proof (cases "offset < int (length dest)")
  case True
  define sz where "sz = (if offset + n_bytes h > int (length dest) then int (length dest) - offset else n_bytes h)"
  have sz: "0 < sz" "sz \<le> 8" "sz \<le> n_bytes h" "offset + sz \<le> int (length dest)" "0 \<le> offset" "dict h \<noteq> []"
    using assms(1) True by (auto simp: sz_def field_wf_def)
  have "offset + sz \<le> int (length afl)" if "offset < int (length afl)"
    using assms(2) True that by (auto simp: usb_straddles_def sz_def split: if_splits)
  moreover have "offset smod int (length afl) = offset" if "offset < int (length afl)"
    using that sz(5) by (simp add: smod_mod_positive)
  ultimately obtain orig :: u64 where orig: "(if offset < int (length afl)
      then bind_res (copy_from afl (offset smod int (length afl)) sz) (\<lambda>bs. Inr (le_word bs)) else Inr 0) = Inr orig"
    using sz by (cases "offset < int (length afl)") (auto simp: copy_from_defined)
  obtain v r' where v: "feedData h md orig r = Inr (v, r')" using feedData_total [OF sz(6)] by blast
  let ?d = "take (nat offset) dest @ le_bytes (nat sz) v @ drop (nat offset + nat sz) dest"
  have "usb_fields md afl ((offset, h) # fs) dest r = usb_fields md afl fs ?d r'"
    using True sz orig v unfolding sz_def [symmetric] by (simp add: sz_def [symmetric] copy_u64_def copy_to_defined)
  moreover have "nat offset + length (le_bytes (nat sz) v) \<le> length dest" using sz by simp
  moreover have "k < nat offset \<or> nat offset + nat sz \<le> k" if "\<not> covers (offset, h) k" for k
    using that sz by (auto simp: covers_def)
  ultimately show ?thesis
    using length_overwrite [of "nat offset" "le_bytes (nat sz) v" dest]
      nth_overwrite_other [of "nat offset" "le_bytes (nat sz) v" dest] by (intro exI [of _ ?d] exI [of _ r']) auto
qed auto

lemma usb_field_straddles:
  assumes "field_wf (offset, h)" and "usb_straddles (length dest) (length afl) (offset, h)"
  shows "usb_fields md afl ((offset, h) # fs) dest r = Inl Undefined"
  using assms
  by (auto simp: field_wf_def usb_straddles_def copy_from_def smod_mod_positive Let_def split: if_splits)

lemma usb_fields_result:
  assumes "list_all field_wf fs"
  shows "if list_ex (usb_straddles (length dest) (length afl)) fs then usb_fields md afl fs dest r = Inl Undefined
    else \<exists>dest' r'. usb_fields md afl fs dest r = Inr (dest', r') \<and> length dest' = length dest \<and>
      (\<forall>k < length dest. \<not> list_ex (\<lambda>f. covers f k) fs \<longrightarrow> dest' ! k = dest ! k)"
  using assms
proof (induction fs arbitrary: dest r)
  case (Cons f fs)
  obtain offset h where f: "f = (offset, h)" by fastforce
  show ?case
  proof (cases "usb_straddles (length dest) (length afl) f")
    case True
    then show ?thesis using usb_field_straddles [of offset h dest afl md fs r] Cons.prems by (simp add: f del: usb_fields.simps)
  next
    case False
    then obtain d1 r1 where d1: "usb_fields md afl (f # fs) dest r = usb_fields md afl fs d1 r1"
      "length d1 = length dest" "\<forall>k < length dest. \<not> covers f k \<longrightarrow> d1 ! k = dest ! k"
      using usb_field_step [of offset h dest afl md fs r] Cons.prems by (auto simp: f simp del: usb_fields.simps)
    show ?thesis using Cons.IH [of d1 r1] Cons.prems False d1 by (simp del: usb_fields.simps) metis
  qed
qed simp

text \<open>
  C10. A USB transfer with well-formed constraints is filled without touching anything outside: when
  no field straddles the end of the fuzzer's data, the transfer keeps its length, every byte no
  constraint covers is the fuzzer's byte, and behind the fuzzer's data the byte the caller had.
  When a field does straddle, the code reads behind the fuzzer's data.
\<close>

theorem usb_feed:
  assumes "list_all field_wf (usb_inputs s)"
  shows "if list_ex (usb_straddles (length dest) (length afl)) (usb_inputs s)
    then feedFuzzUSBData s dest afl r = Inl Undefined
    else \<exists>dest' r'. feedFuzzUSBData s dest afl r = Inr (dest', r') \<and> length dest' = length dest \<and>
      (\<forall>k < length dest. \<not> list_ex (\<lambda>f. covers f k) (usb_inputs s) \<longrightarrow>
         dest' ! k = (if k < length afl then afl ! k else dest ! k))"
proof -
  define n where "n = (if length dest < length afl then length dest else length afl)"
  have n: "n \<le> length dest" "n \<le> length afl" by (simp_all add: n_def)
  let ?d = "take n afl @ drop n dest"
  have "copy_to dest 0 (take n afl) = Inr ?d"
    using n by (subst copy_to_defined) (simp_all add: min_def)
  then have "feedFuzzUSBData s dest afl r = usb_fields (s2_mode s) afl (usb_inputs s) ?d r"
    unfolding feedFuzzUSBData_def n_def [symmetric] by (simp add: Let_def)
  moreover have "length ?d = length dest" using n by simp
  moreover have "?d ! k = (if k < length afl then afl ! k else dest ! k)" if "k < length dest" for k
    using that n by (auto simp: nth_append n_def split: if_splits)
  ultimately show ?thesis using usb_fields_result [OF assms, of ?d afl "s2_mode s" r] by (simp split: if_splits) metis
qed

theorem usb_feed_witness:
  "(\<exists>dest' r'. feedFuzzUSBData (setUSBModel (new_Stage2HWModel ''usb'' [] [] 0 0 0) [(2, new_HWInput 2 2 [] [0x1234] [] 50)])
      [7, 7, 7, 7, 7, 7] [1, 2, 3, 4, 5] (\<lambda>_. 0) = Inr (dest', r') \<and> length dest' = 6 \<and> dest' ! 1 = 2 \<and> dest' ! 5 = 7) \<and>
   feedFuzzUSBData (setUSBModel (new_Stage2HWModel ''usb'' [] [] 0 0 0) [(2, new_HWInput 2 2 [] [0x1234] [] 50)])
      [7, 7, 7, 7, 7, 7] [1, 2, 3] (\<lambda>_. 0) = Inl Undefined"
proof -
  define s where "s = setUSBModel (new_Stage2HWModel ''usb'' [] [] 0 0 0) [(2, new_HWInput 2 2 [] [0x1234] [] 50)]"
  obtain h where h: "usb_inputs s = [(2, h)]" "dict h \<noteq> []" "n_bytes h = 2"
    by (simp add: s_def setUSBModel_def map_inputs_def new_HWInput_def genDict_def generateBitCombs_def)
  then have wf: "list_all field_wf (usb_inputs s)" by (simp add: field_wf_def)
  have "\<exists>dest' r'. feedFuzzUSBData s [7, 7, 7, 7, 7, 7] [1, 2, 3, 4, 5] (\<lambda>_. 0) = Inr (dest', r') \<and> length dest' = 6 \<and>
      dest' ! 1 = 2 \<and> dest' ! 5 = 7"
    using usb_feed [OF wf, of "[7, 7, 7, 7, 7, 7]" "[1, 2, 3, 4, 5]" "\<lambda>_. 0"] h
    by (auto simp: usb_straddles_def covers_def)
  moreover have "feedFuzzUSBData s [7, 7, 7, 7, 7, 7] [1, 2, 3] (\<lambda>_. 0) = Inl Undefined"
    using usb_feed [OF wf, of "[7, 7, 7, 7, 7, 7]" "[1, 2, 3]" "\<lambda>_. 0"] h by (simp add: usb_straddles_def)
  ultimately show ?thesis unfolding s_def by blast
qed

section \<open>DMA buffers\<close>

lemma raw_regions:
  "\<exists>ps. dma_regions_loop s data False regions pos ws r =
       Inr (ws @ map (\<lambda>(addr, len, p). (addr, take (unat len) (drop p data))) ps, r) \<and>
     map (\<lambda>(addr, len, p). (addr, len)) ps = filter (\<lambda>(addr, len). unat len \<le> length data) regions \<and>
     list_all (\<lambda>(addr, len, p). p + unat len \<le> length data) ps"
proof (induction regions arbitrary: pos ws)
  case (Cons reg regions)
  obtain addr len where reg: "reg = (addr, len)" by fastforce
  define p where "p = (if pos + unat len > length data then 0 else pos)"
  let ?ws = "if p + unat len > length data then ws else ws @ [(addr, take (unat len) (drop p data))]"
  have fits: "p + unat len > length data \<longleftrightarrow> unat len > length data" by (auto simp: p_def)
  obtain ps where ps: "dma_regions_loop s data False regions (p + unat len) ?ws r =
       Inr (?ws @ map (\<lambda>(addr, len, p). (addr, take (unat len) (drop p data))) ps, r)"
     "map (\<lambda>(addr, len, p). (addr, len)) ps = filter (\<lambda>(addr, len). unat len \<le> length data) regions"
     "list_all (\<lambda>(addr, len, p). p + unat len \<le> length data) ps"
    using Cons.IH by blast
  have "dma_regions_loop s data False (reg # regions) pos ws r = dma_regions_loop s data False regions (p + unat len) ?ws r"
    by (simp add: reg Let_def p_def)
  then show ?case using ps fits reg
    by (intro exI [of _ "if unat len > length data then ps else (addr, len, p) # ps"]) auto
qed simp

text \<open>
  Without a model, feeding DMA data writes every captured buffer that is not longer than the
  data, in order, each with a contiguous piece of the data of exactly the length of the buffer, and
  writes nothing else.
\<close>

theorem raw_dma_feed:
  "\<exists>ps. feedFuzzDMAData s data False r =
       Inr (map (\<lambda>(addr, len, p). (addr, take (unat len) (drop p data))) ps, r) \<and>
     map (\<lambda>(addr, len, p). (addr, len)) ps = filter (\<lambda>(addr, len). unat len \<le> length data) (s2_dmasg s) \<and>
     list_all (\<lambda>(addr, len, p). p + unat len \<le> length data) ps"
  using raw_regions [of s data "s2_dmasg s" 0 "[]" r] by (simp add: feedFuzzDMAData_def)

text \<open>A write lies in a region when it starts and ends there.\<close>

definition write_in :: "u64 \<times> u64 \<Rightarrow> phys_write \<Rightarrow> bool" where
  "write_in reg w \<longleftrightarrow> unat (fst w - fst reg) + length (snd w) \<le> unat (snd reg)"

text \<open>A field of a structure no longer than the region.\<close>

definition struct_wf :: "u64 \<Rightarrow> int \<Rightarrow> int \<times> HWInput \<Rightarrow> bool" where
  "struct_wf len slen f \<longleftrightarrow> field_wf f \<and> fst f + n_bytes (snd f) \<le> slen \<and> slen \<le> int (unat len) \<and> unat len < 2 ^ 31"

lemma unat_word_of_int_le: "0 \<le> i \<Longrightarrow> i \<le> int (unat (w :: u64)) \<Longrightarrow> unat (word_of_int i :: u64) = nat i"
  using uint_lt2p [of w] unfolding of_nat_unat by (simp add: unsigned_of_int take_bit_int_eq_self)

lemma loop_cnt_fits:
  assumes "0 < slen" and "slen \<le> int (unat len)" and "unat len < 2 ^ 31"
  shows "\<exists>cnt. loop_cnt len slen = Inr cnt \<and> 0 \<le> cnt \<and> slen * cnt \<le> int (unat len)"
proof -
  define k where "k = nat slen"
  have k: "slen = int k" "0 < k" "k \<le> unat len" using assms by (simp_all add: k_def nat_le_iff)
  have u: "unat (word_of_int slen :: u64) = k"
    unfolding k_def using assms by (intro unat_word_of_int_le) auto
  have q: "unat len div k < 2 ^ 31" using assms(3) by (meson div_le_dividend le_less_trans)
  have "unat (len div word_of_int slen) = unat len div k" by (simp add: unat_div u)
  then have "unat (ucast (len div word_of_int slen) :: u32) = unat len div k"
    using q by (simp only: unat_ucast_mod) simp
  then have "sint (ucast (len div word_of_int slen) :: u32) = int (unat len div k)"
    using q sint_small [of "ucast (len div word_of_int slen) :: u32"] by simp
  moreover have "k * (unat len div k) \<le> unat len" by simp
  then have "int k * int (unat len div k) \<le> int (unat len)" by (simp flip: of_nat_mult)
  moreover have "word_of_int slen \<noteq> (0 :: u64)" using u k by (metis unsigned_0 less_irrefl)
  ultimately show ?thesis using k by (auto simp: loop_cnt_def)
qed

lemma dma_structs_in:
  assumes wf: "struct_wf len slen (offset, h)" and idx: "\<forall>i \<in> set is. 0 \<le> i \<and> slen * (i + 1) \<le> int (unat len)"
    and data: "overflowed \<or> pos + unat len \<le> length data"
  shows "\<exists>ws' r'. dma_structs md data pos overflowed addr slen offset h is ws r = Inr (ws @ ws', r') \<and>
    list_all (write_in (addr, len)) ws'"
  using idx
proof (induction "is" arbitrary: ws r)
  case (Cons i "is")
  define off where "off = offset + slen * i"
  have h: "dict h \<noteq> []" "0 < n_bytes h" "n_bytes h \<le> 8" "0 \<le> offset" "offset + n_bytes h \<le> slen"
    using wf by (auto simp: struct_wf_def field_wf_def)
  have i: "0 \<le> i" "slen * i + slen \<le> int (unat len)" using Cons.prems by (auto simp: algebra_simps)
  then have "0 \<le> slen * i" using h by simp
  then have off: "0 \<le> off" "off + n_bytes h \<le> int (unat len)" using h i by (auto simp: off_def)
  have "\<exists>orig r1. (if overflowed then Inr (rand64 r)
      else bind_res (copy_from data (int pos + off) 1) (\<lambda>bs. Inr (le_word bs, r))) = Inr (orig, r1)"
    using data off h by (auto simp: copy_from_defined split: prod.split)
  then obtain orig r1 where orig: "(if overflowed then Inr (rand64 r)
      else bind_res (copy_from data (int pos + off) 1) (\<lambda>bs. Inr (le_word bs, r))) = Inr (orig, r1)" by blast
  obtain v r2 where v: "feedData h md orig r1 = Inr (v, r2)" using feedData_total [OF h(1)] by blast
  let ?w = "(addr + word_of_int off, le_bytes (nat (n_bytes h)) v)"
  have "unat (word_of_int off :: u64) = nat off" using off h by (intro unat_word_of_int_le [of _ len]) auto
  then have "write_in (addr, len) ?w" using off h by (auto simp: write_in_def)
  moreover have "dma_structs md data pos overflowed addr slen offset h (i # is) ws r =
      dma_structs md data pos overflowed addr slen offset h is (ws @ [?w]) r2"
    using orig v h unfolding off_def [symmetric] by (simp add: off_def [symmetric] copy_u64_def Let_def)
  moreover obtain ws' r' where "dma_structs md data pos overflowed addr slen offset h is (ws @ [?w]) r2 = Inr ((ws @ [?w]) @ ws', r')"
    "list_all (write_in (addr, len)) ws'" using Cons.IH [of "ws @ [?w]" r2] Cons.prems by auto
  ultimately show ?case by (intro exI [of _ "?w # ws'"]) auto
qed simp

lemma dma_fields_in:
  assumes "list_all (struct_wf len slen) fs" and "overflowed \<or> pos + unat len \<le> length data"
  shows "\<exists>ws' r'. dma_fields_loop md data pos overflowed addr len slen fs ws r = Inr (ws @ ws', r') \<and>
    list_all (write_in (addr, len)) ws'"
  using assms(1)
proof (induction fs arbitrary: ws r)
  case (Cons f fs)
  obtain offset h where f: "f = (offset, h)" by fastforce
  have wf: "struct_wf len slen (offset, h)" using Cons.prems by (simp add: f)
  then have slen: "0 < slen" "slen \<le> int (unat len)" "unat len < 2 ^ 31" by (auto simp: struct_wf_def field_wf_def)
  obtain cnt where cnt: "loop_cnt len slen = Inr cnt" "0 \<le> cnt" "slen * cnt \<le> int (unat len)"
    using loop_cnt_fits [OF slen] by blast
  have "slen * (int j + 1) \<le> int (unat len)" if "j < nat cnt" for j
    using mult_left_mono [of "int j + 1" cnt slen] that slen cnt by linarith
  then obtain w1 r1 where w1: "dma_structs md data pos overflowed addr slen offset h (map int [0..<nat cnt]) ws r = Inr (ws @ w1, r1)"
    "list_all (write_in (addr, len)) w1"
    using dma_structs_in [OF wf _ assms(2), of "map int [0..<nat cnt]" md addr ws r] by auto
  obtain w2 r2 where "dma_fields_loop md data pos overflowed addr len slen fs (ws @ w1) r1 = Inr ((ws @ w1) @ w2, r2)"
    "list_all (write_in (addr, len)) w2" using Cons.IH [of "ws @ w1" r1] Cons.prems by auto
  then show ?case using cnt w1 f by (intro exI [of _ "w1 @ w2"]) auto
qed simp

lemma dma_models_in:
  assumes "list_all (\<lambda>(_, mdl). list_all (struct_wf len (struct_len mdl)) (dma_fields mdl)) ms"
    and "overflowed \<or> pos + unat len \<le> length data"
  shows "\<exists>ws' r'. dma_models_loop md data pos overflowed addr len ms ws r = Inr (ws @ ws', r') \<and>
    list_all (write_in (addr, len)) ws'"
  using assms(1)
proof (induction ms arbitrary: ws r)
  case (Cons m ms)
  obtain k mdl where m: "m = (k, mdl)" by fastforce
  obtain w1 r1 where w1: "dma_fields_loop md data pos overflowed addr len (struct_len mdl) (dma_fields mdl) ws r = Inr (ws @ w1, r1)"
    "list_all (write_in (addr, len)) w1"
    using dma_fields_in [of len "struct_len mdl" "dma_fields mdl" overflowed pos data md addr ws r] assms(2) Cons.prems
    by (auto simp: m)
  obtain w2 r2 where "dma_models_loop md data pos overflowed addr len ms (ws @ w1) r1 = Inr ((ws @ w1) @ w2, r2)"
    "list_all (write_in (addr, len)) w2" using Cons.IH [of "ws @ w1" r1] Cons.prems by auto
  then show ?case using w1 m by (intro exI [of _ "w1 @ w2"]) auto
qed simp

lemma dma_regions_in:
  assumes "list_all (\<lambda>(addr, len). list_all (\<lambda>(_, mdl). list_all (struct_wf len (struct_len mdl)) (dma_fields mdl)) (dma_inputs s)) regions"
  shows "\<exists>ws' r'. dma_regions_loop s data True regions pos ws r = Inr (ws @ ws', r') \<and>
    list_all (\<lambda>w. list_ex (\<lambda>reg. write_in reg w) regions) ws'"
  using assms
proof (induction regions arbitrary: pos ws r)
  case (Cons reg regions)
  obtain addr len where reg: "reg = (addr, len)" by fastforce
  define p where "p = (if pos + unat len > length data then 0 else pos)"
  define raw where "raw = (if p + unat len > length data then [] else [(addr, take (unat len) (drop p data))])"
  have raw: "list_all (write_in reg) raw" by (simp add: raw_def write_in_def reg)
  obtain w1 r1 where w1: "dma_models_loop (s2_mode s) data p (p + unat len > length data) addr len (dma_inputs s) (ws @ raw) r =
      Inr ((ws @ raw) @ w1, r1)" "list_all (write_in reg) w1"
    using dma_models_in [of len "dma_inputs s" "p + unat len > length data" p data "s2_mode s" addr "ws @ raw" r] Cons.prems
    unfolding reg by (cases "p + unat len > length data") auto
  obtain w2 r2 where w2: "dma_regions_loop s data True regions (p + unat len) ((ws @ raw) @ w1) r1 = Inr (((ws @ raw) @ w1) @ w2, r2)"
    "list_all (\<lambda>w. list_ex (\<lambda>reg. write_in reg w) regions) w2"
    using Cons.IH [of "p + unat len" "(ws @ raw) @ w1" r1] Cons.prems by auto
  have "dma_regions_loop s data True (reg # regions) pos ws r =
      bind_res (dma_models_loop (s2_mode s) data p (p + unat len > length data) addr len (dma_inputs s) (ws @ raw) r)
        (\<lambda>(ws, r). dma_regions_loop s data True regions (p + unat len) ws r)"
    unfolding p_def raw_def by (simp add: reg Let_def)
  then show ?case using w1 w2 raw
    by (intro exI [of _ "raw @ w1 @ w2"]) (auto simp: list_all_iff)
qed simp

text \<open>
  C11. With a model, feeding DMA data stays inside the fuzzer's data and inside the captured buffers,
  provided every captured buffer is at least as long as every structure of the model.
\<close>

theorem model_dma_feed_in_buffers:
  assumes "list_all (\<lambda>(addr, len). list_all (\<lambda>(_, mdl). list_all (struct_wf len (struct_len mdl)) (dma_fields mdl)) (dma_inputs s))
    (s2_dmasg s)"
  shows "\<exists>ws r'. feedFuzzDMAData s data True r = Inr (ws, r') \<and>
    list_all (\<lambda>w. list_ex (\<lambda>reg. write_in reg w) (s2_dmasg s)) ws"
  using dma_regions_in [OF assms, of data 0 "[]" r] by (simp add: feedFuzzDMAData_def)

theorem model_dma_feed_in_buffers_witness:
  "let s = setDMARegions (new_Stage2HWModel ''dev'' [] [new_DMAInputModel 16 8 [(2, new_HWInput 2 2 [] [0x1234] [] 50)]] 0 0 0) [(0x1000, 16)]
   in \<exists>ws r'. feedFuzzDMAData s (replicate 20 1) True (\<lambda>_. 0) = Inr (ws, r') \<and> list_all (write_in (0x1000, 16)) ws"
proof -
  define s where "s = setDMARegions (new_Stage2HWModel ''dev'' [] [new_DMAInputModel 16 8 [(2, new_HWInput 2 2 [] [0x1234] [] 50)]] 0 0 0) [(0x1000, 16)]"
  have s: "s2_dmasg s = [(0x1000, 16)]" by (simp add: s_def setDMARegions_def)
  have "list_all (\<lambda>(addr, len). list_all (\<lambda>(_, mdl). list_all (struct_wf len (struct_len mdl)) (dma_fields mdl)) (dma_inputs s)) (s2_dmasg s)"
    by (simp add: s_def setDMARegions_def new_Stage2HWModel_def new_DMAInputModel_def struct_wf_def field_wf_def
        new_HWInput_def genDict_def generateBitCombs_def)
  from model_dma_feed_in_buffers [OF this, of "replicate 20 1" "\<lambda>_. 0"] show ?thesis
    unfolding s_def [symmetric] by (simp add: s Let_def)
qed

text \<open>
  The proviso matters, because every model is applied to every captured buffer, whatever its
  length: a model for buffers of 64 bytes, applied to a buffer of 16 bytes, writes behind the buffer
  when there is enough of the fuzzer's data, and reads behind the fuzzer's data when there is not.
\<close>

theorem model_of_other_length_leaves_buffer:
  "let s = setDMARegions (new_Stage2HWModel ''dev'' [] [new_DMAInputModel 64 64 [(60, new_HWInput 60 4 [] [7] [] 100)]] 0 0 0) [(0x1000, 16)]
   in (\<exists>ws r' w. feedFuzzDMAData s (replicate 64 1) True (\<lambda>_. 0) = Inr (ws, r') \<and> w \<in> set ws \<and> \<not> write_in (0x1000, 16) w) \<and>
      feedFuzzDMAData s (replicate 16 1) True (\<lambda>_. 0) = Inl Undefined"
  by (simp add: setDMARegions_def new_Stage2HWModel_def new_DMAInputModel_def feedFuzzDMAData_def Let_def
      new_HWInput_def genDict_def generateBitCombs_def loop_cnt_def copy_from_def feedData_def yes_def draw_def modelRand_def
      copy_u64_def write_in_def) (intro exI [of _ "4156 :: u64"] exI [of _ "le_bytes 4 (7 :: u64)"], simp)

end
