(* ===== verification/RamList.thy ===== *)
theory RamList
  imports Words
begin

text \<open>
  The list of RAM blocks of the emulator (\<^verbatim>\<open>libcpu/src/exec-ram.c\<close> and \<^verbatim>\<open>exec-ram.h\<close>): best-fit
  allocation of block addresses, translation between block addresses and host pointers, and the
  bytes that record which pages are dirty. Addresses and host pointers are 64-bit words, with
  \<^verbatim>\<open>NULL\<close> as 0; the count of blocks is the length of the list. The dirty bytes are the cells of
  their allocation, \<open>None\<close> where a byte was never written; an access outside is \<open>Undefined\<close>. The
  variants under \<^verbatim>\<open>CONFIG_SYMBEX_MP\<close>, which call into the symbolic execution engine, are left out.
\<close>

section \<open>Blocks\<close>

type_synonym ram_addr = u64

record RAMBlock =
  blk_host :: u64
  blk_offset :: ram_addr
  blk_length :: ram_addr

text \<open>\<open>phys_dirty\<close> is \<open>None\<close> before the first allocation.\<close>

record RAMList =
  phys_dirty :: "u8 option list option"
  phys_dirty_size :: u64
  blocks :: "RAMBlock list"

definition RAM_ADDR_MAX :: ram_addr where
  "RAM_ADDR_MAX = - 1"

definition TARGET_PAGE_BITS :: nat where
  "TARGET_PAGE_BITS = 12"

definition TARGET_PAGE_SIZE :: u64 where
  "TARGET_PAGE_SIZE = push_bit TARGET_PAGE_BITS 1"

definition TARGET_PAGE_MASK :: u64 where
  "TARGET_PAGE_MASK = NOT (TARGET_PAGE_SIZE - 1)"

definition TARGET_PAGE_ALIGN :: "u64 \<Rightarrow> u64" where
  "TARGET_PAGE_ALIGN addr = (addr + TARGET_PAGE_SIZE - 1) AND TARGET_PAGE_MASK"

text \<open>
  The start of the process: \<open>val\<close> is the size given on the command line, negative when there is none.
  The dirty bytes come from \<^verbatim>\<open>mmap\<close>, which clears them.
\<close>

definition init_ram_size :: "int \<Rightarrow> u64 \<times> RAMList" where
  "init_ram_size val =
     (let val = (if val < 0 then 128 * 1024 * 1024 else val);
          s_ram_size = word_of_int val;
          n = drop_bit TARGET_PAGE_BITS (s_ram_size + 17 * 1024 * 1024)
      in (s_ram_size, \<lparr>phys_dirty = Some (replicate (unat n) (Some 0)), phys_dirty_size = n, blocks = []\<rparr>))"

section \<open>Best fit\<close>

text \<open>
  The loop over the blocks from number \<open>i\<close> on; \<open>bs\<close> are the blocks from there. The next block is the
  head of the rest.
\<close>

fun find_gap :: "ram_addr \<Rightarrow> nat \<Rightarrow> RAMBlock list \<Rightarrow> ram_addr \<times> ram_addr \<Rightarrow> ram_addr \<times> ram_addr" where
  "find_gap sz i [] best = best"
| "find_gap sz i (b # bs) (best_offset, best_size) =
     (let (best_offset, best_size) =
            (if i = 0 \<and> blk_offset b \<ge> sz \<and> sz \<le> best_size then (0, blk_offset b) else (best_offset, best_size));
          next_gap = blk_offset b + blk_length b;
          next_size = (case bs of [] \<Rightarrow> RAM_ADDR_MAX - next_gap | b' # _ \<Rightarrow> blk_offset b' - next_gap)
      in if next_size < sz then find_gap sz (i + 1) bs (best_offset, best_size)
         else if next_size < best_size then find_gap sz (i + 1) bs (next_gap, next_size)
         else find_gap sz (i + 1) bs (best_offset, best_size))"

definition find_ram_offset :: "RAMList \<Rightarrow> ram_addr \<Rightarrow> ram_addr res" where
  "find_ram_offset l sz =
     (if blocks l = [] then Inr 0
      else
        let best_offset = fst (find_gap sz 0 (blocks l) (RAM_ADDR_MAX, RAM_ADDR_MAX)) in
        if best_offset = RAM_ADDR_MAX then Inl Exit else Inr best_offset)"

definition last_ram_offset :: "RAMList \<Rightarrow> ram_addr" where
  "last_ram_offset l = (if blocks l \<noteq> [] then blk_offset (last (blocks l)) + blk_length (last (blocks l)) else 0)"

definition ramblock_cmp :: "RAMBlock \<Rightarrow> RAMBlock \<Rightarrow> int res" where
  "ramblock_cmp ra rb =
     (if blk_offset ra + blk_length ra \<le> blk_offset rb then Inr (- 1)
      else if blk_offset ra \<ge> blk_offset rb + blk_length rb then Inr 1
      else Inl Assert)"

text \<open>
  \<^verbatim>\<open>qsort\<close> as an insertion sort that calls the comparison; a call that aborts ends it. Which pairs
  the C library compares is not specified, but the comparison orders blocks that do not overlap
  totally, so that every order of comparisons gives the same list.
\<close>

fun qsort_insert :: "RAMBlock \<Rightarrow> RAMBlock list \<Rightarrow> RAMBlock list res" where
  "qsort_insert x [] = Inr [x]"
| "qsort_insert x (y # ys) =
     bind_res (ramblock_cmp x y) (\<lambda>c.
       if c < 0 then Inr (x # y # ys)
       else bind_res (qsort_insert x ys) (\<lambda>zs. Inr (y # zs)))"

fun qsort_blocks :: "RAMBlock list \<Rightarrow> RAMBlock list res" where
  "qsort_blocks [] = Inr []"
| "qsort_blocks (x # xs) = bind_res (qsort_blocks xs) (qsort_insert x)"

text \<open>\<^verbatim>\<open>g_realloc\<close> of the dirty bytes: the bytes that are kept, then unwritten ones.\<close>

definition realloc_dirty :: "u8 option list option \<Rightarrow> nat \<Rightarrow> u8 option list" where
  "realloc_dirty d n =
     (let old = (case d of None \<Rightarrow> [] | Some bs \<Rightarrow> bs) in take n old @ replicate (n - length old) None)"

definition memset_dirty :: "u8 option list \<Rightarrow> nat \<Rightarrow> u8 \<Rightarrow> nat \<Rightarrow> u8 option list res" where
  "memset_dirty d a v n =
     (if a + n \<le> length d then Inr (take a d @ replicate n (Some v) @ drop (a + n) d) else Inl Undefined)"

definition page_no :: "ram_addr \<Rightarrow> nat" where
  "page_no a = unat (drop_bit TARGET_PAGE_BITS a)"

definition qemu_ram_alloc_from_ptr :: "RAMList \<Rightarrow> ram_addr \<Rightarrow> u64 \<Rightarrow> (ram_addr \<times> RAMList) res" where
  "qemu_ram_alloc_from_ptr l sz host =
     assert_res (host \<noteq> 0)
       (let sz = TARGET_PAGE_ALIGN sz in
        bind_res (find_ram_offset l sz) (\<lambda>new_offset.
        let new_block = \<lparr>blk_host = host, blk_offset = new_offset, blk_length = sz\<rparr> in
        bind_res (qsort_blocks (blocks l @ [new_block])) (\<lambda>bs.
        let l = l\<lparr>blocks := bs\<rparr> in
        bind_res
          (if phys_dirty_size l = 0 then Inr (realloc_dirty (phys_dirty l) (page_no (last_ram_offset l)))
           else case phys_dirty l of
             None \<Rightarrow> Inl Assert
           | Some d \<Rightarrow>
               if drop_bit TARGET_PAGE_BITS (last_ram_offset l) > phys_dirty_size l then Inl Assert else Inr d) (\<lambda>d.
        bind_res (memset_dirty d (page_no new_offset) 0xff (page_no sz)) (\<lambda>d.
          Inr (new_offset, l\<lparr>phys_dirty := Some d\<rparr>))))))"

fun remove_block :: "ram_addr \<Rightarrow> RAMBlock list \<Rightarrow> RAMBlock list" where
  "remove_block addr [] = []"
| "remove_block addr (b # bs) = (if blk_offset b = addr then bs else b # remove_block addr bs)"

definition qemu_ram_free_from_ptr :: "RAMList \<Rightarrow> ram_addr \<Rightarrow> RAMList" where
  "qemu_ram_free_from_ptr l addr = l\<lparr>blocks := remove_block addr (blocks l)\<rparr>"

section \<open>Translation\<close>

fun ptr_in_blocks :: "RAMBlock list \<Rightarrow> ram_addr \<Rightarrow> u64 option" where
  "ptr_in_blocks [] addr = None"
| "ptr_in_blocks (b # bs) addr =
     (if addr - blk_offset b < blk_length b then Some (blk_host b + (addr - blk_offset b))
      else ptr_in_blocks bs addr)"

text \<open>The result \<^verbatim>\<open>NULL\<close> is \<open>0\<close>; a block at the host address 0 would give it, too.\<close>

definition get_ram_ptr_internal :: "RAMList \<Rightarrow> ram_addr \<Rightarrow> u64" where
  "get_ram_ptr_internal l addr = (case ptr_in_blocks (blocks l) addr of None \<Rightarrow> 0 | Some p \<Rightarrow> p)"

definition qemu_get_ram_ptr :: "RAMList \<Rightarrow> ram_addr \<Rightarrow> u64 res" where
  "qemu_get_ram_ptr l addr =
     (let ret = get_ram_ptr_internal l addr in if ret \<noteq> 0 then Inr ret else Inl Assert)"

definition qemu_safe_ram_ptr :: "RAMList \<Rightarrow> ram_addr \<Rightarrow> u64 res" where
  "qemu_safe_ram_ptr l addr = (case ptr_in_blocks (blocks l) addr of None \<Rightarrow> Inl Assert | Some p \<Rightarrow> Inr p)"

fun ptr_length_in_blocks :: "RAMBlock list \<Rightarrow> ram_addr \<Rightarrow> ram_addr \<Rightarrow> (u64 \<times> ram_addr) res" where
  "ptr_length_in_blocks [] addr sz = Inl Assert"
| "ptr_length_in_blocks (b # bs) addr sz =
     (if addr - blk_offset b < blk_length b then
        let sz = (if addr - blk_offset b + sz > blk_length b then blk_length b - addr + blk_offset b else sz)
        in Inr (blk_host b + (addr - blk_offset b), sz)
      else ptr_length_in_blocks bs addr sz)"

definition qemu_ram_ptr_length :: "RAMList \<Rightarrow> ram_addr \<Rightarrow> ram_addr \<Rightarrow> (u64 \<times> ram_addr) res" where
  "qemu_ram_ptr_length l addr sz = (if sz = 0 then Inr (0, sz) else ptr_length_in_blocks (blocks l) addr sz)"

fun addr_in_blocks :: "RAMBlock list \<Rightarrow> u64 \<Rightarrow> ram_addr option" where
  "addr_in_blocks [] p = None"
| "addr_in_blocks (b # bs) p =
     (if blk_host b = 0 then addr_in_blocks bs p
      else if p - blk_host b < blk_length b then Some (blk_offset b + (p - blk_host b))
      else addr_in_blocks bs p)"

text \<open>The return value -1 is \<open>None\<close>.\<close>

definition qemu_ram_addr_from_host :: "RAMList \<Rightarrow> u64 \<Rightarrow> ram_addr option" where
  "qemu_ram_addr_from_host l p = addr_in_blocks (blocks l) p"

definition qemu_ram_addr_from_host_nofail :: "RAMList \<Rightarrow> u64 \<Rightarrow> ram_addr res" where
  "qemu_ram_addr_from_host_nofail l p =
     (case qemu_ram_addr_from_host l p of None \<Rightarrow> Inl Assert | Some a \<Rightarrow> Inr a)"

section \<open>Dirty pages\<close>

definition dirty_at :: "RAMList \<Rightarrow> nat \<Rightarrow> u8 res" where
  "dirty_at l k =
     (case phys_dirty l of
        None \<Rightarrow> Inl Undefined
      | Some d \<Rightarrow> if k < length d then case d ! k of None \<Rightarrow> Inl Undefined | Some v \<Rightarrow> Inr v else Inl Undefined)"

definition put_dirty :: "RAMList \<Rightarrow> nat \<Rightarrow> u8 \<Rightarrow> RAMList res" where
  "put_dirty l k v =
     (case phys_dirty l of
        None \<Rightarrow> Inl Undefined
      | Some d \<Rightarrow> if k < length d then Inr (l\<lparr>phys_dirty := Some (d[k := Some v])\<rparr>) else Inl Undefined)"

definition cpu_physical_memory_is_dirty :: "RAMList \<Rightarrow> ram_addr \<Rightarrow> bool res" where
  "cpu_physical_memory_is_dirty l addr = bind_res (dirty_at l (page_no addr)) (\<lambda>v. Inr (v = 0xff))"

definition cpu_physical_memory_get_dirty_flags :: "RAMList \<Rightarrow> ram_addr \<Rightarrow> u8 res" where
  "cpu_physical_memory_get_dirty_flags l addr = dirty_at l (page_no addr)"

definition cpu_physical_memory_set_dirty :: "RAMList \<Rightarrow> ram_addr \<Rightarrow> RAMList res" where
  "cpu_physical_memory_set_dirty l addr = put_dirty l (page_no addr) 0xff"

definition cpu_physical_memory_set_dirty_flags :: "RAMList \<Rightarrow> ram_addr \<Rightarrow> u32 \<Rightarrow> (u8 \<times> RAMList) res" where
  "cpu_physical_memory_set_dirty_flags l addr dirty_flags =
     bind_res (dirty_at l (page_no addr)) (\<lambda>v.
     let v = ucast (ucast v OR dirty_flags) in
     bind_res (put_dirty l (page_no addr) v) (\<lambda>l. Inr (v, l)))"

text \<open>
  The loops over the pages of a range: \<open>length\<close> is a signed 32-bit number and is sign-extended, and
  the number of pages is truncated to a signed 32-bit number.
\<close>

definition range_pages :: "ram_addr \<Rightarrow> u32 \<Rightarrow> nat" where
  "range_pages start len =
     (let end = TARGET_PAGE_ALIGN (start + scast len)
      in nat (sint (ucast (drop_bit TARGET_PAGE_BITS (end - start)) :: u32)))"

fun mask_dirty_loop :: "nat \<Rightarrow> nat \<Rightarrow> u8 \<Rightarrow> RAMList \<Rightarrow> RAMList res" where
  "mask_dirty_loop 0 p m l = Inr l"
| "mask_dirty_loop (Suc n) p m l =
     bind_res (dirty_at l p) (\<lambda>v. bind_res (put_dirty l p (v AND m)) (mask_dirty_loop n (p + 1) m))"

definition cpu_physical_memory_mask_dirty_range :: "RAMList \<Rightarrow> ram_addr \<Rightarrow> u32 \<Rightarrow> u32 \<Rightarrow> RAMList res" where
  "cpu_physical_memory_mask_dirty_range l start len dirty_flags =
     mask_dirty_loop (range_pages start len) (page_no start) (ucast (NOT dirty_flags)) l"

fun dirty_bitmap_loop :: "nat \<Rightarrow> nat \<Rightarrow> nat \<Rightarrow> u32 \<Rightarrow> RAMList \<Rightarrow> u8 list \<Rightarrow> u8 list res" where
  "dirty_bitmap_loop 0 i p flags l bitmap = Inr bitmap"
| "dirty_bitmap_loop (Suc n) i p flags l bitmap =
     bind_res (dirty_at l p) (\<lambda>v.
     bind_res
       (if ucast v AND flags \<noteq> 0 then
          if i div 8 < length bitmap then Inr (bitmap[i div 8 := bitmap ! (i div 8) OR push_bit (i mod 8) 1]) else Inl Undefined
        else Inr bitmap)
       (dirty_bitmap_loop n (i + 1) (p + 1) flags l))"

definition cpu_physical_memory_get_dirty_bitmap :: "RAMList \<Rightarrow> u8 list \<Rightarrow> ram_addr \<Rightarrow> u32 \<Rightarrow> u32 \<Rightarrow> u8 list res" where
  "cpu_physical_memory_get_dirty_bitmap l bitmap start len dirty_flags =
     dirty_bitmap_loop (range_pages start len) 0 (page_no start) dirty_flags l bitmap"

end
