(* ===== verification/RamProps.thy ===== *)
theory RamProps
  imports RamList BitOps "HOL-Library.Multiset"
begin

text \<open>
  What the list of RAM blocks promises: the blocks stay sorted and never overlap, allocation takes
  the smallest gap that fits, every page of a block has its dirty byte, and translating an address
  to a host pointer and back gives the address.
\<close>

declare of_nat_unat [simp del]

section \<open>Blocks without overlap\<close>

abbreviation lo :: "RAMBlock \<Rightarrow> nat" where "lo b \<equiv> unat (blk_offset b)"
abbreviation len :: "RAMBlock \<Rightarrow> nat" where "len b \<equiv> unat (blk_length b)"
abbreviation hi :: "RAMBlock \<Rightarrow> nat" where "hi b \<equiv> lo b + len b"

definition block_ok :: "RAMBlock \<Rightarrow> bool" where
  "block_ok b \<longleftrightarrow> hi b < 2 ^ 64 \<and> 4096 dvd lo b \<and> 4096 dvd len b"

definition apart :: "RAMBlock \<Rightarrow> RAMBlock \<Rightarrow> bool" where
  "apart b c \<longleftrightarrow> hi b \<le> lo c \<or> hi c \<le> lo b"

definition blocks_ok :: "RAMBlock list \<Rightarrow> bool" where
  "blocks_ok bs \<longleftrightarrow> sorted_wrt (\<lambda>b c. hi b \<le> lo c) bs \<and> list_all block_ok bs"

lemma blocks_ok_Cons: "blocks_ok (b # bs) \<longleftrightarrow> block_ok b \<and> (\<forall>c \<in> set bs. hi b \<le> lo c) \<and> blocks_ok bs"
  by (auto simp: blocks_ok_def)

lemma blocks_ok_Nil [simp]: "blocks_ok []"
  by (simp add: blocks_ok_def)

lemma unat_end: "block_ok b \<Longrightarrow> unat (blk_offset b + blk_length b) = hi b"
  by (simp add: block_ok_def unat_word_ariths)

lemma ramblock_cmp_apart:
  assumes "block_ok b" and "block_ok c" and "apart b c"
  shows "ramblock_cmp b c = Inr (if hi b \<le> lo c then - 1 else 1)"
  using assms by (auto simp: ramblock_cmp_def apart_def word_le_nat_alt unat_end)

lemma qsort_insert_apart:
  assumes "blocks_ok ys" and "block_ok x" and "\<forall>y \<in> set ys. apart x y"
  shows "\<exists>zs. qsort_insert x ys = Inr zs \<and> blocks_ok zs \<and> mset zs = add_mset x (mset ys)"
  using assms
proof (induction ys)
  case (Cons y ys)
  have c: "ramblock_cmp x y = Inr (if hi x \<le> lo y then - 1 else 1)"
    using Cons.prems by (intro ramblock_cmp_apart) (auto simp: blocks_ok_Cons)
  show ?case
  proof (cases "hi x \<le> lo y")
    case True
    then show ?thesis using Cons.prems c by (auto simp: blocks_ok_Cons)
  next
    case False
    then have "hi y \<le> lo x" using Cons.prems by (auto simp: apart_def)
    moreover obtain zs where zs: "qsort_insert x ys = Inr zs" "blocks_ok zs" "mset zs = add_mset x (mset ys)"
      using Cons by (auto simp: blocks_ok_Cons)
    moreover have "set zs = insert x (set ys)" using zs(3) by (metis set_mset_add_mset_insert set_mset_mset)
    ultimately show ?thesis using Cons.prems c False by (auto simp: blocks_ok_Cons)
  qed
qed (auto simp: blocks_ok_def)

lemma qsort_blocks_apart:
  assumes "list_all block_ok xs" and "sorted_wrt apart xs"
  shows "\<exists>ys. qsort_blocks xs = Inr ys \<and> blocks_ok ys \<and> mset ys = mset xs"
  using assms
proof (induction xs)
  case (Cons x xs)
  then obtain ys where ys: "qsort_blocks xs = Inr ys" "blocks_ok ys" "mset ys = mset xs" by auto
  moreover have "set ys = set xs" using ys(3) by (rule mset_eq_setD)
  ultimately show ?case using Cons.prems qsort_insert_apart [of ys x] by auto
qed simp

lemma sorted_apart: "blocks_ok bs \<Longrightarrow> sorted_wrt apart bs"
  by (auto simp: blocks_ok_def apart_def elim: sorted_wrt_mono_rel [rotated])

section \<open>Gaps\<close>

text \<open>The gaps behind the blocks, and all gaps.\<close>

fun gaps_after :: "RAMBlock list \<Rightarrow> (ram_addr \<times> ram_addr) list" where
  "gaps_after [] = []"
| "gaps_after (b # bs) =
     (let g = blk_offset b + blk_length b
      in (g, (case bs of [] \<Rightarrow> RAM_ADDR_MAX | c # _ \<Rightarrow> blk_offset c) - g) # gaps_after bs)"

definition gaps :: "RAMBlock list \<Rightarrow> (ram_addr \<times> ram_addr) list" where
  "gaps bs = (case bs of [] \<Rightarrow> [(0, RAM_ADDR_MAX)] | b # _ \<Rightarrow> (0, blk_offset b) # gaps_after bs)"

lemma unat_RAM_ADDR_MAX: "unat RAM_ADDR_MAX = 2 ^ 64 - 1"
  by (simp add: RAM_ADDR_MAX_def unsigned_minus_1_eq_mask mask_eq_exp_minus_1)

lemma gap_start: "(p, g) \<in> set (gaps_after bs) \<Longrightarrow> \<exists>c \<in> set bs. p = blk_offset c + blk_length c"
  by (induction bs) (auto simp: Let_def)

lemma gap_free:
  assumes "blocks_ok bs" and "(p, g) \<in> set (gaps_after bs)"
  shows "unat p + unat g < 2 ^ 64 \<and> 4096 dvd unat p \<and> (\<forall>b \<in> set bs. hi b \<le> unat p \<or> unat p + unat g \<le> lo b)"
  using assms
proof (induction bs)
  case (Cons b bs)
  have b: "block_ok b" "blocks_ok bs" "\<forall>c \<in> set bs. hi b \<le> lo c" using Cons.prems by (auto simp: blocks_ok_Cons)
  consider "(p, g) \<in> set (gaps_after bs)" | "p = blk_offset b + blk_length b" "bs = []" "g = RAM_ADDR_MAX - p"
    | c cs where "p = blk_offset b + blk_length b" "bs = c # cs" "g = blk_offset c - p"
    using Cons.prems(2) by (cases bs) (simp_all add: Let_def, blast+)
  then show ?case
  proof cases
    case 1
    then obtain c where "c \<in> set bs" "p = blk_offset c + blk_length c" using gap_start by blast
    moreover have "block_ok c" using b(2) \<open>c \<in> set bs\<close> by (auto simp: blocks_ok_def list_all_iff)
    ultimately have "c \<in> set bs" "unat p = hi c" using unat_end by auto
    then have "hi b \<le> unat p" using b(3) by (metis trans_le_add1)
    then show ?thesis using Cons.IH 1 b(2) by auto
  next
    case 2
    have "unat p = hi b" using b(1) 2 by (simp add: unat_end)
    moreover have "p \<le> RAM_ADDR_MAX" by (simp add: RAM_ADDR_MAX_def word_order.extremum)
    ultimately have "unat g = 2 ^ 64 - 1 - hi b" using 2 by (simp add: unat_sub unat_RAM_ADDR_MAX)
    then show ?thesis using 2 b(1) \<open>unat p = hi b\<close> by (auto simp: block_ok_def)
  next
    case 3
    have p: "unat p = hi b" using b(1) 3 by (simp add: unat_end)
    moreover have "p \<le> blk_offset c" using b(3) 3 p by (simp add: word_le_nat_alt)
    ultimately have "unat g = lo c - hi b" using 3 by (simp add: unat_sub)
    moreover have "lo c \<le> lo d" if "d \<in> set (c # cs)" for d
      using that b(2) 3 by (fastforce simp: blocks_ok_Cons)
    moreover have "hi b \<le> lo c" using b(3) 3 by simp
    moreover have "lo c < 2 ^ 64" using unsigned_less [of "blk_offset c", where 'a = nat] by simp
    ultimately show ?thesis using 3 p b(1) by (auto simp: block_ok_def)
  qed
qed simp

definition better :: "ram_addr \<Rightarrow> ram_addr \<times> ram_addr \<Rightarrow> ram_addr \<times> ram_addr \<Rightarrow> ram_addr \<times> ram_addr" where
  "better sz x best = (if \<not> snd x < sz \<and> snd x < snd best then x else best)"

lemma find_gap_Cons:
  assumes "i \<noteq> 0"
  shows "find_gap sz i (b # bs) best = find_gap sz (i + 1) bs (better sz (hd (gaps_after (b # bs))) best)"
  using assms by (cases best; cases bs) (simp_all add: better_def Let_def)

lemma find_gap_Cons_0:
  "find_gap sz 0 (b # bs) (RAM_ADDR_MAX, RAM_ADDR_MAX) =
   find_gap sz 1 bs (better sz (hd (gaps_after (b # bs)))
     (if sz \<le> blk_offset b then (0, blk_offset b) else (RAM_ADDR_MAX, RAM_ADDR_MAX)))"
proof -
  have "sz \<le> RAM_ADDR_MAX" by (simp add: RAM_ADDR_MAX_def word_order.extremum)
  then show ?thesis by (cases bs) (simp_all add: better_def Let_def)
qed

lemma better_cases:
  "better sz x best = best \<and> (sz \<le> snd x \<longrightarrow> snd best \<le> snd x) \<or>
   better sz x best = x \<and> sz \<le> snd x \<and> snd x < snd best"
  by (auto simp: better_def not_less)

lemma gaps_after_Cons: "gaps_after (b # bs) = hd (gaps_after (b # bs)) # gaps_after bs"
  by (simp add: Let_def)

definition best_of :: "ram_addr \<Rightarrow> (ram_addr \<times> ram_addr) list \<Rightarrow> ram_addr \<times> ram_addr \<Rightarrow> ram_addr \<times> ram_addr \<Rightarrow> bool" where
  "best_of sz gs start r \<longleftrightarrow>
     (r = start \<or> r \<in> set gs \<and> sz \<le> snd r \<and> snd r < snd start) \<and> snd r \<le> snd start \<and> (\<forall>x \<in> set gs. sz \<le> snd x \<longrightarrow> snd r \<le> snd x)"

lemma best_of_step: "best_of sz gs (better sz x best) r \<Longrightarrow> best_of sz (x # gs) best r"
  using better_cases [of sz x best] unfolding best_of_def by (auto intro: less_imp_le order.strict_trans order.trans)

lemma find_gap_best: "i \<noteq> 0 \<Longrightarrow> best_of sz (gaps_after bs) best (find_gap sz i bs best)"
proof (induction bs arbitrary: i best)
  case Nil
  then show ?case by (cases best) (simp add: best_of_def)
next
  case (Cons b bs)
  have "best_of sz (hd (gaps_after (b # bs)) # gaps_after bs) best (find_gap sz i (b # bs) best)"
    unfolding find_gap_Cons [OF Cons.prems] by (intro best_of_step Cons.IH) simp
  then show ?case by (simp only: gaps_after_Cons [symmetric])
qed

text \<open>The first block looks at the gap in front of it, too.\<close>

lemma find_gap_first:
  assumes "find_gap sz 0 (b # bs) (RAM_ADDR_MAX, RAM_ADDR_MAX) = (o2, s2)"
  shows "((o2, s2) = (RAM_ADDR_MAX, RAM_ADDR_MAX) \<or> (o2, s2) \<in> set (gaps (b # bs)) \<and> sz \<le> s2) \<and>
    (\<forall>x \<in> set (gaps (b # bs)). sz \<le> snd x \<longrightarrow> s2 \<le> snd x)"
proof -
  let ?start = "if sz \<le> blk_offset b then (0, blk_offset b) else (RAM_ADDR_MAX, RAM_ADDR_MAX)"
  have "best_of sz (gaps_after bs) (better sz (hd (gaps_after (b # bs))) ?start) (o2, s2)"
    using find_gap_best [of 1] assms unfolding find_gap_Cons_0 by (metis one_neq_zero)
  from best_of_step [OF this] have "best_of sz (gaps_after (b # bs)) ?start (o2, s2)"
    by (simp only: gaps_after_Cons [symmetric])
  moreover have "gaps (b # bs) = (0, blk_offset b) # gaps_after (b # bs)" by (simp add: gaps_def)
  ultimately show ?thesis unfolding best_of_def
    by (cases "sz \<le> blk_offset b") (auto simp del: gaps_after.simps)
qed

text \<open>A region of the addresses that no block uses.\<close>

definition free_at :: "RAMBlock list \<Rightarrow> ram_addr \<Rightarrow> ram_addr \<Rightarrow> bool" where
  "free_at bs p n \<longleftrightarrow> unat p + unat n < 2 ^ 64 \<and> 4096 dvd unat p \<and> (\<forall>b \<in> set bs. hi b \<le> unat p \<or> unat p + unat n \<le> lo b)"

lemma gaps_free: "blocks_ok bs \<Longrightarrow> (p, g) \<in> set (gaps bs) \<Longrightarrow> free_at bs p g"
proof (cases bs)
  case Nil
  then show "(p, g) \<in> set (gaps bs) \<Longrightarrow> free_at bs p g" by (simp add: gaps_def free_at_def unat_RAM_ADDR_MAX)
next
  case (Cons b cs)
  assume ok: "blocks_ok bs" and g: "(p, g) \<in> set (gaps bs)"
  have "lo b \<le> lo c" if "c \<in> set bs" for c using that ok Cons by (fastforce simp: blocks_ok_Cons)
  moreover have "lo b < 2 ^ 64" using unsigned_less [of "blk_offset b", where 'a = nat] by simp
  moreover have "(p, g) = (0, blk_offset b) \<or> (p, g) \<in> set (gaps_after bs)" using g Cons by (simp add: gaps_def)
  ultimately show "free_at bs p g" using gap_free [OF ok, of p g] by (auto simp: free_at_def)
qed

lemma free_at_mono: "free_at bs p g \<Longrightarrow> sz \<le> g \<Longrightarrow> free_at bs p sz"
  by (auto simp: free_at_def word_le_nat_alt)

lemma find_ram_offset_free:
  assumes "blocks_ok (blocks l)" and "find_ram_offset l sz = Inr p" and "unat sz < 2 ^ 64 - 4095"
  shows "free_at (blocks l) p sz"
proof (cases "blocks l")
  case Nil
  then show ?thesis using assms(2,3) by (auto simp: find_ram_offset_def free_at_def)
next
  case (Cons b bs)
  obtain o2 s2 where f: "find_gap sz 0 (b # bs) (RAM_ADDR_MAX, RAM_ADDR_MAX) = (o2, s2)" by fastforce
  then have "p = o2" "o2 \<noteq> RAM_ADDR_MAX" using assms(2) Cons by (auto simp: find_ram_offset_def Let_def split: if_splits)
  then have "(o2, s2) \<in> set (gaps (blocks l))" "sz \<le> s2" using find_gap_first [OF f] Cons by auto
  then show ?thesis using gaps_free [OF assms(1)] free_at_mono \<open>p = o2\<close> by blast
qed

section \<open>Dirty bytes\<close>

lemma page_no_div: "page_no a = unat a div 4096"
  by (simp add: page_no_def TARGET_PAGE_BITS_def unat_drop_bit)

lemma page_align_mask: "TARGET_PAGE_ALIGN sz = (sz + 4095) AND - (2 ^ 12)"
  by (simp add: TARGET_PAGE_ALIGN_def TARGET_PAGE_MASK_def TARGET_PAGE_SIZE_def TARGET_PAGE_BITS_def push_bit_eq_mult
      add.commute)

lemma page_align: "4096 dvd unat (TARGET_PAGE_ALIGN sz)" "unat (TARGET_PAGE_ALIGN sz) < 2 ^ 64 - 4095"
proof -
  have "unat (TARGET_PAGE_ALIGN sz) = unat (sz + 4095) div 2 ^ 12 * 2 ^ 12"
    unfolding page_align_mask by (rule unat_and_minus_power) simp
  then show "4096 dvd unat (TARGET_PAGE_ALIGN sz)" by simp
  moreover have "unat (TARGET_PAGE_ALIGN sz) < 2 ^ 64" using unsigned_less [of "TARGET_PAGE_ALIGN sz", where 'a = nat] by simp
  ultimately show "unat (TARGET_PAGE_ALIGN sz) < 2 ^ 64 - 4095" by (elim dvdE) simp
qed

lemma page_align_value: "unat sz + 4095 < 2 ^ 64 \<Longrightarrow> unat (TARGET_PAGE_ALIGN sz) = (unat sz + 4095) div 4096 * 4096"
  using unat_and_minus_power [of 12 "sz + 4095"] unfolding page_align_mask by (simp add: unat_word_ariths)

definition written :: "u8 option list \<Rightarrow> nat \<Rightarrow> bool" where
  "written d k \<longleftrightarrow> k < length d \<and> d ! k \<noteq> None"

lemma written_realloc: "written d k \<Longrightarrow> k < n \<Longrightarrow> written (realloc_dirty (Some d) n) k"
  by (auto simp: written_def realloc_dirty_def nth_append)

lemma length_realloc: "length (realloc_dirty d n) = n"
  by (auto simp: realloc_dirty_def Let_def split: option.split)

lemma memset_dirty_result:
  assumes "a + n \<le> length d"
  shows "\<exists>d'. memset_dirty d a v n = Inr d' \<and> length d' = length d \<and> (\<forall>k. written d k \<longrightarrow> written d' k) \<and>
    (\<forall>k. a \<le> k \<and> k < a + n \<longrightarrow> k < length d' \<and> d' ! k = Some v)"
  using assms by (auto simp: memset_dirty_def written_def nth_append min_def)

definition page_in :: "nat \<Rightarrow> RAMBlock \<Rightarrow> bool" where
  "page_in k b \<longleftrightarrow> page_no (blk_offset b) \<le> k \<and> k < page_no (blk_offset b) + page_no (blk_length b)"

lemma page_in_end: "block_ok b \<Longrightarrow> page_in k b \<longleftrightarrow> lo b div 4096 \<le> k \<and> k < hi b div 4096"
  by (auto simp: page_in_def page_no_div block_ok_def elim!: dvdE)

text \<open>
  The invariant: sorted blocks without overlap, with a written dirty byte for every page of a block,
  and, where the dirty bytes are allocated in advance, as many of them as recorded.
\<close>

definition ram_inv :: "RAMList \<Rightarrow> bool" where
  "ram_inv l \<longleftrightarrow> blocks_ok (blocks l) \<and>
     (\<forall>b \<in> set (blocks l). \<forall>k. page_in k b \<longrightarrow> (\<exists>d. phys_dirty l = Some d \<and> written d k)) \<and>
     (phys_dirty_size l \<noteq> 0 \<longrightarrow> (\<exists>d. phys_dirty l = Some d \<and> length d = unat (phys_dirty_size l)))"

lemma hi_le_last:
  assumes "blocks_ok bs" and "b \<in> set bs"
  shows "hi b \<le> hi (last bs)"
  using assms
proof (induction bs)
  case (Cons c bs)
  then show ?case
  proof (cases "bs = []")
    case False
    then have "hi c \<le> lo (last bs)" using Cons.prems by (auto simp: blocks_ok_Cons)
    then have "hi c \<le> hi (last bs)" by simp
    then show ?thesis using Cons False by (auto simp: blocks_ok_Cons)
  qed simp
qed simp

lemma last_ram_offset_end:
  assumes "blocks_ok (blocks l)" and "blocks l \<noteq> []"
  shows "unat (last_ram_offset l) = hi (last (blocks l))"
proof -
  have "block_ok (last (blocks l))" using assms by (simp add: blocks_ok_def list_all_iff)
  then show ?thesis using assms(2) by (simp add: last_ram_offset_def unat_end)
qed

text \<open>The dirty bytes before the new block is marked.\<close>

definition grown_dirty :: "RAMList \<Rightarrow> u8 option list res" where
  "grown_dirty l =
     (if phys_dirty_size l = 0 then Inr (realloc_dirty (phys_dirty l) (page_no (last_ram_offset l)))
      else case phys_dirty l of
        None \<Rightarrow> Inl Assert
      | Some d \<Rightarrow> if drop_bit TARGET_PAGE_BITS (last_ram_offset l) > phys_dirty_size l then Inl Assert else Inr d)"

lemma grown_dirty_covers:
  assumes inv: "ram_inv l" and bs: "blocks_ok bs" "bs \<noteq> []" "set (blocks l) \<subseteq> set bs"
    and d: "grown_dirty (l\<lparr>blocks := bs\<rparr>) = Inr d"
  shows "\<forall>b \<in> set bs. hi b div 4096 \<le> length d" and "\<forall>b \<in> set (blocks l). \<forall>k. page_in k b \<longrightarrow> written d k"
    and "phys_dirty_size l \<noteq> 0 \<Longrightarrow> length d = unat (phys_dirty_size l)"
proof -
  let ?n = "page_no (last_ram_offset (l\<lparr>blocks := bs\<rparr>))"
  have n: "?n = hi (last bs) div 4096"
    using last_ram_offset_end [of "l\<lparr>blocks := bs\<rparr>"] bs by (simp add: page_no_div)
  have cover: "hi b div 4096 \<le> ?n" if "b \<in> set bs" for b
    using hi_le_last [OF bs(1) that] by (simp add: n div_le_mono)
  have len: "if phys_dirty_size l = 0 then d = realloc_dirty (phys_dirty l) ?n
      else phys_dirty l = Some d \<and> ?n \<le> length d \<and> length d = unat (phys_dirty_size l)"
    using d inv by (auto simp: grown_dirty_def ram_inv_def page_no_def not_less word_le_nat_alt split: if_splits option.splits)
  then show "phys_dirty_size l \<noteq> 0 \<Longrightarrow> length d = unat (phys_dirty_size l)" by simp
  have "?n \<le> length d" using len by (auto simp: length_realloc split: if_splits)
  then show "\<forall>b \<in> set bs. hi b div 4096 \<le> length d" using cover order.trans by blast
  show "\<forall>b \<in> set (blocks l). \<forall>k. page_in k b \<longrightarrow> written d k"
  proof (intro ballI allI impI)
    fix b k assume b: "b \<in> set (blocks l)" "page_in k b"
    then obtain d0 where d0: "phys_dirty l = Some d0" "written d0 k" using inv by (auto simp: ram_inv_def)
    have "block_ok b" using b inv by (auto simp: ram_inv_def blocks_ok_def list_all_iff)
    then have "k < hi b div 4096" using b by (simp add: page_in_end)
    then have "k < ?n" using cover b bs(3) by fastforce
    then show "written d k" using len d0 written_realloc by (auto split: if_splits)
  qed
qed

section \<open>Allocation\<close>

lemma alloc_unfold:
  assumes "host \<noteq> 0"
  shows "qemu_ram_alloc_from_ptr l sz host =
    bind_res (find_ram_offset l (TARGET_PAGE_ALIGN sz)) (\<lambda>p.
    bind_res (qsort_blocks (blocks l @ [\<lparr>blk_host = host, blk_offset = p, blk_length = TARGET_PAGE_ALIGN sz\<rparr>])) (\<lambda>bs.
    bind_res (grown_dirty (l\<lparr>blocks := bs\<rparr>)) (\<lambda>d.
    bind_res (memset_dirty d (page_no p) 0xff (page_no (TARGET_PAGE_ALIGN sz))) (\<lambda>d.
      Inr (p, l\<lparr>blocks := bs, phys_dirty := Some d\<rparr>)))))"
  using assms by (simp add: qemu_ram_alloc_from_ptr_def grown_dirty_def Let_def)

text \<open>The place of a new block: what allocation returns once a gap is found.\<close>

lemma alloc_step:
  assumes inv: "ram_inv l" and free: "free_at (blocks l) p (TARGET_PAGE_ALIGN sz)"
    and bs: "qsort_blocks (blocks l @ [nb]) = Inr bs"
    and nb: "nb = \<lparr>blk_host = host, blk_offset = p, blk_length = TARGET_PAGE_ALIGN sz\<rparr>"
    and d: "grown_dirty (l\<lparr>blocks := bs\<rparr>) = Inr d"
  shows "\<exists>d'. memset_dirty d (page_no p) 0xff (page_no (TARGET_PAGE_ALIGN sz)) = Inr d' \<and>
    ram_inv (l\<lparr>blocks := bs, phys_dirty := Some d'\<rparr>) \<and> mset bs = add_mset nb (mset (blocks l)) \<and>
    (\<forall>k. page_in k nb \<longrightarrow> k < length d' \<and> d' ! k = Some 0xff)"
proof -
  have nb_ok: "block_ok nb" using free page_align by (simp add: nb free_at_def block_ok_def)
  have "sorted_wrt apart (blocks l @ [nb])" "list_all block_ok (blocks l @ [nb])"
    using inv free sorted_apart [of "blocks l"] nb_ok
    by (auto simp: ram_inv_def sorted_wrt_append apart_def free_at_def nb blocks_ok_def)
  then have ok: "blocks_ok bs" "mset bs = add_mset nb (mset (blocks l))"
    using qsort_blocks_apart [of "blocks l @ [nb]"] bs by auto
  then have set: "set bs = insert nb (set (blocks l))" by (metis set_mset_add_mset_insert set_mset_mset)
  then have "bs \<noteq> []" "set (blocks l) \<subseteq> set bs" by auto
  note grown = grown_dirty_covers [OF inv ok(1) this d]
  have "hi nb div 4096 \<le> length d" using grown(1) set by auto
  then have fits: "page_no p + page_no (TARGET_PAGE_ALIGN sz) \<le> length d"
    using nb_ok by (auto simp: nb page_no_div block_ok_def elim!: dvdE)
  obtain d' where d': "memset_dirty d (page_no p) 0xff (page_no (TARGET_PAGE_ALIGN sz)) = Inr d'" "length d' = length d"
    "\<forall>k. written d k \<longrightarrow> written d' k" "\<forall>k. page_in k nb \<longrightarrow> k < length d' \<and> d' ! k = Some 0xff"
    using memset_dirty_result [OF fits, of "0xff"] by (auto simp: page_in_def nb)
  have "written d' k" if "b \<in> set bs" "page_in k b" for b k
    using that set grown(2) d'(3,4) by (auto simp: written_def)
  moreover have "phys_dirty_size l \<noteq> 0 \<longrightarrow> length d' = unat (phys_dirty_size l)"
    using grown(3) d'(2) set by auto
  ultimately have "ram_inv (l\<lparr>blocks := bs, phys_dirty := Some d'\<rparr>)" using ok(1) by (auto simp: ram_inv_def)
  then show ?thesis using d' ok(2) by blast
qed

lemma alloc_result:
  assumes inv: "ram_inv l"
  shows "case qemu_ram_alloc_from_ptr l sz host of
      Inr (p, l') \<Rightarrow> ram_inv l' \<and> free_at (blocks l) p (TARGET_PAGE_ALIGN sz) \<and>
        mset (blocks l') = add_mset \<lparr>blk_host = host, blk_offset = p, blk_length = TARGET_PAGE_ALIGN sz\<rparr> (mset (blocks l)) \<and>
        (\<forall>k. page_in k \<lparr>blk_host = host, blk_offset = p, blk_length = TARGET_PAGE_ALIGN sz\<rparr> \<longrightarrow> dirty_at l' k = Inr 0xff)
    | Inl e \<Rightarrow> e = Assert \<and> (host = 0 \<or> phys_dirty_size l \<noteq> 0) \<or> e = Exit"
proof (cases "host = 0")
  case True
  then show ?thesis by (simp add: qemu_ram_alloc_from_ptr_def)
next
  case host: False
  have ok: "blocks_ok (blocks l)" using inv by (simp add: ram_inv_def)
  show ?thesis
  proof (cases "find_ram_offset l (TARGET_PAGE_ALIGN sz)")
    case (Inl e)
    then show ?thesis using host by (auto simp: alloc_unfold find_ram_offset_def Let_def split: if_splits)
  next
    case p: (Inr p)
    define nb where "nb = \<lparr>blk_host = host, blk_offset = p, blk_length = TARGET_PAGE_ALIGN sz\<rparr>"
    have free: "free_at (blocks l) p (TARGET_PAGE_ALIGN sz)" using find_ram_offset_free [OF ok p page_align(2)] .
    then have "block_ok nb" using page_align by (simp add: nb_def free_at_def block_ok_def)
    then have "sorted_wrt apart (blocks l @ [nb])" "list_all block_ok (blocks l @ [nb])"
      using ok free sorted_apart [of "blocks l"] by (auto simp: sorted_wrt_append apart_def free_at_def nb_def blocks_ok_def)
    then obtain bs where bs: "qsort_blocks (blocks l @ [nb]) = Inr bs" using qsort_blocks_apart by blast
    show ?thesis
    proof (cases "grown_dirty (l\<lparr>blocks := bs\<rparr>)")
      case (Inl e)
      then have "e = Assert \<and> phys_dirty_size l \<noteq> 0" by (auto simp: grown_dirty_def split: if_splits option.splits)
      then show ?thesis using host p bs Inl by (simp add: alloc_unfold nb_def)
    next
      case d: (Inr d)
      then show ?thesis using alloc_step [OF inv free bs nb_def d] host p bs free by (auto simp: alloc_unfold dirty_at_def nb_def)
    qed
  qed
qed

lemma set_remove_block: "set (remove_block a bs) \<subseteq> set bs"
  by (induction bs) auto

lemma blocks_ok_remove: "blocks_ok bs \<Longrightarrow> blocks_ok (remove_block a bs)"
proof (induction bs)
  case (Cons b bs)
  then show ?case using set_remove_block [of a bs] by (auto simp: blocks_ok_Cons)
qed simp

lemma ram_inv_free: "ram_inv l \<Longrightarrow> ram_inv (qemu_ram_free_from_ptr l addr)"
  using set_remove_block [of addr "blocks l"] by (auto simp: ram_inv_def qemu_ram_free_from_ptr_def blocks_ok_remove)

lemma ram_inv_put: "ram_inv l \<Longrightarrow> put_dirty l k v = Inr l' \<Longrightarrow> ram_inv l'"
  by (fastforce simp: ram_inv_def put_dirty_def written_def nth_list_update split: option.splits if_splits)

lemma ram_inv_mask: "ram_inv l \<Longrightarrow> mask_dirty_loop n p m l = Inr l' \<Longrightarrow> ram_inv l'"
proof (induction n arbitrary: p l)
  case (Suc n)
  then show ?case by (auto simp: bind_res_eq_Inr dest: ram_inv_put)
qed simp

section \<open>The list of blocks over time\<close>

inductive ram_step :: "RAMList \<Rightarrow> RAMList \<Rightarrow> bool" where
  alloc: "qemu_ram_alloc_from_ptr l sz host = Inr (p, l') \<Longrightarrow> ram_step l l'"
| free: "ram_step l (qemu_ram_free_from_ptr l addr)"
| set_dirty: "cpu_physical_memory_set_dirty l addr = Inr l' \<Longrightarrow> ram_step l l'"
| set_flags: "cpu_physical_memory_set_dirty_flags l addr flags = Inr (v, l') \<Longrightarrow> ram_step l l'"
| mask_range: "cpu_physical_memory_mask_dirty_range l start n flags = Inr l' \<Longrightarrow> ram_step l l'"

inductive ram_reachable :: "RAMList \<Rightarrow> bool" where
  empty: "ram_reachable \<lparr>phys_dirty = None, phys_dirty_size = 0, blocks = []\<rparr>"
| preallocated: "ram_reachable (snd (init_ram_size val))"
| step: "ram_reachable l \<Longrightarrow> ram_step l l' \<Longrightarrow> ram_reachable l'"

lemma ram_inv_step: "ram_step l l' \<Longrightarrow> ram_inv l \<Longrightarrow> ram_inv l'"
proof (induction rule: ram_step.induct)
  case (alloc l sz host p l')
  then show ?case using alloc_result [of l host sz] by simp
next
  case (set_flags l addr flags v l')
  then show ?case
    by (auto simp: cpu_physical_memory_set_dirty_flags_def bind_res_eq_Inr Let_def dest: ram_inv_put)
qed (auto simp: ram_inv_free cpu_physical_memory_set_dirty_def cpu_physical_memory_mask_dirty_range_def
    dest: ram_inv_put ram_inv_mask)

text \<open>
  C14. Over every sequence of allocations, releases and changes of dirty flags the RAM blocks stay
  sorted by address, aligned to pages, inside the address space and without overlap; every page of a
  block has its dirty byte, written, inside the allocated bytes; and bytes allocated in advance keep
  their number.
\<close>

theorem ram_blocks_invariant: "ram_reachable l \<Longrightarrow> ram_inv l"
proof (induction rule: ram_reachable.induct)
  case (preallocated val)
  show ?case by (simp add: ram_inv_def init_ram_size_def Let_def)
next
  case (step l l')
  then show ?case using ram_inv_step by blast
qed (simp add: ram_inv_def)

theorem ram_blocks_invariant_witness:
  "\<exists>l'. qemu_ram_alloc_from_ptr \<lparr>phys_dirty = None, phys_dirty_size = 0, blocks = []\<rparr> 5000 0x10000 = Inr (0, l') \<and>
     blocks l' = [\<lparr>blk_host = 0x10000, blk_offset = 0, blk_length = 8192\<rparr>] \<and> ram_inv l'"
proof -
  define l :: RAMList where "l = \<lparr>phys_dirty = None, phys_dirty_size = 0, blocks = []\<rparr>"
  have "TARGET_PAGE_ALIGN 5000 = 8192" by (simp add: page_align_mask)
  then obtain l' where l': "qemu_ram_alloc_from_ptr l 5000 0x10000 = Inr (0, l')"
    "blocks l' = [\<lparr>blk_host = 0x10000, blk_offset = 0, blk_length = 8192\<rparr>]"
    by (simp add: l_def alloc_unfold find_ram_offset_def grown_dirty_def memset_dirty_def page_no_div last_ram_offset_def
        length_realloc)
  then have "ram_inv l'"
    using ram_blocks_invariant [OF ram_reachable.step [OF ram_reachable.empty ram_step.alloc]] unfolding l_def by blast
  then show ?thesis using l' unfolding l_def by blast
qed

text \<open>
  Allocation is best fit: with blocks that are not empty, the address returned is the start of a
  gap between the blocks that is large enough, no other gap that is large enough is smaller, and the
  process exits only when no gap is large enough.
\<close>

theorem find_ram_offset_best_fit:
  assumes ok: "blocks_ok (blocks l)" and ne: "blocks l \<noteq> []" and pos: "list_all (\<lambda>b. blk_length b \<noteq> 0) (blocks l)"
  shows "case find_ram_offset l sz of
      Inr p \<Rightarrow> \<exists>g. (p, g) \<in> set (gaps (blocks l)) \<and> free_at (blocks l) p g \<and> sz \<le> g \<and>
        (\<forall>x \<in> set (gaps (blocks l)). sz \<le> snd x \<longrightarrow> g \<le> snd x)
    | Inl e \<Rightarrow> e = Exit \<and> (\<forall>x \<in> set (gaps (blocks l)). snd x < sz)"
proof -
  obtain b bs where bs: "blocks l = b # bs" using ne by (cases "blocks l") auto
  obtain p g where f: "find_gap sz 0 (b # bs) (RAM_ADDR_MAX, RAM_ADDR_MAX) = (p, g)" by fastforce
  note first = find_gap_first [OF f, folded bs]
  show ?thesis
  proof (cases "p = RAM_ADDR_MAX")
    case False
    then show ?thesis using f first gaps_free [OF ok] bs by (auto simp: find_ram_offset_def)
  next
    case True
    have start: "q \<noteq> RAM_ADDR_MAX" if "(q, h) \<in> set (gaps (blocks l))" for q h
    proof
      assume "q = RAM_ADDR_MAX"
      then have "(4096 :: nat) dvd 2 ^ 64 - 1" using gaps_free [OF ok that] by (simp add: free_at_def unat_RAM_ADDR_MAX)
      then show False by simp
    qed
    then have g: "g = RAM_ADDR_MAX" using first True by blast
    have "h \<noteq> RAM_ADDR_MAX" if "(q, h) \<in> set (gaps (blocks l))" for q h
    proof
      assume "h = RAM_ADDR_MAX"
      then have "hi b \<le> unat q \<or> unat q + (2 ^ 64 - 1) \<le> lo b" "unat q + (2 ^ 64 - 1) < 2 ^ 64"
        using gaps_free [OF ok that] bs by (auto simp: free_at_def unat_RAM_ADDR_MAX)
      moreover have "block_ok b" "len b \<noteq> 0" using ok pos by (auto simp: bs blocks_ok_Cons unat_eq_0)
      ultimately show False by (auto simp: block_ok_def)
    qed
    then have "snd x < sz" if "x \<in> set (gaps (blocks l))" for x
      using that first g by (cases x) (auto simp: RAM_ADDR_MAX_def not_less word_order.extremum_unique)
    then show ?thesis using True f bs by (auto simp: find_ram_offset_def)
  qed
qed

theorem find_ram_offset_best_fit_witness:
  "let l = \<lparr>phys_dirty = None, phys_dirty_size = 0,
       blocks = [\<lparr>blk_host = 1, blk_offset = 4096, blk_length = 4096\<rparr>, \<lparr>blk_host = 1, blk_offset = 16384, blk_length = 4096\<rparr>]\<rparr>
   in find_ram_offset l 8192 = Inr 8192 \<and>
      (\<exists>g. (8192, g) \<in> set (gaps (blocks l)) \<and> (\<forall>x \<in> set (gaps (blocks l)). 8192 \<le> snd x \<longrightarrow> g \<le> snd x))"
proof -
  define l :: RAMList where "l = \<lparr>phys_dirty = None, phys_dirty_size = 0,
       blocks = [\<lparr>blk_host = 1, blk_offset = 4096, blk_length = 4096\<rparr>, \<lparr>blk_host = 1, blk_offset = 16384, blk_length = 4096\<rparr>]\<rparr>"
  have "find_ram_offset l 8192 = Inr 8192" by (simp add: l_def find_ram_offset_def RAM_ADDR_MAX_def)
  moreover have "blocks_ok (blocks l)" "blocks l \<noteq> []" "list_all (\<lambda>b. blk_length b \<noteq> 0) (blocks l)"
    by (simp_all add: l_def blocks_ok_def block_ok_def)
  ultimately show ?thesis using find_ram_offset_best_fit [of l 8192] unfolding l_def [symmetric] Let_def by auto
qed

section \<open>Translation\<close>

text \<open>Blocks whose host memory does not overlap and does not wrap.\<close>

definition host_range :: "RAMBlock \<Rightarrow> nat set" where
  "host_range b = {unat (blk_host b)..<unat (blk_host b) + len b}"

definition hosts_ok :: "RAMBlock list \<Rightarrow> bool" where
  "hosts_ok bs \<longleftrightarrow> list_all (\<lambda>b. blk_host b \<noteq> 0 \<and> unat (blk_host b) + len b < 2 ^ 64) bs \<and>
     sorted_wrt (\<lambda>b c. host_range b \<inter> host_range c = {}) bs"

lemma word_in_range:
  fixes a s n :: u64
  assumes "unat s + unat n < 2 ^ 64"
  shows "a - s < n \<longleftrightarrow> unat s \<le> unat a \<and> unat a < unat s + unat n"
proof (cases "s \<le> a")
  case True
  then show ?thesis by (auto simp: word_less_nat_alt unat_sub word_le_nat_alt)
next
  case False
  then have "unat a < unat s" by (simp add: word_le_nat_alt)
  then have "unat (a - s) = 2 ^ 64 + unat a - unat s" by (simp add: unat_sub_if_size word_size)
  then show ?thesis using \<open>unat a < unat s\<close> assms by (auto simp: word_less_nat_alt)
qed

lemma ptr_in_blocks_eq:
  assumes "blocks_ok bs" and "b \<in> set bs" and "lo b \<le> unat addr" and "unat addr < hi b"
  shows "ptr_in_blocks bs addr = Some (blk_host b + (addr - blk_offset b))"
  using assms
proof (induction bs)
  case (Cons c bs)
  have range: "addr - blk_offset c < blk_length c \<longleftrightarrow> lo c \<le> unat addr \<and> unat addr < hi c"
    using Cons.prems(1) by (intro word_in_range) (simp add: blocks_ok_Cons block_ok_def)
  show ?case
  proof (cases "b = c")
    case False
    then have "hi c \<le> lo b" "b \<in> set bs" "blocks_ok bs" using Cons.prems(1,2) by (auto simp: blocks_ok_Cons)
    then show ?thesis using Cons.IH Cons.prems(3,4) range by simp
  qed (use Cons.prems range in simp)
qed simp

lemma ptr_in_blocks_None:
  assumes "blocks_ok bs"
  shows "ptr_in_blocks bs addr = None \<longleftrightarrow> (\<forall>b \<in> set bs. \<not> (lo b \<le> unat addr \<and> unat addr < hi b))"
  using assms
proof (induction bs)
  case (Cons c bs)
  then show ?case using word_in_range [of "blk_offset c" "blk_length c" addr] by (auto simp: blocks_ok_Cons block_ok_def)
qed simp

lemma addr_in_blocks_eq:
  assumes "hosts_ok bs" and "b \<in> set bs" and "unat p \<in> host_range b"
  shows "addr_in_blocks bs p = Some (blk_offset b + (p - blk_host b))"
  using assms
proof (induction bs)
  case (Cons c bs)
  have c: "blk_host c \<noteq> 0" "p - blk_host c < blk_length c \<longleftrightarrow> unat p \<in> host_range c"
    using Cons.prems(1) word_in_range [of "blk_host c" "blk_length c" p] by (auto simp: hosts_ok_def host_range_def)
  show ?case
  proof (cases "b = c")
    case False
    then have "b \<in> set bs" "host_range c \<inter> host_range b = {}" "hosts_ok bs" using Cons.prems(1,2) by (auto simp: hosts_ok_def)
    then show ?thesis using Cons.IH Cons.prems(3) c by auto
  qed (use Cons.prems c in simp)
qed simp



end
