(* ===== verification/MemDesc.thy ===== *)
theory MemDesc
  imports RamProps
begin

text \<open>
  The memory regions of the guest (\<^verbatim>\<open>libcpu/src/memory.c\<close>): a table of slots, each with the region
  the virtual machine monitor registered and the RAM block that backs it. The access rights of host
  memory, which the code reads from \<^verbatim>\<open>/proc/self/maps\<close>, are an argument: \<open>None\<close> when the range is
  not found, else whether it can be read and written. A region is given by its slot number.
\<close>

section \<open>Regions\<close>

record kvm_region =
  kvm_slot :: u32
  guest_phys_addr :: u64
  memory_size :: u64
  userspace_addr :: u64

record MemoryDesc =
  kvm :: kvm_region
  ram_addr :: ram_addr
  read_only :: bool

record mem_state =
  s_regions :: "MemoryDesc list"
  s_region_count :: nat
  mem_ram :: RAMList

definition MEM_REGION_MAX_COUNT :: nat where
  "MEM_REGION_MAX_COUNT = 32"

definition no_region :: MemoryDesc where
  "no_region = \<lparr>kvm = \<lparr>kvm_slot = 0, guest_phys_addr = 0, memory_size = 0, userspace_addr = 0\<rparr>, ram_addr = 0, read_only = False\<rparr>"

definition mem_start :: "RAMList \<Rightarrow> mem_state" where
  "mem_start l = \<lparr>s_regions = replicate MEM_REGION_MAX_COUNT no_region, s_region_count = 0, mem_ram = l\<rparr>"

text \<open>The result \<^verbatim>\<open>NULL\<close> is \<open>None\<close>.\<close>

definition mem_desc_register :: "(u64 \<Rightarrow> u64 \<Rightarrow> (bool \<times> bool) option) \<Rightarrow> mem_state \<Rightarrow> kvm_region \<Rightarrow> (nat option \<times> mem_state) res" where
  "mem_desc_register access st kr =
     (if memory_size kr = 0 then Inr (None, st)
      else
        let slot = unat (kvm_slot kr) in
        assert_res (slot < MEM_REGION_MAX_COUNT)
          (case access (userspace_addr kr) (memory_size kr) of
             None \<Rightarrow> Inl Exit
           | Some (readable, writable) \<Rightarrow>
               let ro = (readable \<and> \<not> writable) in
               assert_res (\<not> ro)
                 (let r = (s_regions st ! slot)\<lparr>kvm := kr, read_only := ro\<rparr>;
                      cnt = (if s_region_count st < slot + 1 then slot + 1 else s_region_count st)
                  in bind_res (qemu_ram_alloc_from_ptr (mem_ram st) (memory_size kr) (userspace_addr kr)) (\<lambda>(a, l).
                     Inr (Some slot, st\<lparr>s_regions := (s_regions st)[slot := r\<lparr>ram_addr := a\<rparr>], s_region_count := cnt, mem_ram := l\<rparr>)))))"

definition region_has :: "MemoryDesc \<Rightarrow> u64 \<Rightarrow> bool" where
  "region_has r addr \<longleftrightarrow>
     (let a = guest_phys_addr (kvm r); b = a - 1 + memory_size (kvm r)
      in memory_size (kvm r) \<noteq> 0 \<and> addr \<ge> a \<and> addr \<le> b)"

definition mem_desc_find :: "mem_state \<Rightarrow> u64 \<Rightarrow> nat option" where
  "mem_desc_find st addr = find (\<lambda>i. region_has (s_regions st ! i) addr) [0..<s_region_count st]"

definition mem_desc_get_slot :: "mem_state \<Rightarrow> nat \<Rightarrow> MemoryDesc res" where
  "mem_desc_get_slot st slot = assert_res (slot < MEM_REGION_MAX_COUNT) (Inr (s_regions st ! slot))"

definition mem_desc_unregister :: "mem_state \<Rightarrow> nat \<Rightarrow> mem_state res" where
  "mem_desc_unregister st slot =
     (if slot \<ge> length (s_regions st) then Inl Undefined
      else
        let r = s_regions st ! slot in
        if memory_size (kvm r) = 0 then Inr st
        else Inr (st\<lparr>mem_ram := qemu_ram_free_from_ptr (mem_ram st) (ram_addr r), s_regions := (s_regions st)[slot := no_region]\<rparr>))"

definition mem_desc_get_ram_ptr :: "mem_state \<Rightarrow> MemoryDesc \<Rightarrow> u64 res" where
  "mem_desc_get_ram_ptr st r = qemu_get_ram_ptr (mem_ram st) (ram_addr r AND TARGET_PAGE_MASK)"

definition mem_desc_addend :: "MemoryDesc \<Rightarrow> u64 \<Rightarrow> u64" where
  "mem_desc_addend r phys_addr = phys_addr - guest_phys_addr (kvm r) + userspace_addr (kvm r)"

definition mem_desc_get_offset :: "MemoryDesc \<Rightarrow> u64 \<Rightarrow> u64 res" where
  "mem_desc_get_offset r phys_addr =
     (let a = guest_phys_addr (kvm r); b = a - 1 + memory_size (kvm r)
      in if \<not> (phys_addr \<ge> a \<and> phys_addr \<le> b) then Inl Assert else Inr (phys_addr - a))"

section \<open>Regions and their RAM blocks\<close>

definition used :: "mem_state \<Rightarrow> nat \<Rightarrow> bool" where
  "used st i \<longleftrightarrow> i < length (s_regions st) \<and> memory_size (kvm (s_regions st ! i)) \<noteq> 0"

definition backed :: "RAMList \<Rightarrow> MemoryDesc \<Rightarrow> bool" where
  "backed l r \<longleftrightarrow> \<lparr>blk_host = userspace_addr (kvm r), blk_offset = ram_addr r, blk_length = TARGET_PAGE_ALIGN (memory_size (kvm r))\<rparr> \<in> set (blocks l) \<and>
     userspace_addr (kvm r) \<noteq> 0"

definition mem_inv :: "mem_state \<Rightarrow> bool" where
  "mem_inv st \<longleftrightarrow> ram_inv (mem_ram st) \<and> list_all (\<lambda>b. blk_length b \<noteq> 0) (blocks (mem_ram st)) \<and>
     length (s_regions st) = MEM_REGION_MAX_COUNT \<and> s_region_count st \<le> MEM_REGION_MAX_COUNT \<and>
     (\<forall>i. used st i \<longrightarrow> i < s_region_count st \<and> backed (mem_ram st) (s_regions st ! i)) \<and>
     (\<forall>i j. used st i \<longrightarrow> used st j \<longrightarrow> i \<noteq> j \<longrightarrow> ram_addr (s_regions st ! i) \<noteq> ram_addr (s_regions st ! j))"

lemma page_align_pos: "0 < unat sz \<Longrightarrow> unat sz + 4095 < 2 ^ 64 \<Longrightarrow> TARGET_PAGE_ALIGN sz \<noteq> 0"
  using page_align_value [of sz] by (auto simp: unat_eq_0)

lemma register_cases:
  assumes "mem_desc_register access st kr = Inr (res, st')"
  obtains "st' = st" "memory_size kr = 0"
  | a l where "memory_size kr \<noteq> 0" "unat (kvm_slot kr) < 32" "userspace_addr kr \<noteq> 0"
      "qemu_ram_alloc_from_ptr (mem_ram st) (memory_size kr) (userspace_addr kr) = Inr (a, l)"
      "st' = st\<lparr>s_regions := (s_regions st)[unat (kvm_slot kr) := (s_regions st ! unat (kvm_slot kr))\<lparr>kvm := kr, read_only := False, ram_addr := a\<rparr>],
         s_region_count := max (unat (kvm_slot kr) + 1) (s_region_count st), mem_ram := l\<rparr>"
proof -
  show thesis
  proof (cases "memory_size kr = 0")
    case True
    then show thesis using assms that(1) by (simp add: mem_desc_register_def)
  next
    case False
    have "userspace_addr kr \<noteq> 0" if "qemu_ram_alloc_from_ptr (mem_ram st) (memory_size kr) (userspace_addr kr) = Inr x" for x
      using that by (auto simp: qemu_ram_alloc_from_ptr_def)
    then show thesis using assms that(2) False
      by (fastforce simp: mem_desc_register_def assert_res_def bind_res_eq_Inr Let_def MEM_REGION_MAX_COUNT_def max_def
          split: if_splits option.splits prod.splits)
  qed
qed

lemma page_mask_aligned: "4096 dvd unat a \<Longrightarrow> a AND TARGET_PAGE_MASK = a"
proof -
  assume "4096 dvd unat a"
  moreover have "TARGET_PAGE_MASK = - (2 ^ 12)" by (simp add: TARGET_PAGE_MASK_def TARGET_PAGE_SIZE_def TARGET_PAGE_BITS_def)
  ultimately have "unat (a AND TARGET_PAGE_MASK) = unat a" using unat_and_minus_power [of 12 a] by (simp only:) simp
  then show "a AND TARGET_PAGE_MASK = a" by (simp add: word_unat_eq_iff)
qed

lemma no_region_size [simp]: "memory_size (kvm no_region) = 0"
  by (simp add: no_region_def)

lemma remove_block_mem: "b \<in> set bs \<Longrightarrow> blk_offset b \<noteq> a \<Longrightarrow> b \<in> set (remove_block a bs)"
  by (induction bs) auto

lemma free_offset_new:
  assumes "free_at bs p n" and "n \<noteq> 0" and "b \<in> set bs" and "blk_length b \<noteq> 0"
  shows "blk_offset b \<noteq> p"
  using assms by (force simp: free_at_def unat_eq_0)

lemma mem_inv_register:
  assumes inv: "mem_inv st" and reg: "mem_desc_register access st kr = Inr (res, st')" and sz: "unat (memory_size kr) + 4095 < 2 ^ 64"
  shows "mem_inv st'"
  using reg
proof (cases rule: register_cases)
  case 1
  then show ?thesis using inv by simp
next
  case (2 a l)
  define s where "s = unat (kvm_slot kr)"
  define n where "n = TARGET_PAGE_ALIGN (memory_size kr)"
  have n: "n \<noteq> 0" using page_align_pos [OF _ sz] 2(1) by (simp add: n_def unat_gt_0)
  have l: "ram_inv l" "free_at (blocks (mem_ram st)) a n"
    "set (blocks l) = insert \<lparr>blk_host = userspace_addr kr, blk_offset = a, blk_length = n\<rparr> (set (blocks (mem_ram st)))"
    using alloc_result [of "mem_ram st" "userspace_addr kr" "memory_size kr"] 2(4) inv
    by (auto simp: mem_inv_def n_def dest!: arg_cong [where f = set_mset])
  have "list_all (\<lambda>b. blk_length b \<noteq> 0) (blocks l)" using inv n l(3) by (auto simp: mem_inv_def list_all_iff)
  moreover have len: "s < length (s_regions st)" using inv 2(2) by (simp add: mem_inv_def s_def MEM_REGION_MAX_COUNT_def)
  moreover have new: "backed l (s_regions st' ! s)" "ram_addr (s_regions st' ! s) = a"
    using 2(3,5) l(3) len by (auto simp: backed_def s_def n_def)
  moreover have old: "used st i" "s_regions st' ! i = s_regions st ! i" if "used st' i" "i \<noteq> s" for i
    using that 2(5) by (auto simp: used_def s_def)
  moreover have "backed l (s_regions st ! i)" "ram_addr (s_regions st ! i) \<noteq> a" if "used st i" for i
  proof -
    have b: "backed (mem_ram st) (s_regions st ! i)" using inv that by (simp add: mem_inv_def)
    then show "backed l (s_regions st ! i)" using l(3) by (auto simp: backed_def)
    obtain blk where "blk \<in> set (blocks (mem_ram st))" "blk_offset blk = ram_addr (s_regions st ! i)"
      using b by (auto simp: backed_def)
    moreover have "blk_length blk \<noteq> 0" using calculation(1) inv by (auto simp: mem_inv_def list_all_iff)
    ultimately show "ram_addr (s_regions st ! i) \<noteq> a" using free_offset_new [OF l(2) n] by metis
  qed
  moreover have "i < s_region_count st'" if "used st' i" for i
    using that old(1) [of i] inv 2(5) by (cases "i = s") (auto simp: mem_inv_def s_def)
  ultimately show ?thesis
    using inv l(1) 2(2,5) unfolding mem_inv_def by (auto simp: MEM_REGION_MAX_COUNT_def) metis+
qed

lemma mem_inv_unregister:
  assumes inv: "mem_inv st" and "mem_desc_unregister st slot = Inr st'"
  shows "mem_inv st'"
proof (cases "used st slot")
  case False
  then show ?thesis using assms by (auto simp: mem_desc_unregister_def used_def Let_def split: if_splits)
next
  case True
  then have st': "st' = st\<lparr>mem_ram := qemu_ram_free_from_ptr (mem_ram st) (ram_addr (s_regions st ! slot)), s_regions := (s_regions st)[slot := no_region]\<rparr>"
    using assms by (auto simp: mem_desc_unregister_def used_def Let_def)
  have old: "used st i" "i \<noteq> slot" "s_regions st' ! i = s_regions st ! i" if "used st' i" for i
    using that by (cases "i = slot"; auto simp: used_def st')+
  have "backed (mem_ram st') (s_regions st' ! i)" if "used st' i" for i
  proof -
    have "backed (mem_ram st) (s_regions st ! i)" "ram_addr (s_regions st ! i) \<noteq> ram_addr (s_regions st ! slot)"
      using old [OF that] inv True by (auto simp: mem_inv_def)
    then show ?thesis unfolding old(3) [OF that] by (auto simp: backed_def st' qemu_ram_free_from_ptr_def intro: remove_block_mem)
  qed
  moreover have "ram_inv (mem_ram st')" using inv by (simp add: mem_inv_def st' ram_inv_free)
  moreover have "list_all (\<lambda>b. blk_length b \<noteq> 0) (blocks (mem_ram st'))"
    using inv set_remove_block by (fastforce simp: mem_inv_def st' qemu_ram_free_from_ptr_def list_all_iff)
  moreover have "length (s_regions st') = length (s_regions st)" "s_region_count st' = s_region_count st" by (simp_all add: st')
  ultimately show ?thesis using inv old unfolding mem_inv_def by auto
qed

inductive mem_reachable :: "mem_state \<Rightarrow> bool" where
  empty: "mem_reachable (mem_start \<lparr>phys_dirty = None, phys_dirty_size = 0, blocks = []\<rparr>)"
| preallocated: "mem_reachable (mem_start (snd (init_ram_size val)))"
| register: "mem_reachable st \<Longrightarrow> mem_desc_register access st kr = Inr (res, st') \<Longrightarrow> unat (memory_size kr) + 4095 < 2 ^ 64 \<Longrightarrow>
    mem_reachable st'"
| unregister: "mem_reachable st \<Longrightarrow> mem_desc_unregister st slot = Inr st' \<Longrightarrow> mem_reachable st'"

lemma mem_inv_start: "ram_inv l \<Longrightarrow> blocks l = [] \<Longrightarrow> mem_inv (mem_start l)"
  by (auto simp: mem_inv_def mem_start_def used_def MEM_REGION_MAX_COUNT_def)

lemma mem_inv_reachable: "mem_reachable st \<Longrightarrow> mem_inv st"
proof (induction rule: mem_reachable.induct)
  case (preallocated val)
  show ?case by (rule mem_inv_start) (simp_all add: ram_inv_def init_ram_size_def Let_def)
next
  case empty
  show ?case by (rule mem_inv_start) (simp_all add: ram_inv_def)
qed (auto intro: mem_inv_register mem_inv_unregister)

lemma mem_desc_find_least:
  "mem_desc_find st addr = Some i \<longleftrightarrow>
   i < s_region_count st \<and> region_has (s_regions st ! i) addr \<and> (\<forall>j < i. \<not> region_has (s_regions st ! j) addr)"
proof
  assume "mem_desc_find st addr = Some i"
  then obtain k where "k < s_region_count st" "region_has (s_regions st ! ([0..<s_region_count st] ! k)) addr"
    "i = [0..<s_region_count st] ! k" "\<forall>j < k. \<not> region_has (s_regions st ! ([0..<s_region_count st] ! j)) addr"
    by (auto simp: mem_desc_find_def find_Some_iff)
  then show "i < s_region_count st \<and> region_has (s_regions st ! i) addr \<and> (\<forall>j < i. \<not> region_has (s_regions st ! j) addr)"
    by simp
next
  assume "i < s_region_count st \<and> region_has (s_regions st ! i) addr \<and> (\<forall>j < i. \<not> region_has (s_regions st ! j) addr)"
  then show "mem_desc_find st addr = Some i"
    unfolding mem_desc_find_def find_Some_iff by (intro exI [of _ i]) simp
qed

text \<open>
  C15. Over every sequence of registrations and removals of guest memory: the search for a guest
  address returns the lowest slot whose region contains it and nothing when none does, and the
  region found is backed by a RAM block that translates to the host memory it was registered with.
\<close>

theorem guest_memory_backed:
  assumes "mem_reachable st"
  shows "case mem_desc_find st addr of
      None \<Rightarrow> \<forall>i < MEM_REGION_MAX_COUNT. \<not> region_has (s_regions st ! i) addr
    | Some i \<Rightarrow> region_has (s_regions st ! i) addr \<and> (\<forall>j < i. \<not> region_has (s_regions st ! j) addr) \<and>
        mem_desc_get_slot st i = Inr (s_regions st ! i) \<and>
        mem_desc_get_ram_ptr st (s_regions st ! i) = Inr (userspace_addr (kvm (s_regions st ! i)))"
proof (cases "mem_desc_find st addr")
  case None
  have inv: "mem_inv st" using mem_inv_reachable [OF assms] .
  have "\<not> region_has (s_regions st ! i) addr" if "i < MEM_REGION_MAX_COUNT" for i
  proof
    assume has: "region_has (s_regions st ! i) addr"
    then have "used st i" using that inv by (auto simp: used_def region_has_def mem_inv_def Let_def)
    then have "i \<in> set [0..<s_region_count st]" using inv by (simp add: mem_inv_def)
    then show False using None has unfolding mem_desc_find_def find_None_iff by blast
  qed
  then show ?thesis using None by simp
next
  case (Some i)
  have inv: "mem_inv st" using mem_inv_reachable [OF assms] .
  have i: "i < s_region_count st" "region_has (s_regions st ! i) addr" "\<forall>j < i. \<not> region_has (s_regions st ! j) addr"
    using Some unfolding mem_desc_find_least by auto
  then have "i < MEM_REGION_MAX_COUNT" "used st i" using inv by (auto simp: mem_inv_def used_def region_has_def Let_def)
  then have b: "backed (mem_ram st) (s_regions st ! i)" using inv by (simp add: mem_inv_def)
  define blk where "blk = \<lparr>blk_host = userspace_addr (kvm (s_regions st ! i)), blk_offset = ram_addr (s_regions st ! i),
    blk_length = TARGET_PAGE_ALIGN (memory_size (kvm (s_regions st ! i)))\<rparr>"
  have blk: "blk \<in> set (blocks (mem_ram st))" "blk_host blk \<noteq> 0" using b by (auto simp: backed_def blk_def)
  then have ok: "blocks_ok (blocks (mem_ram st))" "block_ok blk" "len blk \<noteq> 0"
    using inv by (auto simp: mem_inv_def ram_inv_def blocks_ok_def list_all_iff unat_eq_0)
  then have "ram_addr (s_regions st ! i) AND TARGET_PAGE_MASK = blk_offset blk"
    by (simp add: blk_def block_ok_def page_mask_aligned)
  moreover have "ptr_in_blocks (blocks (mem_ram st)) (blk_offset blk) = Some (blk_host blk)"
    using ptr_in_blocks_eq [OF ok(1) blk(1), of "blk_offset blk"] ok(3) by simp
  ultimately have "mem_desc_get_ram_ptr st (s_regions st ! i) = Inr (userspace_addr (kvm (s_regions st ! i)))"
    using blk(2) by (simp add: mem_desc_get_ram_ptr_def qemu_get_ram_ptr_def get_ram_ptr_internal_def) (simp add: blk_def)
  then show ?thesis using Some i \<open>i < MEM_REGION_MAX_COUNT\<close> by (simp add: mem_desc_get_slot_def)
qed

theorem guest_memory_backed_witness:
  "\<exists>st. mem_desc_register (\<lambda>_ _. Some (True, True)) (mem_start \<lparr>phys_dirty = None, phys_dirty_size = 0, blocks = []\<rparr>)
       \<lparr>kvm_slot = 1, guest_phys_addr = 0x100000, memory_size = 0x2000, userspace_addr = 0x7f0000\<rparr> = Inr (Some 1, st) \<and>
     mem_desc_find st 0x101000 = Some 1 \<and> mem_desc_get_ram_ptr st (s_regions st ! 1) = Inr 0x7f0000 \<and>
     mem_desc_find st 0x102000 = None"
proof -
  define kr where "kr = \<lparr>kvm_slot = 1, guest_phys_addr = 0x100000, memory_size = 0x2000, userspace_addr = 0x7f0000\<rparr>"
  define l :: RAMList where "l = \<lparr>phys_dirty = None, phys_dirty_size = 0, blocks = []\<rparr>"
  have "TARGET_PAGE_ALIGN 0x2000 = 0x2000" by (simp add: page_align_mask)
  then obtain l' where "qemu_ram_alloc_from_ptr l 0x2000 0x7f0000 = Inr (0, l')"
    by (simp add: l_def alloc_unfold find_ram_offset_def grown_dirty_def memset_dirty_def page_no_div last_ram_offset_def length_realloc)
  then obtain st where st: "mem_desc_register (\<lambda>_ _. Some (True, True)) (mem_start l) kr = Inr (Some 1, st)"
    "s_region_count st = 2" "kvm (s_regions st ! 0) = kvm no_region" "kvm (s_regions st ! 1) = kr"
    by (simp add: mem_desc_register_def kr_def mem_start_def MEM_REGION_MAX_COUNT_def)
  then have "mem_desc_find st 0x101000 = Some 1" "mem_desc_find st 0x102000 = None"
    by (simp_all add: mem_desc_find_def region_has_def kr_def upt_rec)
  moreover have "mem_reachable st"
    using mem_reachable.register [OF mem_reachable.empty, of _ kr "Some 1" st] st(1) by (simp add: l_def kr_def)
  ultimately show ?thesis using guest_memory_backed [of st "0x101000"] st unfolding kr_def l_def by auto
qed

end
