(* ===== verification/Tlb.thy ===== *)
theory Tlb
  imports MemDesc
begin

text \<open>
  The software TLB of the emulator (\<^verbatim>\<open>libcpu/src/exec-tlb.c\<close>, \<^verbatim>\<open>exec-tlb.h\<close>, \<^verbatim>\<open>include/cpu/tlb.h\<close>), the
  watchpoints, which are inserted with its help (\<^verbatim>\<open>exec-bp.c\<close>), and the resetting of dirty flags
  (\<^verbatim>\<open>exec.c\<close>), as they are compiled without \<^verbatim>\<open>CONFIG_SYMBEX\<close>. Translation blocks are numbers. An
  address of the guest has 64 bits. The processors share the memory regions and the RAM blocks of
  \<open>MemDesc\<close> and \<open>RamList\<close>.
\<close>

section \<open>Entries and processors\<close>

record CPUTLBEntry =
  addr_read :: u64
  addr_write :: u64
  addr_code :: u64
  addend :: u64

record CPUWatchpoint =
  wp_vaddr :: u64
  wp_len_mask :: u64
  wp_flags :: u32

record cpu_env =
  tlb_table :: "CPUTLBEntry list list"
  iotlb :: "u64 list list"
  tlb_mask :: "u64 list"
  tlb_flush_addr :: u64
  tlb_flush_mask :: u64
  watchpoints :: "CPUWatchpoint list"
  tb_jmp_cache :: "nat option list"
  current_tb :: "nat option"
  g_tlb_flush_count :: u32

definition CPU_TLB_SIZE :: nat where "CPU_TLB_SIZE = 1024"
definition CPU_TLB_ENTRY_BITS :: nat where "CPU_TLB_ENTRY_BITS = 6"
definition NB_MMU_MODES :: nat where "NB_MMU_MODES = 2"
definition TLB_INVALID_MASK :: u64 where "TLB_INVALID_MASK = 0x800"
definition TLB_NOTDIRTY :: u64 where "TLB_NOTDIRTY = 0x400"
definition TLB_MMIO :: u64 where "TLB_MMIO = 0x200"
definition TLB_MEM_TRACE :: u64 where "TLB_MEM_TRACE = 0x20"
definition PAGE_READ :: u32 where "PAGE_READ = 1"
definition PAGE_WRITE :: u32 where "PAGE_WRITE = 2"
definition PAGE_EXEC :: u32 where "PAGE_EXEC = 4"
definition BP_MEM_READ :: u32 where "BP_MEM_READ = 1"
definition BP_WATCHPOINT_HIT :: u32 where "BP_WATCHPOINT_HIT = 8"
definition BP_GDB :: u32 where "BP_GDB = 16"
definition CODE_DIRTY_FLAG :: u32 where "CODE_DIRTY_FLAG = 2"
definition phys_section_notdirty :: u64 where "phys_section_notdirty = 1"
definition phys_section_watch :: u64 where "phys_section_watch = 3"
definition TB_JMP_CACHE_SIZE :: nat where "TB_JMP_CACHE_SIZE = 4096"
definition TB_JMP_PAGE_BITS :: nat where "TB_JMP_PAGE_BITS = 6"
definition TB_JMP_PAGE_SIZE :: nat where "TB_JMP_PAGE_SIZE = 64"
definition TB_JMP_ADDR_MASK :: u64 where "TB_JMP_ADDR_MASK = 0x3f"
definition TB_JMP_PAGE_MASK :: u64 where "TB_JMP_PAGE_MASK = 0xfc0"

definition s_cputlb_empty_entry :: CPUTLBEntry where
  "s_cputlb_empty_entry = \<lparr>addr_read = - 1, addr_write = - 1, addr_code = - 1, addend = - 1\<rparr>"

definition tlb_index :: "u64 \<Rightarrow> nat" where
  "tlb_index vaddr = unat (drop_bit TARGET_PAGE_BITS vaddr AND 0x3ff)"

section \<open>Jump cache\<close>

definition tb_jmp_cache_hash_page :: "u64 \<Rightarrow> nat" where
  "tb_jmp_cache_hash_page pc =
     (let tmp = pc XOR drop_bit (TARGET_PAGE_BITS - TB_JMP_PAGE_BITS) pc
      in unat (drop_bit (TARGET_PAGE_BITS - TB_JMP_PAGE_BITS) tmp AND TB_JMP_PAGE_MASK))"

definition tb_jmp_cache_hash_func :: "u64 \<Rightarrow> nat" where
  "tb_jmp_cache_hash_func pc =
     (let tmp = pc XOR drop_bit (TARGET_PAGE_BITS - TB_JMP_PAGE_BITS) pc
      in unat ((drop_bit (TARGET_PAGE_BITS - TB_JMP_PAGE_BITS) tmp AND TB_JMP_PAGE_MASK) OR (tmp AND TB_JMP_ADDR_MASK)))"

definition memset_null :: "nat \<Rightarrow> nat \<Rightarrow> nat option list \<Rightarrow> nat option list" where
  "memset_null i n xs = take i xs @ replicate n None @ drop (i + n) xs"

definition tlb_flush_jmp_cache :: "cpu_env \<Rightarrow> u64 \<Rightarrow> cpu_env" where
  "tlb_flush_jmp_cache env addr =
     env\<lparr>tb_jmp_cache := memset_null (tb_jmp_cache_hash_page addr) TB_JMP_PAGE_SIZE
       (memset_null (tb_jmp_cache_hash_page (addr - TARGET_PAGE_SIZE)) TB_JMP_PAGE_SIZE (tb_jmp_cache env))\<rparr>"

section \<open>Flushing\<close>

text \<open>The argument \<^verbatim>\<open>flush_global\<close> is not read.\<close>

definition tlb_flush :: "cpu_env \<Rightarrow> cpu_env" where
  "tlb_flush env =
     env\<lparr>current_tb := None,
       tlb_table := replicate NB_MMU_MODES (replicate CPU_TLB_SIZE s_cputlb_empty_entry),
       tlb_mask := replicate NB_MMU_MODES (push_bit CPU_TLB_ENTRY_BITS (of_nat (CPU_TLB_SIZE - 1))),
       tb_jmp_cache := replicate TB_JMP_CACHE_SIZE None,
       tlb_flush_addr := - 1, tlb_flush_mask := 0,
       g_tlb_flush_count := g_tlb_flush_count env + 1\<rparr>"

definition tlb_flush_entry :: "u64 \<Rightarrow> CPUTLBEntry \<Rightarrow> CPUTLBEntry" where
  "tlb_flush_entry addr te =
     (if addr = addr_read te AND (TARGET_PAGE_MASK OR TLB_INVALID_MASK) \<or>
         addr = addr_write te AND (TARGET_PAGE_MASK OR TLB_INVALID_MASK) \<or>
         addr = addr_code te AND (TARGET_PAGE_MASK OR TLB_INVALID_MASK)
      then s_cputlb_empty_entry else te)"

text \<open>The loops over the MMU modes apply \<open>f\<close> to the entry of one index in every mode.\<close>

definition update_modes :: "nat \<Rightarrow> (CPUTLBEntry \<Rightarrow> CPUTLBEntry) \<Rightarrow> cpu_env \<Rightarrow> cpu_env" where
  "update_modes i f env = env\<lparr>tlb_table := map (\<lambda>row. row[i := f (row ! i)]) (tlb_table env)\<rparr>"

definition tlb_flush_page :: "cpu_env \<Rightarrow> u64 \<Rightarrow> cpu_env" where
  "tlb_flush_page env addr =
     (if addr AND tlb_flush_mask env = tlb_flush_addr env then tlb_flush env
      else
        let addr = addr AND TARGET_PAGE_MASK
        in tlb_flush_jmp_cache (update_modes (tlb_index addr) (tlb_flush_entry addr) (env\<lparr>current_tb := None\<rparr>)) addr)"

section \<open>Large pages\<close>

text \<open>The mask is shifted until the two addresses agree on it; it ends at the latest as 0.\<close>

function widen_mask :: "u64 \<Rightarrow> u64 \<Rightarrow> u64" where
  "widen_mask diff msk = (if diff AND msk \<noteq> 0 then widen_mask diff (push_bit 1 msk) else msk)"
  by auto

lemma shifted_out: "\<exists>n. push_bit n (msk :: u64) = 0"
  by (rule exI [of _ 64]) (rule bit_word_eqI, simp add: bit_push_bit_iff)

termination widen_mask
proof (relation "measure (\<lambda>(diff, msk). LEAST n. push_bit n msk = 0)")
  fix diff msk :: u64
  assume "diff AND msk \<noteq> 0"
  then have nz: "\<not> push_bit 0 msk = 0" by auto
  obtain n where n: "push_bit n msk = 0" using shifted_out by blast
  have "(LEAST n. push_bit n msk = 0) = Suc (LEAST n. push_bit (Suc n) msk = 0)"
    by (rule Least_Suc [OF n nz])
  then have "(LEAST n. push_bit n (push_bit 1 msk) = 0) < (LEAST n. push_bit n msk = 0)" by (simp add: push_bit_push_bit)
  then show "((diff, push_bit 1 msk), diff, msk) \<in> measure (\<lambda>(diff, msk). LEAST n. push_bit n msk = 0)" by simp
qed simp

declare widen_mask.simps [simp del]

definition tlb_add_large_page :: "cpu_env \<Rightarrow> u64 \<Rightarrow> u64 \<Rightarrow> cpu_env" where
  "tlb_add_large_page env vaddr sz =
     (let msk = NOT (sz - 1) in
      if tlb_flush_addr env = - 1 then env\<lparr>tlb_flush_addr := vaddr AND msk, tlb_flush_mask := msk\<rparr>
      else
        let msk = widen_mask (tlb_flush_addr env XOR vaddr) (msk AND tlb_flush_mask env)
        in env\<lparr>tlb_flush_addr := tlb_flush_addr env AND msk, tlb_flush_mask := msk\<rparr>)"

section \<open>Filling\<close>

text \<open>The loop over the watchpoints stops at the first that asks for a trap.\<close>

definition wp_traps :: "u64 \<Rightarrow> u32 \<Rightarrow> CPUWatchpoint \<Rightarrow> bool" where
  "wp_traps vaddr prot wp \<longleftrightarrow> vaddr = wp_vaddr wp AND TARGET_PAGE_MASK \<and> (prot AND PAGE_WRITE \<noteq> 0 \<or> wp_flags wp AND BP_MEM_READ \<noteq> 0)"

definition tlb_set_page :: "mem_state \<Rightarrow> cpu_env \<Rightarrow> u64 \<Rightarrow> u64 \<Rightarrow> u32 \<Rightarrow> nat \<Rightarrow> u64 \<Rightarrow> cpu_env res" where
  "tlb_set_page ms env vaddr paddr prot mmu_idx sz =
     assert_res (sz \<ge> TARGET_PAGE_SIZE)
       (let env = (if sz \<noteq> TARGET_PAGE_SIZE then tlb_add_large_page env vaddr sz else env);
            sreg = map_option (\<lambda>i. s_regions ms ! i) (mem_desc_find ms paddr)
        in bind_res
          (case sreg of
             Some r \<Rightarrow> bind_res (mem_desc_get_offset r paddr) (\<lambda>off.
               Inr (vaddr, mem_desc_addend r paddr, ((ram_addr r AND TARGET_PAGE_MASK) + off) OR phys_section_notdirty))
           | None \<Rightarrow> Inr (vaddr OR TLB_MMIO, 0, paddr)) (\<lambda>(address, ad, io).
        let code_address = address;
            watched = list_ex (wp_traps vaddr prot) (watchpoints env);
            io = (if watched then phys_section_watch + paddr else io);
            address = (if watched then address OR TLB_MMIO else address);
            index = tlb_index vaddr
        in if NB_MMU_MODES \<le> mmu_idx then Inl Undefined
        else bind_res
          (if prot AND PAGE_WRITE \<noteq> 0 then
             case sreg of
               Some r \<Rightarrow> bind_res (mem_desc_get_offset r paddr) (\<lambda>off.
                 bind_res (cpu_physical_memory_is_dirty (mem_ram ms) (ram_addr r + off)) (\<lambda>dirty.
                 Inr (if dirty then address else address OR TLB_NOTDIRTY)))
             | None \<Rightarrow> Inr (address OR TLB_MMIO)
           else Inr (- 1)) (\<lambda>w.
        let te = \<lparr>addr_read = (if prot AND PAGE_READ \<noteq> 0 then address else - 1), addr_write = w,
                  addr_code = (if prot AND PAGE_EXEC \<noteq> 0 then code_address else - 1), addend = ad - vaddr\<rparr>
        in Inr (env\<lparr>iotlb := (iotlb env)[mmu_idx := (iotlb env ! mmu_idx)[index := io - vaddr]],
                    tlb_table := (tlb_table env)[mmu_idx := (tlb_table env ! mmu_idx)[index := te]]\<rparr>))))"

section \<open>Dirty flags\<close>

definition tlb_set_dirty1 :: "u64 \<Rightarrow> CPUTLBEntry \<Rightarrow> CPUTLBEntry" where
  "tlb_set_dirty1 vaddr te =
     (if addr_write te = vaddr OR TLB_NOTDIRTY then te\<lparr>addr_write := addr_write te AND NOT TLB_NOTDIRTY\<rparr> else te)"

definition tlb_set_dirty :: "cpu_env \<Rightarrow> u64 \<Rightarrow> cpu_env" where
  "tlb_set_dirty env vaddr =
     (let vaddr = vaddr AND TARGET_PAGE_MASK in update_modes (tlb_index vaddr) (tlb_set_dirty1 vaddr) env)"

definition tlb_is_dirty_ram :: "CPUTLBEntry \<Rightarrow> bool" where
  "tlb_is_dirty_ram te \<longleftrightarrow> addr_write te AND (TLB_INVALID_MASK OR TLB_MMIO OR TLB_NOTDIRTY) = 0"

definition tlb_reset_dirty_range :: "u64 \<Rightarrow> u64 \<Rightarrow> CPUTLBEntry \<Rightarrow> CPUTLBEntry" where
  "tlb_reset_dirty_range start n te =
     (if tlb_is_dirty_ram te then
        let addr = (addr_write te AND TARGET_PAGE_MASK) + addend te
        in if addr - start < n then te\<lparr>addr_write := addr_write te OR TLB_NOTDIRTY\<rparr> else te
      else te)"

text \<open>The processors, in the order of the list that starts at \<^verbatim>\<open>first_cpu\<close>, and the memory they share.\<close>

record machine =
  cpus :: "cpu_env list"
  mem :: mem_state

definition cpu_physical_memory_reset_dirty :: "machine \<Rightarrow> ram_addr \<Rightarrow> ram_addr \<Rightarrow> u32 \<Rightarrow> machine res" where
  "cpu_physical_memory_reset_dirty M start end dirty_flags =
     (let start = start AND TARGET_PAGE_MASK; end = TARGET_PAGE_ALIGN end; n = end - start
      in if n = 0 then Inr M
      else bind_res (cpu_physical_memory_mask_dirty_range (mem_ram (mem M)) start (ucast n) dirty_flags) (\<lambda>l.
        bind_res (qemu_safe_ram_ptr l start) (\<lambda>start1.
        bind_res (qemu_safe_ram_ptr l (end - 1)) (\<lambda>end1.
        if end1 - start1 \<noteq> (end - 1) - start then Inl Assert
        else Inr (M\<lparr>mem := (mem M)\<lparr>mem_ram := l\<rparr>,
          cpus := map (\<lambda>env. env\<lparr>tlb_table := map (map (tlb_reset_dirty_range start1 n)) (tlb_table env)\<rparr>) (cpus M)\<rparr>)))))"

definition tlb_protect_code :: "machine \<Rightarrow> ram_addr \<Rightarrow> machine res" where
  "tlb_protect_code M ram = cpu_physical_memory_reset_dirty M ram (ram + TARGET_PAGE_SIZE) CODE_DIRTY_FLAG"

definition tlb_unprotect_code_phys :: "machine \<Rightarrow> ram_addr \<Rightarrow> machine res" where
  "tlb_unprotect_code_phys M ram =
     bind_res (cpu_physical_memory_set_dirty_flags (mem_ram (mem M)) ram CODE_DIRTY_FLAG) (\<lambda>(v, l).
     Inr (M\<lparr>mem := (mem M)\<lparr>mem_ram := l\<rparr>\<rparr>))"

section \<open>Watchpoints\<close>

text \<open>\<open>None\<close> is the result \<^verbatim>\<open>-EINVAL\<close> or \<^verbatim>\<open>-ENOENT\<close>, after which nothing has changed.\<close>

definition cpu_watchpoint_insert :: "cpu_env \<Rightarrow> u64 \<Rightarrow> u64 \<Rightarrow> u32 \<Rightarrow> cpu_env option" where
  "cpu_watchpoint_insert env addr sz flags =
     (let len_mask = NOT (sz - 1) in
      if sz AND (sz - 1) \<noteq> 0 \<or> addr AND NOT len_mask \<noteq> 0 \<or> sz = 0 \<or> sz > TARGET_PAGE_SIZE then None
      else
        let wp = \<lparr>wp_vaddr = addr, wp_len_mask = len_mask, wp_flags = flags\<rparr>
        in Some (tlb_flush_page (env\<lparr>watchpoints := (if flags AND BP_GDB \<noteq> 0 then wp # watchpoints env else watchpoints env @ [wp])\<rparr>) addr))"

text \<open>A reference to a watchpoint is its position in the list.\<close>

definition cpu_watchpoint_remove_by_ref :: "cpu_env \<Rightarrow> nat \<Rightarrow> cpu_env" where
  "cpu_watchpoint_remove_by_ref env k =
     tlb_flush_page (env\<lparr>watchpoints := take k (watchpoints env) @ drop (Suc k) (watchpoints env)\<rparr>) (wp_vaddr (watchpoints env ! k))"

fun find_watchpoint :: "(CPUWatchpoint \<Rightarrow> bool) \<Rightarrow> CPUWatchpoint list \<Rightarrow> nat option" where
  "find_watchpoint P [] = None"
| "find_watchpoint P (wp # wps) = (if P wp then Some 0 else map_option Suc (find_watchpoint P wps))"

definition cpu_watchpoint_remove :: "cpu_env \<Rightarrow> u64 \<Rightarrow> u64 \<Rightarrow> u32 \<Rightarrow> cpu_env option" where
  "cpu_watchpoint_remove env addr sz flags =
     (let len_mask = NOT (sz - 1)
      in map_option (cpu_watchpoint_remove_by_ref env)
        (find_watchpoint (\<lambda>wp. addr = wp_vaddr wp \<and> len_mask = wp_len_mask wp \<and> flags = wp_flags wp AND NOT BP_WATCHPOINT_HIT)
          (watchpoints env)))"

text \<open>The traversal keeps its place when it removes: \<open>k\<close> is the position of the next watchpoint, \<open>n\<close> how many are left.\<close>

fun remove_all_from :: "u32 \<Rightarrow> nat \<Rightarrow> nat \<Rightarrow> cpu_env \<Rightarrow> cpu_env" where
  "remove_all_from msk 0 k env = env"
| "remove_all_from msk (Suc n) k env =
     (if wp_flags (watchpoints env ! k) AND msk \<noteq> 0 then remove_all_from msk n k (cpu_watchpoint_remove_by_ref env k)
      else remove_all_from msk n (Suc k) env)"

definition cpu_watchpoint_remove_all :: "cpu_env \<Rightarrow> u32 \<Rightarrow> cpu_env" where
  "cpu_watchpoint_remove_all env msk = remove_all_from msk (length (watchpoints env)) 0 env"

section \<open>Lookup\<close>

text \<open>
  What the load and store helpers of \<^verbatim>\<open>softmmu_template.h\<close> do with an address, up to the access
  itself: fill the TLB, call the handler of the section in the low bits of the address they take from
  \<^verbatim>\<open>iotlb\<close>, split the access, or access the memory of the host.
\<close>

datatype access = Read | Write | Code

datatype lookup = Fill | Io u64 | Unaligned | Direct u64

definition tlb_addr :: "access \<Rightarrow> CPUTLBEntry \<Rightarrow> u64" where
  "tlb_addr ac te = (case ac of Read \<Rightarrow> addr_read te | Write \<Rightarrow> addr_write te | Code \<Rightarrow> addr_code te)"

definition tlb_lookup :: "cpu_env \<Rightarrow> nat \<Rightarrow> access \<Rightarrow> u64 \<Rightarrow> u64 \<Rightarrow> lookup" where
  "tlb_lookup env mmu_idx ac addr data_size =
     (let index = tlb_index addr;
          te = tlb_table env ! mmu_idx ! index;
          ta = tlb_addr ac te AND NOT TLB_MEM_TRACE
      in if addr AND TARGET_PAGE_MASK = ta AND (TARGET_PAGE_MASK OR TLB_INVALID_MASK) then
           if ta AND NOT TARGET_PAGE_MASK \<noteq> 0 then
             if addr AND (data_size - 1) \<noteq> 0 then Unaligned else Io (iotlb env ! mmu_idx ! index)
           else if (addr AND NOT TARGET_PAGE_MASK) + data_size - 1 \<ge> TARGET_PAGE_SIZE then Unaligned
           else Direct (addr + addend te)
         else Fill)"

end
