(* ===== verification/TlbInv.thy ===== *)
theory TlbInv
  imports Tlb
begin

text \<open>
  The TLB over sequences of operations: which entries an operation can change and how, and the
  invariants of the tables the properties of \<open>TlbProps\<close> rest on.
\<close>

section \<open>Addresses and flags\<close>

named_theorems tlb_bits "the masks and flags of the TLB, bit by bit"

lemma page_mask_not: "TARGET_PAGE_MASK = NOT (mask 12)"
  by (simp add: TARGET_PAGE_MASK_def TARGET_PAGE_SIZE_def TARGET_PAGE_BITS_def mask_eq_exp_minus_1 not_eq_complement)

lemma bit_page_mask [tlb_bits]: "bit TARGET_PAGE_MASK n \<longleftrightarrow> 12 \<le> n \<and> n < 64"
  by (auto simp: page_mask_not bit_not_iff bit_mask_iff possible_bit_def)

lemma bit_flag: "bit (2 ^ k :: u64) n \<longleftrightarrow> n = k \<and> k < 64"
  by (auto simp: bit_exp_iff possible_bit_def)

lemma bit_flags [tlb_bits]:
  "bit TLB_INVALID_MASK n \<longleftrightarrow> n = 11"
  "bit TLB_NOTDIRTY n \<longleftrightarrow> n = 10"
  "bit TLB_MMIO n \<longleftrightarrow> n = 9"
  "bit TLB_MEM_TRACE n \<longleftrightarrow> n = 5"
  using bit_flag [of 11 n] bit_flag [of 10 n] bit_flag [of 9 n] bit_flag [of 5 n]
  by (simp_all add: TLB_INVALID_MASK_def TLB_NOTDIRTY_def TLB_MMIO_def TLB_MEM_TRACE_def)

lemmas word_bits = bit_and_iff bit_or_iff bit_not_iff bit_xor_iff

definition page_aligned :: "u64 \<Rightarrow> bool" where
  "page_aligned v \<longleftrightarrow> v AND TARGET_PAGE_MASK = v"

lemma page_aligned_bit: "page_aligned v \<Longrightarrow> bit v n \<Longrightarrow> 12 \<le> n"
  unfolding page_aligned_def by (metis bit_and_iff bit_page_mask)

lemma page_aligned_mask [simp]: "page_aligned (a AND TARGET_PAGE_MASK)"
  by (simp add: page_aligned_def and.assoc)

lemma page_aligned_dvd: "page_aligned v \<longleftrightarrow> 4096 dvd unat v"
proof
  assume "page_aligned v"
  then have "unat v = unat v div 4096 * 4096"
    using unat_and_minus_power [of 12 v] by (simp add: page_aligned_def TARGET_PAGE_MASK_def TARGET_PAGE_SIZE_def TARGET_PAGE_BITS_def)
  then show "4096 dvd unat v" by (metis dvd_triv_right)
qed (simp add: page_aligned_def page_mask_aligned)

text \<open>What the helpers compare with the page of the address; a page with the bit of an invalid entry matches nothing.\<close>

definition tag :: "u64 \<Rightarrow> u64" where
  "tag a = a AND (TARGET_PAGE_MASK OR TLB_INVALID_MASK)"

lemma bit_tag [tlb_bits]: "bit (tag a) n \<longleftrightarrow> bit a n \<and> 11 \<le> n \<and> n < 64"
  by (auto simp: tag_def word_bits tlb_bits)

lemma tag_aligned [simp]: "page_aligned v \<Longrightarrow> tag v = v"
  by (rule bit_word_eqI) (auto simp: tlb_bits dest: page_aligned_bit)

lemma tag_flags [simp]:
  "tag (a OR TLB_NOTDIRTY) = tag a" "tag (a OR TLB_MMIO) = tag a" "tag (a AND NOT TLB_NOTDIRTY) = tag a"
  "tag (a AND NOT TLB_MEM_TRACE) = tag a"
  by (auto intro!: bit_word_eqI simp: tlb_bits word_bits)

lemma tag_empty [simp]: "tag (- 1) \<noteq> a AND TARGET_PAGE_MASK" "a AND TARGET_PAGE_MASK \<noteq> tag (- 1)"
proof -
  have "bit (tag (- 1)) 11" by (simp add: tlb_bits)
  moreover have "\<not> bit (a AND TARGET_PAGE_MASK) 11" by (simp add: tlb_bits word_bits)
  ultimately show "tag (- 1) \<noteq> a AND TARGET_PAGE_MASK" "a AND TARGET_PAGE_MASK \<noteq> tag (- 1)" by metis+
qed

lemma tag_page: "tag w = a AND TARGET_PAGE_MASK \<Longrightarrow> w AND TARGET_PAGE_MASK = a AND TARGET_PAGE_MASK"
proof (rule bit_word_eqI)
  fix n assume "tag w = a AND TARGET_PAGE_MASK" and n: "n < LENGTH(64)"
  then have "bit (tag w) n = bit (a AND TARGET_PAGE_MASK) n" by simp
  then show "bit (w AND TARGET_PAGE_MASK) n = bit (a AND TARGET_PAGE_MASK) n" using n by (auto simp: tlb_bits word_bits)
qed

lemma tlb_index_bound [simp]: "tlb_index a < CPU_TLB_SIZE"
proof -
  have "drop_bit TARGET_PAGE_BITS a AND 0x3ff = take_bit 10 (drop_bit TARGET_PAGE_BITS a)"
    by (simp add: take_bit_eq_mask mask_eq_exp_minus_1)
  then have "tlb_index a = take_bit 10 (unat (drop_bit TARGET_PAGE_BITS a))"
    by (simp add: tlb_index_def unsigned_take_bit_eq)
  then show ?thesis using take_bit_nat_less_exp [of 10 "unat (drop_bit TARGET_PAGE_BITS a)"] by (simp add: CPU_TLB_SIZE_def)
qed

lemma tlb_index_page [simp]: "tlb_index (a AND TARGET_PAGE_MASK) = tlb_index a"
proof -
  have "drop_bit TARGET_PAGE_BITS (a AND TARGET_PAGE_MASK) AND 0x3ff = drop_bit TARGET_PAGE_BITS a AND (0x3ff :: u64)"
    by (rule bit_word_eqI) (auto simp: word_bits tlb_bits bit_drop_bit_eq TARGET_PAGE_BITS_def dest: bit_imp_le_length)
  then show ?thesis by (simp only: tlb_index_def)
qed

section \<open>Operations in sequence\<close>

text \<open>
  An operation runs on one processor or on the memory they share. \<open>SetPage\<close> is what the page walk of
  the processor does when it finds a translation, \<open>SetDirty\<close> what a write to a clean page ends with.
\<close>

datatype cpu_op = Flush | FlushPage u64 | SetPage u64 u64 u32 nat u64 | SetDirty u64
  | WatchInsert u64 u64 u32 | WatchRemove u64 u64 u32 | WatchRemoveAll u32

datatype tlb_op = OnCpu nat cpu_op | ResetDirty ram_addr ram_addr u32 | SetDirtyFlags ram_addr u32

fun cpu_step :: "mem_state \<Rightarrow> cpu_env \<Rightarrow> cpu_op \<Rightarrow> cpu_env res" where
  "cpu_step ms env Flush = Inr (tlb_flush env)"
| "cpu_step ms env (FlushPage a) = Inr (tlb_flush_page env a)"
| "cpu_step ms env (SetPage v p prot m sz) = tlb_set_page ms env v p prot m sz"
| "cpu_step ms env (SetDirty v) = Inr (tlb_set_dirty env v)"
| "cpu_step ms env (WatchInsert a n f) = Inr (case cpu_watchpoint_insert env a n f of None \<Rightarrow> env | Some env' \<Rightarrow> env')"
| "cpu_step ms env (WatchRemove a n f) = Inr (case cpu_watchpoint_remove env a n f of None \<Rightarrow> env | Some env' \<Rightarrow> env')"
| "cpu_step ms env (WatchRemoveAll f) = Inr (cpu_watchpoint_remove_all env f)"

fun machine_step :: "machine \<Rightarrow> tlb_op \<Rightarrow> machine res" where
  "machine_step M (OnCpu c op) =
     (if c < length (cpus M) then bind_res (cpu_step (mem M) (cpus M ! c) op) (\<lambda>env. Inr (M\<lparr>cpus := (cpus M)[c := env]\<rparr>))
      else Inl Undefined)"
| "machine_step M (ResetDirty s e f) = cpu_physical_memory_reset_dirty M s e f"
| "machine_step M (SetDirtyFlags a f) =
     bind_res (cpu_physical_memory_set_dirty_flags (mem_ram (mem M)) a f) (\<lambda>(v, l). Inr (M\<lparr>mem := (mem M)\<lparr>mem_ram := l\<rparr>\<rparr>))"

text \<open>The RAM page of an entry, which a write through the handlers goes to.\<close>

definition entry :: "cpu_env \<Rightarrow> nat \<Rightarrow> nat \<Rightarrow> CPUTLBEntry" where
  "entry env m i = tlb_table env ! m ! i"

definition entry_ram :: "cpu_env \<Rightarrow> nat \<Rightarrow> nat \<Rightarrow> ram_addr" where
  "entry_ram env m i = (iotlb env ! m ! i + (addr_write (entry env m i) AND TARGET_PAGE_MASK)) AND TARGET_PAGE_MASK"

text \<open>
  What the callers keep to: pages are aligned and their sizes powers of two, the notdirty mark is
  removed only once the flags of the page are set, and a range of RAM lies in one block and has less
  than \<open>2 ^ 31\<close> bytes.
\<close>

definition page_size_ok :: "u64 \<Rightarrow> bool" where
  "page_size_ok sz \<longleftrightarrow> list_ex (\<lambda>k. sz = 2 ^ k) [12..<64]"

fun op_ok :: "machine \<Rightarrow> tlb_op \<Rightarrow> bool" where
  "op_ok M (OnCpu c (SetPage v p prot m sz)) \<longleftrightarrow> page_aligned v \<and> page_aligned p \<and> page_size_ok sz"
| "op_ok M (OnCpu c (SetDirty v)) \<longleftrightarrow>
     (let v = v AND TARGET_PAGE_MASK; env = cpus M ! c
      in list_all (\<lambda>m. addr_write (entry env m (tlb_index v)) = v OR TLB_NOTDIRTY \<longrightarrow>
           dirty_at (mem_ram (mem M)) (page_no (entry_ram env m (tlb_index v))) = Inr 0xff) [0..<NB_MMU_MODES])"
| "op_ok M (OnCpu c op) \<longleftrightarrow> True"
| "op_ok M (ResetDirty s e f) \<longleftrightarrow>
     (let s = s AND TARGET_PAGE_MASK; e = TARGET_PAGE_ALIGN e
      in e = s \<or> s < e \<and> e - s < 2 ^ 31 \<and> list_ex (\<lambda>b. s - blk_offset b < blk_length b \<and> e - 1 - blk_offset b < blk_length b) (blocks (mem_ram (mem M))))"
| "op_ok M (SetDirtyFlags a f) \<longleftrightarrow> True"

inductive tlb_trace :: "machine \<Rightarrow> tlb_op list \<Rightarrow> machine \<Rightarrow> bool" where
  start: "tlb_trace M [] M"
| step: "tlb_trace M0 ops M \<Longrightarrow> op_ok M op \<Longrightarrow> machine_step M op = Inr M' \<Longrightarrow> tlb_trace M0 (ops @ [op]) M'"

lemma page_size_ok_iff: "page_size_ok sz \<longleftrightarrow> (\<exists>k. 12 \<le> k \<and> k < 64 \<and> sz = 2 ^ k)"
  unfolding page_size_ok_def list_ex_iff set_upt by auto

definition env_start :: cpu_env where
  "env_start = tlb_flush \<lparr>tlb_table = [], iotlb = replicate NB_MMU_MODES (replicate CPU_TLB_SIZE 0), tlb_mask = [],
     tlb_flush_addr = 0, tlb_flush_mask = 0, watchpoints = [], tb_jmp_cache = [], current_tb = None, g_tlb_flush_count = 0\<rparr>"

definition machine_start :: "nat \<Rightarrow> mem_state \<Rightarrow> machine" where
  "machine_start n ms = \<lparr>cpus = replicate n env_start, mem = ms\<rparr>"

text \<open>The last page that was put into a slot: virtual and physical address, rights and size.\<close>

fun last_fill :: "tlb_op list \<Rightarrow> nat \<Rightarrow> nat \<Rightarrow> nat \<Rightarrow> (u64 \<times> u64 \<times> u32 \<times> u64) option" where
  "last_fill [] c m i = None"
| "last_fill (op # ops) c m i =
     (case last_fill ops c m i of
        Some f \<Rightarrow> Some f
      | None \<Rightarrow> (case op of
          OnCpu c' (SetPage v p prot m' sz) \<Rightarrow> if c' = c \<and> m' = m \<and> tlb_index v = i then Some (v, p, prot, sz) else None
        | _ \<Rightarrow> None))"

lemma last_fill_snoc:
  "last_fill (ops @ [op]) c m i =
     (case op of
        OnCpu c' (SetPage v p prot m' sz) \<Rightarrow> if c' = c \<and> m' = m \<and> tlb_index v = i then Some (v, p, prot, sz) else last_fill ops c m i
      | _ \<Rightarrow> last_fill ops c m i)"
  by (induction ops) (auto split: option.splits tlb_op.splits cpu_op.splits)

section \<open>Shape of the tables\<close>

definition wf_env :: "cpu_env \<Rightarrow> bool" where
  "wf_env env \<longleftrightarrow> length (tlb_table env) = NB_MMU_MODES \<and> list_all (\<lambda>row. length row = CPU_TLB_SIZE) (tlb_table env) \<and>
     length (iotlb env) = NB_MMU_MODES \<and> list_all (\<lambda>row. length row = CPU_TLB_SIZE) (iotlb env) \<and>
     length (tb_jmp_cache env) = TB_JMP_CACHE_SIZE"

lemma wf_table: "wf_env env \<Longrightarrow> m < NB_MMU_MODES \<Longrightarrow> length (tlb_table env ! m) = CPU_TLB_SIZE \<and> length (iotlb env ! m) = CPU_TLB_SIZE"
  by (simp add: wf_env_def list_all_length)

lemma wf_flush [simp]: "wf_env env \<Longrightarrow> wf_env (tlb_flush env)"
  by (simp add: wf_env_def tlb_flush_def list_all_length)

lemma wf_fields [simp]:
  "wf_env (env\<lparr>current_tb := t\<rparr>) = wf_env env" "wf_env (env\<lparr>watchpoints := ws\<rparr>) = wf_env env"
  "wf_env (env\<lparr>tlb_flush_addr := a, tlb_flush_mask := k\<rparr>) = wf_env env"
  by (simp_all add: wf_env_def)

lemma entry_flush [simp]: "m < NB_MMU_MODES \<Longrightarrow> i < CPU_TLB_SIZE \<Longrightarrow> entry (tlb_flush env) m i = s_cputlb_empty_entry"
  by (simp add: entry_def tlb_flush_def)

lemma wf_update_modes: "wf_env env \<Longrightarrow> wf_env (update_modes i f env)"
  by (auto simp: wf_env_def update_modes_def list_all_iff)

lemma entry_update_modes:
  "wf_env env \<Longrightarrow> m < NB_MMU_MODES \<Longrightarrow> j < CPU_TLB_SIZE \<Longrightarrow>
   entry (update_modes i f env) m j = (if i = j then f (entry env m j) else entry env m j)"
  using wf_table [of env m] by (auto simp: entry_def update_modes_def wf_env_def)

lemma hash_page_bound: "tb_jmp_cache_hash_page a + TB_JMP_PAGE_SIZE \<le> TB_JMP_CACHE_SIZE"
proof -
  have "unat (x AND TB_JMP_PAGE_MASK) \<le> 0xfc0" for x :: u64
    using word_and_le1 [of x TB_JMP_PAGE_MASK] by (simp add: TB_JMP_PAGE_MASK_def word_le_nat_alt)
  then show ?thesis by (simp add: tb_jmp_cache_hash_page_def Let_def TB_JMP_PAGE_SIZE_def TB_JMP_CACHE_SIZE_def)
qed

lemma length_memset_null: "i + n \<le> length xs \<Longrightarrow> length (memset_null i n xs) = length xs"
  by (simp add: memset_null_def)

lemma wf_flush_jmp_cache: "wf_env env \<Longrightarrow> wf_env (tlb_flush_jmp_cache env a)"
  by (simp add: wf_env_def tlb_flush_jmp_cache_def length_memset_null hash_page_bound)

lemma wf_flush_page: "wf_env env \<Longrightarrow> wf_env (tlb_flush_page env a)"
  by (simp add: tlb_flush_page_def Let_def wf_flush_jmp_cache wf_update_modes)

lemma wf_large_page: "wf_env env \<Longrightarrow> wf_env (tlb_add_large_page env v sz)"
  by (simp add: tlb_add_large_page_def Let_def)

lemma wf_set_dirty: "wf_env env \<Longrightarrow> wf_env (tlb_set_dirty env v)"
  by (simp add: tlb_set_dirty_def wf_update_modes)

section \<open>Effects on an entry\<close>

lemma jmp_cache_fields [simp]:
  "entry (tlb_flush_jmp_cache env a) = entry env" "iotlb (tlb_flush_jmp_cache env a) = iotlb env"
  "watchpoints (tlb_flush_jmp_cache env a) = watchpoints env" "tlb_flush_addr (tlb_flush_jmp_cache env a) = tlb_flush_addr env"
  "tlb_flush_mask (tlb_flush_jmp_cache env a) = tlb_flush_mask env"
  by (simp_all add: tlb_flush_jmp_cache_def entry_def fun_eq_iff)

lemma update_modes_fields [simp]:
  "iotlb (update_modes i f env) = iotlb env" "watchpoints (update_modes i f env) = watchpoints env"
  "tlb_flush_addr (update_modes i f env) = tlb_flush_addr env" "tlb_flush_mask (update_modes i f env) = tlb_flush_mask env"
  by (simp_all add: update_modes_def)

lemma entry_fields [simp]:
  "entry (env\<lparr>current_tb := t\<rparr>) = entry env" "entry (env\<lparr>watchpoints := ws\<rparr>) = entry env"
  "entry (env\<lparr>tlb_flush_addr := a, tlb_flush_mask := k\<rparr>) = entry env"
  by (simp_all add: entry_def fun_eq_iff)

lemma watchpoints_flush_page [simp]: "watchpoints (tlb_flush_page env a) = watchpoints env"
  by (simp add: tlb_flush_page_def Let_def tlb_flush_def)

lemma iotlb_flush_page [simp]: "iotlb (tlb_flush_page env a) = iotlb env"
  by (simp add: tlb_flush_page_def Let_def tlb_flush_def)

definition same_slot :: "cpu_env \<Rightarrow> cpu_env \<Rightarrow> nat \<Rightarrow> nat \<Rightarrow> bool" where
  "same_slot env' env m i \<longleftrightarrow> entry env' m i = entry env m i \<and> iotlb env' ! m ! i = iotlb env ! m ! i \<and>
     tlb_flush_addr env' = tlb_flush_addr env \<and> tlb_flush_mask env' = tlb_flush_mask env"

lemma flush_page_slot:
  assumes "wf_env env" "m < NB_MMU_MODES" "i < CPU_TLB_SIZE"
  shows "entry (tlb_flush_page env a) m i = s_cputlb_empty_entry \<or> same_slot (tlb_flush_page env a) env m i"
  using assms by (auto simp: tlb_flush_page_def Let_def same_slot_def entry_update_modes tlb_flush_entry_def)

lemma flush_page_drops:
  assumes "wf_env env" "m < NB_MMU_MODES"
  shows "tag (tlb_addr ac (entry (tlb_flush_page env a) m (tlb_index a))) \<noteq> a AND TARGET_PAGE_MASK"
  using assms
  by (auto simp: tlb_flush_page_def Let_def entry_update_modes tlb_flush_entry_def tlb_addr_def s_cputlb_empty_entry_def
      simp flip: tag_def split: access.split)

definition prot_bit :: "access \<Rightarrow> u32" where
  "prot_bit ac = (case ac of Read \<Rightarrow> PAGE_READ | Write \<Rightarrow> PAGE_WRITE | Code \<Rightarrow> PAGE_EXEC)"

definition large_page :: "cpu_env \<Rightarrow> u64 \<Rightarrow> u64 \<Rightarrow> cpu_env" where
  "large_page env v sz = (if sz \<noteq> TARGET_PAGE_SIZE then tlb_add_large_page env v sz else env)"

text \<open>What \<open>tlb_set_page\<close> puts into a slot, with the region of the physical address, if it has one.\<close>

definition page_entry :: "MemoryDesc option \<Rightarrow> bool \<Rightarrow> bool \<Rightarrow> u64 \<Rightarrow> u64 \<Rightarrow> u32 \<Rightarrow> CPUTLBEntry" where
  "page_entry sreg watched dirty v p prot =
     (let code_address = (if sreg = None then v OR TLB_MMIO else v);
          address = (if watched then code_address OR TLB_MMIO else code_address)
      in \<lparr>addr_read = (if prot AND PAGE_READ \<noteq> 0 then address else - 1),
          addr_write = (if prot AND PAGE_WRITE \<noteq> 0 then
             (if sreg = None then address OR TLB_MMIO else if dirty then address else address OR TLB_NOTDIRTY) else - 1),
          addr_code = (if prot AND PAGE_EXEC \<noteq> 0 then code_address else - 1),
          addend = (case sreg of None \<Rightarrow> 0 | Some r \<Rightarrow> mem_desc_addend r p) - v\<rparr>)"

definition page_io :: "MemoryDesc option \<Rightarrow> bool \<Rightarrow> u64 \<Rightarrow> u64 \<Rightarrow> u64" where
  "page_io sreg watched v p =
     (if watched then phys_section_watch + p
      else case sreg of
        None \<Rightarrow> p
      | Some r \<Rightarrow> ((ram_addr r AND TARGET_PAGE_MASK) + (p - guest_phys_addr (kvm r))) OR phys_section_notdirty) - v"

definition region_of :: "mem_state \<Rightarrow> u64 \<Rightarrow> MemoryDesc option" where
  "region_of ms p = map_option (\<lambda>i. s_regions ms ! i) (mem_desc_find ms p)"

lemma region_of_has: "region_of ms p = Some r \<Longrightarrow> region_has r p"
  by (auto simp: region_of_def mem_desc_find_least)

lemma region_offset: "region_has r p \<Longrightarrow> mem_desc_get_offset r p = Inr (p - guest_phys_addr (kvm r))"
  by (auto simp: region_has_def mem_desc_get_offset_def Let_def)

lemma set_page_result:
  assumes "tlb_set_page ms env v p prot m sz = Inr env'"
  obtains dirty where "TARGET_PAGE_SIZE \<le> sz" "m < NB_MMU_MODES"
    "\<And>r. region_of ms p = Some r \<Longrightarrow> dirty \<Longrightarrow> dirty_at (mem_ram ms) (page_no (ram_addr r + (p - guest_phys_addr (kvm r)))) = Inr 0xff"
    "env' = (large_page env v sz)
      \<lparr>iotlb := (iotlb env)[m := (iotlb env ! m)[tlb_index v := page_io (region_of ms p) (list_ex (wp_traps v prot) (watchpoints env)) v p]],
       tlb_table := (tlb_table env)[m := (tlb_table env ! m)[tlb_index v :=
         page_entry (region_of ms p) (list_ex (wp_traps v prot) (watchpoints env)) dirty v p prot]]\<rparr>"
proof -
  have fields: "iotlb (large_page env v sz) = iotlb env" "tlb_table (large_page env v sz) = tlb_table env"
    "watchpoints (large_page env v sz) = watchpoints env"
    by (simp_all add: large_page_def tlb_add_large_page_def Let_def)
  show thesis
  proof (cases "region_of ms p")
    case None
    then show thesis using assms that [of True] fields
      by (auto simp: tlb_set_page_def Let_def page_entry_def page_io_def assert_res_def simp flip: large_page_def region_of_def split: if_splits)
  next
    case (Some r)
    show thesis
    proof (cases "prot AND PAGE_WRITE = 0")
      case True
      then show thesis using assms Some that [of False] fields region_offset [OF region_of_has [OF Some]]
        by (auto simp: tlb_set_page_def Let_def page_entry_def page_io_def assert_res_def simp flip: large_page_def region_of_def split: if_splits)
    next
      case False
      note off = region_offset [OF region_of_has [OF Some]]
      obtain b where b: "dirty_at (mem_ram ms) (page_no (ram_addr r + (p - guest_phys_addr (kvm r)))) = Inr b"
        using assms Some off False
        by (cases "dirty_at (mem_ram ms) (page_no (ram_addr r + (p - guest_phys_addr (kvm r))))")
          (auto simp: tlb_set_page_def Let_def assert_res_def cpu_physical_memory_is_dirty_def simp flip: large_page_def region_of_def split: if_splits)
      then show thesis using assms Some off False that [of "b = 0xff"] fields
        by (auto simp: tlb_set_page_def Let_def page_entry_def page_io_def assert_res_def cpu_physical_memory_is_dirty_def
          simp flip: large_page_def region_of_def split: if_splits)
    qed
  qed
qed

lemma nth_nth_update:
  "m < length xs \<Longrightarrow> j < length (xs ! m) \<Longrightarrow> xs[m := (xs ! m)[j := x]] ! m' ! i = (if m' = m \<and> i = j then x else xs ! m' ! i)"
  by (cases "m' = m"; cases "i = j") simp_all

lemma set_page_slots:
  assumes "wf_env env" and "tlb_set_page ms env v p prot m sz = Inr env'"
  obtains dirty te io where "TARGET_PAGE_SIZE \<le> sz" "m < NB_MMU_MODES" "wf_env env'"
    "\<And>r. region_of ms p = Some r \<Longrightarrow> dirty \<Longrightarrow> dirty_at (mem_ram ms) (page_no (ram_addr r + (p - guest_phys_addr (kvm r)))) = Inr 0xff"
    "te = page_entry (region_of ms p) (list_ex (wp_traps v prot) (watchpoints env)) dirty v p prot"
    "io = page_io (region_of ms p) (list_ex (wp_traps v prot) (watchpoints env)) v p"
    "\<And>m' i. m' < NB_MMU_MODES \<Longrightarrow> i < CPU_TLB_SIZE \<Longrightarrow> entry env' m' i = (if m' = m \<and> i = tlb_index v then te else entry env m' i)"
    "\<And>m' i. m' < NB_MMU_MODES \<Longrightarrow> i < CPU_TLB_SIZE \<Longrightarrow> iotlb env' ! m' ! i = (if m' = m \<and> i = tlb_index v then io else iotlb env ! m' ! i)"
    "watchpoints env' = watchpoints env"
    "tlb_flush_addr env' = tlb_flush_addr (large_page env v sz)" "tlb_flush_mask env' = tlb_flush_mask (large_page env v sz)"
  using assms(2)
proof (rule set_page_result)
  let ?te = "page_entry (region_of ms p) (list_ex (wp_traps v prot) (watchpoints env))"
  let ?io = "page_io (region_of ms p) (list_ex (wp_traps v prot) (watchpoints env)) v p"
  fix dirty
  assume *: "TARGET_PAGE_SIZE \<le> sz" "m < NB_MMU_MODES"
    "\<And>r. region_of ms p = Some r \<Longrightarrow> dirty \<Longrightarrow> dirty_at (mem_ram ms) (page_no (ram_addr r + (p - guest_phys_addr (kvm r)))) = Inr 0xff"
    and env': "env' = (large_page env v sz)\<lparr>iotlb := (iotlb env)[m := (iotlb env ! m)[tlb_index v := ?io]],
       tlb_table := (tlb_table env)[m := (tlb_table env ! m)[tlb_index v := ?te dirty v p prot]]\<rparr>"
  have l: "length (tlb_table env) = NB_MMU_MODES" "length (iotlb env) = NB_MMU_MODES" using assms(1) by (simp_all add: wf_env_def)
  have "wf_env (large_page env v sz)" using assms(1) by (simp add: large_page_def wf_large_page)
  then have wf: "wf_env env'" using assms(1) *(2) wf_table [OF assms(1) *(2)] by (simp add: env' wf_env_def list_all_length nth_list_update)
  have w: "watchpoints env' = watchpoints env" by (simp add: env' large_page_def tlb_add_large_page_def Let_def)
  show thesis
    by (rule that [of dirty "?te dirty v p prot" ?io, OF *(1,2) wf *(3) refl refl]) (use wf_table [OF assms(1) *(2)] l *(2) w in \<open>simp_all add: env' entry_def nth_nth_update\<close>)
qed

section \<open>Properties of slots\<close>

text \<open>A property of the slots of a TLB that an empty entry has and that lasts while the slot stays the same and no watchpoint is added.\<close>

locale slot_property =
  fixes P :: "mem_state \<Rightarrow> cpu_env \<Rightarrow> nat \<Rightarrow> nat \<Rightarrow> bool"
  assumes empty: "entry env m i = s_cputlb_empty_entry \<Longrightarrow> P ms env m i"
    and same: "P ms env m i \<Longrightarrow> same_slot env' env m i \<Longrightarrow> set (watchpoints env') \<subseteq> set (watchpoints env) \<Longrightarrow> P ms env' m i"
begin

definition holds :: "mem_state \<Rightarrow> cpu_env \<Rightarrow> bool" where
  "holds ms env \<longleftrightarrow> wf_env env \<and> (\<forall>m < NB_MMU_MODES. \<forall>i < CPU_TLB_SIZE. P ms env m i)"

lemma holds_flush: "wf_env env \<Longrightarrow> holds ms (tlb_flush env)"
  by (simp add: holds_def empty)

lemma holds_flush_page:
  assumes "holds ms env"
  shows "holds ms (tlb_flush_page env a)"
  unfolding holds_def
proof (intro conjI allI impI)
  show "wf_env (tlb_flush_page env a)" using assms by (simp add: holds_def wf_flush_page)
  fix m i assume m: "m < NB_MMU_MODES" and i: "i < CPU_TLB_SIZE"
  then have P: "P ms env m i" and "wf_env env" using assms by (simp_all add: holds_def)
  from flush_page_slot [OF this(2) m i] show "P ms (tlb_flush_page env a) m i"
    using empty same [OF P] by (metis order_refl watchpoints_flush_page)
qed

lemma holds_fewer_watchpoints:
  assumes "holds ms env" "set ws \<subseteq> set (watchpoints env)"
  shows "holds ms (env\<lparr>watchpoints := ws\<rparr>)"
proof -
  have "same_slot (env\<lparr>watchpoints := ws\<rparr>) env m i" for m i by (simp add: same_slot_def)
  then show ?thesis using assms same [of ms env] by (auto simp: holds_def)
qed

lemma holds_remove_by_ref: "holds ms env \<Longrightarrow> holds ms (cpu_watchpoint_remove_by_ref env k)"
  unfolding cpu_watchpoint_remove_by_ref_def
  by (intro holds_flush_page holds_fewer_watchpoints) (auto dest: in_set_takeD in_set_dropD)

lemma holds_remove: "holds ms env \<Longrightarrow> cpu_watchpoint_remove env a n f = Some env' \<Longrightarrow> holds ms env'"
  by (auto simp: cpu_watchpoint_remove_def Let_def holds_remove_by_ref)

lemma holds_remove_all_from: "holds ms env \<Longrightarrow> holds ms (remove_all_from f n k env)"
  by (induction f n k env rule: remove_all_from.induct) (simp_all add: holds_remove_by_ref)

end

end
