(* ===== verification/TlbDirty.thy ===== *)
theory TlbDirty
  imports TlbInv
begin

text \<open>
  Clean pages and the TLB: an entry lets a store go to the memory of the host only while every dirty
  flag of its RAM page is set, so a store to a page whose flags have been reset reaches the handler.
\<close>

section \<open>RAM of a region\<close>

definition regions_aligned :: "mem_state \<Rightarrow> bool" where
  "regions_aligned ms \<longleftrightarrow> list_all (\<lambda>r. page_aligned (guest_phys_addr (kvm r))) (s_regions ms)"

lemma region_offset_bound:
  assumes "region_has r p"
  shows "unat (p - guest_phys_addr (kvm r)) < unat (memory_size (kvm r))"
proof -
  let ?a = "guest_phys_addr (kvm r)" and ?n = "memory_size (kvm r)"
  have h: "?n \<noteq> 0" "?a \<le> p" "p \<le> ?a - 1 + ?n" using assms by (auto simp: region_has_def Let_def)
  have "unat (p - ?a) = unat p - unat ?a" using h(2) by (simp add: unat_sub)
  also have "\<dots> \<le> unat (?a - 1 + ?n) - unat ?a" using h(3) by (simp add: word_le_nat_alt diff_le_mono)
  also have "\<dots> = unat ((?a - 1 + ?n) - ?a)" using order.trans [OF h(2,3)] by (rule unat_sub [symmetric])
  also have "(?a - 1 + ?n) - ?a = ?n - 1" by simp
  also have "unat (?n - 1) < unat ?n" using h(1) by (simp add: unat_minus_one unat_gt_0)
  finally show ?thesis .
qed

lemma page_align_ge: "TARGET_PAGE_ALIGN sz \<noteq> 0 \<Longrightarrow> unat sz \<le> unat (TARGET_PAGE_ALIGN sz)"
proof -
  assume nz: "TARGET_PAGE_ALIGN sz \<noteq> 0"
  have "unat sz + 4095 < 2 ^ 64"
  proof (rule ccontr)
    assume "\<not> unat sz + 4095 < 2 ^ 64"
    then obtain k where k: "unat sz + 4095 = 2 ^ 64 + k" by (metis le_Suc_ex not_less)
    have "unat sz < 2 ^ 64" using unsigned_less [of sz, where 'a = nat] by simp
    then have "k < 4096" using k by linarith
    moreover have "unat (sz + 4095) = (2 ^ 64 + k) mod 2 ^ 64" using k by (simp add: unat_word_ariths)
    ultimately have "unat (sz + 4095) < 4096" by simp
    then have "unat (TARGET_PAGE_ALIGN sz) = 0"
      using unat_and_minus_power [of 12 "sz + 4095"] unfolding page_align_mask by simp
    then show False using nz by (simp add: unat_eq_0)
  qed
  then show "unat sz \<le> unat (TARGET_PAGE_ALIGN sz)" using page_align_value by simp
qed

lemma page_aligned_diff: "page_aligned p \<Longrightarrow> page_aligned a \<Longrightarrow> a \<le> p \<Longrightarrow> page_aligned (p - a)"
  by (simp add: page_aligned_dvd unat_sub word_le_nat_alt)

lemma region_ram:
  assumes inv: "mem_inv ms" "regions_aligned ms" and r: "region_of ms p = Some r" and p: "page_aligned p"
  defines "q \<equiv> ram_addr r + (p - guest_phys_addr (kvm r))"
  shows "ram_addr r AND TARGET_PAGE_MASK = ram_addr r" and "page_aligned q"
    and "qemu_safe_ram_ptr (mem_ram ms) q = Inr (mem_desc_addend r p)"
    and "\<exists>v. dirty_at (mem_ram ms) (page_no q) = Inr v"
proof -
  let ?off = "p - guest_phys_addr (kvm r)"
  obtain i where i: "mem_desc_find ms p = Some i" "r = s_regions ms ! i" using r by (auto simp: region_of_def)
  have has: "region_has r p" using r by (rule region_of_has)
  have u: "used ms i" "i < length (s_regions ms)" using i has inv by (auto simp: mem_desc_find_least used_def region_has_def Let_def mem_inv_def)
  define b where "b = \<lparr>blk_host = userspace_addr (kvm r), blk_offset = ram_addr r, blk_length = TARGET_PAGE_ALIGN (memory_size (kvm r))\<rparr>"
  have b: "b \<in> set (blocks (mem_ram ms))" using inv u i by (auto simp: mem_inv_def backed_def b_def)
  have ok: "blocks_ok (blocks (mem_ram ms))" "block_ok b" "blk_length b \<noteq> 0"
    using b inv by (auto simp: mem_inv_def ram_inv_def blocks_ok_def list_all_iff)
  have al: "4096 dvd unat (ram_addr r)" using ok(2) by (simp add: block_ok_def b_def)
  then show "ram_addr r AND TARGET_PAGE_MASK = ram_addr r" by (rule page_mask_aligned)
  have off: "unat ?off < len b" using region_offset_bound [OF has] page_align_ge [of "memory_size (kvm r)"] ok(3) by (simp add: b_def)
  have offal: "page_aligned ?off"
    using page_aligned_diff [OF p] inv(2) u i has by (auto simp: regions_aligned_def list_all_length region_has_def Let_def)
  have q: "unat q = lo b + unat ?off"
    using off ok(2) unsigned_less [of q, where 'a = nat] unfolding q_def by (simp add: b_def unat_word_ariths block_ok_def)
  then show "page_aligned q" using al offal by (simp add: page_aligned_dvd b_def)
  have "ptr_in_blocks (blocks (mem_ram ms)) q = Some (blk_host b + (q - blk_offset b))"
    by (rule ptr_in_blocks_eq [OF ok(1) b]) (use q off in simp_all)
  then show "qemu_safe_ram_ptr (mem_ram ms) q = Inr (mem_desc_addend r p)"
    by (simp add: qemu_safe_ram_ptr_def b_def q_def mem_desc_addend_def)
  have "page_in (page_no q) b"
    using q off ok(2) al by (auto simp: page_in_end page_no_div block_ok_def b_def intro!: div_le_mono less_mult_imp_div_less elim!: dvdE)
  then obtain d where "phys_dirty (mem_ram ms) = Some d" "written d (page_no q)" using inv(1) b unfolding mem_inv_def ram_inv_def by blast
  then show "\<exists>v. dirty_at (mem_ram ms) (page_no q) = Inr v" by (auto simp: dirty_at_def written_def)
qed

section \<open>Changing dirty flags\<close>

lemma put_dirty_at: "put_dirty l k v = Inr l' \<Longrightarrow> dirty_at l' j = (if j = k then Inr v else dirty_at l j)"
  by (auto simp: put_dirty_def dirty_at_def nth_list_update split: option.splits if_splits)

lemma put_dirty_blocks: "put_dirty l k v = Inr l' \<Longrightarrow> blocks l' = blocks l"
  by (auto simp: put_dirty_def split: option.splits if_splits)

lemma mask_dirty_at:
  "mask_dirty_loop n p m l = Inr l' \<Longrightarrow> blocks l' = blocks l \<and>
     (\<forall>k. dirty_at l' k = (if p \<le> k \<and> k < p + n then bind_res (dirty_at l k) (\<lambda>v. Inr (v AND m)) else dirty_at l k))"
proof (induction n p m l rule: mask_dirty_loop.induct)
  case (2 n p m l)
  then obtain v l1 where v: "dirty_at l p = Inr v" and l1: "put_dirty l p (v AND m) = Inr l1" and l': "mask_dirty_loop n (p + 1) m l1 = Inr l'"
    by (auto simp: bind_res_eq_Inr)
  have "blocks l' = blocks l1 \<and>
     (\<forall>k. dirty_at l' k = (if p + 1 \<le> k \<and> k < p + 1 + n then bind_res (dirty_at l1 k) (\<lambda>v. Inr (v AND m)) else dirty_at l1 k))"
    using "2.IH" [OF v l1 l'] .
  then show ?case using put_dirty_at [OF l1] put_dirty_blocks [OF l1] v by auto
qed auto

lemma page_align_aligned: "page_aligned x \<Longrightarrow> TARGET_PAGE_ALIGN x = x"
proof -
  assume "page_aligned x"
  then obtain k where k: "unat x = 4096 * k" by (auto simp: page_aligned_dvd)
  moreover have "unat x < 2 ^ 64" using unsigned_less [of x, where 'a = nat] by simp
  ultimately have "unat x + 4095 < 2 ^ 64" by simp
  then show "TARGET_PAGE_ALIGN x = x" using page_align_value [of x] k by (simp add: word_unat_eq_iff)
qed

lemma page_aligned_add: "page_aligned a \<Longrightarrow> page_aligned b \<Longrightarrow> page_aligned (a + b)"
  by (simp add: page_aligned_dvd unat_word_ariths dvd_mod)

lemma page_aligned_sub: "page_aligned a \<Longrightarrow> page_aligned b \<Longrightarrow> page_aligned (a - b)"
proof -
  assume a: "page_aligned a" "page_aligned b"
  then obtain j k where "unat a = 4096 * j" "unat b = 4096 * k" by (auto simp: page_aligned_dvd elim!: dvdE)
  then have "a = of_nat (4096 * j)" "b = of_nat (4096 * k)" by (simp_all add: word_unat_eq_iff unsigned_of_nat take_bit_nat_eq_self flip: \<open>unat a = _\<close> \<open>unat b = _\<close>)
  then obtain w :: u64 where "a - b = 4096 * w" using that [of "of_nat j - of_nat k"] by (simp add: right_diff_distrib)
  then show ?thesis by (simp add: page_aligned_dvd unat_word_ariths dvd_mod)
qed

lemma page_aligned_ALIGN: "page_aligned (TARGET_PAGE_ALIGN x)"
  by (simp add: page_aligned_dvd page_align)

lemma range_pages_aligned:
  assumes "page_aligned s" "page_aligned n" "n < 2 ^ 31"
  shows "range_pages s (ucast n) = unat n div 4096"
proof -
  have n: "unat n < 2 ^ 31" using assms(3) by (simp add: word_less_nat_alt)
  have "n = take_bit 31 n" using n by (simp add: word_unat_eq_iff unsigned_take_bit_eq take_bit_nat_eq_self)
  then have "bit n k \<Longrightarrow> k < 31" for k by (metis bit_take_bit_iff)
  then have "scast (ucast n :: u32) = n"
    by (intro bit_word_eqI) (force simp: bit_simps min_def)
  then have "range_pages s (ucast n) = nat (sint (ucast (drop_bit TARGET_PAGE_BITS n) :: u32))"
    by (simp add: range_pages_def page_align_aligned page_aligned_add assms)
  moreover have "unat (drop_bit TARGET_PAGE_BITS n) = unat n div 4096" by (simp add: unat_drop_bit TARGET_PAGE_BITS_def)
  moreover have "sint w = int (unat w)" if "unat w < 2 ^ 31" for w :: u32
  proof -
    have "signed_take_bit 31 (int (unat w)) = int (unat w)" using that by (simp add: signed_take_bit_int_eq_self del: of_nat_unat)
    then show ?thesis by (simp add: sint_uint flip: uint_nat)
  qed
  ultimately show ?thesis using n by (simp add: unat_ucast_mod div_le_dividend order.strict_trans1)
qed

section \<open>Direct stores go to dirty pages\<close>

definition direct_ok :: "mem_state \<Rightarrow> cpu_env \<Rightarrow> nat \<Rightarrow> nat \<Rightarrow> bool" where
  "direct_ok ms env m i \<longleftrightarrow>
     (let te = entry env m i; q = entry_ram env m i
      in (addr_write te AND (TLB_INVALID_MASK OR TLB_MMIO) = 0 \<longrightarrow> qemu_safe_ram_ptr (mem_ram ms) q = Inr ((addr_write te AND TARGET_PAGE_MASK) + addend te)) \<and>
         (tlb_is_dirty_ram te \<longrightarrow> dirty_at (mem_ram ms) (page_no q) = Inr 0xff))"

lemma no_bits: "a AND b = 0 \<longleftrightarrow> (\<forall>n. \<not> (bit a n \<and> bit (b :: u64) n))"
proof
  assume 0: "a AND b = 0"
  have "\<not> bit (a AND b) n" for n unfolding 0 by simp
  then show "\<forall>n. \<not> (bit a n \<and> bit b n)" by (simp add: bit_and_iff)
qed (rule bit_word_eqI, simp add: bit_and_iff)

lemma flag_bits:
  "w AND (TLB_INVALID_MASK OR TLB_MMIO) = 0 \<longleftrightarrow> \<not> bit w 11 \<and> \<not> bit w 9"
  "tlb_is_dirty_ram te \<longleftrightarrow> \<not> bit (addr_write te) 11 \<and> \<not> bit (addr_write te) 9 \<and> \<not> bit (addr_write te) 10"
  by (auto simp: tlb_is_dirty_ram_def no_bits tlb_bits word_bits)

lemma direct_cong:
  "entry env' m i = entry env m i \<Longrightarrow> iotlb env' ! m ! i = iotlb env ! m ! i \<Longrightarrow> direct_ok ms env' m i = direct_ok ms env m i"
  by (simp add: direct_ok_def entry_ram_def)

interpretation direct: slot_property direct_ok
proof
  fix env m i ms assume "entry env m i = s_cputlb_empty_entry"
  then show "direct_ok ms env m i" by (simp add: direct_ok_def flag_bits s_cputlb_empty_entry_def)
next
  fix ms env m i env' assume "direct_ok ms env m i" "same_slot env' env m i"
  then show "direct_ok ms env' m i" using direct_cong [of env' m i env ms] by (simp add: same_slot_def)
qed

lemma page_entry_write:
  assumes "page_aligned v"
  shows "\<not> bit (addr_write (page_entry sreg watched dirty v p prot)) 11 \<Longrightarrow> \<not> bit (addr_write (page_entry sreg watched dirty v p prot)) 9 \<Longrightarrow>
    sreg \<noteq> None \<and> \<not> watched \<and> addr_write (page_entry sreg watched dirty v p prot) = (if dirty then v else v OR TLB_NOTDIRTY)"
  by (auto simp: page_entry_def Let_def word_bits tlb_bits split: if_splits)

lemma notdirty_page: "page_aligned q \<Longrightarrow> (q OR phys_section_notdirty) AND TARGET_PAGE_MASK = q"
proof (rule bit_word_eqI)
  fix n assume "page_aligned q" "n < LENGTH(64)"
  then show "bit ((q OR phys_section_notdirty) AND TARGET_PAGE_MASK) n = bit q n"
    by (auto simp: phys_section_notdirty_def word_bits tlb_bits bit_1_iff dest: page_aligned_bit)
qed

lemma page_of_flags: "page_aligned v \<Longrightarrow> (v OR TLB_NOTDIRTY) AND TARGET_PAGE_MASK = v"
  by (rule bit_word_eqI) (auto simp: word_bits tlb_bits dest: page_aligned_bit)

lemma direct_set_page:
  assumes h: "direct.holds ms env" and inv: "mem_inv ms" "regions_aligned ms" and al: "page_aligned v" "page_aligned p"
    and set: "tlb_set_page ms env v p prot m sz = Inr env'"
  shows "direct.holds ms env'"
proof -
  have wf: "wf_env env" using h by (simp add: direct.holds_def)
  from wf set show ?thesis
  proof (rule set_page_slots)
    fix dirty te io
    let ?w = "list_ex (wp_traps v prot) (watchpoints env)"
    assume m: "m < NB_MMU_MODES" and wf': "wf_env env'"
      and dirty: "\<And>r. region_of ms p = Some r \<Longrightarrow> dirty \<Longrightarrow> dirty_at (mem_ram ms) (page_no (ram_addr r + (p - guest_phys_addr (kvm r)))) = Inr 0xff"
      and te: "te = page_entry (region_of ms p) ?w dirty v p prot" and io: "io = page_io (region_of ms p) ?w v p"
      and e: "\<And>m' i. m' < NB_MMU_MODES \<Longrightarrow> i < CPU_TLB_SIZE \<Longrightarrow> entry env' m' i = (if m' = m \<and> i = tlb_index v then te else entry env m' i)"
      and ie: "\<And>m' i. m' < NB_MMU_MODES \<Longrightarrow> i < CPU_TLB_SIZE \<Longrightarrow> iotlb env' ! m' ! i = (if m' = m \<and> i = tlb_index v then io else iotlb env ! m' ! i)"
    have new: "direct_ok ms env' m (tlb_index v)"
    proof (cases "bit (addr_write te) 11 \<or> bit (addr_write te) 9")
      case True
      then show ?thesis using e [OF m, of "tlb_index v"] by (auto simp: direct_ok_def flag_bits Let_def)
    next
      case False
      then obtain r where r: "region_of ms p = Some r" "\<not> ?w" "addr_write te = (if dirty then v else v OR TLB_NOTDIRTY)"
        using page_entry_write [OF al(1)] te by blast
      note ram = region_ram [OF inv r(1) al(2)]
      let ?q = "ram_addr r + (p - guest_phys_addr (kvm r))"
      have page: "addr_write te AND TARGET_PAGE_MASK = v" using r(3) al(1) by (simp add: page_of_flags) (simp add: page_aligned_def)
      have "entry_ram env' m (tlb_index v) = ?q"
        using e [OF m, of "tlb_index v"] ie [OF m, of "tlb_index v"] r page ram(1,2)
        by (simp add: entry_ram_def io page_io_def notdirty_page)
      moreover have "addend te = mem_desc_addend r p - v" using r by (simp add: te page_entry_def Let_def)
      moreover have "dirty" if "tlb_is_dirty_ram te" using that r(3) by (auto simp: flag_bits word_bits tlb_bits split: if_splits)
      ultimately show ?thesis using e [OF m, of "tlb_index v"] page ram(3) dirty [OF r(1)] by (simp add: direct_ok_def)
    qed
    have "direct_ok ms env' m' i" if "m' < NB_MMU_MODES" "i < CPU_TLB_SIZE" for m' i
    proof (cases "m' = m \<and> i = tlb_index v")
      case False
      then have "direct_ok ms env' m' i = direct_ok ms env m' i" using e [OF that] ie [OF that] by (intro direct_cong) auto
      then show ?thesis using h that by (simp add: direct.holds_def)
    qed (use new in simp)
    then show "direct.holds ms env'" using wf' by (simp add: direct.holds_def)
  qed
qed

lemma page_dirty_marks [simp]:
  "(w AND NOT TLB_NOTDIRTY) AND TARGET_PAGE_MASK = w AND TARGET_PAGE_MASK"
  "(w OR TLB_NOTDIRTY) AND TARGET_PAGE_MASK = w AND TARGET_PAGE_MASK"
  by (auto intro!: bit_word_eqI simp: word_bits tlb_bits)

lemma direct_marked:
  assumes ok: "direct_ok ms env m i" and e: "entry env' m i = (entry env m i)\<lparr>addr_write := w\<rparr>" and io: "iotlb env' ! m ! i = iotlb env ! m ! i"
    and w: "w = addr_write (entry env m i) AND NOT TLB_NOTDIRTY \<or> w = addr_write (entry env m i) OR TLB_NOTDIRTY"
    and d: "w = addr_write (entry env m i) AND NOT TLB_NOTDIRTY \<Longrightarrow> dirty_at (mem_ram ms) (page_no (entry_ram env m i)) = Inr 0xff"
  shows "direct_ok ms env' m i"
proof -
  have "w AND TARGET_PAGE_MASK = addr_write (entry env m i) AND TARGET_PAGE_MASK" using w by auto
  then have q: "entry_ram env' m i = entry_ram env m i" and page: "addr_write (entry env' m i) AND TARGET_PAGE_MASK = addr_write (entry env m i) AND TARGET_PAGE_MASK"
    using e io by (simp_all add: entry_ram_def)
  have "bit w 11 = bit (addr_write (entry env m i)) 11" "bit w 9 = bit (addr_write (entry env m i)) 9" using w by (auto simp: word_bits tlb_bits)
  moreover have "bit w 10" if "w = addr_write (entry env m i) OR TLB_NOTDIRTY" using that by (simp add: word_bits tlb_bits)
  ultimately show ?thesis using ok w d e q page by (auto simp: direct_ok_def flag_bits Let_def)
qed

lemma direct_set_dirty:
  assumes h: "direct.holds ms env"
    and d: "\<And>m. m < NB_MMU_MODES \<Longrightarrow> addr_write (entry env m (tlb_index v)) = (v AND TARGET_PAGE_MASK) OR TLB_NOTDIRTY \<Longrightarrow>
      dirty_at (mem_ram ms) (page_no (entry_ram env m (tlb_index v))) = Inr 0xff"
  shows "direct.holds ms (tlb_set_dirty env v)"
  unfolding direct.holds_def
proof (intro conjI allI impI)
  have wf: "wf_env env" using h by (simp add: direct.holds_def)
  then show "wf_env (tlb_set_dirty env v)" by (rule wf_set_dirty)
  fix m i assume mi: "m < NB_MMU_MODES" "i < CPU_TLB_SIZE"
  have ok: "direct_ok ms env m i" using h mi by (simp add: direct.holds_def)
  let ?v = "v AND TARGET_PAGE_MASK"
  have e: "entry (tlb_set_dirty env v) m i = (if tlb_index v = i then tlb_set_dirty1 ?v (entry env m i) else entry env m i)"
    using entry_update_modes [OF wf mi] by (simp add: tlb_set_dirty_def)
  have io: "iotlb (tlb_set_dirty env v) = iotlb env" by (simp add: tlb_set_dirty_def)
  show "direct_ok ms (tlb_set_dirty env v) m i"
  proof (cases "tlb_index v = i \<and> addr_write (entry env m i) = ?v OR TLB_NOTDIRTY")
    case True
    then show ?thesis using e io d [OF mi(1)] direct_marked [OF ok, of "tlb_set_dirty env v"] by (auto simp: tlb_set_dirty1_def)
  next
    case False
    then show ?thesis using e io ok direct_cong [of "tlb_set_dirty env v" m i env ms] by (auto simp: tlb_set_dirty1_def)
  qed
qed

section \<open>Resetting dirty flags\<close>

lemma mem_inv_ram:
  "mem_inv ms \<Longrightarrow> ram_inv l \<Longrightarrow> blocks l = blocks (mem_ram ms) \<Longrightarrow> mem_inv (ms\<lparr>mem_ram := l\<rparr>)"
  by (simp add: mem_inv_def used_def backed_def)

lemma safe_ptr_block:
  assumes "blocks_ok bs" "b \<in> set bs" "a - blk_offset b < blk_length b" 
  shows "ptr_in_blocks bs a = Some (blk_host b + (a - blk_offset b))" "lo b \<le> unat a" "unat a < hi b"
proof -
  have b: "block_ok b" using assms by (auto simp: blocks_ok_def list_all_iff)
  have k: "unat (a - blk_offset b) < len b" using assms(3) by (simp add: word_less_nat_alt)
  have "unat (blk_offset b + (a - blk_offset b)) = (lo b + unat (a - blk_offset b)) mod 2 ^ 64" by (simp only: unat_word_ariths) simp
  then have "unat a = lo b + unat (a - blk_offset b)" using b k by (simp add: block_ok_def)
  then show "lo b \<le> unat a" "unat a < hi b" using k by simp_all
  then show "ptr_in_blocks bs a = Some (blk_host b + (a - blk_offset b))" by (rule ptr_in_blocks_eq [OF assms(1,2)])
qed

lemma direct_mem:
  assumes "direct_ok ms env m i" "blocks (mem_ram ms') = blocks (mem_ram ms)"
    and "tlb_is_dirty_ram (entry env m i) \<Longrightarrow> dirty_at (mem_ram ms) (page_no (entry_ram env m i)) = Inr 0xff \<Longrightarrow>
      dirty_at (mem_ram ms') (page_no (entry_ram env m i)) = Inr 0xff"
  shows "direct_ok ms' env m i"
  using assms by (simp add: direct_ok_def Let_def qemu_safe_ram_ptr_def)

lemma entry_ram_aligned: "page_aligned (entry_ram env m i)"
  by (simp add: entry_ram_def)

lemma page_no_range:
  assumes "page_aligned s" "page_aligned q" "page_aligned n" "page_no s \<le> page_no q" "page_no q < page_no s + unat n div 4096"
  shows "unat s \<le> unat q" "unat q < unat s + unat n"
  using assms by (auto simp: page_aligned_dvd page_no_div elim!: dvdE)

text \<open>A range of RAM within a block: an entry for one of its pages points into the range of host addresses.\<close>

lemma block_range_host:
  assumes bs: "blocks_ok bs" "b \<in> set bs" and s: "s - blk_offset b < blk_length b" and e: "e - 1 - blk_offset b < blk_length b"
    and se: "s < e" and q: "unat s \<le> unat q" "unat q < unat s + unat (e - s)"
    and ptr: "ptr_in_blocks bs s = Some s1" "ptr_in_blocks bs q = Some h"
  shows "h - s1 < e - s"
proof -
  have n: "unat (e - s) = unat e - unat s" using se by (simp add: unat_sub)
  have e0: "e \<noteq> 0" using se by auto
  have "unat (e - 1) < hi b" using safe_ptr_block(3) [OF bs e] .
  then have "unat q < hi b" "lo b \<le> unat q"
    using q n se safe_ptr_block(2) [OF bs s] unat_minus_one [OF e0] by (auto simp: word_less_nat_alt)
  then have "h = blk_host b + (q - blk_offset b)" using ptr(2) ptr_in_blocks_eq [OF bs] by fastforce
  moreover have "s1 = blk_host b + (s - blk_offset b)" using ptr(1) safe_ptr_block(1) [OF bs s] by simp
  ultimately have "h - s1 = q - s" by simp
  moreover have "unat (q - s) = unat q - unat s" using q(1) by (simp add: unat_sub word_le_nat_alt)
  ultimately show ?thesis using q se n by (simp add: word_less_nat_alt)
qed

lemma reset_marks:
  assumes "tlb_is_dirty_ram te" "(addr_write te AND TARGET_PAGE_MASK) + addend te - s < n"
  shows "tlb_reset_dirty_range s n te \<noteq> te"
proof
  assume "tlb_reset_dirty_range s n te = te"
  then have "addr_write (tlb_reset_dirty_range s n te) = addr_write te" by simp
  moreover have "addr_write (tlb_reset_dirty_range s n te) = addr_write te OR TLB_NOTDIRTY"
    using assms by (simp add: tlb_reset_dirty_range_def Let_def)
  ultimately have "bit (addr_write te) 10 = bit (addr_write te OR TLB_NOTDIRTY) 10" by simp
  then show False using assms(1) by (simp add: flag_bits word_bits tlb_bits)
qed

lemma direct_reset:
  assumes h: "direct.holds ms env" and inv: "mem_inv ms"
    and al: "page_aligned s" "page_aligned e" and se: "s < e" "e - s < 2 ^ 31"
    and b: "b \<in> set (blocks (mem_ram ms))" "s - blk_offset b < blk_length b" "e - 1 - blk_offset b < blk_length b"
    and l: "cpu_physical_memory_mask_dirty_range (mem_ram ms) s (ucast (e - s)) f = Inr l" and s1: "qemu_safe_ram_ptr l s = Inr s1"
  shows "direct.holds (ms\<lparr>mem_ram := l\<rparr>) (env\<lparr>tlb_table := map (map (tlb_reset_dirty_range s1 (e - s))) (tlb_table env)\<rparr>)"
    (is "direct.holds ?ms ?env")
  unfolding direct.holds_def
proof (intro conjI allI impI)
  have wf: "wf_env env" using h by (simp add: direct.holds_def)
  then show "wf_env ?env" by (auto simp: wf_env_def list_all_iff)
  have na: "page_aligned (e - s)" using al by (simp add: page_aligned_sub)
  have bl: "blocks l = blocks (mem_ram ms)"
    and dirty: "\<And>k. \<not> (page_no s \<le> k \<and> k < page_no s + unat (e - s) div 4096) \<Longrightarrow> dirty_at l k = dirty_at (mem_ram ms) k"
    using mask_dirty_at [OF l [unfolded cpu_physical_memory_mask_dirty_range_def]] range_pages_aligned [OF al(1) na se(2)] by auto
  have bs: "blocks_ok (blocks (mem_ram ms))" using inv by (simp add: mem_inv_def ram_inv_def)
  fix m i assume mi: "m < NB_MMU_MODES" "i < CPU_TLB_SIZE"
  have ok: "direct_ok ms env m i" using h mi by (simp add: direct.holds_def)
  have te: "entry ?env m i = tlb_reset_dirty_range s1 (e - s) (entry env m i)"
    using wf mi wf_table [OF wf mi(1)] by (simp add: entry_def wf_env_def)
  show "direct_ok ?ms ?env m i"
  proof (cases "entry ?env m i = entry env m i")
    case True
    then have ok': "direct_ok ms ?env m i" using ok direct_cong [of ?env m i env ms] by simp
    show ?thesis
    proof (rule direct_mem [OF ok'])
      let ?q = "entry_ram ?env m i"
      assume d: "tlb_is_dirty_ram (entry ?env m i)" "dirty_at (mem_ram ms) (page_no ?q) = Inr 0xff"
      let ?h = "(addr_write (entry ?env m i) AND TARGET_PAGE_MASK) + addend (entry ?env m i)"
      have "ptr_in_blocks (blocks (mem_ram ms)) ?q = Some ?h"
        using ok' d by (auto simp: direct_ok_def flag_bits Let_def qemu_safe_ram_ptr_def split: option.splits)
      moreover have "ptr_in_blocks (blocks (mem_ram ms)) s = Some s1" using s1 bl by (auto simp: qemu_safe_ram_ptr_def split: option.splits)
      moreover have "\<not> ?h - s1 < e - s"
        using reset_marks [of "entry env m i" s1 "e - s"] d te True by auto
      ultimately have "\<not> (unat s \<le> unat ?q \<and> unat ?q < unat s + unat (e - s))"
        using block_range_host [OF bs b se(1)] by blast
      then have "dirty_at l (page_no ?q) = dirty_at (mem_ram ms) (page_no ?q)"
        using dirty page_no_range [OF al(1) entry_ram_aligned na] by blast
      then show "dirty_at (mem_ram ?ms) (page_no ?q) = Inr 0xff" using d by simp
    qed (simp add: bl)
  next
    case False
    then have e': "entry ?env m i = (entry env m i)\<lparr>addr_write := addr_write (entry env m i) OR TLB_NOTDIRTY\<rparr>"
      and dr: "tlb_is_dirty_ram (entry env m i)"
      using te by (auto simp: tlb_reset_dirty_range_def Let_def split: if_splits)
    have "direct_ok ms ?env m i"
      using direct_marked [OF ok e'] dr ok by (simp add: direct_ok_def Let_def)
    then show ?thesis by (rule direct_mem) (simp_all add: bl e' flag_bits word_bits tlb_bits)
  qed
qed

section \<open>Over sequences of operations\<close>

lemma direct_watchpoints: "direct.holds ms env \<Longrightarrow> direct.holds ms (env\<lparr>watchpoints := ws\<rparr>)"
proof -
  have "direct_ok ms (env\<lparr>watchpoints := ws\<rparr>) m i = direct_ok ms env m i" for m i by (rule direct_cong) simp_all
  then show "direct.holds ms env \<Longrightarrow> direct.holds ms (env\<lparr>watchpoints := ws\<rparr>)" by (simp add: direct.holds_def)
qed

lemma direct_insert: "direct.holds ms env \<Longrightarrow> cpu_watchpoint_insert env a n f = Some env' \<Longrightarrow> direct.holds ms env'"
  by (auto simp: cpu_watchpoint_insert_def Let_def intro!: direct.holds_flush_page direct_watchpoints split: if_splits)

definition direct_machine :: "machine \<Rightarrow> bool" where
  "direct_machine M \<longleftrightarrow> mem_inv (mem M) \<and> regions_aligned (mem M) \<and> (\<forall>env \<in> set (cpus M). direct.holds (mem M) env)"

lemma direct_cpu_step:
  assumes "direct.holds ms env" "mem_inv ms" "regions_aligned ms" "op_ok M (OnCpu c op)" "mem M = ms" "cpus M ! c = env" "cpu_step ms env op = Inr env'"
  shows "direct.holds ms env'"
proof (cases op)
  case (SetPage v p prot m sz)
  then show ?thesis using assms by (auto intro: direct_set_page)
next
  case (SetDirty v)
  then have "env' = tlb_set_dirty env v" using assms(7) by simp
  moreover have "direct.holds ms (tlb_set_dirty env v)"
    using assms(4-6) SetDirty by (intro direct_set_dirty [OF assms(1)]) (auto simp: Let_def list_all_iff)
  ultimately show ?thesis by simp
next
  case (WatchInsert a n f)
  then show ?thesis using assms direct_insert [OF assms(1)] by (auto split: option.splits)
next
  case (WatchRemove a n f)
  then show ?thesis using assms direct.holds_remove [OF assms(1)] by (auto split: option.splits)
next
  case Flush
  have "wf_env env" using assms(1) by (simp add: direct.holds_def)
  then show ?thesis using Flush assms(7) direct.holds_flush by auto
next
  case (FlushPage a)
  then show ?thesis using assms(1,7) direct.holds_flush_page by auto
next
  case (WatchRemoveAll f)
  then show ?thesis using assms(1,7) direct.holds_remove_all_from by (auto simp: cpu_watchpoint_remove_all_def)
qed

lemma dirty_flags_at:
  assumes "cpu_physical_memory_set_dirty_flags l a f = Inr (v, l')"
  shows "blocks l' = blocks l" "\<exists>w. dirty_at l (page_no a) = Inr w \<and> v = ucast (ucast w OR f) \<and>
    (\<forall>k. dirty_at l' k = (if k = page_no a then Inr v else dirty_at l k))"
  using assms put_dirty_at put_dirty_blocks by (auto simp: cpu_physical_memory_set_dirty_flags_def bind_res_eq_Inr Let_def)

lemma all_flags: "ucast (0xff OR f :: u32) = (0xff :: u8)"
proof -
  have 1: "(0xff :: u8) = - 1" "(0xff :: u32) = mask 8" by (simp_all add: mask_eq_exp_minus_1)
  show ?thesis unfolding 1 by (rule bit_word_eqI) (auto simp: bit_simps)
qed

lemma direct_flags:
  assumes "direct_machine M" "cpu_physical_memory_set_dirty_flags (mem_ram (mem M)) a f = Inr (v, l)"
  shows "direct_machine (M\<lparr>mem := (mem M)\<lparr>mem_ram := l\<rparr>\<rparr>)"
proof -
  have "ram_inv (mem_ram (mem M))" using assms(1) by (simp add: direct_machine_def mem_inv_def)
  then have "ram_inv l" using assms(2) ram_inv_put by (auto simp: cpu_physical_memory_set_dirty_flags_def bind_res_eq_Inr Let_def)
  moreover note fl = dirty_flags_at [OF assms(2)]
  moreover have "direct_ok (mem M\<lparr>mem_ram := l\<rparr>) env m i" if "direct_ok (mem M) env m i" for env m i
    using fl by (intro direct_mem [OF that]) (auto simp: all_flags)
  ultimately show ?thesis using assms(1) by (auto simp: direct_machine_def mem_inv_ram regions_aligned_def direct.holds_def)
qed

lemma direct_reset_dirty:
  assumes inv: "direct_machine M" and ok: "op_ok M (ResetDirty s e f)" and M': "cpu_physical_memory_reset_dirty M s e f = Inr M'"
  shows "direct_machine M'"
proof -
  define s' e' where "s' = s AND TARGET_PAGE_MASK" and "e' = TARGET_PAGE_ALIGN e"
  show ?thesis
  proof (cases "e' = s'")
    case True
    then show ?thesis using inv M' by (simp add: cpu_physical_memory_reset_dirty_def s'_def e'_def Let_def)
  next
    case False
    then obtain b where se: "s' < e'" "e' - s' < 2 ^ 31"
      and b: "b \<in> set (blocks (mem_ram (mem M)))" "s' - blk_offset b < blk_length b" "e' - 1 - blk_offset b < blk_length b"
      using ok by (auto simp: Let_def list_ex_iff s'_def e'_def)
    obtain l s1 where l: "cpu_physical_memory_mask_dirty_range (mem_ram (mem M)) s' (ucast (e' - s')) f = Inr l"
      and s1: "qemu_safe_ram_ptr l s' = Inr s1"
      and M'': "M' = M\<lparr>mem := (mem M)\<lparr>mem_ram := l\<rparr>,
        cpus := map (\<lambda>env. env\<lparr>tlb_table := map (map (tlb_reset_dirty_range s1 (e' - s'))) (tlb_table env)\<rparr>) (cpus M)\<rparr>"
      using M' False by (auto simp: cpu_physical_memory_reset_dirty_def s'_def e'_def Let_def bind_res_eq_Inr split: if_splits)
    have al: "page_aligned s'" "page_aligned e'" by (simp_all add: s'_def e'_def page_aligned_ALIGN)
    have mi: "mem_inv (mem M)" using inv by (simp add: direct_machine_def)
    have "ram_inv l" "blocks l = blocks (mem_ram (mem M))"
      using mi l ram_inv_mask mask_dirty_at by (auto simp: cpu_physical_memory_mask_dirty_range_def mem_inv_def)
    then have "mem_inv ((mem M)\<lparr>mem_ram := l\<rparr>)" using mi by (simp add: mem_inv_ram)
    then show ?thesis using inv direct_reset [OF _ mi al se b l s1] by (auto simp: direct_machine_def M'' regions_aligned_def)
  qed
qed

lemma direct_step:
  assumes inv: "direct_machine M" and ok: "op_ok M op" and M': "machine_step M op = Inr M'"
  shows "direct_machine M'"
proof (cases op)
  case (OnCpu c cop)
  then obtain env where c: "c < length (cpus M)" and env: "cpu_step (mem M) (cpus M ! c) cop = Inr env" and "M' = M\<lparr>cpus := (cpus M)[c := env]\<rparr>"
    using M' by (auto simp: bind_res_eq_Inr split: if_splits)
  moreover have "direct.holds (mem M) env"
    using inv c ok OnCpu by (intro direct_cpu_step [OF _ _ _ _ refl refl env]) (auto simp: direct_machine_def)
  ultimately show ?thesis using inv by (auto simp: direct_machine_def dest!: set_update_subset_insert [THEN subsetD])
next
  case (ResetDirty s e f)
  then show ?thesis using assms direct_reset_dirty by simp
next
  case (SetDirtyFlags a f)
  then show ?thesis using M' direct_flags [OF inv] by (auto simp: bind_res_eq_Inr)
qed

lemma direct_trace: "tlb_trace M0 ops M \<Longrightarrow> direct_machine M0 \<Longrightarrow> direct_machine M"
  by (induction rule: tlb_trace.induct) (auto intro: direct_step)

lemma wf_env_start: "wf_env env_start"
  by (simp add: env_start_def wf_env_def tlb_flush_def list_all_length)

lemma direct_start: "mem_inv ms \<Longrightarrow> regions_aligned ms \<Longrightarrow> direct_machine (machine_start n ms)"
proof -
  assume "mem_inv ms" "regions_aligned ms"
  moreover have "direct.holds ms env_start"
    using wf_env_start entry_flush by (auto simp: direct.holds_def env_start_def intro!: direct.empty)
  ultimately show ?thesis by (simp add: direct_machine_def machine_start_def)
qed

lemma length_cpus_step: "machine_step M op = Inr M' \<Longrightarrow> length (cpus M') = length (cpus M)"
  by (cases op) (auto simp: bind_res_eq_Inr cpu_physical_memory_reset_dirty_def Let_def split: if_splits)

lemma length_cpus_trace: "tlb_trace M0 ops M \<Longrightarrow> length (cpus M) = length (cpus M0)"
  by (induction rule: tlb_trace.induct) (simp_all add: length_cpus_step)

lemma tlb_trace_append: "tlb_trace M ops' M' \<Longrightarrow> tlb_trace M0 ops M \<Longrightarrow> tlb_trace M0 (ops @ ops') M'"
  by (induction rule: tlb_trace.induct) (auto simp flip: append_assoc intro: tlb_trace.step)

section \<open>Stores\<close>

text \<open>The RAM address of a store: the page of the entry and the offset of the virtual address.\<close>

definition store_ram :: "cpu_env \<Rightarrow> nat \<Rightarrow> u64 \<Rightarrow> ram_addr" where
  "store_ram env m a = entry_ram env m (tlb_index a) + (a AND NOT TARGET_PAGE_MASK)"

lemma page_offset: "unat (a AND NOT TARGET_PAGE_MASK) < 4096" "(a AND TARGET_PAGE_MASK) + (a AND NOT TARGET_PAGE_MASK) = a"
proof -
  have m: "a AND NOT TARGET_PAGE_MASK = take_bit 12 a" by (simp add: page_mask_not take_bit_eq_mask)
  then show "unat (a AND NOT TARGET_PAGE_MASK) < 4096"
    using take_bit_nat_less_exp [of 12 "unat a"] by (simp add: unsigned_take_bit_eq)
  show "(a AND TARGET_PAGE_MASK) + (a AND NOT TARGET_PAGE_MASK) = a"
    by (subst disjunctive_add) (auto simp: word_bits tlb_bits intro!: bit_word_eqI)
qed

lemma ptr_in_blocks_SomeD:
  "ptr_in_blocks bs a = Some h \<Longrightarrow> \<exists>b \<in> set bs. a - blk_offset b < blk_length b \<and> h = blk_host b + (a - blk_offset b)"
  by (induction bs) (auto split: if_splits)

lemma ptr_within_page:
  assumes bs: "blocks_ok bs" and q: "page_aligned q" and ptr: "ptr_in_blocks bs q = Some h" and off: "unat off < 4096"
  shows "ptr_in_blocks bs (q + off) = Some (h + off)" "page_no (q + off) = page_no q"
proof -
  obtain b where b: "b \<in> set bs" "q - blk_offset b < blk_length b" "h = blk_host b + (q - blk_offset b)" using ptr_in_blocks_SomeD [OF ptr] by blast
  have "block_ok b" using bs b(1) by (auto simp: blocks_ok_def list_all_iff)
  then obtain j where j: "hi b = 4096 * j" "hi b < 2 ^ 64" unfolding block_ok_def by (metis dvd_add dvdE)
  obtain k where k: "unat q = 4096 * k" using q by (auto simp: page_aligned_dvd elim!: dvdE)
  have in_b: "lo b \<le> unat q" "unat q < hi b" using safe_ptr_block(2,3) [OF bs b(1,2)] .
  then have "k < j" using j(1) k by simp
  then have "unat q + unat off < hi b" unfolding j(1) k using off by linarith
  note hi = this j(2) in_b(1)
  then have u: "unat (q + off) = unat q + unat off" by (simp add: unat_word_ariths)
  show "page_no (q + off) = page_no q" using u k off by (simp add: page_no_div)
  have "ptr_in_blocks bs (q + off) = Some (blk_host b + (q + off - blk_offset b))"
    by (rule ptr_in_blocks_eq [OF bs b(1)]) (use u hi in simp_all)
  then show "ptr_in_blocks bs (q + off) = Some (h + off)" by (simp add: b(3))
qed

lemma lookup_hit:
  "tlb_lookup env m ac a sz \<noteq> Fill \<Longrightarrow> tag (tlb_addr ac (entry env m (tlb_index a))) = a AND TARGET_PAGE_MASK"
  using tag_flags(4) by (auto simp: tlb_lookup_def Let_def entry_def simp flip: tag_def split: if_splits)

lemma lookup_direct:
  assumes "tlb_lookup env m ac a sz = Direct h"
  shows "h = a + addend (entry env m (tlb_index a))" "\<And>n. n < 12 \<Longrightarrow> n \<noteq> 5 \<Longrightarrow> \<not> bit (tlb_addr ac (entry env m (tlb_index a))) n"
proof -
  have "(tlb_addr ac (entry env m (tlb_index a)) AND NOT TLB_MEM_TRACE) AND NOT TARGET_PAGE_MASK = 0"
    using assms by (auto simp: tlb_lookup_def Let_def entry_def split: if_splits)
  then have *: "\<not> (bit (tlb_addr ac (entry env m (tlb_index a)) AND NOT TLB_MEM_TRACE) n \<and> bit (NOT TARGET_PAGE_MASK) n)" for n
    unfolding no_bits by blast
  show "\<not> bit (tlb_addr ac (entry env m (tlb_index a))) n" if "n < 12" "n \<noteq> 5" for n
    using * [of n] that by (simp add: word_bits tlb_bits)
  show "h = a + addend (entry env m (tlb_index a))" using assms by (auto simp: tlb_lookup_def Let_def entry_def split: if_splits)
qed

lemma direct_store:
  assumes h: "direct.holds ms env" and inv: "mem_inv ms" and m: "m < NB_MMU_MODES" and l: "tlb_lookup env m Write a sz = Direct h"
  shows "qemu_safe_ram_ptr (mem_ram ms) (store_ram env m a) = Inr h" "dirty_at (mem_ram ms) (page_no (store_ram env m a)) = Inr 0xff"
proof -
  let ?te = "entry env m (tlb_index a)" and ?q = "entry_ram env m (tlb_index a)" and ?off = "a AND NOT TARGET_PAGE_MASK"
  have dr: "tlb_is_dirty_ram ?te" using lookup_direct(2) [OF l] by (simp add: flag_bits tlb_addr_def)
  have page: "addr_write ?te AND TARGET_PAGE_MASK = a AND TARGET_PAGE_MASK"
    using tag_page lookup_hit [of env m Write a sz] l by (simp add: tlb_addr_def)
  have "direct_ok ms env m (tlb_index a)" using h m by (simp add: direct.holds_def)
  then have ptr: "ptr_in_blocks (blocks (mem_ram ms)) ?q = Some ((a AND TARGET_PAGE_MASK) + addend ?te)" and d: "dirty_at (mem_ram ms) (page_no ?q) = Inr 0xff"
    using dr page by (auto simp: direct_ok_def flag_bits Let_def qemu_safe_ram_ptr_def split: option.splits)
  have bs: "blocks_ok (blocks (mem_ram ms))" using inv by (simp add: mem_inv_def ram_inv_def)
  note within = ptr_within_page [OF bs entry_ram_aligned ptr page_offset(1) [of a]]
  show "dirty_at (mem_ram ms) (page_no (store_ram env m a)) = Inr 0xff" using d within(2) by (simp add: store_ram_def)
  have "(a AND TARGET_PAGE_MASK) + addend ?te + ?off = h"
    using lookup_direct(1) [OF l] page_offset(2) [of a] by (metis add.assoc add.commute)
  then show "qemu_safe_ram_ptr (mem_ram ms) (store_ram env m a) = Inr h"
    using within(1) by (simp add: store_ram_def qemu_safe_ram_ptr_def)
qed

section \<open>Protected code\<close>

definition code_clean :: "machine \<Rightarrow> nat \<Rightarrow> bool" where
  "code_clean M k \<longleftrightarrow> (case dirty_at (mem_ram (mem M)) k of Inl e \<Rightarrow> False | Inr v \<Rightarrow> \<not> bit v 1)"

fun dirties :: "nat \<Rightarrow> tlb_op \<Rightarrow> bool" where
  "dirties k (SetDirtyFlags a f) \<longleftrightarrow> page_no a = k"
| "dirties k op \<longleftrightarrow> False"

lemma reset_dirty_at:
  assumes "cpu_physical_memory_reset_dirty M s e f = Inr M'"
  shows "dirty_at (mem_ram (mem M')) k \<in> {dirty_at (mem_ram (mem M)) k, bind_res (dirty_at (mem_ram (mem M)) k) (\<lambda>v. Inr (v AND ucast (NOT f)))}"
  using assms mask_dirty_at
  by (fastforce simp: cpu_physical_memory_reset_dirty_def Let_def bind_res_eq_Inr cpu_physical_memory_mask_dirty_range_def split: if_splits)

lemma code_clean_step:
  assumes "code_clean M k" "machine_step M op = Inr M'" "\<not> dirties k op"
  shows "code_clean M' k"
proof (cases op)
  case (OnCpu c cop)
  then show ?thesis using assms by (auto simp: code_clean_def bind_res_eq_Inr split: if_splits)
next
  case (ResetDirty s e f)
  then show ?thesis using assms reset_dirty_at [of M s e f M' k] by (auto simp: code_clean_def word_bits split: sum.splits if_splits)
next
  case (SetDirtyFlags a f)
  then show ?thesis using assms dirty_flags_at [of "mem_ram (mem M)" a f] by (force simp: code_clean_def bind_res_eq_Inr split: sum.splits)
qed

lemma code_clean_trace: "tlb_trace M0 ops M \<Longrightarrow> code_clean M0 k \<Longrightarrow> \<forall>op \<in> set ops. \<not> dirties k op \<Longrightarrow> code_clean M k"
  by (induction rule: tlb_trace.induct) (auto intro: code_clean_step)

lemma protect_code_clean:
  assumes ram: "page_aligned ram" and M': "tlb_protect_code M ram = Inr M'"
  shows "code_clean M' (page_no ram)"
proof -
  have sz: "page_aligned TARGET_PAGE_SIZE" "TARGET_PAGE_SIZE \<noteq> 0" "TARGET_PAGE_SIZE < 2 ^ 31" "unat TARGET_PAGE_SIZE div 4096 = Suc 0"
    by (simp_all add: page_aligned_dvd TARGET_PAGE_SIZE_def TARGET_PAGE_BITS_def)
  obtain l where l: "cpu_physical_memory_mask_dirty_range (mem_ram (mem M)) ram (ucast TARGET_PAGE_SIZE) CODE_DIRTY_FLAG = Inr l" "mem_ram (mem M') = l"
    using M' ram sz page_align_aligned [OF page_aligned_add [OF ram sz(1)]]
    by (auto simp: tlb_protect_code_def cpu_physical_memory_reset_dirty_def Let_def bind_res_eq_Inr page_aligned_def split: if_splits)
  then obtain v where "dirty_at l (page_no ram) = Inr (v AND ucast (NOT CODE_DIRTY_FLAG))"
    using put_dirty_at [of "mem_ram (mem M)" "page_no ram"] range_pages_aligned [OF ram sz(1,3)] sz(4)
    by (auto simp: cpu_physical_memory_mask_dirty_range_def bind_res_eq_Inr)
  moreover have "bit (2 :: u32) 1" by (simp add: bit_iff_odd)
  ultimately show ?thesis using l(2) by (simp add: code_clean_def word_bits bit_ucast_iff CODE_DIRTY_FLAG_def)
qed

section \<open>A machine with two pages of RAM\<close>

text \<open>The first page has the dirty flags \<open>v\<close>.\<close>

definition sample_region :: kvm_region where
  "sample_region = \<lparr>kvm_slot = 1, guest_phys_addr = 0x100000, memory_size = 0x2000, userspace_addr = 0x7f0000\<rparr>"

definition sample_ram :: "u8 \<Rightarrow> RAMList" where
  "sample_ram v = \<lparr>phys_dirty = Some [Some v, Some 0xff], phys_dirty_size = 0, blocks = [\<lparr>blk_host = 0x7f0000, blk_offset = 0, blk_length = 0x2000\<rparr>]\<rparr>"

definition sample_mem :: "u8 \<Rightarrow> mem_state" where
  "sample_mem v = \<lparr>s_regions = (replicate MEM_REGION_MAX_COUNT no_region)[1 := \<lparr>kvm = sample_region, ram_addr = 0, read_only = False\<rparr>],
     s_region_count = 2, mem_ram = sample_ram v\<rparr>"

lemma sample_reachable: "mem_reachable (sample_mem 0xff)"
proof -
  have "TARGET_PAGE_ALIGN 0x2000 = 0x2000" by (simp add: page_align_mask)
  then have "qemu_ram_alloc_from_ptr \<lparr>phys_dirty = None, phys_dirty_size = 0, blocks = []\<rparr> 0x2000 0x7f0000 = Inr (0, sample_ram 0xff)"
    by (simp add: alloc_unfold find_ram_offset_def grown_dirty_def memset_dirty_def page_no_div last_ram_offset_def length_realloc sample_ram_def
      realloc_dirty_def) (simp add: numeral_2_eq_2)
  then have "mem_desc_register (\<lambda>_ _. Some (True, True)) (mem_start \<lparr>phys_dirty = None, phys_dirty_size = 0, blocks = []\<rparr>) sample_region = Inr (Some 1, sample_mem 0xff)"
    by (simp add: mem_desc_register_def mem_start_def MEM_REGION_MAX_COUNT_def sample_region_def sample_mem_def no_region_def)
  then show ?thesis using mem_reachable.register [OF mem_reachable.empty] by (simp add: sample_region_def)
qed

lemma sample_aligned: "regions_aligned (sample_mem 0xff)"
  by (auto simp: regions_aligned_def sample_mem_def sample_region_def list_all_length nth_list_update page_aligned_dvd no_region_def MEM_REGION_MAX_COUNT_def)

lemma sample_find: "mem_desc_find (sample_mem v) 0x101000 = Some 1" "s_regions (sample_mem v) ! Suc 0 = \<lparr>kvm = sample_region, ram_addr = 0, read_only = False\<rparr>"
  "mem_ram (sample_mem v) = sample_ram v"
  by (simp_all add: mem_desc_find_def region_has_def sample_mem_def sample_region_def upt_rec MEM_REGION_MAX_COUNT_def no_region_def)

lemma reset_dirty_start: "map (map (tlb_reset_dirty_range s n)) (tlb_table env_start) = tlb_table env_start"
proof -
  have "tlb_reset_dirty_range s n s_cputlb_empty_entry = s_cputlb_empty_entry"
    by (simp add: tlb_reset_dirty_range_def flag_bits s_cputlb_empty_entry_def)
  then show ?thesis by (simp add: env_start_def tlb_flush_def map_replicate)
qed

lemma sample_protect: "tlb_protect_code (machine_start 1 (sample_mem 0xff)) 0 = Inr (machine_start 1 (sample_mem 0xfd))"
  by (simp add: tlb_protect_code_def cpu_physical_memory_reset_dirty_def machine_start_def sample_mem_def sample_ram_def
    cpu_physical_memory_mask_dirty_range_def range_pages_def page_align_mask TARGET_PAGE_SIZE_def TARGET_PAGE_BITS_def 
    page_no_def dirty_at_def put_dirty_def qemu_safe_ram_ptr_def CODE_DIRTY_FLAG_def reset_dirty_start)

lemma sample_slots:
  "tlb_table env_start = replicate NB_MMU_MODES (replicate CPU_TLB_SIZE s_cputlb_empty_entry)"
  "iotlb env_start = replicate NB_MMU_MODES (replicate CPU_TLB_SIZE 0)" "watchpoints env_start = []"
  "tlb_flush_addr env_start = - 1" "tlb_flush_mask env_start = 0"
  by (simp_all add: env_start_def tlb_flush_def)

lemma sample_fill:
  "\<exists>env. tlb_set_page (sample_mem 0xfd) env_start 0x400000 0x101000 3 0 0x1000 = Inr env \<and> tlb_lookup env 0 Write 0x400010 4 = Direct 0x7f1010 \<and>
     store_ram env 0 0x400010 = 0x1010 \<and> tlb_lookup (tlb_flush_page env 0x500000) 0 Write 0x400010 4 = Direct 0x7f1010"
  by (simp add: tlb_flush_page_def tlb_flush_jmp_cache_def update_modes_def map_update map_replicate tlb_set_page_def sample_find sample_slots TARGET_PAGE_SIZE_def TARGET_PAGE_BITS_def mem_desc_get_offset_def mem_desc_addend_def
    sample_region_def cpu_physical_memory_is_dirty_def dirty_at_def page_no_def sample_ram_def Let_def PAGE_WRITE_def PAGE_READ_def PAGE_EXEC_def
    NB_MMU_MODES_def CPU_TLB_SIZE_def tlb_lookup_def tlb_addr_def tlb_index_def TARGET_PAGE_MASK_def TLB_MEM_TRACE_def TLB_INVALID_MASK_def
    store_ram_def entry_ram_def entry_def phys_section_notdirty_def)

lemma sample_step:
  assumes "tlb_set_page ms env_start 0x400000 p 3 0 0x1000 = Inr env" "page_aligned p"
  shows "tlb_trace (machine_start 1 ms) [OnCpu 0 (SetPage 0x400000 p 3 0 0x1000)] (machine_start 1 ms\<lparr>cpus := [env]\<rparr>)"
proof -
  have "page_size_ok 0x1000" unfolding page_size_ok_iff by (rule exI [of _ 12]) simp
  then have "tlb_trace (machine_start 1 ms) ([] @ [OnCpu 0 (SetPage 0x400000 p 3 0 0x1000)]) (machine_start 1 ms\<lparr>cpus := [env]\<rparr>)"
    using assms by (intro tlb_trace.step [OF tlb_trace.start]) (simp_all add: machine_start_def page_aligned_dvd)
  then show ?thesis by simp
qed

text \<open>
  C17. Self-modifying code is noticed: after the translator has protected a page of RAM
  (\<^verbatim>\<open>tlb_protect_code\<close>), and as long as nothing sets the dirty flags of the page again, no sequence of
  TLB operations on any processor makes a store to that page go directly to the memory of the host,
  whatever virtual addresses the page has. A store that does go there goes to the host memory of the
  RAM address its handlers would use, and all the dirty flags of its page are set.
\<close>

theorem code_stores_trapped:
  assumes "mem_reachable ms" and "regions_aligned ms" and before: "tlb_trace (machine_start n ms) ops M"
    and ram: "page_aligned ram" "op_ok M (ResetDirty ram (ram + TARGET_PAGE_SIZE) CODE_DIRTY_FLAG)" and M': "tlb_protect_code M ram = Inr M'"
    and after: "tlb_trace M' ops' M''" "\<forall>op \<in> set ops'. \<not> dirties (page_no ram) op"
    and store: "c < n" "m < NB_MMU_MODES" "tlb_lookup (cpus M'' ! c) m Write a sz = Direct h"
  shows "page_no (store_ram (cpus M'' ! c) m a) \<noteq> page_no ram \<and>
    qemu_safe_ram_ptr (mem_ram (mem M'')) (store_ram (cpus M'' ! c) m a) = Inr h \<and>
    dirty_at (mem_ram (mem M'')) (page_no (store_ram (cpus M'' ! c) m a)) = Inr 0xff"
proof -
  have step: "tlb_trace (machine_start n ms) (ops @ [ResetDirty ram (ram + TARGET_PAGE_SIZE) CODE_DIRTY_FLAG]) M'"
    using tlb_trace.step [OF before ram(2)] M' by (simp add: tlb_protect_code_def)
  have tr: "tlb_trace (machine_start n ms) ((ops @ [ResetDirty ram (ram + TARGET_PAGE_SIZE) CODE_DIRTY_FLAG]) @ ops') M''"
    using tlb_trace_append [OF after(1) step] .
  have "direct_machine M''" using direct_trace [OF tr] direct_start mem_inv_reachable assms(1,2) by blast
  moreover have "cpus M'' ! c \<in> set (cpus M'')" using length_cpus_trace [OF tr] store(1) by (simp add: machine_start_def)
  ultimately have d: "mem_inv (mem M'')" "direct.holds (mem M'') (cpus M'' ! c)" by (auto simp: direct_machine_def)
  note st = direct_store [OF d(2,1) store(2,3)]
  have "code_clean M'' (page_no ram)" using code_clean_trace [OF after(1) protect_code_clean [OF ram(1) M'] after(2)] .
  moreover have "bit (0xff :: u8) 1" by (simp add: bit_iff_odd)
  ultimately have "page_no (store_ram (cpus M'' ! c) m a) \<noteq> page_no ram" using st(2) by (auto simp: code_clean_def)
  then show ?thesis using st by blast
qed

theorem code_stores_trapped_witness:
  "\<exists>env. tlb_protect_code (machine_start 1 (sample_mem 0xff)) 0 = Inr (machine_start 1 (sample_mem 0xfd)) \<and>
     tlb_trace (machine_start 1 (sample_mem 0xfd)) [OnCpu 0 (SetPage 0x400000 0x101000 3 0 0x1000)] (machine_start 1 (sample_mem 0xfd)\<lparr>cpus := [env]\<rparr>) \<and>
     tlb_lookup env 0 Write 0x400010 4 = Direct 0x7f1010 \<and> store_ram env 0 0x400010 = 0x1010 \<and> page_no 0x1010 \<noteq> page_no 0 \<and>
     qemu_safe_ram_ptr (sample_ram 0xfd) 0x1010 = Inr 0x7f1010 \<and> dirty_at (sample_ram 0xfd) (page_no 0x1010) = Inr 0xff"
proof -
  obtain env where env: "tlb_set_page (sample_mem 0xfd) env_start 0x400000 0x101000 3 0 0x1000 = Inr env"
    "tlb_lookup env 0 Write 0x400010 4 = Direct 0x7f1010" "store_ram env 0 0x400010 = 0x1010" using sample_fill by blast
  have tr: "tlb_trace (machine_start 1 (sample_mem 0xfd)) [OnCpu 0 (SetPage 0x400000 0x101000 3 0 0x1000)] (machine_start 1 (sample_mem 0xfd)\<lparr>cpus := [env]\<rparr>)"
    by (rule sample_step [OF env(1)]) (simp add: page_aligned_dvd)
  have ok: "op_ok (machine_start 1 (sample_mem 0xff)) (ResetDirty 0 (0 + TARGET_PAGE_SIZE) CODE_DIRTY_FLAG)"
    by (simp add: machine_start_def sample_find sample_ram_def page_align_mask TARGET_PAGE_SIZE_def TARGET_PAGE_BITS_def)
  have "page_aligned 0" by (simp add: page_aligned_dvd)
  from code_stores_trapped [OF sample_reachable sample_aligned tlb_trace.start this ok sample_protect tr, of 0 0 "0x400010" 4 "0x7f1010"]
  show ?thesis using env sample_protect tr by (auto simp: machine_start_def NB_MMU_MODES_def sample_find)
qed

end
