(* ===== verification/TlbProps.thy ===== *)
theory TlbProps
  imports TlbDirty
begin

text \<open>
  What the TLB guarantees over sequences of operations: accesses to watched pages reach the watchpoint
  handler, a hit always comes from a page that was put into the TLB with the rights for the access, and
  after a page is flushed nothing is left of any page, small or large, that contains the address.
\<close>

section \<open>Properties of the tags\<close>

text \<open>Properties that the dirty marks do not touch and that do not depend on the memory.\<close>

locale tag_property = slot_property +
  assumes marked: "P ms env m i \<Longrightarrow> entry env' m i = (entry env m i)\<lparr>addr_write := w\<rparr> \<Longrightarrow>
      w = addr_write (entry env m i) AND NOT TLB_NOTDIRTY \<or> w = addr_write (entry env m i) OR TLB_NOTDIRTY \<Longrightarrow>
      iotlb env' = iotlb env \<Longrightarrow> watchpoints env' = watchpoints env \<Longrightarrow> tlb_flush_addr env' = tlb_flush_addr env \<Longrightarrow>
      tlb_flush_mask env' = tlb_flush_mask env \<Longrightarrow> P ms env' m i"
    and memory: "P ms env m i \<Longrightarrow> P ms' env m i"
begin

lemma holds_memory: "holds ms env \<Longrightarrow> holds ms' env"
  using memory [of ms env _ _ ms'] by (simp add: holds_def)

lemma holds_marks:
  assumes h: "holds ms env" and wf: "wf_env env'"
    and e: "\<And>m i. m < NB_MMU_MODES \<Longrightarrow> i < CPU_TLB_SIZE \<Longrightarrow> entry env' m i = entry env m i \<or>
      (\<exists>w. entry env' m i = (entry env m i)\<lparr>addr_write := w\<rparr> \<and>
        (w = addr_write (entry env m i) AND NOT TLB_NOTDIRTY \<or> w = addr_write (entry env m i) OR TLB_NOTDIRTY))"
    and f: "iotlb env' = iotlb env" "watchpoints env' = watchpoints env" "tlb_flush_addr env' = tlb_flush_addr env" "tlb_flush_mask env' = tlb_flush_mask env"
  shows "holds ms env'"
  unfolding holds_def
proof (intro conjI allI impI)
  show "wf_env env'" by (rule wf)
  fix m i assume mi: "m < NB_MMU_MODES" "i < CPU_TLB_SIZE"
  then have P: "P ms env m i" using h by (simp add: holds_def)
  from e [OF mi] show "P ms env' m i"
  proof
    assume "entry env' m i = entry env m i"
    then have "same_slot env' env m i" using f by (simp add: same_slot_def)
    then show ?thesis using same [OF P] f by simp
  qed (use marked [OF P] f in blast)
qed

lemma holds_set_dirty: "holds ms env \<Longrightarrow> holds ms (tlb_set_dirty env v)"
  by (rule holds_marks) (auto simp: holds_def wf_update_modes tlb_set_dirty_def Let_def entry_update_modes tlb_set_dirty1_def)

lemma holds_reset_dirty:
  assumes "holds ms env"
  shows "holds ms (env\<lparr>tlb_table := map (map (tlb_reset_dirty_range s n)) (tlb_table env)\<rparr>)"
proof -
  have wf: "wf_env env" using assms by (simp add: holds_def)
  then have "wf_env (env\<lparr>tlb_table := map (map (tlb_reset_dirty_range s n)) (tlb_table env)\<rparr>)" by (auto simp: wf_env_def list_all_iff)
  moreover have "entry (env\<lparr>tlb_table := map (map (tlb_reset_dirty_range s n)) (tlb_table env)\<rparr>) m i = tlb_reset_dirty_range s n (entry env m i)"
    if "m < NB_MMU_MODES" "i < CPU_TLB_SIZE" for m i using that wf wf_table [OF wf that(1)] by (simp add: entry_def wf_env_def)
  ultimately show ?thesis by (intro holds_marks [OF assms]) (auto simp: tlb_reset_dirty_range_def Let_def)
qed

end

section \<open>Watchpoints\<close>

definition watch_ok :: "mem_state \<Rightarrow> cpu_env \<Rightarrow> nat \<Rightarrow> nat \<Rightarrow> bool" where
  "watch_ok ms env m i \<longleftrightarrow> (\<forall>wp \<in> set (watchpoints env). tlb_index (wp_vaddr wp) = i \<longrightarrow>
     (\<forall>ac. (ac = Write \<or> ac = Read \<and> wp_flags wp AND BP_MEM_READ \<noteq> 0) \<longrightarrow> tag (tlb_addr ac (entry env m i)) = wp_vaddr wp AND TARGET_PAGE_MASK \<longrightarrow>
        bit (tlb_addr ac (entry env m i)) 9 \<and> iotlb env ! m ! i AND NOT TARGET_PAGE_MASK = phys_section_watch))"

lemma tlb_addr_marked:
  "w = addr_write te AND NOT TLB_NOTDIRTY \<or> w = addr_write te OR TLB_NOTDIRTY \<Longrightarrow>
   tag (tlb_addr ac (te\<lparr>addr_write := w\<rparr>)) = tag (tlb_addr ac te) \<and> bit (tlb_addr ac (te\<lparr>addr_write := w\<rparr>)) 9 = bit (tlb_addr ac te) 9"
  by (auto simp: tlb_addr_def word_bits tlb_bits split: access.split)

lemma tlb_addr_empty: "tlb_addr ac s_cputlb_empty_entry = - 1"
  by (simp add: tlb_addr_def s_cputlb_empty_entry_def split: access.split)

interpretation watch: tag_property watch_ok
proof
  fix env m i ms assume "entry env m i = s_cputlb_empty_entry"
  then show "watch_ok ms env m i" by (simp add: watch_ok_def tlb_addr_empty)
next
  fix ms env m i env' assume "watch_ok ms env m i" "same_slot env' env m i" "set (watchpoints env') \<subseteq> set (watchpoints env)"
  then show "watch_ok ms env' m i" by (auto simp: watch_ok_def same_slot_def)
next
  fix ms env m i env' w assume "watch_ok ms env m i" "entry env' m i = (entry env m i)\<lparr>addr_write := w\<rparr>"
    "w = addr_write (entry env m i) AND NOT TLB_NOTDIRTY \<or> w = addr_write (entry env m i) OR TLB_NOTDIRTY"
    "iotlb env' = iotlb env" "watchpoints env' = watchpoints env"
  then show "watch_ok ms env' m i" using tlb_addr_marked [of w "entry env m i"] by (simp add: watch_ok_def)
next
  fix ms ms' env m i assume "watch_ok ms env m i"
  then show "watch_ok ms' env m i" by (simp add: watch_ok_def)
qed

lemma watch_io: "page_aligned v \<Longrightarrow> page_aligned p \<Longrightarrow> page_io sreg True v p AND NOT TARGET_PAGE_MASK = phys_section_watch"
proof -
  assume a: "page_aligned v" "page_aligned p"
  have "page_io sreg True v p = (p - v) + phys_section_watch" by (simp add: page_io_def)
  moreover have al: "page_aligned (p - v)" using a by (simp add: page_aligned_sub)
  moreover have w: "\<not> (bit (p - v) n \<and> bit phys_section_watch n)" "bit phys_section_watch n \<Longrightarrow> n < 2" for n
    using bit_take_bit_iff [of 2 "3 :: u64" n] page_aligned_bit [OF al, of n] by (auto simp: phys_section_watch_def)
  ultimately have io: "page_io sreg True v p = (p - v) OR phys_section_watch" using w(1) by (simp add: disjunctive_add)
  show ?thesis unfolding io
  proof (rule bit_word_eqI)
    fix n assume "n < LENGTH(64)"
    then show "bit (((p - v) OR phys_section_watch) AND NOT TARGET_PAGE_MASK) n = bit phys_section_watch n"
      using w(2) [of n] page_aligned_bit [OF al, of n] by (auto simp: word_bits tlb_bits)
  qed
qed

lemma page_entry_tag:
  assumes "page_aligned v" "tag (tlb_addr ac (page_entry sreg watched dirty v p prot)) = a AND TARGET_PAGE_MASK"
  shows "a AND TARGET_PAGE_MASK = v" "prot AND prot_bit ac \<noteq> 0"
    "watched \<Longrightarrow> ac \<noteq> Code \<Longrightarrow> bit (tlb_addr ac (page_entry sreg watched dirty v p prot)) 9"
  using assms by (auto simp: page_entry_def tlb_addr_def prot_bit_def Let_def word_bits tlb_bits split: access.splits if_splits)

lemma watch_set_page:
  assumes h: "watch.holds ms env" and al: "page_aligned v" "page_aligned p" and set: "tlb_set_page ms env v p prot m sz = Inr env'"
  shows "watch.holds ms env'"
proof -
  have wf: "wf_env env" using h by (simp add: watch.holds_def)
  from wf set show ?thesis
  proof (rule set_page_slots)
    fix dirty te io
    let ?w = "list_ex (wp_traps v prot) (watchpoints env)"
    assume m: "m < NB_MMU_MODES" and wf': "wf_env env'"
      and te: "te = page_entry (region_of ms p) ?w dirty v p prot" and io: "io = page_io (region_of ms p) ?w v p"
      and e: "\<And>m' i. m' < NB_MMU_MODES \<Longrightarrow> i < CPU_TLB_SIZE \<Longrightarrow> entry env' m' i = (if m' = m \<and> i = tlb_index v then te else entry env m' i)"
      and ie: "\<And>m' i. m' < NB_MMU_MODES \<Longrightarrow> i < CPU_TLB_SIZE \<Longrightarrow> iotlb env' ! m' ! i = (if m' = m \<and> i = tlb_index v then io else iotlb env ! m' ! i)"
      and w: "watchpoints env' = watchpoints env"
    have "watch_ok ms env' m' i" if mi: "m' < NB_MMU_MODES" "i < CPU_TLB_SIZE" for m' i
    proof (cases "m' = m \<and> i = tlb_index v")
      case True
      have "?w" if "wp \<in> set (watchpoints env)" "ac = Write \<or> ac = Read \<and> wp_flags wp AND BP_MEM_READ \<noteq> 0"
        "tag (tlb_addr ac te) = wp_vaddr wp AND TARGET_PAGE_MASK" for wp ac
        using that page_entry_tag(1,2) [OF al(1), of ac "region_of ms p" ?w dirty p prot "wp_vaddr wp"]
        by (auto simp: te list_ex_iff wp_traps_def prot_bit_def split: access.splits)
      then show ?thesis
        using True e [OF mi] ie [OF mi] w watch_io [OF al] page_entry_tag(3) [OF al(1), of _ "region_of ms p" ?w dirty p prot]
        unfolding watch_ok_def te io by fastforce
    next
      case False
      then show ?thesis using h mi e [OF mi] ie [OF mi] w by (auto simp: watch.holds_def watch_ok_def)
    qed
    then show "watch.holds ms env'" using wf' by (simp add: watch.holds_def)
  qed
qed

lemma watch_insert:
  assumes h: "watch.holds ms env" and ins: "cpu_watchpoint_insert env a n f = Some env'"
  shows "watch.holds ms env'"
proof -
  have wf: "wf_env env" using h by (simp add: watch.holds_def)
  obtain wp ws where env': "env' = tlb_flush_page (env\<lparr>watchpoints := ws\<rparr>) a" and ws: "set ws = insert wp (set (watchpoints env))" and wp: "wp_vaddr wp = a"
    using ins by (auto simp: cpu_watchpoint_insert_def Let_def split: if_splits)
  have "watch_ok ms env' m i" if mi: "m < NB_MMU_MODES" "i < CPU_TLB_SIZE" for m i
  proof (cases "entry env' m i = s_cputlb_empty_entry")
    case True
    then show ?thesis by (rule watch.empty)
  next
    case False
    then have same: "same_slot env' (env\<lparr>watchpoints := ws\<rparr>) m i" using flush_page_slot [of "env\<lparr>watchpoints := ws\<rparr>" m i a] wf mi by (simp add: env')
    have "watch_ok ms env m i" using h mi by (simp add: watch.holds_def)
    moreover have "tag (tlb_addr ac (entry env' m i)) \<noteq> wp_vaddr wp AND TARGET_PAGE_MASK" if "tlb_index (wp_vaddr wp) = i" for ac
      using flush_page_drops [of "env\<lparr>watchpoints := ws\<rparr>" m ac a] wf mi that wp by (auto simp: env')
    ultimately show ?thesis using same ws by (auto simp: watch_ok_def same_slot_def env')
  qed
  then show ?thesis using wf by (simp add: watch.holds_def env' wf_flush_page)
qed

lemma watch_cpu_step:
  assumes h: "watch.holds ms env" and "op_ok M (OnCpu c op)" "cpu_step ms env op = Inr env'"
  shows "watch.holds ms env'"
proof (cases op)
  case (SetPage v p prot m sz)
  then show ?thesis using assms watch_set_page by auto
next
  case Flush
  have "wf_env env" using h by (simp add: watch.holds_def)
  then show ?thesis using Flush assms(3) watch.holds_flush by auto
next
  case (WatchInsert a n f)
  then show ?thesis using assms(3) h watch_insert [OF h] by (auto split: option.splits)
next
  case (WatchRemove a n f)
  then show ?thesis using assms(3) h watch.holds_remove [OF h] by (auto split: option.splits)
qed (use assms(3) h in \<open>auto simp: cpu_watchpoint_remove_all_def watch.holds_flush_page watch.holds_set_dirty watch.holds_remove_all_from\<close>)

definition watch_machine :: "machine \<Rightarrow> bool" where
  "watch_machine M \<longleftrightarrow> (\<forall>env \<in> set (cpus M). watch.holds (mem M) env)"

lemma reset_dirty_env:
  assumes "cpu_physical_memory_reset_dirty M s e f = Inr M'" "c < length (cpus M)"
  shows "cpus M' ! c = cpus M ! c \<or> (\<exists>s1 n. cpus M' ! c = (cpus M ! c)\<lparr>tlb_table := map (map (tlb_reset_dirty_range s1 n)) (tlb_table (cpus M ! c))\<rparr>)"
proof (cases "TARGET_PAGE_ALIGN e = s AND TARGET_PAGE_MASK")
  case False
  then obtain l s1 where "M' = M\<lparr>mem := (mem M)\<lparr>mem_ram := l\<rparr>, cpus := map (\<lambda>env. env\<lparr>tlb_table :=
      map (map (tlb_reset_dirty_range s1 (TARGET_PAGE_ALIGN e - (s AND TARGET_PAGE_MASK)))) (tlb_table env)\<rparr>) (cpus M)\<rparr>"
    using assms(1) by (auto simp: cpu_physical_memory_reset_dirty_def Let_def bind_res_eq_Inr split: if_splits)
  then have "cpus M' ! c = (cpus M ! c)\<lparr>tlb_table :=
      map (map (tlb_reset_dirty_range s1 (TARGET_PAGE_ALIGN e - (s AND TARGET_PAGE_MASK)))) (tlb_table (cpus M ! c))\<rparr>"
    using assms(2) by simp
  then show ?thesis by blast
qed (use assms in \<open>simp add: cpu_physical_memory_reset_dirty_def Let_def\<close>)

lemma watch_step:
  assumes inv: "watch_machine M" and ok: "op_ok M op" and M': "machine_step M op = Inr M'"
  shows "watch_machine M'"
proof (cases op)
  case (OnCpu c cop)
  then obtain env where c: "c < length (cpus M)" and env: "cpu_step (mem M) (cpus M ! c) cop = Inr env" and "M' = M\<lparr>cpus := (cpus M)[c := env]\<rparr>"
    using M' by (auto simp: bind_res_eq_Inr split: if_splits)
  moreover have "watch.holds (mem M) env" using inv c ok OnCpu watch_cpu_step [OF _ _ env] by (auto simp: watch_machine_def)
  ultimately show ?thesis using inv by (auto simp: watch_machine_def dest!: set_update_subset_insert [THEN subsetD])
next
  case (ResetDirty s e f)
  then have r: "cpu_physical_memory_reset_dirty M s e f = Inr M'" using M' by simp
  have "watch.holds (mem M') (cpus M' ! c)" if "c < length (cpus M)" for c
  proof -
    have "watch.holds (mem M) (cpus M ! c)" using inv that by (simp add: watch_machine_def)
    then show ?thesis using reset_dirty_env [OF r that] watch.holds_memory watch.holds_reset_dirty by metis
  qed
  then show ?thesis using length_cpus_step [OF M'] by (auto simp: watch_machine_def in_set_conv_nth)
next
  case (SetDirtyFlags a f)
  then show ?thesis using inv M' watch.holds_memory [of "mem M"] by (auto simp: watch_machine_def bind_res_eq_Inr)
qed

lemma watch_trace: "tlb_trace M0 ops M \<Longrightarrow> watch_machine M0 \<Longrightarrow> watch_machine M"
  by (induction rule: tlb_trace.induct) (auto intro: watch_step)

lemma watch_start: "watch_machine (machine_start n ms)"
  using wf_env_start entry_flush by (auto simp: watch_machine_def machine_start_def watch.holds_def env_start_def intro!: watch.empty)



section \<open>Large pages\<close>

text \<open>Every large page in the TLB lies in the region whose invalidation flushes everything.\<close>

definition in_region :: "cpu_env \<Rightarrow> u64 \<Rightarrow> u64 \<Rightarrow> bool" where
  "in_region env v sz \<longleftrightarrow> (\<exists>k j. 12 \<le> k \<and> k \<le> j \<and> j \<le> 64 \<and> sz = 2 ^ k \<and> tlb_flush_mask env = NOT (mask j) \<and> v AND tlb_flush_mask env = tlb_flush_addr env)"

definition region_ok :: "cpu_env \<Rightarrow> bool" where
  "region_ok env \<longleftrightarrow> tlb_flush_addr env = - 1 \<or> (\<exists>j. 12 \<le> j \<and> j \<le> 64 \<and> tlb_flush_mask env = NOT (mask j))"

lemma not_mask_and: "NOT (mask j) AND NOT (mask k) = (NOT (mask (max j k)) :: u64)"
  by (rule bit_word_eqI) (auto simp: word_bits bit_mask_iff)

lemma not_mask_inj:
  assumes "j \<le> 64" "k \<le> 64" "NOT (mask j) = (NOT (mask k) :: u64)"
  shows "j = k"
proof (rule ccontr)
  assume "j \<noteq> k"
  then have "bit (NOT (mask j) :: u64) (min j k) \<noteq> bit (NOT (mask k) :: u64) (min j k)" using assms(1,2)
    by (auto simp: word_bits bit_mask_iff min_def)
  then show False using assms(3) by simp
qed

lemma push_not_mask: "j < 64 \<Longrightarrow> push_bit 1 (NOT (mask j)) = (NOT (mask (Suc j)) :: u64)"
proof (rule bit_word_eqI)
  fix n assume "j < 64" "n < LENGTH(64)"
  then show "bit (push_bit 1 (NOT (mask j)) :: u64) n = bit (NOT (mask (Suc j)) :: u64) n"
    unfolding bit_push_bit_iff by (auto simp: word_bits bit_mask_iff)
qed

lemma widen_mask_value:
  "j \<le> 64 \<Longrightarrow> \<exists>j'. j \<le> j' \<and> j' \<le> 64 \<and> widen_mask diff (NOT (mask j)) = NOT (mask j') \<and> diff AND NOT (mask j') = 0"
proof (induction "64 - j" arbitrary: j)
  case 0
  then have "NOT (mask j) = (0 :: u64)" by (intro bit_word_eqI) (auto simp: word_bits bit_mask_iff)
  then show ?case using 0 by (intro exI [of _ j]) (simp add: widen_mask.simps)
next
  case (Suc n)
  then have j: "j < 64" by simp
  show ?case
  proof (cases "diff AND NOT (mask j) = 0")
    case True
    then show ?thesis using j by (intro exI [of _ j]) (simp add: widen_mask.simps)
  next
    case False
    then have "widen_mask diff (NOT (mask j)) = widen_mask diff (NOT (mask (Suc j)))" using push_not_mask [OF j] by (subst widen_mask.simps) simp
    moreover have "n = 64 - Suc j" "Suc j \<le> 64" using Suc.hyps(2) j by simp_all
    ultimately show ?thesis using Suc.hyps(1) [of "Suc j"] by (metis Suc_leD)
  qed
qed

lemma size_mask: "NOT ((2 :: u64) ^ k - 1) = NOT (mask k)"
  by (simp add: mask_eq_exp_minus_1)

lemma region_not_none: "in_region env v sz \<Longrightarrow> tlb_flush_addr env \<noteq> - 1"
proof
  assume "in_region env v sz" and none: "tlb_flush_addr env = - 1"
  then obtain j where "12 \<le> j" "v AND NOT (mask j) = - 1" unfolding in_region_def by (metis le_trans)
  moreover from this(1) have "\<not> bit (v AND NOT (mask j)) 0" by (simp add: word_bits bit_mask_iff)
  ultimately show False by simp
qed

lemma large_page_region:
  assumes r: "region_ok env" and k: "12 \<le> k" "k < 64" and sz: "sz = 2 ^ k"
  shows "region_ok (tlb_add_large_page env v sz)" "in_region (tlb_add_large_page env v sz) v sz"
    "in_region env v' sz' \<Longrightarrow> in_region (tlb_add_large_page env v sz) v' sz'"
proof -
  let ?e = "tlb_add_large_page env v sz"
  have "region_ok ?e \<and> in_region ?e v sz \<and> (in_region env v' sz' \<longrightarrow> in_region ?e v' sz')"
  proof (cases "tlb_flush_addr env = - 1")
    case True
    then have "\<not> in_region env v' sz'" using region_not_none by blast
    then show ?thesis using k True
      by (auto simp: tlb_add_large_page_def Let_def region_ok_def in_region_def sz size_mask intro!: exI [of _ k])
  next
    case False
    then obtain j where j: "12 \<le> j" "j \<le> 64" "tlb_flush_mask env = NOT (mask j)" using r by (auto simp: region_ok_def)
    obtain j' where j': "max k j \<le> j'" "j' \<le> 64" and w: "widen_mask (tlb_flush_addr env XOR v) (NOT (mask (max k j))) = NOT (mask j')"
      and z: "(tlb_flush_addr env XOR v) AND NOT (mask j') = 0"
      using widen_mask_value [of "max k j" "tlb_flush_addr env XOR v"] k j by auto
    have e: "tlb_flush_addr ?e = tlb_flush_addr env AND NOT (mask j')" "tlb_flush_mask ?e = NOT (mask j')"
      using False w by (simp_all add: tlb_add_large_page_def Let_def sz size_mask j(3) not_mask_and)
    have v: "v AND NOT (mask j') = tlb_flush_addr env AND NOT (mask j')" using z by (intro bit_word_eqI) (auto simp: no_bits word_bits)
    have "region_ok ?e" unfolding region_ok_def using e j' k by (intro disjI2 exI [of _ j']) simp
    moreover have "in_region ?e v sz" unfolding in_region_def using e j' k v sz by (intro exI [of _ k] exI [of _ j']) simp
    moreover have "in_region ?e v' sz'" if in': "in_region env v' sz'"
    proof -
      obtain k' i where k': "12 \<le> k'" "k' \<le> i" "i \<le> 64" "sz' = 2 ^ k'" and i: "NOT (mask i) = (NOT (mask j) :: u64)" "v' AND NOT (mask j) = tlb_flush_addr env"
        using in' j(3) unfolding in_region_def by metis
      have "i = j" using not_mask_inj [OF k'(3) j(2) i(1)] .
      moreover have "max j j' = j'" using j' by simp
      then have "v' AND NOT (mask j') = (v' AND NOT (mask j)) AND NOT (mask j')" by (simp add: and.assoc not_mask_and)
      ultimately show ?thesis unfolding in_region_def using e j' k' i(2) by (intro exI [of _ k'] exI [of _ j']) simp
    qed
    ultimately show ?thesis by blast
  qed
  then show "region_ok ?e" "in_region ?e v sz" "in_region env v' sz' \<Longrightarrow> in_region ?e v' sz'" by blast+
qed

section \<open>Where hits come from\<close>

text \<open>\<open>F\<close> says what was put last into a slot: virtual and physical address, rights and size.\<close>

definition fill_ok :: "(nat \<Rightarrow> nat \<Rightarrow> (u64 \<times> u64 \<times> u32 \<times> u64) option) \<Rightarrow> mem_state \<Rightarrow> cpu_env \<Rightarrow> nat \<Rightarrow> nat \<Rightarrow> bool" where
  "fill_ok F ms env m i \<longleftrightarrow> (\<forall>ac a. tag (tlb_addr ac (entry env m i)) = a AND TARGET_PAGE_MASK \<longrightarrow>
     (\<exists>v p prot sz. F m i = Some (v, p, prot, sz) \<and> tlb_index v = i \<and> a AND TARGET_PAGE_MASK = v \<and> prot AND prot_bit ac \<noteq> 0 \<and>
        (sz = TARGET_PAGE_SIZE \<or> in_region env v sz)))"

lemma fill_cong:
  "(\<And>ac. tag (tlb_addr ac (entry env' m i)) = tag (tlb_addr ac (entry env m i))) \<Longrightarrow> tlb_flush_addr env' = tlb_flush_addr env \<Longrightarrow>
   tlb_flush_mask env' = tlb_flush_mask env \<Longrightarrow> fill_ok F ms' env' m i = fill_ok F ms env m i"
  by (simp add: fill_ok_def in_region_def)

interpretation fill: tag_property "fill_ok F" for F
proof
  fix env m i ms assume "entry env m i = s_cputlb_empty_entry"
  then show "fill_ok F ms env m i" by (simp add: fill_ok_def tlb_addr_empty)
next
  fix ms env m i env' assume "fill_ok F ms env m i" "same_slot env' env m i"
  then show "fill_ok F ms env' m i" using fill_cong [of env' m i env F ms ms] by (simp add: same_slot_def)
next
  fix ms env m i env' w assume *: "fill_ok F ms env m i" "entry env' m i = (entry env m i)\<lparr>addr_write := w\<rparr>"
    "w = addr_write (entry env m i) AND NOT TLB_NOTDIRTY \<or> w = addr_write (entry env m i) OR TLB_NOTDIRTY"
    "tlb_flush_addr env' = tlb_flush_addr env" "tlb_flush_mask env' = tlb_flush_mask env"
  then show "fill_ok F ms env' m i" using tlb_addr_marked [of w "entry env m i"] fill_cong [of env' m i env F ms ms] by simp
next
  fix ms ms' env m i assume "fill_ok F ms env m i"
  then show "fill_ok F ms' env m i" by (simp add: fill_ok_def)
qed

lemma fill_watchpoints: "fill.holds F ms env \<Longrightarrow> fill.holds F ms (env\<lparr>watchpoints := ws\<rparr>)"
proof -
  have "fill_ok F ms (env\<lparr>watchpoints := ws\<rparr>) m i = fill_ok F ms env m i" for m i by (rule fill_cong) simp_all
  then show "fill.holds F ms env \<Longrightarrow> fill.holds F ms (env\<lparr>watchpoints := ws\<rparr>)" by (simp add: fill.holds_def)
qed

lemma fill_set_page:
  assumes h: "fill.holds F ms env" and r: "region_ok env" and al: "page_aligned v" and k: "12 \<le> k" "k < 64" "sz = 2 ^ k"
    and set: "tlb_set_page ms env v p prot m sz = Inr env'"
    and F': "F' = (\<lambda>m' i. if m' = m \<and> i = tlb_index v then Some (v, p, prot, sz) else F m' i)"
  shows "fill.holds F' ms env'" "region_ok env'"
proof -
  have wf: "wf_env env" using h by (simp add: fill.holds_def)
  let ?L = "large_page env v sz"
  have L: "region_ok ?L" "sz = TARGET_PAGE_SIZE \<or> in_region ?L v sz" "\<And>v' sz'. in_region env v' sz' \<Longrightarrow> in_region ?L v' sz'"
    using large_page_region [OF r k] r by (auto simp: large_page_def)
  from wf set have "fill.holds F' ms env' \<and> region_ok env'"
  proof (rule set_page_slots)
    fix dirty te io
    let ?w = "list_ex (wp_traps v prot) (watchpoints env)"
    assume m: "m < NB_MMU_MODES" and wf': "wf_env env'"
      and te: "te = page_entry (region_of ms p) ?w dirty v p prot"
      and e: "\<And>m' i. m' < NB_MMU_MODES \<Longrightarrow> i < CPU_TLB_SIZE \<Longrightarrow> entry env' m' i = (if m' = m \<and> i = tlb_index v then te else entry env m' i)"
      and fl: "tlb_flush_addr env' = tlb_flush_addr ?L" "tlb_flush_mask env' = tlb_flush_mask ?L"
    have reg: "in_region env' v' sz' = in_region ?L v' sz'" for v' sz' using fl by (simp add: in_region_def)
    have "fill_ok F' ms env' m' i" if mi: "m' < NB_MMU_MODES" "i < CPU_TLB_SIZE" for m' i
    proof (cases "m' = m \<and> i = tlb_index v")
      case True
      have "a AND TARGET_PAGE_MASK = v \<and> prot AND prot_bit ac \<noteq> 0" if "tag (tlb_addr ac te) = a AND TARGET_PAGE_MASK" for ac a
        using page_entry_tag(1,2) [OF al that [unfolded te]] by simp
      then show ?thesis using True e [OF mi] L(2) unfolding fill_ok_def reg by (auto simp: F')
    next
      case False
      then have "fill_ok F ms env m' i" "entry env' m' i = entry env m' i" "F' m' i = F m' i" using h mi e [OF mi] by (auto simp: fill.holds_def F')
      then show ?thesis using L(3) unfolding fill_ok_def reg by metis
    qed
    then show ?thesis using wf' L(1) fl by (simp add: fill.holds_def region_ok_def)
  qed
  then show "fill.holds F' ms env'" "region_ok env'" by blast+
qed

lemma region_flush_page: "region_ok env \<Longrightarrow> region_ok (tlb_flush_page env a)"
  by (simp add: tlb_flush_page_def Let_def region_ok_def tlb_flush_def)

lemma region_fields [simp]: "region_ok (env\<lparr>watchpoints := ws\<rparr>) = region_ok env" "region_ok (env\<lparr>tlb_table := t\<rparr>) = region_ok env"
  "region_ok (tlb_flush env)" "region_ok (tlb_set_dirty env v) = region_ok env"
  by (simp_all add: region_ok_def tlb_flush_def tlb_set_dirty_def)

lemma region_remove_all: "region_ok env \<Longrightarrow> region_ok (remove_all_from f n k env)"
  by (induction f n k env rule: remove_all_from.induct) (simp_all add: cpu_watchpoint_remove_by_ref_def region_flush_page)

text \<open>The state of a processor fits what the operations have put into its TLB.\<close>

definition fills :: "(nat \<Rightarrow> nat \<Rightarrow> (u64 \<times> u64 \<times> u32 \<times> u64) option) \<Rightarrow> mem_state \<Rightarrow> cpu_env \<Rightarrow> bool" where
  "fills F ms env \<longleftrightarrow> fill.holds F ms env \<and> region_ok env"

lemma fills_flush_page: "fills F ms env \<Longrightarrow> fills F ms (tlb_flush_page env a)"
  by (simp add: fills_def fill.holds_flush_page region_flush_page)

lemma fills_watchpoints: "fills F ms env \<Longrightarrow> fills F ms (env\<lparr>watchpoints := ws\<rparr>)"
  by (simp add: fills_def fill_watchpoints)

lemma fills_cpu_step:
  assumes h: "fills F ms env" and "cpu_step ms env op = Inr env'" and "\<And>v p prot m sz. op \<noteq> SetPage v p prot m sz"
  shows "fills F ms env'"
proof (cases op)
  case Flush
  have "wf_env env" using h by (simp add: fills_def fill.holds_def)
  then show ?thesis using Flush assms(2) fill.holds_flush by (auto simp: fills_def)
next
  case (WatchInsert a n f)
  then show ?thesis using assms(2) h
    by (auto simp: cpu_watchpoint_insert_def Let_def intro!: fills_flush_page fills_watchpoints split: if_splits)
next
  case (WatchRemove a n f)
  then show ?thesis using assms(2) h
    by (auto simp: cpu_watchpoint_remove_def Let_def cpu_watchpoint_remove_by_ref_def intro!: fills_flush_page fills_watchpoints split: option.splits)
qed (use assms h in \<open>auto simp: fills_def cpu_watchpoint_remove_all_def fill.holds_flush_page fill.holds_set_dirty fill.holds_remove_all_from
    region_flush_page region_remove_all\<close>)

definition fill_machine :: "tlb_op list \<Rightarrow> machine \<Rightarrow> bool" where
  "fill_machine ops M \<longleftrightarrow> (\<forall>c < length (cpus M). fills (last_fill ops c) (mem M) (cpus M ! c))"

lemma last_fill_other: "(\<And>v p prot m sz. op \<noteq> OnCpu c (SetPage v p prot m sz)) \<Longrightarrow> last_fill (ops @ [op]) c = last_fill ops c"
  by (auto simp: fun_eq_iff last_fill_snoc split: tlb_op.splits cpu_op.splits)

lemma last_fill_same: "last_fill (ops @ [OnCpu c (SetPage v p prot m sz)]) c =
    (\<lambda>m' i. if m' = m \<and> i = tlb_index v then Some (v, p, prot, sz) else last_fill ops c m' i)"
  by (auto simp: fun_eq_iff last_fill_snoc)

lemma fills_memory: "fills F ms env \<Longrightarrow> fills F ms' env"
  using fill.holds_memory by (auto simp: fills_def)

lemma fills_reset: "fills F ms env \<Longrightarrow> fills F ms (env\<lparr>tlb_table := map (map (tlb_reset_dirty_range s n)) (tlb_table env)\<rparr>)"
  by (simp add: fills_def fill.holds_reset_dirty)

lemma fill_on_cpu:
  assumes h: "fills (last_fill ops c) ms env" and ok: "op_ok M (OnCpu c op)" and env': "cpu_step ms env op = Inr env'"
  shows "fills (last_fill (ops @ [OnCpu c op]) c) ms env'"
proof (cases "\<exists>v p prot m sz. op = SetPage v p prot m sz")
  case True
  then obtain v p prot m sz k where op: "op = SetPage v p prot m sz" and al: "page_aligned v" and k: "12 \<le> k" "k < 64" "sz = 2 ^ k"
    using ok by (auto simp: page_size_ok_iff)
  show ?thesis using h fill_set_page [OF _ _ al k env' [unfolded op cpu_step.simps] refl, of "last_fill ops c"] unfolding fills_def op last_fill_same by blast
next
  case False
  then have "last_fill (ops @ [OnCpu c op]) c = last_fill ops c" by (intro last_fill_other) auto
  then show ?thesis using fills_cpu_step [OF h env'] False by auto
qed

lemma fill_step:
  assumes inv: "fill_machine ops M" and ok: "op_ok M op" and M': "machine_step M op = Inr M'"
  shows "fill_machine (ops @ [op]) M'"
  unfolding fill_machine_def
proof (intro allI impI)
  fix c assume "c < length (cpus M')"
  then have c: "c < length (cpus M)" using length_cpus_step [OF M'] by simp
  have h: "fills (last_fill ops c) (mem M) (cpus M ! c)" using inv c by (simp add: fill_machine_def)
  show "fills (last_fill (ops @ [op]) c) (mem M') (cpus M' ! c)"
  proof (cases op)
    case (OnCpu d cop)
    then obtain env where d: "d < length (cpus M)" and env: "cpu_step (mem M) (cpus M ! d) cop = Inr env" and e: "M' = M\<lparr>cpus := (cpus M)[d := env]\<rparr>"
      using M' by (auto simp: bind_res_eq_Inr split: if_splits)
    show ?thesis
    proof (cases "d = c")
      case True
      then show ?thesis using fill_on_cpu [OF h _ env [unfolded True]] ok OnCpu e c by simp
    next
      case False
      then show ?thesis using h OnCpu e by (subst last_fill_other) auto
    qed
  next
    case (ResetDirty s t f)
    then have r: "cpu_physical_memory_reset_dirty M s t f = Inr M'" using M' by simp
    have "fills (last_fill ops c) (mem M') (cpus M ! c)" using h by (rule fills_memory)
    then have "fills (last_fill ops c) (mem M') (cpus M' ! c)" using reset_dirty_env [OF r c] fills_reset by auto
    then show ?thesis using ResetDirty by (subst last_fill_other) auto
  next
    case (SetDirtyFlags a f)
    then show ?thesis using fills_memory [OF h] M' by (subst last_fill_other) (auto simp: bind_res_eq_Inr)
  qed
qed

lemma fill_trace: "tlb_trace M0 ops M \<Longrightarrow> fill_machine [] M0 \<Longrightarrow> fill_machine ops M"
  by (induction rule: tlb_trace.induct) (auto intro: fill_step)

lemma fill_start: "fill_machine [] (machine_start n ms)"
  using wf_env_start entry_flush
  by (auto simp: fill_machine_def fills_def machine_start_def fill.holds_def env_start_def intro!: fill.empty)

text \<open>
  C18. Flushing a page is complete: in every state a sequence of TLB operations leads to, after
  \<^verbatim>\<open>tlb_flush_page\<close> every address that still hits does so through the page that was put last into its
  slot, for a kind of access that page allows, and that page -- of the size it was entered with, which may
  be larger than the 4096 bytes an entry covers -- does not contain the flushed address.
\<close>

theorem flush_page_complete:
  assumes "tlb_trace (machine_start n ms) ops M" and "c < n" and "m < NB_MMU_MODES"
    and "tlb_lookup (tlb_flush_page (cpus M ! c) x) m ac a sz \<noteq> Fill"
  shows "\<exists>v p prot psz. last_fill ops c m (tlb_index a) = Some (v, p, prot, psz) \<and> a AND TARGET_PAGE_MASK = v \<and>
    prot AND prot_bit ac \<noteq> 0 \<and> x AND NOT (psz - 1) \<noteq> v AND NOT (psz - 1)"
proof -
  let ?env = "cpus M ! c" and ?env' = "tlb_flush_page (cpus M ! c) x" and ?i = "tlb_index a"
  have "fills (last_fill ops c) (mem M) ?env"
    using fill_trace [OF assms(1) fill_start] length_cpus_trace [OF assms(1)] assms(2) by (simp add: fill_machine_def machine_start_def)
  then have wf: "wf_env ?env" and ok: "fill_ok (last_fill ops c) (mem M) ?env m ?i" using assms(3) by (simp_all add: fills_def fill.holds_def)
  have hit: "tag (tlb_addr ac (entry ?env' m ?i)) = a AND TARGET_PAGE_MASK" using lookup_hit [OF assms(4)] .
  then have "entry ?env' m ?i \<noteq> s_cputlb_empty_entry" using tlb_addr_empty by auto
  then have same: "entry ?env' m ?i = entry ?env m ?i" and part: "x AND tlb_flush_mask ?env \<noteq> tlb_flush_addr ?env"
    using flush_page_slot [OF wf assms(3), of ?i x] assms(3) by (auto simp: same_slot_def tlb_flush_page_def)
  obtain v p prot psz where f: "last_fill ops c m ?i = Some (v, p, prot, psz)" "a AND TARGET_PAGE_MASK = v" "prot AND prot_bit ac \<noteq> 0"
    and sz: "psz = TARGET_PAGE_SIZE \<or> in_region ?env v psz"
    using ok hit same unfolding fill_ok_def by metis
  have "x AND NOT (psz - 1) \<noteq> v AND NOT (psz - 1)"
  proof
    assume eq: "x AND NOT (psz - 1) = v AND NOT (psz - 1)"
    from sz show False
    proof
      assume "psz = TARGET_PAGE_SIZE"
      then have "NOT (psz - 1) = TARGET_PAGE_MASK" by (simp add: page_mask_not TARGET_PAGE_SIZE_def TARGET_PAGE_BITS_def mask_eq_exp_minus_1)
      then have page: "x AND TARGET_PAGE_MASK = a AND TARGET_PAGE_MASK" using eq f(2) by (metis page_aligned_def page_aligned_mask)
      then have "tlb_index x = ?i" by (metis tlb_index_page)
      then show False using flush_page_drops [OF wf assms(3), of ac x] hit page by simp
    next
      assume "in_region ?env v psz"
      then obtain k j where "k \<le> j" "psz = 2 ^ k" and fm: "tlb_flush_mask ?env = NOT (mask j)" "v AND tlb_flush_mask ?env = tlb_flush_addr ?env"
        by (auto simp: in_region_def)
      then have "y AND tlb_flush_mask ?env = (y AND NOT (psz - 1)) AND tlb_flush_mask ?env" for y
        by (simp add: size_mask and.assoc not_mask_and max_def)
      then show False using part eq fm(2) by metis
    qed
  qed
  then show ?thesis using f by blast
qed

theorem flush_page_complete_witness:
  "\<exists>env v p prot psz. tlb_trace (machine_start 1 (sample_mem 0xfd)) [OnCpu 0 (SetPage 0x400000 0x101000 3 0 0x1000)]
       (machine_start 1 (sample_mem 0xfd)\<lparr>cpus := [env]\<rparr>) \<and>
     last_fill [OnCpu 0 (SetPage 0x400000 0x101000 3 0 0x1000)] 0 0 (tlb_index 0x400010) = Some (v, p, prot, psz) \<and>
     tlb_lookup (tlb_flush_page env 0x500000) 0 Write 0x400010 4 \<noteq> Fill \<and> v = 0x400000 \<and> prot AND prot_bit Write \<noteq> 0 \<and>
     0x500000 AND NOT (psz - 1) \<noteq> v AND NOT (psz - 1)"
proof -
  obtain env where env: "tlb_set_page (sample_mem 0xfd) env_start 0x400000 0x101000 3 0 0x1000 = Inr env"
    "tlb_lookup (tlb_flush_page env 0x500000) 0 Write 0x400010 4 = Direct 0x7f1010" using sample_fill by blast
  have tr: "tlb_trace (machine_start 1 (sample_mem 0xfd)) [OnCpu 0 (SetPage 0x400000 0x101000 3 0 0x1000)] (machine_start 1 (sample_mem 0xfd)\<lparr>cpus := [env]\<rparr>)"
    by (rule sample_step [OF env(1)]) (simp add: page_aligned_dvd)
  have page: "0x400010 AND TARGET_PAGE_MASK = 0x400000" by (simp add: TARGET_PAGE_MASK_def TARGET_PAGE_SIZE_def TARGET_PAGE_BITS_def)
  have hit: "tlb_lookup (tlb_flush_page (cpus (machine_start 1 (sample_mem 0xfd)\<lparr>cpus := [env]\<rparr>) ! 0) 0x500000) 0 Write 0x400010 4 \<noteq> Fill"
    using env(2) by simp
  obtain v p prot psz where f: "last_fill [OnCpu 0 (SetPage 0x400000 0x101000 3 0 0x1000)] 0 0 (tlb_index 0x400010) = Some (v, p, prot, psz)"
    "0x400010 AND TARGET_PAGE_MASK = v" "prot AND prot_bit Write \<noteq> 0" "0x500000 AND NOT (psz - 1) \<noteq> v AND NOT (psz - 1)"
    using flush_page_complete [OF tr _ _ hit] by (auto simp: NB_MMU_MODES_def)
  show ?thesis
    by (intro exI conjI) (rule tr, rule f, use hit in simp, use f(2) page in simp, rule f, rule f)
qed

section \<open>Filling\<close>

lemma set_page_total:
  assumes "mem_inv ms" "regions_aligned ms" "page_aligned p" "TARGET_PAGE_SIZE \<le> sz" "m < NB_MMU_MODES"
  shows "\<exists>env'. tlb_set_page ms env v p prot m sz = Inr env'"
proof (cases "region_of ms p")
  case None
  then show ?thesis using assms by (auto simp: tlb_set_page_def Let_def assert_res_def simp flip: region_of_def)
next
  case (Some r)
  then obtain d where "dirty_at (mem_ram ms) (page_no (ram_addr r + (p - guest_phys_addr (kvm r)))) = Inr d"
    using region_ram(4) [OF assms(1,2) _ assms(3)] by blast
  then show ?thesis using Some assms region_offset [OF region_of_has [OF Some]]
    by (auto simp: tlb_set_page_def Let_def assert_res_def cpu_physical_memory_is_dirty_def simp flip: region_of_def)
qed

lemma page_entry_hit:
  assumes "page_aligned v" "prot AND prot_bit ac \<noteq> 0"
  shows "tag (tlb_addr ac (page_entry sreg watched dirty v p prot)) = v"
  using assms by (auto simp: page_entry_def tlb_addr_def prot_bit_def Let_def split: access.splits)

lemma page_entry_direct:
  assumes "\<not> bit (tlb_addr ac (page_entry sreg watched dirty v p prot)) 9" "tag (tlb_addr ac (page_entry sreg watched dirty v p prot)) = a AND TARGET_PAGE_MASK"
  shows "\<exists>r. sreg = Some r \<and> addend (page_entry sreg watched dirty v p prot) = mem_desc_addend r p - v"
  using assms by (cases sreg) (auto simp: page_entry_def tlb_addr_def Let_def word_bits tlb_bits split: access.splits if_splits)

lemma lookup_Fill:
  "tlb_lookup env m ac a sz = Fill \<longleftrightarrow> tag (tlb_addr ac (entry env m (tlb_index a))) \<noteq> a AND TARGET_PAGE_MASK"
  using tag_flags(4) by (auto simp: tlb_lookup_def Let_def entry_def simp flip: tag_def)



section \<open>Jump cache\<close>

lemma jmp_masks: "TB_JMP_PAGE_MASK = mask 12 AND NOT (mask 6)" "TB_JMP_ADDR_MASK = mask 6"
  by (simp_all add: TB_JMP_PAGE_MASK_def TB_JMP_ADDR_MASK_def mask_eq_exp_minus_1)

lemma hash_page_cong: "pc AND TARGET_PAGE_MASK = x AND TARGET_PAGE_MASK \<Longrightarrow> tb_jmp_cache_hash_page pc = tb_jmp_cache_hash_page x"
proof -
  assume eq: "pc AND TARGET_PAGE_MASK = x AND TARGET_PAGE_MASK"
  have b: "bit pc n = bit x n" if "12 \<le> n" for n
  proof (cases "n < 64")
    case True
    have "bit (pc AND TARGET_PAGE_MASK) n = bit (x AND TARGET_PAGE_MASK) n" using eq by simp
    then show ?thesis using that True by (simp add: word_bits tlb_bits)
  qed (use bit_imp_le_length in fastforce)
  have "drop_bit 6 (pc XOR drop_bit 6 pc) AND TB_JMP_PAGE_MASK = drop_bit 6 (x XOR drop_bit 6 x) AND TB_JMP_PAGE_MASK"
    by (rule bit_word_eqI) (auto simp: jmp_masks word_bits bit_mask_iff bit_drop_bit_eq b)
  then show ?thesis by (simp add: tb_jmp_cache_hash_page_def TARGET_PAGE_BITS_def TB_JMP_PAGE_BITS_def)
qed

lemma hash_func_in_page: "tb_jmp_cache_hash_page pc \<le> tb_jmp_cache_hash_func pc" "tb_jmp_cache_hash_func pc < tb_jmp_cache_hash_page pc + TB_JMP_PAGE_SIZE"
proof -
  let ?tmp = "pc XOR drop_bit 6 pc"
  let ?A = "drop_bit 6 ?tmp AND TB_JMP_PAGE_MASK" and ?B = "?tmp AND TB_JMP_ADDR_MASK"
  have "?A OR ?B = ?A + ?B" by (rule disjunctive_add [symmetric]) (auto simp: jmp_masks word_bits bit_mask_iff)
  moreover have B: "unat ?B < 64" using word_and_le1 [of ?tmp TB_JMP_ADDR_MASK] by (simp add: TB_JMP_ADDR_MASK_def word_le_nat_alt)
  moreover have "unat ?A \<le> 0xfc0" using word_and_le1 [of "drop_bit 6 ?tmp" TB_JMP_PAGE_MASK] by (simp add: TB_JMP_PAGE_MASK_def word_le_nat_alt)
  ultimately have "unat (?A OR ?B) = unat ?A + unat ?B" by (simp add: unat_word_ariths)
  then have "tb_jmp_cache_hash_func pc = tb_jmp_cache_hash_page pc + unat ?B"
    by (simp add: tb_jmp_cache_hash_func_def tb_jmp_cache_hash_page_def TARGET_PAGE_BITS_def TB_JMP_PAGE_BITS_def Let_def)
  then show "tb_jmp_cache_hash_page pc \<le> tb_jmp_cache_hash_func pc" "tb_jmp_cache_hash_func pc < tb_jmp_cache_hash_page pc + TB_JMP_PAGE_SIZE"
    using B by (simp_all add: TB_JMP_PAGE_SIZE_def)
qed

lemma memset_null_nth:
  "i + n \<le> length xs \<Longrightarrow> k < length xs \<Longrightarrow> memset_null i n xs ! k = (if i \<le> k \<and> k < i + n then None else xs ! k)"
  by (auto simp: memset_null_def nth_append)

text \<open>
  C21. Flushing a page forgets the translated code that may overlap it: the jump cache has no block left
  for any address of the page, nor for any address of the page before it, from which a block may reach
  into the flushed one.
\<close>

theorem flush_page_jump_cache:
  assumes "wf_env env" and "pc AND TARGET_PAGE_MASK = x AND TARGET_PAGE_MASK \<or> pc AND TARGET_PAGE_MASK = (x AND TARGET_PAGE_MASK) - TARGET_PAGE_SIZE"
  shows "tb_jmp_cache (tlb_flush_page env x) ! tb_jmp_cache_hash_func pc = None"
proof -
  let ?h = "tb_jmp_cache_hash_func pc" and ?x = "x AND TARGET_PAGE_MASK"
  have "?h < TB_JMP_CACHE_SIZE" using hash_func_in_page(2) [of pc] hash_page_bound [of pc] by simp
  moreover have "(?x - TARGET_PAGE_SIZE) AND TARGET_PAGE_MASK = ?x - TARGET_PAGE_SIZE"
  proof -
    have "page_aligned TARGET_PAGE_SIZE" by (simp add: page_aligned_dvd TARGET_PAGE_SIZE_def TARGET_PAGE_BITS_def)
    then show ?thesis using page_aligned_sub [OF page_aligned_mask [of x]] by (simp add: page_aligned_def)
  qed
  then have "tb_jmp_cache_hash_page pc = tb_jmp_cache_hash_page ?x \<or> tb_jmp_cache_hash_page pc = tb_jmp_cache_hash_page (?x - TARGET_PAGE_SIZE)"
    using assms(2) hash_page_cong [of pc ?x] hash_page_cong [of pc "?x - TARGET_PAGE_SIZE"] by (auto simp: and.assoc)
  ultimately show ?thesis using assms(1) hash_func_in_page [of pc] hash_page_bound
    by (auto simp: tlb_flush_page_def tlb_flush_def Let_def tlb_flush_jmp_cache_def memset_null_nth length_memset_null wf_env_def update_modes_def)
qed

theorem flush_page_jump_cache_witness:
  "wf_env env_start \<and> tb_jmp_cache (tlb_flush_page (env_start\<lparr>tb_jmp_cache := (tb_jmp_cache env_start)[tb_jmp_cache_hash_func 0x3ffff0 := Some 7]\<rparr>) 0x400123)
     ! tb_jmp_cache_hash_func 0x3ffff0 = None"
proof -
  have "wf_env (env_start\<lparr>tb_jmp_cache := (tb_jmp_cache env_start)[tb_jmp_cache_hash_func 0x3ffff0 := Some 7]\<rparr>)"
    using wf_env_start by (simp add: wf_env_def)
  moreover have "(0x3ffff0 :: u64) AND TARGET_PAGE_MASK = (0x400123 AND TARGET_PAGE_MASK) - TARGET_PAGE_SIZE"
    by (simp add: TARGET_PAGE_MASK_def TARGET_PAGE_SIZE_def TARGET_PAGE_BITS_def)
  ultimately show ?thesis using flush_page_jump_cache wf_env_start by blast
qed

end
