(* ===== verification/ConstFold.thy ===== *)
theory ConstFold
  imports TcgRuntime
begin

text \<open>
  Constant folding in the optimizer of the intermediate code (\<^verbatim>\<open>libtcg/src/optimize.c\<close>) and the
  comparison conditions (\<^verbatim>\<open>tcg.h\<close>). Arguments are 64-bit words; the value of a 32-bit operand is in
  the low half. An opcode of both widths is \<open>INDEX_op\<close> with its name and width, as the macro
  \<^verbatim>\<open>CASE_OP_32_64\<close> has it; \<open>INDEX_op_other\<close> stands for the opcodes folding does not know. The C expressions
  convert a 32-bit result to 64 bits by its type: with zeros when it is unsigned, with its sign when
  it is signed. A condition is the number of its enumerator.
\<close>

section \<open>Operations\<close>

type_synonym TCGArg = u64

datatype tcg_width = I32 | I64

datatype tcg_opname =
  OP_add | OP_sub | OP_mul | OP_and | OP_or | OP_xor | OP_shl | OP_shr | OP_sar | OP_rotr |
  OP_rotl | OP_not | OP_neg | OP_andc | OP_orc | OP_eqv | OP_nand | OP_nor | OP_clz | OP_ctz |
  OP_ctpop | OP_ext8s | OP_ext16s | OP_ext8u | OP_ext16u | OP_bswap16 | OP_bswap32 | OP_muluh |
  OP_mulsh | OP_div | OP_divu | OP_rem | OP_remu

datatype TCGOpcode =
  INDEX_op tcg_opname tcg_width
  | INDEX_op_bswap64_i64
  | INDEX_op_ext_i32_i64
  | INDEX_op_ext32s_i64
  | INDEX_op_extu_i32_i64
  | INDEX_op_extrl_i64_i32
  | INDEX_op_ext32u_i64
  | INDEX_op_extrh_i64_i32
  | INDEX_op_other nat bool

text \<open>The operations on 64-bit operands or results are flagged \<^verbatim>\<open>TCG_OPF_64BIT\<close>.\<close>

primrec opf_64bit :: "TCGOpcode \<Rightarrow> bool" where
  "opf_64bit (INDEX_op name w) = (w = I64)"
| "opf_64bit INDEX_op_bswap64_i64 = True"
| "opf_64bit INDEX_op_ext_i32_i64 = True"
| "opf_64bit INDEX_op_ext32s_i64 = True"
| "opf_64bit INDEX_op_extu_i32_i64 = True"
| "opf_64bit INDEX_op_extrl_i64_i32 = False"
| "opf_64bit INDEX_op_ext32u_i64 = True"
| "opf_64bit INDEX_op_extrh_i64_i32 = False"
| "opf_64bit (INDEX_op_other n b) = b"

text \<open>\<^verbatim>\<open>bswap\<close> of the C library, and division of signed C integers.\<close>

definition bswap_16 :: "u16 \<Rightarrow> u16" where
  "bswap_16 x = push_bit 8 x OR drop_bit 8 x"

definition bswap_32 :: "u32 \<Rightarrow> u32" where
  "bswap_32 x = push_bit 24 (x AND 0xFF) OR push_bit 8 (x AND 0xFF00) OR drop_bit 8 (x AND 0xFF0000) OR drop_bit 24 x"

definition bswap_64 :: "u64 \<Rightarrow> u64" where
  "bswap_64 x = push_bit 32 (ucast (bswap_32 (ucast x))) OR ucast (bswap_32 (ucast (drop_bit 32 x)))"

definition c_div :: "'a::len word \<Rightarrow> 'a word \<Rightarrow> 'a word res" where
  "c_div x y = (if y = 0 \<or> (sint x = - (2 ^ (LENGTH('a) - 1)) \<and> y = - 1) then Inl Undefined else Inr (sdiv_word x y))"

definition c_rem :: "'a::len word \<Rightarrow> 'a word \<Rightarrow> 'a word res" where
  "c_rem x y = (if y = 0 \<or> (sint x = - (2 ^ (LENGTH('a) - 1)) \<and> y = - 1) then Inl Undefined else Inr (smod_word x y))"

text \<open>\<^verbatim>\<open>y ?: 1\<close>\<close>

definition or_one :: "'a::len word \<Rightarrow> 'a word" where
  "or_one y = (if y \<noteq> 0 then y else 1)"

primrec fold_i32 :: "tcg_opname \<Rightarrow> TCGArg \<Rightarrow> TCGArg \<Rightarrow> TCGArg res" where
  "fold_i32 OP_add x y = Inr (x + y)"
| "fold_i32 OP_sub x y = Inr (x - y)"
| "fold_i32 OP_mul x y = Inr (x * y)"
| "fold_i32 OP_and x y = Inr (x AND y)"
| "fold_i32 OP_or x y = Inr (x OR y)"
| "fold_i32 OP_xor x y = Inr (x XOR y)"
| "fold_i32 OP_shl x y = Inr (ucast (push_bit (unat (y AND 31)) (ucast x :: u32)))"
| "fold_i32 OP_shr x y = Inr (ucast (drop_bit (unat (y AND 31)) (ucast x :: u32)))"
| "fold_i32 OP_sar x y = Inr (scast (signed_drop_bit (unat (y AND 31)) (ucast x :: u32)))"
| "fold_i32 OP_rotr x y = bind_res (ror32 (ucast x) (ucast (y AND 31))) (\<lambda>r. Inr (ucast r))"
| "fold_i32 OP_rotl x y = bind_res (rol32 (ucast x) (ucast (y AND 31))) (\<lambda>r. Inr (ucast r))"
| "fold_i32 OP_not x y = Inr (NOT x)"
| "fold_i32 OP_neg x y = Inr (- x)"
| "fold_i32 OP_andc x y = Inr (x AND NOT y)"
| "fold_i32 OP_orc x y = Inr (x OR NOT y)"
| "fold_i32 OP_eqv x y = Inr (NOT (x XOR y))"
| "fold_i32 OP_nand x y = Inr (NOT (x AND y))"
| "fold_i32 OP_nor x y = Inr (NOT (x OR y))"
| "fold_i32 OP_clz x y = Inr (if (ucast x :: u32) \<noteq> 0 then of_nat (clz32 (ucast x)) else y)"
| "fold_i32 OP_ctz x y = Inr (if (ucast x :: u32) \<noteq> 0 then of_nat (ctz32 (ucast x)) else y)"
| "fold_i32 OP_ctpop x y = Inr (of_nat (ctpop32 (ucast x)))"
| "fold_i32 OP_ext8s x y = Inr (scast (ucast x :: u8))"
| "fold_i32 OP_ext16s x y = Inr (scast (ucast x :: u16))"
| "fold_i32 OP_ext8u x y = Inr (ucast (ucast x :: u8))"
| "fold_i32 OP_ext16u x y = Inr (ucast (ucast x :: u16))"
| "fold_i32 OP_bswap16 x y = Inr (ucast (bswap_16 (ucast x)))"
| "fold_i32 OP_bswap32 x y = Inr (ucast (bswap_32 (ucast x)))"
| "fold_i32 OP_muluh x y = Inr (drop_bit 32 (ucast (ucast x :: u32) * ucast (ucast y :: u32)))"
| "fold_i32 OP_mulsh x y = Inr (signed_drop_bit 32 (scast (ucast x :: u32) * scast (ucast y :: u32)))"
| "fold_i32 OP_div x y = bind_res (c_div (ucast x :: u32) (or_one (ucast y :: u32))) (\<lambda>q. Inr (scast q))"
| "fold_i32 OP_divu x y = Inr (ucast ((ucast x :: u32) div or_one (ucast y :: u32)))"
| "fold_i32 OP_rem x y = bind_res (c_rem (ucast x :: u32) (or_one (ucast y :: u32))) (\<lambda>q. Inr (scast q))"
| "fold_i32 OP_remu x y = Inr (ucast ((ucast x :: u32) mod or_one (ucast y :: u32)))"

primrec fold_i64 :: "tcg_opname \<Rightarrow> TCGArg \<Rightarrow> TCGArg \<Rightarrow> TCGArg res" where
  "fold_i64 OP_add x y = Inr (x + y)"
| "fold_i64 OP_sub x y = Inr (x - y)"
| "fold_i64 OP_mul x y = Inr (x * y)"
| "fold_i64 OP_and x y = Inr (x AND y)"
| "fold_i64 OP_or x y = Inr (x OR y)"
| "fold_i64 OP_xor x y = Inr (x XOR y)"
| "fold_i64 OP_shl x y = Inr (push_bit (unat (y AND 63)) x)"
| "fold_i64 OP_shr x y = Inr (drop_bit (unat (y AND 63)) x)"
| "fold_i64 OP_sar x y = Inr (signed_drop_bit (unat (y AND 63)) x)"
| "fold_i64 OP_rotr x y = ror64 x (ucast (y AND 63))"
| "fold_i64 OP_rotl x y = rol64 x (ucast (y AND 63))"
| "fold_i64 OP_not x y = Inr (NOT x)"
| "fold_i64 OP_neg x y = Inr (- x)"
| "fold_i64 OP_andc x y = Inr (x AND NOT y)"
| "fold_i64 OP_orc x y = Inr (x OR NOT y)"
| "fold_i64 OP_eqv x y = Inr (NOT (x XOR y))"
| "fold_i64 OP_nand x y = Inr (NOT (x AND y))"
| "fold_i64 OP_nor x y = Inr (NOT (x OR y))"
| "fold_i64 OP_clz x y = Inr (if x \<noteq> 0 then of_nat (clz64 x) else y)"
| "fold_i64 OP_ctz x y = Inr (if x \<noteq> 0 then of_nat (ctz64 x) else y)"
| "fold_i64 OP_ctpop x y = Inr (of_nat (ctpop64 x))"
| "fold_i64 OP_ext8s x y = Inr (scast (ucast x :: u8))"
| "fold_i64 OP_ext16s x y = Inr (scast (ucast x :: u16))"
| "fold_i64 OP_ext8u x y = Inr (ucast (ucast x :: u8))"
| "fold_i64 OP_ext16u x y = Inr (ucast (ucast x :: u16))"
| "fold_i64 OP_bswap16 x y = Inr (ucast (bswap_16 (ucast x)))"
| "fold_i64 OP_bswap32 x y = Inr (ucast (bswap_32 (ucast x)))"
| "fold_i64 OP_muluh x y = Inr (snd (mulu64 x y))"
| "fold_i64 OP_mulsh x y = Inr (snd (muls64 x y))"
| "fold_i64 OP_div x y = c_div x (or_one y)"
| "fold_i64 OP_divu x y = Inr (x div or_one y)"
| "fold_i64 OP_rem x y = c_rem x (or_one y)"
| "fold_i64 OP_remu x y = Inr (x mod or_one y)"

primrec do_constant_folding_2 :: "TCGOpcode \<Rightarrow> TCGArg \<Rightarrow> TCGArg \<Rightarrow> TCGArg res" where
  "do_constant_folding_2 (INDEX_op name w) x y = (case w of I32 \<Rightarrow> fold_i32 name x y | I64 \<Rightarrow> fold_i64 name x y)"
| "do_constant_folding_2 INDEX_op_bswap64_i64 x y = Inr (bswap_64 x)"
| "do_constant_folding_2 INDEX_op_ext_i32_i64 x y = Inr (scast (ucast x :: u32))"
| "do_constant_folding_2 INDEX_op_ext32s_i64 x y = Inr (scast (ucast x :: u32))"
| "do_constant_folding_2 INDEX_op_extu_i32_i64 x y = Inr (ucast (ucast x :: u32))"
| "do_constant_folding_2 INDEX_op_extrl_i64_i32 x y = Inr (ucast (ucast x :: u32))"
| "do_constant_folding_2 INDEX_op_ext32u_i64 x y = Inr (ucast (ucast x :: u32))"
| "do_constant_folding_2 INDEX_op_extrh_i64_i32 x y = Inr (drop_bit 32 x)"
| "do_constant_folding_2 (INDEX_op_other n b) x y = Inl Assert"

text \<open>The cast to \<^verbatim>\<open>int32_t\<close> sign-extends the low half of the result.\<close>

definition do_constant_folding :: "TCGOpcode \<Rightarrow> TCGArg \<Rightarrow> TCGArg \<Rightarrow> TCGArg res" where
  "do_constant_folding op x y =
     bind_res (do_constant_folding_2 op x y) (\<lambda>res.
       if \<not> opf_64bit op then Inr (scast (ucast res :: u32)) else Inr res)"

section \<open>Conditions\<close>

type_synonym TCGCond = nat

definition TCG_COND_NEVER :: TCGCond where "TCG_COND_NEVER = 0"
definition TCG_COND_ALWAYS :: TCGCond where "TCG_COND_ALWAYS = 1"
definition TCG_COND_EQ :: TCGCond where "TCG_COND_EQ = 8"
definition TCG_COND_NE :: TCGCond where "TCG_COND_NE = 9"
definition TCG_COND_LT :: TCGCond where "TCG_COND_LT = 2"
definition TCG_COND_GE :: TCGCond where "TCG_COND_GE = 3"
definition TCG_COND_LE :: TCGCond where "TCG_COND_LE = 10"
definition TCG_COND_GT :: TCGCond where "TCG_COND_GT = 11"
definition TCG_COND_LTU :: TCGCond where "TCG_COND_LTU = 4"
definition TCG_COND_GEU :: TCGCond where "TCG_COND_GEU = 5"
definition TCG_COND_LEU :: TCGCond where "TCG_COND_LEU = 12"
definition TCG_COND_GTU :: TCGCond where "TCG_COND_GTU = 13"

lemmas cond_defs = TCG_COND_NEVER_def TCG_COND_ALWAYS_def TCG_COND_EQ_def TCG_COND_NE_def TCG_COND_LT_def TCG_COND_GE_def
  TCG_COND_LE_def TCG_COND_GT_def TCG_COND_LTU_def TCG_COND_GEU_def TCG_COND_LEU_def TCG_COND_GTU_def

definition tcg_invert_cond :: "TCGCond \<Rightarrow> TCGCond" where
  "tcg_invert_cond c = c XOR 1"

definition tcg_swap_cond :: "TCGCond \<Rightarrow> TCGCond" where
  "tcg_swap_cond c = (if c AND 6 \<noteq> 0 then c XOR 9 else c)"

definition tcg_unsigned_cond :: "TCGCond \<Rightarrow> TCGCond" where
  "tcg_unsigned_cond c = (if c AND 2 \<noteq> 0 then c XOR 6 else c)"

definition tcg_signed_cond :: "TCGCond \<Rightarrow> TCGCond" where
  "tcg_signed_cond c = (if c AND 4 \<noteq> 0 then c XOR 6 else c)"

definition is_unsigned_cond :: "TCGCond \<Rightarrow> bool" where
  "is_unsigned_cond c = (c AND 4 \<noteq> 0)"

definition tcg_high_cond :: "TCGCond \<Rightarrow> TCGCond" where
  "tcg_high_cond c =
     (if c = TCG_COND_GE \<or> c = TCG_COND_LE \<or> c = TCG_COND_GEU \<or> c = TCG_COND_LEU then c XOR 8 else c)"

definition do_constant_folding_cond_32 :: "u32 \<Rightarrow> u32 \<Rightarrow> TCGCond \<Rightarrow> bool res" where
  "do_constant_folding_cond_32 x y c =
     (if c = TCG_COND_EQ then Inr (x = y)
      else if c = TCG_COND_NE then Inr (x \<noteq> y)
      else if c = TCG_COND_LT then Inr (sint x < sint y)
      else if c = TCG_COND_GE then Inr (sint x \<ge> sint y)
      else if c = TCG_COND_LE then Inr (sint x \<le> sint y)
      else if c = TCG_COND_GT then Inr (sint x > sint y)
      else if c = TCG_COND_LTU then Inr (x < y)
      else if c = TCG_COND_GEU then Inr (x \<ge> y)
      else if c = TCG_COND_LEU then Inr (x \<le> y)
      else if c = TCG_COND_GTU then Inr (x > y)
      else Inl Assert)"

definition do_constant_folding_cond_64 :: "u64 \<Rightarrow> u64 \<Rightarrow> TCGCond \<Rightarrow> bool res" where
  "do_constant_folding_cond_64 x y c =
     (if c = TCG_COND_EQ then Inr (x = y)
      else if c = TCG_COND_NE then Inr (x \<noteq> y)
      else if c = TCG_COND_LT then Inr (sint x < sint y)
      else if c = TCG_COND_GE then Inr (sint x \<ge> sint y)
      else if c = TCG_COND_LE then Inr (sint x \<le> sint y)
      else if c = TCG_COND_GT then Inr (sint x > sint y)
      else if c = TCG_COND_LTU then Inr (x < y)
      else if c = TCG_COND_GEU then Inr (x \<ge> y)
      else if c = TCG_COND_LEU then Inr (x \<le> y)
      else if c = TCG_COND_GTU then Inr (x > y)
      else Inl Assert)"

definition do_constant_folding_cond_eq :: "TCGCond \<Rightarrow> bool res" where
  "do_constant_folding_cond_eq c =
     (if c = TCG_COND_GT \<or> c = TCG_COND_LTU \<or> c = TCG_COND_LT \<or> c = TCG_COND_GTU \<or> c = TCG_COND_NE then Inr False
      else if c = TCG_COND_GE \<or> c = TCG_COND_GEU \<or> c = TCG_COND_LE \<or> c = TCG_COND_LEU \<or> c = TCG_COND_EQ then Inr True
      else Inl Assert)"

section \<open>Folding of 32-bit operations\<close>

text \<open>The operations on 32-bit words.\<close>

primrec op32 :: "tcg_opname \<Rightarrow> u32 \<Rightarrow> u32 \<Rightarrow> u32 res" where
  "op32 OP_add a b = Inr (a + b)"
| "op32 OP_sub a b = Inr (a - b)"
| "op32 OP_mul a b = Inr (a * b)"
| "op32 OP_and a b = Inr (a AND b)"
| "op32 OP_or a b = Inr (a OR b)"
| "op32 OP_xor a b = Inr (a XOR b)"
| "op32 OP_shl a b = Inr (push_bit (unat b mod 32) a)"
| "op32 OP_shr a b = Inr (drop_bit (unat b mod 32) a)"
| "op32 OP_sar a b = Inr (signed_drop_bit (unat b mod 32) a)"
| "op32 OP_rotr a b = Inr (word_rotr (unat b mod 32) a)"
| "op32 OP_rotl a b = Inr (word_rotl (unat b mod 32) a)"
| "op32 OP_not a b = Inr (NOT a)"
| "op32 OP_neg a b = Inr (- a)"
| "op32 OP_andc a b = Inr (a AND NOT b)"
| "op32 OP_orc a b = Inr (a OR NOT b)"
| "op32 OP_eqv a b = Inr (NOT (a XOR b))"
| "op32 OP_nand a b = Inr (NOT (a AND b))"
| "op32 OP_nor a b = Inr (NOT (a OR b))"
| "op32 OP_clz a b = Inr (helper_clz_i32 a b)"
| "op32 OP_ctz a b = Inr (helper_ctz_i32 a b)"
| "op32 OP_ctpop a b = Inr (helper_ctpop_i32 a)"
| "op32 OP_ext8s a b = Inr (scast (ucast a :: u8))"
| "op32 OP_ext16s a b = Inr (scast (ucast a :: u16))"
| "op32 OP_ext8u a b = Inr (ucast (ucast a :: u8))"
| "op32 OP_ext16u a b = Inr (ucast (ucast a :: u16))"
| "op32 OP_bswap16 a b = Inr (ucast (bswap_16 (ucast a)))"
| "op32 OP_bswap32 a b = Inr (bswap_32 a)"
| "op32 OP_muluh a b = Inr (word_of_int (uint a * uint b div 2 ^ 32))"
| "op32 OP_mulsh a b = Inr (word_of_int (sint a * sint b div 2 ^ 32))"
| "op32 OP_div a b = (if b = 0 then Inr a else helper_div_i32 a b)"
| "op32 OP_divu a b = (if b = 0 then Inr a else helper_divu_i32 a b)"
| "op32 OP_rem a b = (if b = 0 then Inr 0 else helper_rem_i32 a b)"
| "op32 OP_remu a b = (if b = 0 then Inr 0 else helper_remu_i32 a b)"

lemma low_add: "(ucast (x + y :: u64) :: u32) = ucast x + ucast y"
proof -
  have "ucast (of_nat (unat x + unat y) :: u64) = (of_nat (unat x + unat y) :: u32)" by (rule ucast_of_nat_down) simp
  then show ?thesis by simp
qed

lemma low_mult: "(ucast (x * y :: u64) :: u32) = ucast x * ucast y"
proof -
  have "ucast (of_nat (unat x * unat y) :: u64) = (of_nat (unat x * unat y) :: u32)" by (rule ucast_of_nat_down) simp
  then show ?thesis by simp
qed

lemma low_diff: "(ucast (x - y :: u64) :: u32) = ucast x - ucast y"
  using low_add [of "x - y" y] by (simp add: eq_diff_eq)

lemma low_neg: "(ucast (- x :: u64) :: u32) = - ucast x"
  using low_diff [of 0 x] by simp

lemmas low_arith = low_add low_diff low_mult low_neg

lemma low_bits:
  "(ucast (x AND y :: u64) :: u32) = ucast x AND ucast y"
  "(ucast (x OR y :: u64) :: u32) = ucast x OR ucast y"
  "(ucast (x XOR y :: u64) :: u32) = ucast x XOR ucast y"
  "(ucast (NOT x :: u64) :: u32) = NOT (ucast x)"
  by (auto intro!: bit_word_eqI simp: bit_simps)

lemma low_casts:
  "(ucast (ucast (w :: u32) :: u64) :: u32) = w"
  "(ucast (scast (w :: u32) :: u64) :: u32) = w"
  "(ucast (ucast (b :: u8) :: u64) :: u32) = ucast b"
  "(ucast (scast (b :: u8) :: u64) :: u32) = scast b"
  "(ucast (ucast (h :: u16) :: u64) :: u32) = ucast h"
  "(ucast (scast (h :: u16) :: u64) :: u32) = scast h"
  by (rule bit_word_eqI, simp add: bit_simps; auto)+

lemma low_parts: "(ucast (x :: u64) :: u8) = ucast (ucast x :: u32)" "(ucast (x :: u64) :: u16) = ucast (ucast x :: u32)"
  by (auto intro!: bit_word_eqI simp: bit_simps)

lemma shift_count_32: "unat ((y :: u64) AND 31) = unat (ucast y :: u32) mod 32"
proof -
  have "unat (y AND 31) = unat y mod 32" using unat_and_mask [of y 5] by (simp add: mask_eq_exp_minus_1)
  then show ?thesis by (simp add: unat_ucast_mod mod_mod_cancel)
qed

lemma rotate_count_32: "unat (ucast ((y :: u64) AND 31) :: u32) = unat (ucast y :: u32) mod 32"
  unfolding shift_count_32 [symmetric] unat_ucast_mod shift_count_32 by (simp add: mod_mod_cancel)

lemma muluh_32: "(ucast (drop_bit 32 (ucast (a :: u32) * ucast (b :: u32) :: u64)) :: u32) = word_of_int (uint a * uint b div 2 ^ 32)"
proof -
  have "uint a * uint b < 2 ^ 32 * 2 ^ 32"
    using uint_lt2p [of a] uint_lt2p [of b] by (intro mult_strict_mono) simp_all
  moreover have "uint (ucast w :: u64) = uint w" for w :: u32
    using uint_lt2p [of w] by (simp add: unsigned_ucast_eq take_bit_int_eq_self)
  ultimately have "uint (ucast a * ucast b :: u64) = uint a * uint b" by (simp add: uint_word_ariths)
  then show ?thesis by (simp only: ucast_uint uint_drop_bit)
qed

lemma mulsh_32: "(ucast (signed_drop_bit 32 (scast (a :: u32) * scast (b :: u32) :: u64)) :: u32) = word_of_int (sint a * sint b div 2 ^ 32)"
proof -
  have "\<bar>sint w\<bar> \<le> 2 ^ 31" for w :: u32 using sint_ge [of w] sint_lt [of w] by simp
  then have "\<bar>sint a * sint b\<bar> \<le> 2 ^ 62" unfolding abs_mult
    using mult_mono [of "\<bar>sint a\<bar>" "2 ^ 31" "\<bar>sint b\<bar>" "2 ^ 31"] by simp
  then have "sint (word_of_int (sint a * sint b) :: u64) = sint a * sint b"
    unfolding abs_le_iff by (intro sint_word_of_int_small; simp; linarith)
  moreover define r :: u64 where "r = scast a * scast b"
  moreover have "r = word_of_int (sint a * sint b)" by (simp add: r_def signed_of_int)
  ultimately have "sint r = sint a * sint b" by simp
  then show ?thesis unfolding r_def [symmetric] by (simp add: ucast_sint sint_signed_drop_bit)
qed

lemma c_division_32:
  "c_div a (or_one b) = (if b = 0 then Inr a else helper_div_i32 a b)"
  "c_rem a (or_one b) = (if b = 0 then Inr 0 else helper_rem_i32 a b)"
  for a b :: u32
proof -
  have "k sdiv 1 = k" "k smod 1 = 0" for k :: int
    by (simp_all add: signed_modulo_int_def signed_divide_int_def sgn_mult_abs)
  then show "c_div a (or_one b) = (if b = 0 then Inr a else helper_div_i32 a b)"
    "c_rem a (or_one b) = (if b = 0 then Inr 0 else helper_rem_i32 a b)"
    by (auto simp: c_div_def c_rem_def or_one_def helper_div_i32_def helper_rem_i32_def sdiv_word_def smod_word_def)
qed

lemma fold_i32_low: "bind_res (fold_i32 n x y) (\<lambda>r. Inr (ucast r :: u32)) = op32 n (ucast x) (ucast y)"
proof (cases n)
  case OP_rotr
  then show ?thesis using rotate_values(3) [of "ucast (y AND 31)" "ucast x"] by (simp add: rotate_count_32 low_casts)
next
  case OP_rotl
  then show ?thesis using rotate_values(3) [of "ucast (y AND 31)" "ucast x"] by (simp add: rotate_count_32 low_casts)
next
  case OP_div
  then show ?thesis by (auto simp: c_division_32 bind_res_def low_casts split: sum.split)
next
  case OP_rem
  then show ?thesis by (auto simp: c_division_32 bind_res_def low_casts split: sum.split)
qed (simp_all add: low_arith low_bits low_casts low_parts shift_count_32 muluh_32 mulsh_32 helper_clz_i32_def
    helper_ctz_i32_def helper_ctpop_i32_def helper_divu_i32_def helper_remu_i32_def or_one_def ucast_of_nat_down)

text \<open>
  C24. Folding a 32-bit operation works on the low halves of its arguments, whatever their high halves
  hold, computes what the operation does on 32-bit words, and returns the result sign-extended. A
  division by zero does not stop it.
\<close>

theorem folding_32_bit:
  "do_constant_folding (INDEX_op n I32) x y = bind_res (op32 n (ucast x) (ucast y)) (\<lambda>r. Inr (scast r))"
  using fold_i32_low [of n x y] by (auto simp: do_constant_folding_def bind_res_def split: sum.splits)

lemma shift_count_64: "unat ((y :: u64) AND 63) = unat y mod 64"
  using unat_and_mask [of y 6] by (simp add: mask_eq_exp_minus_1)

lemma shift_small_64: "(y :: u64) AND 63 < 64" "sint ((y :: u64) AND 63) = int (unat y mod 64)"
proof -
  have less: "unat (y AND 63) < 64" by (simp add: shift_count_64)
  then show "y AND 63 < 64" by (simp add: word_less_nat_alt)
  have "unat (y AND 63) < 2 ^ (LENGTH(64) - 1)" using less by simp
  then show "sint (y AND 63) = int (unat y mod 64)" using sint_small [of "y AND 63"] shift_count_64 [of y] by simp
qed

lemma rotate_count_64: "unat (ucast ((y :: u64) AND 63) :: u32) = unat y mod 64"
  unfolding unat_ucast_mod shift_count_64 by (simp add: mod_mod_cancel)

lemma c_division_64:
  "c_div a (or_one b) = (if b = 0 then Inr a else helper_div_i64 a b)"
  "c_rem a (or_one b) = (if b = 0 then Inr 0 else helper_rem_i64 a b)"
  for a b :: u64
proof -
  have "k sdiv 1 = k" "k smod 1 = 0" for k :: int
    by (simp_all add: signed_modulo_int_def signed_divide_int_def sgn_mult_abs)
  then show "c_div a (or_one b) = (if b = 0 then Inr a else helper_div_i64 a b)"
    "c_rem a (or_one b) = (if b = 0 then Inr 0 else helper_rem_i64 a b)"
    by (auto simp: c_div_def c_rem_def or_one_def helper_div_i64_def helper_rem_i64_def sdiv_word_def smod_word_def)
qed

lemma div_or_one: "x div or_one y = (if y = 0 then x else x div y)" "x mod or_one y = (if y = 0 then 0 else x mod y)" for x y :: u64
  by (simp_all add: or_one_def)

text \<open>
  C25. Folding a 64-bit operation gives what the runtime helper of the operation returns, with the
  shift count taken modulo 64; only a division by zero, which is undefined at run time, is folded to
  the dividend or to a remainder of 0.
\<close>

theorem folding_64_bit_helpers:
  "do_constant_folding (INDEX_op OP_shl I64) x y = helper_shl_i64 x (y AND 63) \<and>
   do_constant_folding (INDEX_op OP_shr I64) x y = helper_shr_i64 x (y AND 63) \<and>
   do_constant_folding (INDEX_op OP_sar I64) x y = helper_sar_i64 x (y AND 63) \<and>
   do_constant_folding (INDEX_op OP_rotl I64) x y = Inr (word_rotl (unat y mod 64) x) \<and>
   do_constant_folding (INDEX_op OP_rotr I64) x y = Inr (word_rotr (unat y mod 64) x) \<and>
   do_constant_folding (INDEX_op OP_muluh I64) x y = Inr (helper_muluh_i64 x y) \<and>
   do_constant_folding (INDEX_op OP_mulsh I64) x y = Inr (helper_mulsh_i64 x y) \<and>
   do_constant_folding (INDEX_op OP_clz I64) x y = Inr (helper_clz_i64 x y) \<and>
   do_constant_folding (INDEX_op OP_ctz I64) x y = Inr (helper_ctz_i64 x y) \<and>
   do_constant_folding (INDEX_op OP_ctpop I64) x y = Inr (helper_ctpop_i64 x) \<and>
   do_constant_folding (INDEX_op OP_div I64) x y = (if y = 0 then Inr x else helper_div_i64 x y) \<and>
   do_constant_folding (INDEX_op OP_rem I64) x y = (if y = 0 then Inr 0 else helper_rem_i64 x y) \<and>
   do_constant_folding (INDEX_op OP_divu I64) x y = (if y = 0 then Inr x else helper_divu_i64 x y) \<and>
   do_constant_folding (INDEX_op OP_remu I64) x y = (if y = 0 then Inr 0 else helper_remu_i64 x y)"
  using rotate_values(4) [of "ucast (y AND 63)" x] shift_small_64 [of y]
  by (simp add: do_constant_folding_def shift_count_64 rotate_count_64 c_division_64 div_or_one
      helper_shl_i64_def helper_shr_i64_def helper_sar_i64_def helper_muluh_i64_def helper_mulsh_i64_def
      helper_clz_i64_def helper_ctz_i64_def helper_ctpop_i64_def helper_divu_i64_def helper_remu_i64_def
      split: prod.split)

section \<open>Laws of conditions\<close>

lemma xor_eq_nat: "(c :: nat) XOR m = k \<longleftrightarrow> c = k XOR m"
  by (metis xor.assoc xor.right_neutral xor_self_eq)

text \<open>A 64-bit value from its halves.\<close>

lemma high_half_64: "uint (ucast (drop_bit 32 a) :: u32) = uint a div 2 ^ 32" for a :: u64
proof -
  have "uint a div 2 ^ 32 < 2 ^ 32" using uint_lt2p [of a] by (simp add: div_less_iff_less_mult)
  then have "take_bit 32 (uint a div 2 ^ 32) = uint a div 2 ^ 32" by (intro take_bit_int_eq_self) (simp_all add: pos_imp_zdiv_nonneg_iff)
  then show ?thesis by (simp add: unsigned_ucast_eq uint_drop_bit)
qed

lemma uint_halves: "uint a = uint (ucast (drop_bit 32 a) :: u32) * 2 ^ 32 + uint (ucast a :: u32)" for a :: u64
  unfolding high_half_64 by (simp add: unsigned_ucast_eq take_bit_eq_mod)

lemma sint_halves: "sint a = sint (ucast (drop_bit 32 a) :: u32) * 2 ^ 32 + uint (ucast a :: u32)" for a :: u64
proof -
  define k where "k = sint a div 2 ^ 32"
  have "- (2 ^ 31) \<le> k" "k < 2 ^ 31"
    using sint_ge [of a] sint_lt [of a] zdiv_mono1 [of "- (2 ^ 63)" "sint a" "2 ^ 32"]
    by (simp_all add: k_def div_less_iff_less_mult)
  then have "sint (word_of_int k :: u32) = k" by (intro sint_word_of_int_small) simp_all
  moreover have "(ucast (drop_bit 32 a) :: u32) = ucast (signed_drop_bit 32 a)"
    by (rule bit_word_eqI) (auto simp: bit_simps)
  then have "(ucast (drop_bit 32 a) :: u32) = word_of_int k" by (simp add: k_def ucast_sint sint_signed_drop_bit)
  moreover have "uint (ucast a :: u32) = sint a mod 2 ^ 32"
  proof -
    have "(ucast a :: u32) = word_of_int (sint a)" by (rule ucast_sint) simp
    then have "uint (ucast a :: u32) = take_bit LENGTH(32) (sint a)" by (simp only: unsigned_of_int of_int_eq_id id_apply) simp
    then show ?thesis by (simp add: take_bit_eq_mod)
  qed
  ultimately show ?thesis by (simp add: k_def)
qed

lemma pair_less:
  fixes h h' l l' :: int
  assumes "0 \<le> l" "l < m" "0 \<le> l'" "l' < m"
  shows "h * m + l < h' * m + l' \<longleftrightarrow> h < h' \<or> h = h' \<and> l < l'"
proof -
  have "(h + 1) * m \<le> h' * m" if "h < h'" using that assms by (intro mult_right_mono) auto
  moreover have "(h' + 1) * m \<le> h * m" if "h' < h" using that assms by (intro mult_right_mono) auto
  ultimately show ?thesis using assms by (cases h h' rule: linorder_cases) (auto simp: algebra_simps)
qed

lemma compare_halves:
  fixes x y :: u64
  defines "xh \<equiv> ucast (drop_bit 32 x) :: u32" and "yh \<equiv> ucast (drop_bit 32 y) :: u32"
    and "xl \<equiv> ucast x :: u32" and "yl \<equiv> ucast y :: u32"
  shows "x < y \<longleftrightarrow> xh < yh \<or> xh = yh \<and> xl < yl"
    and "sint x < sint y \<longleftrightarrow> sint xh < sint yh \<or> xh = yh \<and> xl < yl"
    and "x = y \<longleftrightarrow> xh = yh \<and> xl = yl"
proof -
  have bounds: "0 \<le> uint w" "uint w < 2 ^ 32" for w :: u32 using uint_lt2p [of w] by simp_all
  have "uint x < uint y \<longleftrightarrow> uint xh < uint yh \<or> uint xh = uint yh \<and> uint xl < uint yl"
    unfolding uint_halves [of x] uint_halves [of y] xh_def yh_def xl_def yl_def by (rule pair_less) (rule bounds)+
  then show less: "x < y \<longleftrightarrow> xh < yh \<or> xh = yh \<and> xl < yl" by (simp add: word_less_def word_uint_eq_iff)
  have "sint x < sint y \<longleftrightarrow> sint xh < sint yh \<or> sint xh = sint yh \<and> uint xl < uint yl"
    unfolding sint_halves [of x] sint_halves [of y] xh_def yh_def xl_def yl_def by (rule pair_less) (rule bounds)+
  then show "sint x < sint y \<longleftrightarrow> sint xh < sint yh \<or> xh = yh \<and> xl < yl" 
    unfolding word_less_def by (metis signed_word_eqI)
  have "x = y \<longleftrightarrow> uint x = uint y" by (simp add: word_uint_eq_iff)
  then show "x = y \<longleftrightarrow> xh = yh \<and> xl = yl"
    using uint_halves [of x] uint_halves [of y] unfolding xh_def yh_def xl_def yl_def by auto
qed

definition comparisons :: "TCGCond list" where
  "comparisons = [TCG_COND_EQ, TCG_COND_NE, TCG_COND_LT, TCG_COND_GE, TCG_COND_LE, TCG_COND_GT, TCG_COND_LTU, TCG_COND_GEU,
     TCG_COND_LEU, TCG_COND_GTU]"

lemma cond_halves:
  assumes "c \<in> set comparisons"
  shows "do_constant_folding_cond_64 x y c =
     (if ucast (drop_bit 32 x) = (ucast (drop_bit 32 y) :: u32)
      then do_constant_folding_cond_32 (ucast x) (ucast y) (tcg_unsigned_cond c)
      else do_constant_folding_cond_32 (ucast (drop_bit 32 x)) (ucast (drop_bit 32 y)) (tcg_high_cond c))"
proof -
  let ?h = "\<lambda>a :: u64. ucast (drop_bit 32 a) :: u32"
  have le: "x \<le> y \<longleftrightarrow> \<not> y < x" "sint x \<le> sint y \<longleftrightarrow> \<not> sint y < sint x"
    "ucast x \<le> (ucast y :: u32) \<longleftrightarrow> \<not> ucast y < (ucast x :: u32)" "?h x \<le> ?h y \<longleftrightarrow> \<not> ?h y < ?h x" "sint (?h x) \<le> sint (?h y) \<longleftrightarrow> \<not> sint (?h y) < sint (?h x)"
    for x y :: u64 by auto
  have ne: "sint (?h x) < sint (?h y) \<longleftrightarrow> \<not> sint (?h y) < sint (?h x)" "?h x < ?h y \<longleftrightarrow> \<not> ?h y < ?h x" if "?h x \<noteq> ?h y"
  proof -
    have "sint (?h x) \<noteq> sint (?h y)" using that by (metis signed_word_eqI)
    then show "sint (?h x) < sint (?h y) \<longleftrightarrow> \<not> sint (?h y) < sint (?h x)" "?h x < ?h y \<longleftrightarrow> \<not> ?h y < ?h x"
      using that by auto
  qed
  show ?thesis
  proof (cases "?h x = ?h y")
    case True
    then show ?thesis using assms
      by (auto simp: comparisons_def do_constant_folding_cond_64_def do_constant_folding_cond_32_def tcg_unsigned_cond_def
          cond_defs le compare_halves)
  next
    case False
    then show ?thesis using assms ne
      by (auto simp: comparisons_def do_constant_folding_cond_64_def do_constant_folding_cond_32_def tcg_high_cond_def
          cond_defs le compare_halves)
  qed
qed

text \<open>
  The conditions of comparisons: exactly the ten comparisons can be folded; inverting a condition
  negates it, swapping a condition swaps its operands, a comparison of equal operands is decided by
  the condition alone, and a comparison of 64-bit values is the comparison of the high halves
  without equality or, where these are equal, the unsigned comparison of the low halves.
\<close>

theorem comparison_conditions:
  "((\<exists>b. do_constant_folding_cond_64 x y c = Inr b) \<longleftrightarrow> c \<in> set comparisons) \<and>
   do_constant_folding_cond_64 x y (tcg_invert_cond c) = map_sum id Not (do_constant_folding_cond_64 x y c) \<and>
   do_constant_folding_cond_64 y x (tcg_swap_cond c) = do_constant_folding_cond_64 x y c \<and>
   do_constant_folding_cond_64 x x c = do_constant_folding_cond_eq c \<and>
   (c \<in> set comparisons \<longrightarrow> do_constant_folding_cond_64 x y c =
     (if ucast (drop_bit 32 x) = (ucast (drop_bit 32 y) :: u32)
      then do_constant_folding_cond_32 (ucast x) (ucast y) (tcg_unsigned_cond c)
      else do_constant_folding_cond_32 (ucast (drop_bit 32 x)) (ucast (drop_bit 32 y)) (tcg_high_cond c)))"
proof (intro conjI impI)
  show "(\<exists>b. do_constant_folding_cond_64 x y c = Inr b) \<longleftrightarrow> c \<in> set comparisons"
    by (auto simp: do_constant_folding_cond_64_def comparisons_def cond_defs)
  show "do_constant_folding_cond_64 x y (tcg_invert_cond c) = map_sum id Not (do_constant_folding_cond_64 x y c)"
    by (auto simp: do_constant_folding_cond_64_def tcg_invert_cond_def cond_defs xor_eq_nat)
  show "do_constant_folding_cond_64 x x c = do_constant_folding_cond_eq c"
    by (simp add: do_constant_folding_cond_64_def do_constant_folding_cond_eq_def cond_defs)
  show "do_constant_folding_cond_64 y x (tcg_swap_cond c) = do_constant_folding_cond_64 x y c"
    by (auto simp: do_constant_folding_cond_64_def tcg_swap_cond_def cond_defs xor_eq_nat)
qed (rule cond_halves)

theorem comparison_conditions_witness:
  "do_constant_folding_cond_64 0x100000002 0x100000003 TCG_COND_LE =
     do_constant_folding_cond_32 (ucast (0x100000002 :: u64)) (ucast (0x100000003 :: u64)) (tcg_unsigned_cond TCG_COND_LE) \<and>
   tcg_unsigned_cond TCG_COND_LE = TCG_COND_LEU"
  using comparison_conditions [of "0x100000002" "0x100000003" TCG_COND_LE]
  by (simp add: comparisons_def) (simp add: tcg_unsigned_cond_def cond_defs)

end
