(* ===== verification/OptTemps.thy ===== *)
theory OptTemps
  imports ConstFold
begin

text \<open>
  What the optimizer knows about the temporaries of the intermediate code (\<^verbatim>\<open>libtcg/src/optimize.c\<close>):
  constants, possible bits, and circular doubly linked lists of temporaries with the same value. A
  temporary is its number; the information about all of them is a function. The loops along a list
  carry a budget of steps, the number of temporaries; \<open>find_copy_total\<close> shows that it suffices.
\<close>

section \<open>State\<close>

datatype TCGType = TCG_TYPE_I32 | TCG_TYPE_I64 | TCG_TYPE_V64 | TCG_TYPE_V128 | TCG_TYPE_V256

record TCGTemp =
  temp_type :: TCGType
  temp_global :: bool
  temp_local :: bool

record tcg_temp_info =
  is_const :: bool
  prev_copy :: nat
  next_copy :: nat
  ti_val :: u64
  ti_mask :: u64

type_synonym infos = "nat \<Rightarrow> tcg_temp_info"

definition ts_is_const :: "infos \<Rightarrow> nat \<Rightarrow> bool" where
  "ts_is_const f ts = is_const (f ts)"

definition ts_is_copy :: "infos \<Rightarrow> nat \<Rightarrow> bool" where
  "ts_is_copy f ts = (next_copy (f ts) \<noteq> ts)"

text \<open>The assignments in their order; the three entries may be the same one.\<close>

definition reset_ts :: "infos \<Rightarrow> nat \<Rightarrow> infos" where
  "reset_ts f ts =
     (let pi = prev_copy (f ts); ni = next_copy (f ts);
          f = f(ni := (f ni)\<lparr>prev_copy := prev_copy (f ts)\<rparr>);
          f = f(pi := (f pi)\<lparr>next_copy := next_copy (f ts)\<rparr>)
      in f(ts := (f ts)\<lparr>next_copy := ts, prev_copy := ts, is_const := False, ti_mask := - 1\<rparr>))"

text \<open>The set of the temporaries in use is the bitmap \<^verbatim>\<open>temps_used\<close>.\<close>

definition init_ts_info :: "infos \<Rightarrow> nat set \<Rightarrow> nat \<Rightarrow> infos \<times> nat set" where
  "init_ts_info f temps_used idx =
     (if idx \<notin> temps_used
      then (f(idx := (f idx)\<lparr>next_copy := idx, prev_copy := idx, is_const := False, ti_mask := - 1\<rparr>), insert idx temps_used)
      else (f, temps_used))"

text \<open>The loop along the copies of \<open>ts\<close>, from \<open>i\<close> on, for the first one with the property.\<close>

fun find_copy :: "nat \<Rightarrow> infos \<Rightarrow> (nat \<Rightarrow> bool) \<Rightarrow> nat \<Rightarrow> nat \<Rightarrow> nat option res" where
  "find_copy 0 f P ts i = Inl OutOfFuel"
| "find_copy (Suc n) f P ts i =
     (if i = ts then Inr None else if P i then Inr (Some i) else find_copy n f P ts (next_copy (f i)))"

text \<open>In the second search the property is one of \<open>ts\<close> and not of the copy.\<close>

definition find_better_copy :: "nat \<Rightarrow> (nat \<Rightarrow> TCGTemp) \<Rightarrow> infos \<Rightarrow> nat \<Rightarrow> nat res" where
  "find_better_copy n temps f ts =
     (if temp_global (temps ts) then Inr ts
      else bind_res (find_copy n f (\<lambda>i. temp_global (temps i)) ts (next_copy (f ts))) (\<lambda>r.
        case r of
          Some i \<Rightarrow> Inr i
        | None \<Rightarrow>
            if \<not> temp_local (temps ts) then
              bind_res (find_copy n f (\<lambda>i. temp_local (temps ts)) ts (next_copy (f ts))) (\<lambda>r.
                case r of Some i \<Rightarrow> Inr i | None \<Rightarrow> Inr ts)
            else Inr ts))"

definition ts_are_copies :: "nat \<Rightarrow> infos \<Rightarrow> nat \<Rightarrow> nat \<Rightarrow> bool res" where
  "ts_are_copies n f ts1 ts2 =
     (if ts1 = ts2 then Inr True
      else if \<not> ts_is_copy f ts1 \<or> \<not> ts_is_copy f ts2 then Inr False
      else bind_res (find_copy n f (\<lambda>i. i = ts2) ts1 (next_copy (f ts1))) (\<lambda>r. Inr (r \<noteq> None)))"

section \<open>Moves\<close>

text \<open>
  The flags of the current operation, \<^verbatim>\<open>TCG_OPF_VECTOR\<close> before \<^verbatim>\<open>TCG_OPF_64BIT\<close>, choose the
  operation that replaces it.
\<close>

datatype op_class = Op_vec | Op_i64 | Op_i32

datatype new_op = Op_removed | Op_mov op_class nat nat | Op_movi op_class nat u64

definition tcg_opt_gen_movi :: "infos \<Rightarrow> op_class \<Rightarrow> nat \<Rightarrow> u64 \<Rightarrow> new_op \<times> infos" where
  "tcg_opt_gen_movi f w dst val =
     (let f = reset_ts f dst;
          m = (if w = Op_i32 then val OR NOT 0xffffffff else val)
      in (Op_movi w dst val, f(dst := (f dst)\<lparr>is_const := True, ti_val := val, ti_mask := m\<rparr>)))"

definition tcg_opt_gen_mov :: "nat \<Rightarrow> (nat \<Rightarrow> TCGTemp) \<Rightarrow> infos \<Rightarrow> op_class \<Rightarrow> nat \<Rightarrow> nat \<Rightarrow> (new_op \<times> infos) res" where
  "tcg_opt_gen_mov n temps f w dst src =
     bind_res (ts_are_copies n f dst src) (\<lambda>b.
       if b then Inr (Op_removed, f)
       else
         let f = reset_ts f dst;
             m = (if w = Op_i32 then ti_mask (f src) OR NOT 0xffffffff else ti_mask (f src));
             f = f(dst := (f dst)\<lparr>ti_mask := m\<rparr>)
         in if temp_type (temps src) = temp_type (temps dst) then
              let ni = next_copy (f src);
                  f = f(dst := (f dst)\<lparr>next_copy := ni, prev_copy := src\<rparr>);
                  f = f(ni := (f ni)\<lparr>prev_copy := dst\<rparr>);
                  f = f(src := (f src)\<lparr>next_copy := dst\<rparr>);
                  f = f(dst := (f dst)\<lparr>is_const := is_const (f src), ti_val := ti_val (f src)\<rparr>)
              in Inr (Op_mov w dst src, f)
            else Inr (Op_mov w dst src, f))"

section \<open>Comparisons\<close>

text \<open>The results 0 and 1 are the value of the condition, 2 that it is not known.\<close>

definition of_flag :: "bool res \<Rightarrow> nat res" where
  "of_flag r = bind_res r (\<lambda>b. Inr (if b then 1 else 0))"

definition do_constant_folding_cond :: "nat \<Rightarrow> infos \<Rightarrow> op_class \<Rightarrow> nat \<Rightarrow> nat \<Rightarrow> TCGCond \<Rightarrow> nat res" where
  "do_constant_folding_cond n f w x y c =
     (let xv = ti_val (f x); yv = ti_val (f y) in
      if ts_is_const f x \<and> ts_is_const f y then
        assert_res (w \<noteq> Op_vec)
          (of_flag (if w = Op_i64 then do_constant_folding_cond_64 xv yv c else do_constant_folding_cond_32 (ucast xv) (ucast yv) c))
      else bind_res (ts_are_copies n f x y) (\<lambda>b.
        if b then of_flag (do_constant_folding_cond_eq c)
        else if ts_is_const f y \<and> yv = 0 then
          if c = TCG_COND_LTU then Inr 0 else if c = TCG_COND_GEU then Inr 1 else Inr 2
        else Inr 2))"

text \<open>The comparison of two pairs of a low and a high half; the test of the second pair of copies is only made after the first.\<close>

definition cond2_copies :: "nat \<Rightarrow> infos \<Rightarrow> nat \<times> nat \<Rightarrow> nat \<times> nat \<Rightarrow> TCGCond \<Rightarrow> nat res" where
  "cond2_copies n f p1 p2 c =
     bind_res (ts_are_copies n f (fst p1) (fst p2)) (\<lambda>b.
       if b then bind_res (ts_are_copies n f (snd p1) (snd p2)) (\<lambda>b. if b then of_flag (do_constant_folding_cond_eq c) else Inr 2)
       else Inr 2)"

definition do_constant_folding_cond2 :: "nat \<Rightarrow> infos \<Rightarrow> nat \<times> nat \<Rightarrow> nat \<times> nat \<Rightarrow> TCGCond \<Rightarrow> nat res" where
  "do_constant_folding_cond2 n f p1 p2 c =
     (let al = fst p1; ah = snd p1; bl = fst p2; bh = snd p2 in
      if ts_is_const f bl \<and> ts_is_const f bh then
        bind_res (deposit64 (ti_val (f bl)) 32 32 (ti_val (f bh))) (\<lambda>b.
          if ts_is_const f al \<and> ts_is_const f ah then
            bind_res (deposit64 (ti_val (f al)) 32 32 (ti_val (f ah))) (\<lambda>a. of_flag (do_constant_folding_cond_64 a b c))
          else if b = 0 \<and> c = TCG_COND_LTU then Inr 0
          else if b = 0 \<and> c = TCG_COND_GEU then Inr 1
          else cond2_copies n f p1 p2 c)
      else cond2_copies n f p1 p2 c)"

definition swap_commutative :: "infos \<Rightarrow> nat \<Rightarrow> nat \<Rightarrow> nat \<Rightarrow> bool \<times> nat \<times> nat" where
  "swap_commutative f dest a1 a2 =
     (let sum = of_bool (ts_is_const f a1) - of_bool (ts_is_const f a2) :: int
      in if sum > 0 \<or> (sum = 0 \<and> dest = a2) then (True, a2, a1) else (False, a1, a2))"

definition swap_commutative2 :: "infos \<Rightarrow> nat \<times> nat \<Rightarrow> nat \<times> nat \<Rightarrow> bool \<times> (nat \<times> nat) \<times> (nat \<times> nat)" where
  "swap_commutative2 f p1 p2 =
     (let sum = of_bool (ts_is_const f (fst p1)) + of_bool (ts_is_const f (snd p1)) -
            of_bool (ts_is_const f (fst p2)) - of_bool (ts_is_const f (snd p2)) :: int
      in if sum > 0 then (True, p2, p1) else (False, p1, p2))"

section \<open>Circular lists\<close>

definition rings :: "nat set \<Rightarrow> infos \<Rightarrow> bool" where
  "rings U f \<longleftrightarrow> (\<forall>t \<in> U. next_copy (f t) \<in> U \<and> prev_copy (f t) \<in> U \<and>
     prev_copy (f (next_copy (f t))) = t \<and> next_copy (f (prev_copy (f t))) = t)"

primrec walk :: "infos \<Rightarrow> nat \<Rightarrow> nat \<Rightarrow> nat" where
  "walk f 0 t = t"
| "walk f (Suc k) t = walk f k (next_copy (f t))"

lemma walk_add: "walk f (i + j) t = walk f j (walk f i t)"
  by (induction i arbitrary: t) auto

lemma ringsD:
  assumes "rings U f" and "t \<in> U"
  shows "next_copy (f t) \<in> U" "prev_copy (f t) \<in> U" "prev_copy (f (next_copy (f t))) = t" "next_copy (f (prev_copy (f t))) = t"
  using assms by (auto simp: rings_def)

lemma walk_in: "rings U f \<Longrightarrow> t \<in> U \<Longrightarrow> walk f k t \<in> U"
  by (induction k arbitrary: t) (simp_all add: ringsD(1))

lemma walk_inj: "rings U f \<Longrightarrow> t \<in> U \<Longrightarrow> u \<in> U \<Longrightarrow> walk f k t = walk f k u \<Longrightarrow> t = u"
proof (induction k arbitrary: t u)
  case (Suc k)
  have "next_copy (f t) = next_copy (f u)"
    using Suc.IH [OF Suc.prems(1) ringsD(1) [OF Suc.prems(1,2)] ringsD(1) [OF Suc.prems(1,3)]] Suc.prems(4) by simp
  then show ?case using ringsD(3) [OF Suc.prems(1,2)] ringsD(3) [OF Suc.prems(1,3)] by metis
qed simp

lemma walk_returns:
  assumes "rings U f" and "t \<in> U" and "finite U"
  shows "\<exists>k. 0 < k \<and> k \<le> card U \<and> walk f k t = t"
proof -
  have "\<not> inj_on (\<lambda>k. walk f k t) {0..card U}"
  proof
    assume "inj_on (\<lambda>k. walk f k t) {0..card U}"
    moreover have "(\<lambda>k. walk f k t) ` {0..card U} \<subseteq> U" using walk_in [OF assms(1,2)] by auto
    ultimately have "card {0..card U} \<le> card U" using assms(3) by (rule card_inj_on_le)
    then show False by simp
  qed
  then obtain i j where ij: "i < j" "j \<le> card U" "walk f i t = walk f j t"
    unfolding inj_on_def by (metis atLeastAtMost_iff linorder_neqE_nat)
  have "walk f j t = walk f i (walk f (j - i) t)" using walk_add [of f "j - i" i t] ij(1) by simp
  then have "walk f (j - i) t = t"
    using walk_inj [OF assms(1) walk_in [OF assms(1,2)] assms(2), of i "j - i"] ij(3) by simp
  then show ?thesis using ij by (intro exI [of _ "j - i"]) auto
qed

lemma find_copy_steps: "walk f k i = ts \<Longrightarrow> k < n \<Longrightarrow> \<exists>r. find_copy n f P ts i = Inr r"
proof (induction n arbitrary: i k)
  case (Suc n)
  then show ?case by (cases k) auto
qed simp

lemma find_copy_total:
  assumes "rings U f" and "ts \<in> U" and "finite U" and "card U \<le> n"
  shows "\<exists>r. find_copy n f P ts (next_copy (f ts)) = Inr r"
proof -
  obtain k where k: "0 < k" "k \<le> card U" "walk f k ts = ts" using walk_returns [OF assms(1-3)] by blast
  then obtain m where "k = Suc m" by (cases k) auto
  with k assms(4) show ?thesis by (intro find_copy_steps [of f m]) auto
qed

lemma find_copy_Some: "find_copy n f P ts i = Inr (Some j) \<Longrightarrow> P j \<and> j \<noteq> ts \<and> (\<exists>k. j = walk f k i)"
proof (induction n arbitrary: i)
  case (Suc n)
  show ?case
  proof (cases "i = ts \<or> P i")
    case True
    then show ?thesis using Suc.prems by (auto intro: exI [of _ 0] split: if_splits)
  next
    case False
    then have "find_copy n f P ts (next_copy (f i)) = Inr (Some j)" using Suc.prems by simp
    from Suc.IH [OF this] obtain k where "P j" "j \<noteq> ts" "j = walk f (Suc k) i" by auto
    then show ?thesis by blast
  qed
qed simp

lemma find_copy_None: "find_copy n f P ts i = Inr None \<Longrightarrow> \<exists>m. walk f m i = ts \<and> (\<forall>k < m. \<not> P (walk f k i))"
proof (induction n arbitrary: i)
  case (Suc n)
  show ?case
  proof (cases "i = ts")
    case False
    then have "\<not> P i" "find_copy n f P ts (next_copy (f i)) = Inr None" using Suc.prems by (auto split: if_splits)
    with Suc.IH obtain m where m: "walk f (Suc m) i = ts" "\<forall>k < m. \<not> P (walk f (Suc k) i)" "\<not> P i" by fastforce
    then have "\<forall>k < Suc m. \<not> P (walk f k i)" by (metis less_Suc_eq_0_disj walk.simps(1))
    then show ?thesis using m(1) by blast
  qed (auto intro: exI [of _ 0])
qed simp

lemma walk_period: "walk f m t = t \<Longrightarrow> walk f (k * m + j) t = walk f j t"
  by (induction k) (auto simp: walk_add add.assoc)

text \<open>A search that finds nothing has seen the whole list.\<close>

lemma find_copy_none_all:
  assumes "find_copy n f P ts (next_copy (f ts)) = Inr None" and "\<not> P ts"
  shows "\<not> P (walk f k ts)"
proof -
  obtain m where m: "walk f (Suc m) ts = ts" "\<forall>k < m. \<not> P (walk f (Suc k) ts)" using find_copy_None [OF assms(1)] by auto
  have "walk f k ts = walk f (k mod Suc m) ts" using walk_period [OF m(1), of "k div Suc m" "k mod Suc m"] by (metis div_mult_mod_eq)
  moreover have "k mod Suc m < Suc m" by simp
  ultimately show ?thesis using m(2) assms(2) by (cases "k mod Suc m") (auto simp del: mod_less_divisor)
qed

text \<open>
  The search for copies ends within as many steps as there are temporaries in use, and two
  temporaries are copies exactly when the one is reached from the other along the list.
\<close>

lemma ts_are_copies_iff:
  assumes "rings U f" and "finite U" and "card U \<le> n" and "a \<in> U" and "b \<in> U"
  shows "ts_are_copies n f a b = Inr (\<exists>k. walk f k a = b)"
proof (cases "a = b \<or> \<not> ts_is_copy f a \<or> \<not> ts_is_copy f b")
  case True
  have alone: "walk f k t = t" if "\<not> ts_is_copy f t" for k t
    using that by (induction k) (simp_all add: ts_is_copy_def)
  have "walk f k a = b \<Longrightarrow> a = b" for k using True alone [of a k] alone [of b k] walk_inj [OF assms(1,4,5), of k] by metis
  then have "(\<exists>k. walk f k a = b) \<longleftrightarrow> a = b" using walk.simps(1) by blast
  then show ?thesis using True by (auto simp: ts_are_copies_def)
next
  case False
  obtain r where r: "find_copy n f (\<lambda>i. i = b) a (next_copy (f a)) = Inr r" using find_copy_total [OF assms(1,4,2,3)] by blast
  have "r \<noteq> None \<longleftrightarrow> (\<exists>k. walk f k a = b)"
  proof (cases r)
    case None
    have "walk f k a \<noteq> b" for k using find_copy_none_all [of n f "\<lambda>i. i = b" a k] r None False by simp
    then show ?thesis using None by simp
  next
    case (Some j)
    then obtain k where "b = walk f (Suc k) a" using find_copy_Some [of n f "\<lambda>i. i = b" a "next_copy (f a)" j] r by auto
    then show ?thesis using Some by blast
  qed
  then show ?thesis using False r by (simp add: ts_are_copies_def)
qed

end
