(* ===== verification/OptProps.thy ===== *)
theory OptProps
  imports OptTemps
begin

text \<open>
  Soundness of the copy and constant information of the optimizer: whatever operations record it, the
  temporaries hold at run time the values the information claims, the lists of copies stay circular,
  and a comparison that is folded has the folded value.
\<close>

section \<open>The lists stay circular\<close>

lemma rings_links:
  assumes "rings U f" and "s \<in> U" and "t \<in> U"
  shows "next_copy (f t) = s \<longleftrightarrow> t = prev_copy (f s)" "prev_copy (f t) = s \<longleftrightarrow> t = next_copy (f s)"
    "next_copy (f t) = next_copy (f s) \<longleftrightarrow> t = s" "prev_copy (f t) = prev_copy (f s) \<longleftrightarrow> t = s"
  using ringsD(3,4) [OF assms(1,2)] ringsD(3,4) [OF assms(1,3)] by metis+

lemma rings_reset:
  assumes "rings U f" and "ts \<in> U"
  shows "rings U (reset_ts f ts)"
proof -
  have n: "next_copy (reset_ts f ts t) = (if t = ts then ts else if t = prev_copy (f ts) then next_copy (f ts) else next_copy (f t))"
    and p: "prev_copy (reset_ts f ts t) = (if t = ts then ts else if t = next_copy (f ts) then prev_copy (f ts) else prev_copy (f t))" for t
    by (simp_all add: reset_ts_def Let_def)
  show ?thesis unfolding rings_def
  proof (intro ballI)
    fix t assume t: "t \<in> U"
    note d = ringsD [OF assms(1)]
    show "next_copy (reset_ts f ts t) \<in> U \<and> prev_copy (reset_ts f ts t) \<in> U \<and>
        prev_copy (reset_ts f ts (next_copy (reset_ts f ts t))) = t \<and> next_copy (reset_ts f ts (prev_copy (reset_ts f ts t))) = t"
      using d [OF t] d [OF assms(2)] rings_links [OF assms t] rings_links [OF assms assms(2)] assms(2) t
      by (cases "t = ts"; cases "t = prev_copy (f ts)"; cases "t = next_copy (f ts)") (simp_all add: n p)
  qed
qed

lemma rings_insert:
  assumes "rings U g" and "d \<in> U" and "s \<in> U" and "d \<noteq> s" and "next_copy (g d) = d"
    and n: "\<And>t. next_copy (h t) = (if t = d then next_copy (g s) else if t = s then d else next_copy (g t))"
    and p: "\<And>t. prev_copy (h t) = (if t = next_copy (g s) then d else if t = d then s else prev_copy (g t))"
  shows "rings U h"
  unfolding rings_def
proof (intro ballI)
  fix t assume t: "t \<in> U"
  note r = ringsD [OF assms(1)]
  define q where "q = next_copy (g s)"
  have q: "q \<in> U" "q \<noteq> d" "prev_copy (g q) = s" "prev_copy (g d) = d"
    using r(1,3) [OF assms(3)] r(3) [OF assms(2)] assms(4,5) unfolding q_def by metis+
  have away: "next_copy (g t) \<noteq> d" "prev_copy (g t) \<noteq> d" if "t \<noteq> d" using r(3,4) [OF t] that q(4) assms(5) by metis+
  have next_q: "next_copy (g t) \<noteq> q" if "t \<noteq> s" using r(3) [OF t] that q(3) by metis
  have prev_s: "prev_copy (g t) \<noteq> s" if "t \<noteq> q" using r(4) [OF t] that q_def by metis
  consider "t = d" | "t = s" "t \<noteq> d" | "t \<noteq> s" "t \<noteq> d" by blast
  then show "next_copy (h t) \<in> U \<and> prev_copy (h t) \<in> U \<and> prev_copy (h (next_copy (h t))) = t \<and> next_copy (h (prev_copy (h t))) = t"
  proof cases
    case 1
    then show ?thesis using q assms(2-4) by (simp add: n p q_def [symmetric])
  next
    case 2
    then show ?thesis using q away prev_s r(2,4) [OF assms(3)] assms(2-4) by (simp add: n p q_def [symmetric])
  next
    case 3
    then show ?thesis using q(2) away next_q prev_s r [OF t] assms(2) by (simp add: n p q_def [symmetric])
  qed
qed

lemma rings_init: "rings U f \<Longrightarrow> init_ts_info f U t = (f', U') \<Longrightarrow> rings U' f'"
  unfolding init_ts_info_def rings_def by (fastforce split: if_splits)

section \<open>What the information claims\<close>

text \<open>
  Values agree at a type when they have the same bits of that type: the high half of a register that
  holds a 32-bit temporary is garbage. Nothing is claimed of vectors.
\<close>

fun agree :: "TCGType \<Rightarrow> u64 \<Rightarrow> u64 \<Rightarrow> bool" where
  "agree TCG_TYPE_I32 a b = ((ucast a :: u32) = ucast b)"
| "agree TCG_TYPE_I64 a b = (a = b)"
| "agree _ a b = True"

fun class_of :: "TCGType \<Rightarrow> op_class" where
  "class_of TCG_TYPE_I32 = Op_i32"
| "class_of TCG_TYPE_I64 = Op_i64"
| "class_of _ = Op_vec"

definition info_sound :: "(nat \<Rightarrow> TCGTemp) \<Rightarrow> nat set \<Rightarrow> infos \<Rightarrow> (nat \<Rightarrow> u64) \<Rightarrow> bool" where
  "info_sound temps U f v \<longleftrightarrow> (\<forall>t \<in> U.
     temp_type (temps (next_copy (f t))) = temp_type (temps t) \<and>
     agree (temp_type (temps t)) (v t) (v (next_copy (f t))) \<and>
     (is_const (f t) \<longrightarrow> agree (temp_type (temps t)) (v t) (ti_val (f t))) \<and>
     (class_of (temp_type (temps t)) \<noteq> Op_vec \<longrightarrow> v t AND NOT (ti_mask (f t)) = 0))"

lemma agree_refl [simp]: "agree ty a a" by (cases ty) auto

lemma agree_sym: "agree ty a b \<Longrightarrow> agree ty b a" by (cases ty) auto

lemma agree_trans: "agree ty a b \<Longrightarrow> agree ty b c \<Longrightarrow> agree ty a c" by (cases ty) auto

lemma sound_walk:
  assumes "rings U f" and "info_sound temps U f v"
  shows "t \<in> U \<Longrightarrow> temp_type (temps (walk f k t)) = temp_type (temps t) \<and> agree (temp_type (temps t)) (v t) (v (walk f k t))"
proof (induction k arbitrary: t)
  case (Suc k)
  then have "temp_type (temps (next_copy (f t))) = temp_type (temps t)" "agree (temp_type (temps t)) (v t) (v (next_copy (f t)))"
    using assms(2) by (auto simp: info_sound_def)
  then show ?case using Suc.IH [OF ringsD(1) [OF assms(1) Suc.prems]] agree_trans by (metis walk.simps(2))
qed simp

text \<open>The low half of a value determines the bits a 32-bit mask excludes.\<close>

lemma mask_low: "(ucast x :: u32) = ucast (y :: u64) \<Longrightarrow> y AND NOT m = 0 \<Longrightarrow> x AND NOT (m OR NOT 0xffffffff) = 0"
proof -
  assume l: "(ucast x :: u32) = ucast y" and z: "y AND NOT m = 0"
  have c: "(0xffffffff :: u64) = mask 32" by (simp add: mask_eq_exp_minus_1)
  have "bit (x AND NOT (m OR NOT 0xffffffff)) i = False" for i
  proof (cases "i < 32")
    case True
    then have "bit x i = bit y i" using arg_cong [OF l, of "\<lambda>w. bit w i"] by (simp add: bit_ucast_iff)
    moreover have "\<not> (bit y i \<and> \<not> bit m i)" using arg_cong [OF z, of "\<lambda>w. bit w i"] True by (simp add: bit_and_iff bit_not_iff)
    ultimately show ?thesis by (auto simp: bit_and_iff bit_not_iff bit_or_iff)
  qed (simp add: c bit_and_iff bit_not_iff bit_or_iff bit_mask_iff)
  then show ?thesis by (auto intro: bit_word_eqI)
qed

section \<open>The operations keep the information sound\<close>

lemma reset_info:
  "is_const (reset_ts f ts t) = (t \<noteq> ts \<and> is_const (f t))"
  "ti_val (reset_ts f ts t) = ti_val (f t)"
  "ti_mask (reset_ts f ts t) = (if t = ts then - 1 else ti_mask (f t))"
  "next_copy (reset_ts f ts t) = (if t = ts then ts else if t = prev_copy (f ts) then next_copy (f ts) else next_copy (f t))"
  by (simp_all add: reset_ts_def Let_def)

lemma sound_reset:
  assumes "rings U f" and "info_sound temps U f v" and "ts \<in> U"
  shows "info_sound temps U (reset_ts f ts) (v(ts := x))"
  unfolding info_sound_def
proof (intro ballI)
  fix t assume t: "t \<in> U"
  let ?g = "reset_ts f ts" and ?w = "v(ts := x)"
  have f: "temp_type (temps (next_copy (f u))) = temp_type (temps u)" "agree (temp_type (temps u)) (v u) (v (next_copy (f u)))"
    "is_const (f u) \<longrightarrow> agree (temp_type (temps u)) (v u) (ti_val (f u))" "class_of (temp_type (temps u)) \<noteq> Op_vec \<longrightarrow> v u AND NOT (ti_mask (f u)) = 0"
    if "u \<in> U" for u using assms(2) that by (auto simp: info_sound_def)
  show "temp_type (temps (next_copy (?g t))) = temp_type (temps t) \<and>
     agree (temp_type (temps t)) (?w t) (?w (next_copy (?g t))) \<and>
     (is_const (?g t) \<longrightarrow> agree (temp_type (temps t)) (?w t) (ti_val (?g t))) \<and>
     (class_of (temp_type (temps t)) \<noteq> Op_vec \<longrightarrow> ?w t AND NOT (ti_mask (?g t)) = 0)"
  proof (cases "t = ts")
    case False
    show ?thesis
    proof (cases "t = prev_copy (f ts)")
      case True
      then have "walk f (Suc (Suc 0)) t = next_copy (f ts)" using ringsD(4) [OF assms(1,3)] by simp
      then have two: "temp_type (temps (next_copy (f ts))) = temp_type (temps t)" "agree (temp_type (temps t)) (v t) (v (next_copy (f ts)))"
        using sound_walk [OF assms(1,2) t, of "Suc (Suc 0)"] by simp_all
      have "next_copy (f ts) \<noteq> ts" using ringsD(3) [OF assms(1,3)] True False by metis
      then show ?thesis using False f(3,4) [OF t] two by (simp add: reset_info) (simp add: True)
    next
      case other: False
      have "next_copy (f t) \<noteq> ts" using ringsD(3) [OF assms(1) t] other by metis
      then show ?thesis using False other f [OF t] by (simp add: reset_info)
    qed
  qed (simp add: reset_info)
qed

lemma sound_init:
  assumes "rings U f" and "info_sound temps U f v" and "init_ts_info f U t = (f', U')"
  shows "info_sound temps U' f' v"
  using assms unfolding init_ts_info_def info_sound_def rings_def by (fastforce split: if_splits)

lemma sound_movi:
  assumes "rings U f" and "info_sound temps U f v" and "t \<in> U" and "agree (temp_type (temps t)) x val"
    and "tcg_opt_gen_movi f (class_of (temp_type (temps t))) t val = (op', f')"
  shows "rings U f' \<and> info_sound temps U f' (v(t := x))"
proof -
  let ?g = "reset_ts f t" and ?w = "class_of (temp_type (temps t))"
  have f': "f' = ?g(t := (?g t)\<lparr>is_const := True, ti_val := val, ti_mask := if ?w = Op_i32 then val OR NOT 0xffffffff else val\<rparr>)"
    using assms(5) by (auto simp: tcg_opt_gen_movi_def Let_def)
  have "x AND NOT (if ?w = Op_i32 then val OR NOT 0xffffffff else val) = 0" if "?w \<noteq> Op_vec"
    using that assms(4) mask_low [of x val val] by (cases "temp_type (temps t)") auto
  moreover have "next_copy (f' u) = next_copy (?g u)" "prev_copy (f' u) = prev_copy (?g u)" for u by (simp_all add: f')
  ultimately show ?thesis
    using rings_reset [OF assms(1,3)] sound_reset [OF assms(1-3), of x] assms(4)
    by (auto simp: rings_def info_sound_def f')
qed

text \<open>A move that is kept: the target leaves its list and, where the types are equal, joins that of the source.\<close>

lemma sound_mov:
  assumes "rings U f" and "info_sound temps U f v" and "d \<in> U" and "s \<in> U" and "agree (temp_type (temps d)) x (v s)"
    and "class_of (temp_type (temps d)) \<noteq> Op_vec \<Longrightarrow> class_of (temp_type (temps s)) \<noteq> Op_vec"
    and "tcg_opt_gen_mov n temps f (class_of (temp_type (temps d))) d s = Inr (Op_mov w d' s', f')"
  shows "rings U f' \<and> info_sound temps U f' (v(d := x)) \<and> d' = d \<and> s' = s \<and> (temp_type (temps s) = temp_type (temps d) \<longrightarrow> next_copy (f' s) = d)"
proof -
  let ?g = "reset_ts f d" and ?v = "v(d := x)" and ?c = "class_of (temp_type (temps d))"
  define m where "m = (if ?c = Op_i32 then ti_mask (?g s) OR NOT 0xffffffff else ti_mask (?g s))"
  have ds: "d \<noteq> s" using assms(7) by (auto simp: tcg_opt_gen_mov_def ts_are_copies_def)
  have g: "rings U ?g" "info_sound temps U ?g ?v" using rings_reset [OF assms(1,3)] sound_reset [OF assms(1-3)] by auto
  have m: "x AND NOT m = 0" if "?c \<noteq> Op_vec"
  proof -
    have "v s AND NOT (ti_mask (?g s)) = 0" using g(2) assms(4,6) that ds by (auto simp: info_sound_def)
    then show ?thesis using that assms(5) mask_low [of x "v s" "ti_mask (?g s)"] by (cases "temp_type (temps d)") (auto simp: m_def)
  qed
  have nd: "next_copy (?g d) = d" by (simp add: reset_info)
  have nsd: "next_copy (?g s) \<noteq> d" using rings_links(3) [OF g(1) assms(3,4)] nd ds by metis
  show ?thesis
  proof (cases "temp_type (temps s) = temp_type (temps d)")
    case True
    have f': "f' t = (if t = d then (?g d)\<lparr>ti_mask := m, next_copy := next_copy (?g s), prev_copy := s, is_const := is_const (?g s), ti_val := ti_val (?g s)\<rparr>
        else if t = s then (?g s)\<lparr>next_copy := d, prev_copy := if s = next_copy (?g s) then d else prev_copy (?g s)\<rparr>
        else if t = next_copy (?g s) then (?g t)\<lparr>prev_copy := d\<rparr> else ?g t)" for t
      using assms(7) True ds nsd by (auto simp: tcg_opt_gen_mov_def Let_def m_def bind_res_eq_Inr split: if_splits)
    have proj: "next_copy (f' t) = (if t = d then next_copy (?g s) else if t = s then d else next_copy (?g t))"
      "is_const (f' t) = is_const (?g (if t = d then s else t))" "ti_val (f' t) = ti_val (?g (if t = d then s else t))"
      "ti_mask (f' t) = (if t = d then m else ti_mask (?g t))" for t
      by (simp_all add: f')
    have "rings U f'" using g(1) assms(3,4) ds nd
      by (rule rings_insert) (use ds nsd in \<open>auto simp: f'\<close>)
    moreover have "info_sound temps U f' ?v" unfolding info_sound_def
    proof (intro ballI)
      fix t assume t: "t \<in> U"
      have st: "temp_type (temps (next_copy (?g t))) = temp_type (temps t)" "agree (temp_type (temps t)) (?v t) (?v (next_copy (?g t)))"
        "is_const (?g t) \<longrightarrow> agree (temp_type (temps t)) (?v t) (ti_val (?g t))" "class_of (temp_type (temps t)) \<noteq> Op_vec \<longrightarrow> ?v t AND NOT (ti_mask (?g t)) = 0"
        if "t \<in> U" for t using g(2) that by (auto simp: info_sound_def)
      have ss: "agree (temp_type (temps d)) x (v (next_copy (?g s)))" "is_const (?g s) \<longrightarrow> agree (temp_type (temps d)) x (ti_val (?g s))"
        using st(2,3) [OF assms(4)] assms(5) agree_trans True ds nsd by auto
      show "temp_type (temps (next_copy (f' t))) = temp_type (temps t) \<and> agree (temp_type (temps t)) (?v t) (?v (next_copy (f' t))) \<and>
         (is_const (f' t) \<longrightarrow> agree (temp_type (temps t)) (?v t) (ti_val (f' t))) \<and>
         (class_of (temp_type (temps t)) \<noteq> Op_vec \<longrightarrow> ?v t AND NOT (ti_mask (f' t)) = 0)"
        using st [OF t] st(1) [OF assms(4)] ss m True ds nsd agree_sym [OF assms(5)]
        by (cases "t = d"; cases "t = s") (simp_all add: proj)
    qed
    ultimately show ?thesis using assms(7) ds by (auto simp: f' tcg_opt_gen_mov_def Let_def bind_res_eq_Inr split: if_splits)
  next
    case False
    have f': "f' t = (if t = d then (?g d)\<lparr>ti_mask := m\<rparr> else ?g t)" for t
      using assms(7) False ds by (auto simp: tcg_opt_gen_mov_def Let_def m_def bind_res_eq_Inr split: if_splits)
    have proj: "next_copy (f' t) = next_copy (?g t)" "prev_copy (f' t) = prev_copy (?g t)" "is_const (f' t) = is_const (?g t)"
      "ti_val (f' t) = ti_val (?g t)" "ti_mask (f' t) = (if t = d then m else ti_mask (?g t))" for t
      by (simp_all add: f')
    have "d' = d \<and> s' = s" using assms(7) False by (simp add: tcg_opt_gen_mov_def Let_def bind_res_eq_Inr split: if_splits) blast+
    moreover have "rings U f'" using g(1) by (simp add: rings_def proj)
    moreover have "info_sound temps U f' ?v" unfolding info_sound_def proj
      using g(2) m by (auto simp: info_sound_def)
    ultimately show ?thesis using False by simp
  qed
qed

text \<open>
  The states the optimizer passes through with the temporaries at run time: a temporary comes into use,
  is written by an operation whose result is not known, by a constant or by a move, or a move is
  removed. A temporary of 32 bits receives any value with the right low half.
\<close>

inductive knows :: "(nat \<Rightarrow> TCGTemp) \<Rightarrow> nat \<Rightarrow> nat set \<Rightarrow> infos \<Rightarrow> (nat \<Rightarrow> u64) \<Rightarrow> bool" for temps n where
  k_start: "knows temps n {} f v"
| k_init: "knows temps n U f v \<Longrightarrow> t < n \<Longrightarrow> init_ts_info f U t = (f', U') \<Longrightarrow> knows temps n U' f' v"
| k_write: "knows temps n U f v \<Longrightarrow> t \<in> U \<Longrightarrow> knows temps n U (reset_ts f t) (v(t := x))"
| k_movi: "knows temps n U f v \<Longrightarrow> t \<in> U \<Longrightarrow> agree (temp_type (temps t)) x val \<Longrightarrow>
    tcg_opt_gen_movi f (class_of (temp_type (temps t))) t val = (op', f') \<Longrightarrow> knows temps n U f' (v(t := x))"
| k_mov: "knows temps n U f v \<Longrightarrow> d \<in> U \<Longrightarrow> s \<in> U \<Longrightarrow> agree (temp_type (temps d)) x (v s) \<Longrightarrow>
    (class_of (temp_type (temps d)) = Op_vec \<longleftrightarrow> class_of (temp_type (temps s)) = Op_vec) \<Longrightarrow>
    tcg_opt_gen_mov n temps f (class_of (temp_type (temps d))) d s = Inr (Op_mov w d s, f') \<Longrightarrow> knows temps n U f' (v(d := x))"
| k_removed: "knows temps n U f v \<Longrightarrow> d \<in> U \<Longrightarrow> s \<in> U \<Longrightarrow>
    tcg_opt_gen_mov n temps f (class_of (temp_type (temps d))) d s = Inr (Op_removed, f') \<Longrightarrow> knows temps n U f' v"

lemma removed_same: "tcg_opt_gen_mov n temps f w d s = Inr (Op_removed, f') \<Longrightarrow> f' = f \<and> ts_are_copies n f d s = Inr True"
  by (auto simp: tcg_opt_gen_mov_def Let_def bind_res_eq_Inr split: if_splits)

lemma knows_inv: "knows temps n U f v \<Longrightarrow> U \<subseteq> {..<n} \<and> rings U f \<and> info_sound temps U f v"
proof (induction rule: knows.induct)
  case (k_init U f v t f' U')
  have "U' \<subseteq> {..<n}" using k_init by (auto simp: init_ts_info_def split: if_splits)
  then show ?case using k_init rings_init sound_init by blast
next
  case (k_mov U f v d s x w f')
  then show ?case using sound_mov [of U f temps v d s x n w d s f'] by blast
next
  case (k_movi U f v t x val op' f')
  then show ?case using sound_movi by blast
next
  case (k_write U f v t x)
  then show ?case using rings_reset sound_reset by blast
next
  case (k_removed U f v d s f')
  then show ?case using removed_same by blast
qed (simp add: rings_def info_sound_def)

section \<open>What the optimizer may rely on\<close>

lemma knows_copies:
  assumes "knows temps n U f v" and "a \<in> U" and "b \<in> U"
  shows "\<exists>r. ts_are_copies n f a b = Inr r \<and> r = (\<exists>k. walk f k a = b) \<and>
    (r \<longrightarrow> temp_type (temps b) = temp_type (temps a) \<and> agree (temp_type (temps a)) (v a) (v b))"
proof -
  note k = knows_inv [OF assms(1)]
  have "finite U" "card U \<le> n" using k finite_subset [of U "{..<n}"] card_mono [of "{..<n}" U] by auto
  then have "ts_are_copies n f a b = Inr (\<exists>k. walk f k a = b)" using ts_are_copies_iff k assms(2,3) by blast
  then show ?thesis using sound_walk k assms(2) by (metis (no_types, lifting))
qed


text \<open>
  A run: temporaries 0 and 1 of 32 bits come into use, 0 is set to 7 and moved to 1, and temporary 2
  comes into use; the high halves at run time are garbage.
\<close>

definition run_temps :: "nat \<Rightarrow> TCGTemp" where
  "run_temps t = \<lparr>temp_type = TCG_TYPE_I32, temp_global = (t = 0), temp_local = (t = 2)\<rparr>"

definition run_blank :: infos where
  "run_blank t = \<lparr>is_const = False, prev_copy = t, next_copy = t, ti_val = 0, ti_mask = - 1\<rparr>"

definition run_const :: infos where
  "run_const = run_blank(0 := \<lparr>is_const = True, prev_copy = 0, next_copy = 0, ti_val = 7, ti_mask = 7 OR NOT 0xffffffff\<rparr>)"

definition run_copy :: infos where
  "run_copy = run_blank(
     0 := \<lparr>is_const = True, prev_copy = 1, next_copy = 1, ti_val = 7, ti_mask = 7 OR NOT 0xffffffff\<rparr>,
     1 := \<lparr>is_const = True, prev_copy = 0, next_copy = 0, ti_val = 7, ti_mask = 7 OR NOT 0xffffffff\<rparr>)"

definition run_values :: "nat \<Rightarrow> u64" where
  "run_values = (\<lambda>_. 0)(0 := 0xA00000007, 1 := 0xB00000007)"

lemma run_knows: "knows run_temps 3 {0, 1, 2} run_copy run_values"
proof -
  have s: "knows run_temps 3 {} run_blank (\<lambda>_. 0)" by (rule k_start)
  have "knows run_temps 3 {0} run_blank (\<lambda>_. 0)"
    by (rule k_init [OF s, of 0]) (auto simp: init_ts_info_def run_blank_def)
  then have "knows run_temps 3 {0, 1} run_blank (\<lambda>_. 0)"
    by (rule k_init [of _ _ _ _ _ 1]) (auto simp: init_ts_info_def run_blank_def)
  then have "knows run_temps 3 {0, 1, 2} run_blank (\<lambda>_. 0)"
    by (rule k_init [of _ _ _ _ _ 2]) (auto simp: init_ts_info_def run_blank_def)
  then have "knows run_temps 3 {0, 1, 2} run_const ((\<lambda>_. 0)(0 := 0xA00000007))"
    by (rule k_movi [where val = 7 and op' = "Op_movi Op_i32 0 7"])
      (auto simp: tcg_opt_gen_movi_def reset_ts_def Let_def run_blank_def run_const_def run_temps_def)
  then show ?thesis unfolding run_values_def
    by (rule k_mov [where s = 0 and w = Op_i32])
      (auto simp: tcg_opt_gen_mov_def ts_are_copies_def ts_is_copy_def reset_ts_def Let_def run_blank_def run_const_def run_copy_def run_temps_def)
qed


lemma cond_32_same: "do_constant_folding_cond_32 a a c = do_constant_folding_cond_eq c"
  by (simp add: do_constant_folding_cond_32_def do_constant_folding_cond_eq_def cond_defs)

lemma cond_64_same: "do_constant_folding_cond_64 a a c = do_constant_folding_cond_eq c"
  by (simp add: do_constant_folding_cond_64_def do_constant_folding_cond_eq_def cond_defs)

text \<open>The comparison the operation of the given class makes at run time.\<close>

definition compare_at :: "op_class \<Rightarrow> u64 \<Rightarrow> u64 \<Rightarrow> TCGCond \<Rightarrow> bool res" where
  "compare_at w a b c = (if w = Op_i64 then do_constant_folding_cond_64 a b c else do_constant_folding_cond_32 (ucast a) (ucast b) c)"

lemma compare_defined: "c \<in> set comparisons \<Longrightarrow> \<exists>r. compare_at w a b c = Inr r"
  by (auto simp: compare_at_def do_constant_folding_cond_64_def do_constant_folding_cond_32_def comparisons_def cond_defs)

lemma compare_agree: "agree ty a a' \<Longrightarrow> agree ty b b' \<Longrightarrow> class_of ty \<noteq> Op_vec \<Longrightarrow> compare_at (class_of ty) a b c = compare_at (class_of ty) a' b' c"
  by (cases ty) (auto simp: compare_at_def)

lemma compare_same: "compare_at w a a c = do_constant_folding_cond_eq c"
  by (simp add: compare_at_def cond_32_same cond_64_same)

lemma compare_zero: "compare_at w a 0 TCG_COND_LTU = Inr False" "compare_at w a 0 TCG_COND_GEU = Inr True"
  by (simp_all add: compare_at_def do_constant_folding_cond_64_def do_constant_folding_cond_32_def cond_defs)



text \<open>
  A move of the optimizer returns and is right: it is removed exactly when the target is a copy
  of the source already, and then the target holds the value the move would give it; otherwise the move
  stays and, where the types are equal, the two are copies afterwards.
\<close>

theorem optimized_move_sound:
  assumes "knows temps n U f v" and "d \<in> U" and "s \<in> U" and "temp_type (temps d) = ty" and "temp_type (temps s) = ty"
  shows "\<exists>op' f'. tcg_opt_gen_mov n temps f (class_of ty) d s = Inr (op', f') \<and>
    (if \<exists>k. walk f k d = s then op' = Op_removed \<and> f' = f \<and> agree ty (v d) (v s)
     else op' = Op_mov (class_of ty) d s \<and> ts_are_copies n f' s d = Inr True)"
proof -
  obtain b where b: "ts_are_copies n f d s = Inr b" "b = (\<exists>k. walk f k d = s)" "b \<longrightarrow> agree ty (v d) (v s)"
    using knows_copies [OF assms(1-3)] assms(4) by blast
  show ?thesis
  proof (cases b)
    case True
    then show ?thesis using b by (simp add: tcg_opt_gen_mov_def)
  next
    case False
    then obtain f' where f': "tcg_opt_gen_mov n temps f (class_of ty) d s = Inr (Op_mov (class_of ty) d s, f')"
      using b(1) assms(4,5) by (simp add: tcg_opt_gen_mov_def Let_def)
    have "knows temps n U f' (v(d := v s))" using k_mov [OF assms(1-3)] f' assms(4,5) by simp
    moreover have "next_copy (f' s) = d"
      using sound_mov [of U f temps v d s "v s" n "class_of ty" d s f'] knows_inv [OF assms(1)] assms f' by simp
    then have "\<exists>k. walk f' k s = d" by (intro exI [of _ "Suc 0"]) simp
    ultimately have "ts_are_copies n f' s d = Inr True" using knows_copies [of temps n U f' "v(d := v s)" s d] assms(2,3) by auto
    then show ?thesis using f' False b(2) by auto
  qed
qed

theorem optimized_move_sound_witness:
  "(\<exists>f'. tcg_opt_gen_mov 3 run_temps run_copy Op_i32 1 0 = Inr (Op_removed, f')) \<and>
   (\<exists>f'. tcg_opt_gen_mov 3 run_temps run_copy Op_i32 2 0 = Inr (Op_mov Op_i32 2 0, f') \<and> ts_are_copies 3 f' 0 2 = Inr True)"
proof
  have "\<exists>k. walk run_copy k 1 = 0" by (rule exI [of _ "Suc 0"]) (simp add: run_copy_def)
  then show "\<exists>f'. tcg_opt_gen_mov 3 run_temps run_copy Op_i32 1 0 = Inr (Op_removed, f')"
    using optimized_move_sound [OF run_knows, of 1 0 TCG_TYPE_I32] by (auto simp: run_temps_def)
  have "walk run_copy k 2 = 2" for k by (induction k) (simp_all add: run_copy_def run_blank_def)
  then show "\<exists>f'. tcg_opt_gen_mov 3 run_temps run_copy Op_i32 2 0 = Inr (Op_mov Op_i32 2 0, f') \<and> ts_are_copies 3 f' 0 2 = Inr True"
    using optimized_move_sound [OF run_knows, of 2 0 TCG_TYPE_I32] by (auto simp: run_temps_def)
qed

text \<open>
  The replacement of an argument by a better copy: a temporary that is not global is replaced by a
  global with the same value whenever there is one, and otherwise by itself; the second search, for
  a local temporary among the copies, never replaces anything.
\<close>

theorem better_copy_global_only:
  assumes "knows temps n U f v" and "ts \<in> U"
  shows "\<exists>r. find_better_copy n temps f ts = Inr r \<and> agree (temp_type (temps ts)) (v ts) (v r) \<and>
    (if \<exists>k. temp_global (temps (walk f k ts)) then temp_global (temps r) else r = ts)"
proof -
  note k = knows_inv [OF assms(1)]
  have fin: "finite U" "card U \<le> n" using k finite_subset [of U "{..<n}"] card_mono [of "{..<n}" U] by auto
  obtain r where r: "find_copy n f (\<lambda>i. temp_global (temps i)) ts (next_copy (f ts)) = Inr r"
    using find_copy_total [OF _ assms(2) fin] k by blast
  obtain r' where r': "find_copy n f (\<lambda>i. False) ts (next_copy (f ts)) = Inr r'"
    using find_copy_total [OF _ assms(2) fin] k by blast
  have r'N: "r' = None" using find_copy_Some [of n f "\<lambda>i. False"] r' by (cases r') auto
  show ?thesis
  proof (cases "temp_global (temps ts)")
    case True
    then have "\<exists>k. temp_global (temps (walk f k ts))" by (intro exI [of _ 0]) simp
    then show ?thesis using True by (simp add: find_better_copy_def)
  next
    case False
    show ?thesis
    proof (cases r)
      case None
      then have "\<not> temp_global (temps (walk f k ts))" for k
        using find_copy_none_all [of n f "\<lambda>i. temp_global (temps i)" ts k] r False by simp
      then show ?thesis using False None r r' r'N by (auto simp: find_better_copy_def)
    next
      case (Some j)
      then obtain k where j: "temp_global (temps j)" "j = walk f (Suc k) ts" using find_copy_Some r by fastforce
      then have "find_better_copy n temps f ts = Inr j" using False r Some by (simp add: find_better_copy_def)
      moreover have "agree (temp_type (temps ts)) (v ts) (v j)" using sound_walk [of U f temps v ts "Suc k"] knows_inv [OF assms(1)] assms(2) j(2) by simp
      moreover have "\<exists>k. temp_global (temps (walk f k ts))" using j by blast
      ultimately show ?thesis using j(1) by simp
    qed
  qed
qed

theorem better_copy_global_only_witness:
  "find_better_copy 3 run_temps run_copy 1 = Inr 0 \<and> agree TCG_TYPE_I32 (run_values 1) (run_values 0)"
proof -
  have "find_better_copy 3 run_temps run_copy 1 = Inr 0"
    by (simp add: find_better_copy_def run_temps_def run_copy_def numeral_3_eq_3)
  then show ?thesis using better_copy_global_only [OF run_knows, of 1] by (auto simp: run_temps_def)
qed

section \<open>Comparisons of pairs\<close>

definition pair64 :: "u64 \<Rightarrow> u64 \<Rightarrow> u64" where
  "pair64 lo hi = ucast (ucast lo :: u32) OR push_bit 32 (ucast (ucast hi :: u32))"

lemma deposit_pair: "deposit64 lo 32 32 hi = Inr (pair64 lo hi)"
proof -
  have "drop_bit 32 (NOT 0 :: u64) = mask 32"
    by (rule bit_word_eqI) (auto simp: bit_drop_bit_eq bit_not_iff bit_mask_iff)
  then have "(lo AND NOT (push_bit 32 (drop_bit 32 (NOT 0)))) OR (push_bit 32 hi AND push_bit 32 (drop_bit 32 (NOT 0))) = pair64 lo hi"
    by (intro bit_word_eqI) (auto simp: pair64_def bit_or_iff bit_and_iff bit_not_iff bit_push_bit_iff bit_mask_iff bit_ucast_iff)
  then show ?thesis by (simp add: deposit64_def Let_def)
qed

lemma pair64_low: "(ucast lo :: u32) = ucast lo' \<Longrightarrow> (ucast hi :: u32) = ucast hi' \<Longrightarrow> pair64 lo hi = pair64 lo' hi'"
  by (simp add: pair64_def)

lemma cond2_copies_sound:
  assumes "knows temps n U f v" and "{al, ah, bl, bh} \<subseteq> U" and "c \<in> set comparisons"
    and "\<forall>t \<in> {al, ah, bl, bh}. temp_type (temps t) = TCG_TYPE_I32"
  shows "\<exists>r \<le> 2. cond2_copies n f (al, ah) (bl, bh) c = Inr r \<and>
    (r < 2 \<longrightarrow> do_constant_folding_cond_64 (pair64 (v al) (v ah)) (pair64 (v bl) (v bh)) c = Inr (r = 1))"
proof -
  have U: "al \<in> U" "ah \<in> U" "bl \<in> U" "bh \<in> U" using assms(2) by auto
  obtain p q where p: "ts_are_copies n f al bl = Inr p" "p \<longrightarrow> (ucast (v al) :: u32) = ucast (v bl)"
    and q: "ts_are_copies n f ah bh = Inr q" "q \<longrightarrow> (ucast (v ah) :: u32) = ucast (v bh)"
    using knows_copies [OF assms(1) U(1,3)] knows_copies [OF assms(1) U(2,4)] assms(4) by auto
  obtain r where r: "do_constant_folding_cond_eq c = Inr r" using compare_defined [OF assms(3)] compare_same by metis
  show ?thesis
  proof (cases "p \<and> q")
    case True
    then have "pair64 (v al) (v ah) = pair64 (v bl) (v bh)" using p(2) q(2) pair64_low by blast
    then show ?thesis using True p(1) q(1) r
      by (intro exI [of _ "of_bool r"]) (simp add: cond2_copies_def cond_64_same of_flag_def)
  next
    case False
    then show ?thesis using p(1) q(1) by (intro exI [of _ 2]) (auto simp: cond2_copies_def)
  qed
qed

text \<open>
  Folding of a comparison of two 64-bit values that are held in pairs of 32-bit temporaries: it
  returns, and an answer other than unknown is the comparison of the values of the pairs at run time.
\<close>

theorem folded_pair_comparison_sound:
  assumes "knows temps n U f v" and "{al, ah, bl, bh} \<subseteq> U" and "c \<in> set comparisons"
    and "\<forall>t \<in> {al, ah, bl, bh}. temp_type (temps t) = TCG_TYPE_I32"
  shows "\<exists>r \<le> 2. do_constant_folding_cond2 n f (al, ah) (bl, bh) c = Inr r \<and>
    (r < 2 \<longrightarrow> do_constant_folding_cond_64 (pair64 (v al) (v ah)) (pair64 (v bl) (v bh)) c = Inr (r = 1))"
proof -
  let ?A = "pair64 (v al) (v ah)" and ?B = "pair64 (v bl) (v bh)"
  have k: "is_const (f t) \<Longrightarrow> (ucast (v t) :: u32) = ucast (ti_val (f t))" if "t \<in> {al, ah, bl, bh}" for t
    using knows_inv [OF assms(1)] assms(2,4) that by (auto simp: info_sound_def)
  have a: "is_const (f al) \<and> is_const (f ah) \<Longrightarrow> pair64 (ti_val (f al)) (ti_val (f ah)) = ?A"
    and b: "is_const (f bl) \<and> is_const (f bh) \<Longrightarrow> pair64 (ti_val (f bl)) (ti_val (f bh)) = ?B"
    using k [of al] k [of ah] k [of bl] k [of bh] by (simp_all add: pair64_def)
  obtain r where r: "do_constant_folding_cond_64 ?A ?B c = Inr r" using compare_defined [OF assms(3), of Op_i64] by (auto simp: compare_at_def)
  show ?thesis
  proof (cases "is_const (f bl) \<and> is_const (f bh) \<and> (is_const (f al) \<and> is_const (f ah) \<or> ?B = 0 \<and> (c = TCG_COND_LTU \<or> c = TCG_COND_GEU))")
    case True
    then show ?thesis
    proof (cases "is_const (f al) \<and> is_const (f ah)")
      case al: True
      then show ?thesis using True r a b
        by (intro exI [of _ "of_bool r"]) (simp add: do_constant_folding_cond2_def ts_is_const_def deposit_pair of_flag_def)
    next
      case False
      then have z: "?B = 0" "c = TCG_COND_LTU \<or> c = TCG_COND_GEU" using True by auto
      have "do_constant_folding_cond2 n f (al, ah) (bl, bh) c = Inr (if c = TCG_COND_LTU then 0 else 1)"
        using True False z b by (auto simp: do_constant_folding_cond2_def ts_is_const_def deposit_pair)
      moreover have "TCG_COND_GEU \<noteq> TCG_COND_LTU" by (simp add: cond_defs)
      ultimately show ?thesis using z compare_zero [of Op_i64 ?A] by (auto simp: compare_at_def)
    qed
  next
    case False
    then have "do_constant_folding_cond2 n f (al, ah) (bl, bh) c = cond2_copies n f (al, ah) (bl, bh) c"
      using b by (auto simp: do_constant_folding_cond2_def ts_is_const_def deposit_pair)
    then show ?thesis using cond2_copies_sound [OF assms] by simp
  qed
qed

theorem folded_pair_comparison_sound_witness:
  "do_constant_folding_cond2 3 run_copy (1, 2) (0, 2) TCG_COND_LT = Inr 0 \<and>
   do_constant_folding_cond_64 (pair64 (run_values 1) (run_values 2)) (pair64 (run_values 0) (run_values 2)) TCG_COND_LT = Inr False"
proof -
  have "do_constant_folding_cond2 3 run_copy (1, 2) (0, 2) TCG_COND_LT = Inr 0"
    by (simp add: do_constant_folding_cond2_def cond2_copies_def ts_are_copies_def ts_is_copy_def ts_is_const_def run_copy_def
        run_blank_def numeral_3_eq_3 do_constant_folding_cond_eq_def of_flag_def)
  then show ?thesis using folded_pair_comparison_sound [OF run_knows, of 1 2 0 2 TCG_COND_LT]
    by (auto simp: run_temps_def comparisons_def)
qed

end
