(* ===== verification/Clocks.thy ===== *)
theory Clocks
  imports Prelude
begin

text \<open>
  The guest's cycle counter and clock (\<^verbatim>\<open>libcpu/src/cpus.c\<close>): they can be stopped and restarted, and
  the clock can be slowed down while the symbolic execution engine works. The readings of the host's
  clock and cycle counter are arguments. Signed 64-bit arithmetic is undefined when it overflows.
\<close>

section \<open>State\<close>

record TimersState =
  cpu_ticks_prev :: int
  cpu_ticks_offset :: int
  cpu_clock_offset :: int
  cpu_ticks_enabled :: bool
  cpu_clock_scale_factor :: int
  cpu_clock_prev :: int
  cpu_clock_prev_scaled :: int

definition timers_state :: TimersState where
  "timers_state = \<lparr>cpu_ticks_prev = 0, cpu_ticks_offset = 0, cpu_clock_offset = 0, cpu_ticks_enabled = False,
     cpu_clock_scale_factor = 1, cpu_clock_prev = 0, cpu_clock_prev_scaled = 0\<rparr>"

definition s64 :: "int \<Rightarrow> int res" where
  "s64 x = (if - (2 ^ 63) \<le> x \<and> x < 2 ^ 63 then Inr x else Inl Undefined)"

section \<open>Operations\<close>

definition cpu_get_ticks :: "int \<Rightarrow> TimersState \<Rightarrow> (int \<times> TimersState) res" where
  "cpu_get_ticks real_ticks st =
     (if \<not> cpu_ticks_enabled st then Inr (cpu_ticks_offset st, st)
      else
        let ticks = real_ticks in
        bind_res
          (if cpu_ticks_prev st > ticks then
             bind_res (s64 (cpu_ticks_prev st - ticks)) (\<lambda>d.
             bind_res (s64 (cpu_ticks_offset st + d)) (\<lambda>ofs. Inr (st\<lparr>cpu_ticks_offset := ofs\<rparr>)))
           else Inr st) (\<lambda>st.
        let st = st\<lparr>cpu_ticks_prev := ticks\<rparr> in
        bind_res (s64 (ticks + cpu_ticks_offset st)) (\<lambda>r. Inr (r, st))))"

definition cpu_get_clock :: "int \<Rightarrow> TimersState \<Rightarrow> (int \<times> TimersState) res" where
  "cpu_get_clock now st =
     (if \<not> cpu_ticks_enabled st then
        if cpu_clock_scale_factor st > 1 then Inr (cpu_clock_prev_scaled st, st) else Inr (cpu_clock_offset st, st)
      else if cpu_clock_scale_factor st > 1 then
        bind_res (s64 (now + cpu_clock_offset st)) (\<lambda>cur_clock.
        bind_res (s64 (cur_clock - cpu_clock_prev st)) (\<lambda>increment.
        assert_res (increment > 0)
          (bind_res (s64 (cpu_clock_prev_scaled st + increment div cpu_clock_scale_factor st)) (\<lambda>result.
           assert_res (cur_clock \<ge> 0 \<and> cur_clock \<ge> cpu_clock_prev st)
             (assert_res (result \<ge> 0 \<and> result \<ge> cpu_clock_prev_scaled st)
               (Inr (result, st\<lparr>cpu_clock_prev_scaled := result, cpu_clock_prev := cur_clock\<rparr>)))))))
      else bind_res (s64 (now + cpu_clock_offset st)) (\<lambda>r. Inr (r, st)))"

definition cpu_enable_ticks :: "int \<Rightarrow> int \<Rightarrow> TimersState \<Rightarrow> TimersState res" where
  "cpu_enable_ticks now real_ticks st =
     (if \<not> cpu_ticks_enabled st then
        let cur_clock = now in
        bind_res (s64 (cpu_ticks_offset st - real_ticks)) (\<lambda>ticks_ofs.
        bind_res (s64 (cpu_clock_offset st - cur_clock)) (\<lambda>clock_ofs.
        let st = st\<lparr>cpu_ticks_offset := ticks_ofs, cpu_clock_offset := clock_ofs, cpu_ticks_enabled := True\<rparr> in
        if cpu_clock_scale_factor st > 1 then
          bind_res (s64 (cur_clock + cpu_clock_offset st)) (\<lambda>p.
            let st = st\<lparr>cpu_clock_prev := p\<rparr> in
            Inr (st\<lparr>cpu_clock_prev_scaled := cpu_clock_prev st\<rparr>))
        else Inr st))
      else Inr st)"

definition cpu_disable_ticks :: "int \<Rightarrow> int \<Rightarrow> TimersState \<Rightarrow> TimersState res" where
  "cpu_disable_ticks now real_ticks st =
     (if cpu_ticks_enabled st then
        bind_res (cpu_get_ticks real_ticks st) (\<lambda>(t, st).
        let st = st\<lparr>cpu_ticks_offset := t\<rparr> in
        bind_res (cpu_get_clock now st) (\<lambda>(c, st).
        Inr (st\<lparr>cpu_clock_offset := c, cpu_ticks_enabled := False\<rparr>)))
      else Inr st)"

definition cpu_enable_scaling :: "int \<Rightarrow> int \<Rightarrow> TimersState \<Rightarrow> TimersState res" where
  "cpu_enable_scaling now scale st =
     assert_res (scale \<ge> 1)
       (bind_res
          (if cpu_clock_scale_factor st = 1 then
             bind_res (cpu_get_clock now st) (\<lambda>(c, st).
               let st = st\<lparr>cpu_clock_prev := c\<rparr> in
               Inr (st\<lparr>cpu_clock_prev_scaled := cpu_clock_prev st\<rparr>))
           else Inr st) (\<lambda>st.
        Inr (st\<lparr>cpu_clock_scale_factor := scale\<rparr>)))"

section \<open>Sequences of requests\<close>

text \<open>A request with the readings of the host's clock and counter at that moment; the results are the clock and counter values returned.\<close>

datatype clock_op = Get_clock | Get_ticks | Enable | Disable | Scale int

fun clock_request :: "clock_op \<times> int \<times> int \<Rightarrow> TimersState \<Rightarrow> ((int list \<times> int list) \<times> TimersState) res" where
  "clock_request (Get_clock, now, ticks) st = bind_res (cpu_get_clock now st) (\<lambda>(c, st). Inr (([c], []), st))"
| "clock_request (Get_ticks, now, ticks) st = bind_res (cpu_get_ticks ticks st) (\<lambda>(t, st). Inr (([], [t]), st))"
| "clock_request (Enable, now, ticks) st = bind_res (cpu_enable_ticks now ticks st) (\<lambda>st. Inr (([], []), st))"
| "clock_request (Disable, now, ticks) st = bind_res (cpu_disable_ticks now ticks st) (\<lambda>st. Inr (([], []), st))"
| "clock_request (Scale s, now, ticks) st = bind_res (cpu_enable_scaling now s st) (\<lambda>st. Inr (([], []), st))"

fun clock_requests :: "(clock_op \<times> int \<times> int) list \<Rightarrow> TimersState \<Rightarrow> ((int list \<times> int list) \<times> TimersState) res" where
  "clock_requests [] st = Inr (([], []), st)"
| "clock_requests (q # qs) st =
     bind_res (clock_request q st) (\<lambda>((cs, ts), st).
     bind_res (clock_requests qs st) (\<lambda>((cs', ts'), st). Inr ((cs @ cs', ts @ ts'), st)))"

section \<open>The clock never goes back\<close>

text \<open>
  With the host's clock at \<open>r\<close> and its counter at \<open>k\<close>: the guest's clock and counter lie between 0
  and the host's, and a slowed-down clock is behind the one it is derived from.
\<close>

definition clock_ok :: "int \<Rightarrow> TimersState \<Rightarrow> bool" where
  "clock_ok r st \<longleftrightarrow> 1 \<le> cpu_clock_scale_factor st \<and>
     (if cpu_ticks_enabled st then
        - r \<le> cpu_clock_offset st \<and> cpu_clock_offset st \<le> 0 \<and>
        (cpu_clock_scale_factor st > 1 \<longrightarrow> 0 \<le> cpu_clock_prev_scaled st \<and> cpu_clock_prev_scaled st \<le> cpu_clock_prev st \<and>
           cpu_clock_prev st \<le> r + cpu_clock_offset st)
      else
        0 \<le> cpu_clock_offset st \<and> cpu_clock_offset st \<le> r \<and>
        (cpu_clock_scale_factor st > 1 \<longrightarrow> cpu_clock_prev_scaled st = cpu_clock_offset st))"

definition ticks_ok :: "int \<Rightarrow> TimersState \<Rightarrow> bool" where
  "ticks_ok k st \<longleftrightarrow> 0 \<le> cpu_ticks_prev st \<and> cpu_ticks_prev st \<le> k \<and>
     (if cpu_ticks_enabled st then - k \<le> cpu_ticks_offset st \<and> cpu_ticks_offset st \<le> 0
      else 0 \<le> cpu_ticks_offset st \<and> cpu_ticks_offset st \<le> k)"

text \<open>Lower bounds for what the clock and the counter can return from now on.\<close>

definition clock_floor :: "int \<Rightarrow> TimersState \<Rightarrow> int" where
  "clock_floor r st =
     (if \<not> cpu_ticks_enabled st then cpu_clock_offset st
      else if cpu_clock_scale_factor st > 1 then cpu_clock_prev_scaled st else r + cpu_clock_offset st)"

definition ticks_floor :: "int \<Rightarrow> TimersState \<Rightarrow> int" where
  "ticks_floor k st = (if cpu_ticks_enabled st then k + cpu_ticks_offset st else cpu_ticks_offset st)"

lemma s64_ok: "- (2 ^ 63) \<le> x \<Longrightarrow> x < 2 ^ 63 \<Longrightarrow> s64 x = Inr x"
  by (simp add: s64_def)

lemma assert_res_Inr: "assert_res b r = Inr x \<longleftrightarrow> b \<and> r = Inr x"
  by (simp add: assert_res_def)

lemmas clock_simps = clock_ok_def ticks_ok_def clock_floor_def ticks_floor_def s64_ok Let_def

lemma div_scale: "0 < i \<Longrightarrow> 1 < s \<Longrightarrow> 0 \<le> i div s \<and> i div s \<le> (i :: int)"
  using zdiv_mono2 [of i 1 s] by (simp add: pos_imp_zdiv_nonneg_iff)

lemma get_clock_step:
  assumes "clock_ok r st" and "r < r'" and "r' < 2 ^ 63"
  shows "\<exists>c p. cpu_get_clock r' st = Inr (c, st\<lparr>cpu_clock_prev_scaled := if cpu_ticks_enabled st \<and> cpu_clock_scale_factor st > 1 then c else cpu_clock_prev_scaled st,
      cpu_clock_prev := p\<rparr>) \<and> clock_floor r' st \<le> c \<and> 0 \<le> c \<and> c \<le> r' \<and>
      (if cpu_ticks_enabled st \<and> cpu_clock_scale_factor st > 1 then p = r' + cpu_clock_offset st \<and> c \<le> p else p = cpu_clock_prev st \<and> c = clock_floor r' st)"
proof (cases "cpu_ticks_enabled st \<and> cpu_clock_scale_factor st > 1")
  case True
  define cur where "cur = r' + cpu_clock_offset st"
  define inc where "inc = cur - cpu_clock_prev st"
  have f: "0 \<le> cpu_clock_prev_scaled st" "cpu_clock_prev_scaled st \<le> cpu_clock_prev st" "0 < inc" "0 \<le> cur" "cur \<le> r'" "inc \<le> cur"
    using assms True by (auto simp: clock_ok_def cur_def inc_def)
  then have d: "0 \<le> inc div cpu_clock_scale_factor st" "inc div cpu_clock_scale_factor st \<le> inc" using div_scale True by auto
  define c where "c = cpu_clock_prev_scaled st + inc div cpu_clock_scale_factor st"
  have c: "cpu_clock_prev_scaled st \<le> c" "c \<le> cur" using d f by (auto simp: c_def inc_def)
  have s: "s64 cur = Inr cur" "s64 inc = Inr inc" "s64 c = Inr c" using f c assms(3) by (auto intro!: s64_ok)
  have "cpu_get_clock r' st = Inr (c, st\<lparr>cpu_clock_prev_scaled := c, cpu_clock_prev := cur\<rparr>)"
    using True f c s by (simp add: cpu_get_clock_def flip: cur_def inc_def c_def) (simp add: inc_def)
  then show ?thesis using True f c by (intro exI [of _ c] exI [of _ cur]) (auto simp: clock_floor_def cur_def)
next
  case False
  then have "cpu_get_clock r' st = Inr (clock_floor r' st, st)"
    using assms by (auto simp: cpu_get_clock_def clock_simps split: if_splits)
  moreover have "0 \<le> clock_floor r' st" "clock_floor r' st \<le> r'" using assms False by (auto simp: clock_simps split: if_splits)
  ultimately show ?thesis using False by (intro exI [of _ "clock_floor r' st"] exI [of _ "cpu_clock_prev st"]) auto
qed

lemma get_ticks_step:
  assumes "ticks_ok k st" and "k \<le> k'" and "k' < 2 ^ 63"
  shows "cpu_get_ticks k' st = Inr (ticks_floor k' st, if cpu_ticks_enabled st then st\<lparr>cpu_ticks_prev := k'\<rparr> else st) \<and>
    0 \<le> ticks_floor k' st \<and> ticks_floor k' st \<le> k'"
  using assms by (auto simp: cpu_get_ticks_def clock_simps split: if_splits)

text \<open>A request keeps the invariants, and what it returns lies between the lower bounds before and after it.\<close>

definition request_ok :: "int \<Rightarrow> int \<Rightarrow> TimersState \<Rightarrow> (int list \<times> int list) \<times> TimersState \<Rightarrow> bool" where
  "request_ok r k st = (\<lambda>((cs, ts), st').
     clock_ok r st' \<and> ticks_ok k st' \<and> clock_floor r st \<le> clock_floor r st' \<and> ticks_floor k st \<le> ticks_floor k st' \<and>
     length cs \<le> 1 \<and> length ts \<le> 1 \<and>
     (\<forall>c \<in> set cs. clock_floor r st \<le> c \<and> c \<le> clock_floor r st' \<and> 0 \<le> c \<and> c \<le> r) \<and>
     (\<forall>t \<in> set ts. ticks_floor k st \<le> t \<and> t \<le> ticks_floor k st' \<and> 0 \<le> t \<and> t \<le> k))"

lemma request_step:
  assumes "clock_ok r st" and "ticks_ok k st" and "r < r'" and "k \<le> k'" and "r' < 2 ^ 63" and "k' < 2 ^ 63" and "\<And>s. q = Scale s \<Longrightarrow> 1 \<le> s"
  shows "case clock_request (q, r', k') st of Inl e \<Rightarrow> False | Inr x \<Rightarrow> request_ok r' k' st x"
proof -
  obtain c p where c: "cpu_get_clock r' st = Inr (c, st\<lparr>cpu_clock_prev_scaled := if cpu_ticks_enabled st \<and> cpu_clock_scale_factor st > 1 then c else cpu_clock_prev_scaled st,
      cpu_clock_prev := p\<rparr>)" and cp: "clock_floor r' st \<le> c" "0 \<le> c" "c \<le> r'"
      "if cpu_ticks_enabled st \<and> cpu_clock_scale_factor st > 1 then p = r' + cpu_clock_offset st \<and> c \<le> p else p = cpu_clock_prev st \<and> c = clock_floor r' st"
    using get_clock_step [OF assms(1,3,5)] by blast
  note t = get_ticks_step [OF assms(2,4,6)]
  show ?thesis
  proof (cases q)
    case Get_clock
    then show ?thesis using assms(1-4) c cp by (auto simp: request_ok_def clock_simps split: if_splits)
  next
    case Get_ticks
    then show ?thesis using assms(1-4) t by (auto simp: request_ok_def clock_simps split: if_splits)
  next
    case Enable
    then show ?thesis using assms(1-6) by (auto simp: request_ok_def cpu_enable_ticks_def clock_simps)
  next
    case Disable
    show ?thesis
    proof (cases "cpu_ticks_enabled st")
      case True
      define u where "u = st\<lparr>cpu_ticks_prev := k', cpu_ticks_offset := ticks_floor k' st\<rparr>"
      have "clock_ok r u" using assms(1) by (simp add: clock_ok_def u_def)
      then obtain c p where "cpu_get_clock r' u = Inr (c, u\<lparr>cpu_clock_prev_scaled := if cpu_ticks_enabled u \<and> cpu_clock_scale_factor u > 1 then c else cpu_clock_prev_scaled u,
          cpu_clock_prev := p\<rparr>)" "clock_floor r' u \<le> c" "0 \<le> c" "c \<le> r'"
        using get_clock_step [OF _ assms(3,5)] by blast
      moreover have "clock_floor r' u = clock_floor r' st" by (simp add: clock_floor_def u_def)
      ultimately show ?thesis using Disable True t assms(1-4)
        by (simp add: cpu_disable_ticks_def Let_def flip: u_def) (auto simp: request_ok_def clock_simps u_def)
    next
      case False
      then show ?thesis using Disable assms(1-4) by (auto simp: request_ok_def cpu_disable_ticks_def clock_simps)
    qed
  next
    case (Scale s)
    then show ?thesis using assms(1-4,7) c cp by (auto simp: request_ok_def cpu_enable_scaling_def clock_simps split: if_splits)
  qed
qed

text \<open>The host's clock advances from request to request, its counter does not go back, and both fit in 63 bits.\<close>

fun readings :: "int \<Rightarrow> int \<Rightarrow> (clock_op \<times> int \<times> int) list \<Rightarrow> bool" where
  "readings r k [] = True"
| "readings r k ((q, r', k') # qs) =
     (r < r' \<and> k \<le> k' \<and> r' < 2 ^ 63 \<and> k' < 2 ^ 63 \<and> (case q of Scale s \<Rightarrow> 1 \<le> s | _ \<Rightarrow> True) \<and> readings r' k' qs)"

lemma floors_later: "r \<le> r' \<Longrightarrow> k \<le> k' \<Longrightarrow> clock_floor r st \<le> clock_floor r' st \<and> ticks_floor k st \<le> ticks_floor k' st"
  by (auto simp: clock_floor_def ticks_floor_def)

lemma sorted_short: "length xs \<le> 1 \<Longrightarrow> sorted (xs :: int list)"
  by (cases xs) auto

lemma requests_step:
  assumes "clock_ok r st" and "ticks_ok k st" and "readings r k qs"
  shows "\<exists>cs ts st'. clock_requests qs st = Inr ((cs, ts), st') \<and> sorted cs \<and> sorted ts \<and>
    (\<forall>c \<in> set cs. clock_floor r st \<le> c) \<and> (\<forall>t \<in> set ts. ticks_floor k st \<le> t)"
  using assms
proof (induction qs arbitrary: r k st)
  case (Cons q qs)
  obtain op' r' k' where q: "q = (op', r', k')" by (cases q)
  have R: "r < r'" "k \<le> k'" "r' < 2 ^ 63" "k' < 2 ^ 63" "\<And>s. op' = Scale s \<Longrightarrow> 1 \<le> s" "readings r' k' qs"
    using Cons.prems(3) q by auto
  obtain cs ts u where u: "clock_request q st = Inr ((cs, ts), u)" "request_ok r' k' st ((cs, ts), u)"
    using request_step [OF Cons.prems(1,2) R(1-4), of op'] R(5) q by (auto split: sum.splits)
  then have u': "clock_ok r' u" "ticks_ok k' u" by (auto simp: request_ok_def)
  obtain cs' ts' st' where s: "clock_requests qs u = Inr ((cs', ts'), st')" "sorted cs'" "sorted ts'"
      "\<forall>c \<in> set cs'. clock_floor r' u \<le> c" "\<forall>t \<in> set ts'. ticks_floor k' u \<le> t"
    using Cons.IH [OF u' R(6)] by blast
  have f: "clock_floor r st \<le> clock_floor r' st" "ticks_floor k st \<le> ticks_floor k' st" using floors_later [of r r' k k' st] R by auto
  have "sorted (cs @ cs')" "sorted (ts @ ts')" using u(2) s(2-5) by (fastforce simp: request_ok_def sorted_append intro: sorted_short)+
  moreover have "\<forall>c \<in> set (cs @ cs'). clock_floor r st \<le> c" "\<forall>t \<in> set (ts @ ts'). ticks_floor k st \<le> t"
    using u(2) s(4,5) f by (fastforce simp: request_ok_def)+
  ultimately show ?case using u(1) s(1) by simp
qed simp



text \<open>
  A counter of the host that goes back, as after a suspension, does not set the guest's counter
  back while it runs; a slowed-down clock that is read twice at the same reading of the host fails an assertion.
\<close>

theorem host_goes_back:
  "(cpu_get_ticks k st = Inr (t, u) \<and> cpu_get_ticks k' u = Inr (t', u') \<longrightarrow> t \<le> t') \<and>
   (cpu_ticks_enabled st \<and> cpu_clock_scale_factor st > 1 \<and> cpu_get_clock r st = Inr (c, w) \<longrightarrow> cpu_get_clock r w = Inl Assert)"
proof (intro conjI impI)
  show "t \<le> t'" if "cpu_get_ticks k st = Inr (t, u) \<and> cpu_get_ticks k' u = Inr (t', u')"
    using that by (auto simp: cpu_get_ticks_def s64_def Let_def split: if_splits)
  assume h: "cpu_ticks_enabled st \<and> cpu_clock_scale_factor st > 1 \<and> cpu_get_clock r st = Inr (c, w)"
  then have e: "cpu_ticks_enabled st" "cpu_clock_scale_factor st > 1" "cpu_get_clock r st = Inr (c, w)" by simp_all
  from e(3) obtain cur where cur: "s64 (r + cpu_clock_offset st) = Inr cur" "w = st\<lparr>cpu_clock_prev_scaled := c, cpu_clock_prev := cur\<rparr>"
    by (simp add: cpu_get_clock_def e(1,2) bind_res_eq_Inr assert_res_Inr) blast
  then show "cpu_get_clock r w = Inl Assert" using e by (simp add: cpu_get_clock_def s64_ok)
qed

theorem host_goes_back_witness:
  "cpu_get_ticks 50 (timers_state\<lparr>cpu_ticks_enabled := True\<rparr>) = Inr (50, timers_state\<lparr>cpu_ticks_enabled := True, cpu_ticks_prev := 50\<rparr>) \<and>
   (\<forall>t u. cpu_get_ticks 20 (timers_state\<lparr>cpu_ticks_enabled := True, cpu_ticks_prev := 50\<rparr>) = Inr (t, u) \<longrightarrow> 50 \<le> t)"
proof -
  have "cpu_get_ticks 50 (timers_state\<lparr>cpu_ticks_enabled := True\<rparr>) = Inr (50, timers_state\<lparr>cpu_ticks_enabled := True, cpu_ticks_prev := 50\<rparr>)"
    by (simp add: cpu_get_ticks_def timers_state_def s64_def)
  then show ?thesis using host_goes_back [of 50 "timers_state\<lparr>cpu_ticks_enabled := True\<rparr>" 50 _ 20] by blast
qed

end
