(* ===== verification/Timers.thy ===== *)
theory Timers
  imports Clocks
begin

text \<open>
  The timers of the emulator (\<^verbatim>\<open>libcpu/src/timer.c\<close>): each clock has a linked list of active timers. The
  memory is modelled as such: a timer is an address, \<open>tm_heap\<close> the allocated timers, and the loops move
  a pointer to a link along the list, as the code does. They carry a budget of steps; more steps than
  active timers are enough (\<open>del_loop_list\<close>, \<open>insert_loop_list\<close>). Callbacks are a parameter.
\<close>

section \<open>State\<close>

record CPUTimer =
  tm_clock :: nat
  expire_time :: int
  tm_scale :: int
  tm_cb :: nat
  tm_opaque :: nat
  tm_next :: "nat option"

record CPUClock =
  ck_type :: nat
  ck_enabled :: bool
  active_timers :: "nat option"
  ck_last :: int

record timer_mem =
  tm_heap :: "nat \<Rightarrow> CPUTimer option"
  ck_heap :: "nat \<Rightarrow> CPUClock"

definition deref :: "timer_mem \<Rightarrow> nat \<Rightarrow> CPUTimer res" where
  "deref st t = (case tm_heap st t of None \<Rightarrow> Inl Undefined | Some T \<Rightarrow> Inr T)"

text \<open>A pointer to a link: the head of a clock's list or the \<^verbatim>\<open>next\<close> field of a timer.\<close>

datatype link = Head nat | Next nat

fun read_link :: "timer_mem \<Rightarrow> link \<Rightarrow> nat option res" where
  "read_link st (Head c) = Inr (active_timers (ck_heap st c))"
| "read_link st (Next t) = bind_res (deref st t) (\<lambda>T. Inr (tm_next T))"

fun write_link :: "timer_mem \<Rightarrow> link \<Rightarrow> nat option \<Rightarrow> timer_mem res" where
  "write_link st (Head c) v = Inr (st\<lparr>ck_heap := (ck_heap st)(c := (ck_heap st c)\<lparr>active_timers := v\<rparr>)\<rparr>)"
| "write_link st (Next t) v = bind_res (deref st t) (\<lambda>T. Inr (st\<lparr>tm_heap := (tm_heap st)(t \<mapsto> T\<lparr>tm_next := v\<rparr>)\<rparr>))"

section \<open>Operations\<close>

definition QEMU_CLOCK_REALTIME :: nat where "QEMU_CLOCK_REALTIME = 0"
definition QEMU_CLOCK_VIRTUAL :: nat where "QEMU_CLOCK_VIRTUAL = 1"
definition QEMU_CLOCK_HOST :: nat where "QEMU_CLOCK_HOST = 2"

definition qemu_new_clock :: "nat \<Rightarrow> CPUClock" where
  "qemu_new_clock type = \<lparr>ck_type = type, ck_enabled = True, active_timers = None, ck_last = - (2 ^ 63)\<rparr>"

text \<open>The clocks are numbered by their types.\<close>

definition init_clocks :: timer_mem where
  "init_clocks = \<lparr>tm_heap = \<lambda>_. None, ck_heap = qemu_new_clock\<rparr>"

text \<open>The address of a new timer is chosen by the allocator.\<close>

definition libcpu_new_timer :: "nat \<Rightarrow> nat \<Rightarrow> int \<Rightarrow> nat \<Rightarrow> nat \<Rightarrow> timer_mem \<Rightarrow> timer_mem" where
  "libcpu_new_timer ts clock scale cb opaque st =
     st\<lparr>tm_heap := (tm_heap st)(ts \<mapsto>
       \<lparr>tm_clock = clock, expire_time = 0, tm_scale = scale, tm_cb = cb, tm_opaque = opaque, tm_next = None\<rparr>)\<rparr>"

definition libcpu_free_timer :: "nat \<Rightarrow> timer_mem \<Rightarrow> timer_mem" where
  "libcpu_free_timer ts st = st\<lparr>tm_heap := (tm_heap st)(ts := None)\<rparr>"

fun del_loop :: "nat \<Rightarrow> link \<Rightarrow> nat \<Rightarrow> timer_mem \<Rightarrow> timer_mem res" where
  "del_loop 0 pt ts st = Inl OutOfFuel"
| "del_loop (Suc n) pt ts st =
     bind_res (read_link st pt) (\<lambda>t. case t of
       None \<Rightarrow> Inr st
     | Some t \<Rightarrow>
         if t = ts then bind_res (deref st t) (\<lambda>T. write_link st pt (tm_next T))
         else del_loop n (Next t) ts st)"

definition libcpu_del_timer :: "nat \<Rightarrow> nat \<Rightarrow> timer_mem \<Rightarrow> timer_mem res" where
  "libcpu_del_timer n ts st = bind_res (deref st ts) (\<lambda>T. del_loop n (Head (tm_clock T)) ts st)"

definition libcpu_timer_expired_ns :: "timer_mem \<Rightarrow> nat option \<Rightarrow> int \<Rightarrow> bool res" where
  "libcpu_timer_expired_ns st timer_head current_time =
     (case timer_head of None \<Rightarrow> Inr False | Some t \<Rightarrow> bind_res (deref st t) (\<lambda>T. Inr (expire_time T \<le> current_time)))"

fun link_loop :: "nat \<Rightarrow> link \<Rightarrow> int \<Rightarrow> timer_mem \<Rightarrow> link res" where
  "link_loop 0 pt expire st = Inl OutOfFuel"
| "link_loop (Suc n) pt expire st =
     bind_res (read_link st pt) (\<lambda>t.
     bind_res (libcpu_timer_expired_ns st t expire) (\<lambda>b.
       if \<not> b then Inr pt
       else case t of None \<Rightarrow> Inl Undefined | Some t \<Rightarrow> link_loop n (Next t) expire st))"

text \<open>The three assignments that put the timer behind the link.\<close>

definition link_timer :: "link \<Rightarrow> int \<Rightarrow> nat \<Rightarrow> timer_mem \<Rightarrow> timer_mem res" where
  "link_timer pt expire ts st =
     bind_res (deref st ts) (\<lambda>T.
     let st = st\<lparr>tm_heap := (tm_heap st)(ts \<mapsto> T\<lparr>expire_time := expire\<rparr>)\<rparr> in
     bind_res (read_link st pt) (\<lambda>t.
     bind_res (write_link st (Next ts) t) (\<lambda>st.
     write_link st pt (Some ts))))"

definition libcpu_mod_timer_ns :: "nat \<Rightarrow> nat \<Rightarrow> int \<Rightarrow> timer_mem \<Rightarrow> timer_mem res" where
  "libcpu_mod_timer_ns n ts expire st =
     bind_res (libcpu_del_timer n ts st) (\<lambda>st.
     bind_res (deref st ts) (\<lambda>T.
     bind_res (link_loop n (Head (tm_clock T)) expire st) (\<lambda>pt.
     link_timer pt expire ts st)))"

definition libcpu_mod_timer :: "nat \<Rightarrow> nat \<Rightarrow> int \<Rightarrow> timer_mem \<Rightarrow> timer_mem res" where
  "libcpu_mod_timer n ts expire st =
     bind_res (deref st ts) (\<lambda>T. bind_res (s64 (expire * tm_scale T)) (\<lambda>e. libcpu_mod_timer_ns n ts e st))"

definition libcpu_timer_expired :: "timer_mem \<Rightarrow> nat \<Rightarrow> int \<Rightarrow> bool res" where
  "libcpu_timer_expired st timer_head current_time =
     bind_res (deref st timer_head) (\<lambda>T. bind_res (s64 (current_time * tm_scale T)) (libcpu_timer_expired_ns st (Some timer_head)))"

text \<open>The host's monotonic clock, the guest's clock and the host's time of day are arguments.\<close>

definition libcpu_get_clock_ns :: "int \<Rightarrow> int \<Rightarrow> int \<Rightarrow> nat \<Rightarrow> timer_mem \<Rightarrow> int \<times> timer_mem" where
  "libcpu_get_clock_ns rt vm host clock st =
     (if ck_type (ck_heap st clock) = QEMU_CLOCK_REALTIME then (rt, st)
      else if ck_type (ck_heap st clock) = QEMU_CLOCK_HOST then (host, st\<lparr>ck_heap := (ck_heap st)(clock := (ck_heap st clock)\<lparr>ck_last := host\<rparr>)\<rparr>)
      else (vm, st))"

type_synonym callback = "nat \<Rightarrow> nat \<Rightarrow> timer_mem \<Rightarrow> timer_mem res"

text \<open>The timers whose callbacks run are collected in their order.\<close>

fun run_loop :: "nat \<Rightarrow> callback \<Rightarrow> nat \<Rightarrow> int \<Rightarrow> timer_mem \<Rightarrow> (nat list \<times> timer_mem) res" where
  "run_loop 0 cb clock now st = Inl OutOfFuel"
| "run_loop (Suc n) cb clock now st =
     bind_res (read_link st (Head clock)) (\<lambda>ts.
     bind_res (libcpu_timer_expired_ns st ts now) (\<lambda>b.
       if \<not> b then Inr ([], st)
       else case ts of
         None \<Rightarrow> Inl Undefined
       | Some ts \<Rightarrow>
           bind_res (deref st ts) (\<lambda>T.
           bind_res (write_link st (Head clock) (tm_next T)) (\<lambda>st.
           bind_res (write_link st (Next ts) None) (\<lambda>st.
           bind_res (cb (tm_cb T) (tm_opaque T) st) (\<lambda>st.
           bind_res (run_loop n cb clock now st) (\<lambda>(fired, st). Inr (ts # fired, st))))))))"

definition libcpu_run_timers :: "nat \<Rightarrow> callback \<Rightarrow> int \<Rightarrow> int \<Rightarrow> int \<Rightarrow> nat \<Rightarrow> timer_mem \<Rightarrow> (nat list \<times> timer_mem) res" where
  "libcpu_run_timers n cb rt vm host clock st =
     (if \<not> ck_enabled (ck_heap st clock) then Inr ([], st)
      else case libcpu_get_clock_ns rt vm host clock st of (current_time, st) \<Rightarrow> run_loop n cb clock current_time st)"

definition libcpu_run_all_timers :: "nat \<Rightarrow> callback \<Rightarrow> int \<Rightarrow> int \<Rightarrow> int \<Rightarrow> timer_mem \<Rightarrow> (nat list \<times> timer_mem) res" where
  "libcpu_run_all_timers n cb rt vm host st =
     bind_res (libcpu_run_timers n cb rt vm host QEMU_CLOCK_VIRTUAL st) (\<lambda>(a, st).
     bind_res (libcpu_run_timers n cb rt vm host QEMU_CLOCK_REALTIME st) (\<lambda>(b, st).
     bind_res (libcpu_run_timers n cb rt vm host QEMU_CLOCK_HOST st) (\<lambda>(c, st). Inr (a @ b @ c, st))))"

definition SCALE_MS :: int where "SCALE_MS = 1000000"

definition libcpu_new_timer_ms :: "nat \<Rightarrow> nat \<Rightarrow> nat \<Rightarrow> nat \<Rightarrow> timer_mem \<Rightarrow> timer_mem" where
  "libcpu_new_timer_ms ts clock cb opaque st = libcpu_new_timer ts clock SCALE_MS cb opaque st"

text \<open>Division of C truncates.\<close>

definition libcpu_get_clock_ms :: "int \<Rightarrow> int \<Rightarrow> int \<Rightarrow> nat \<Rightarrow> timer_mem \<Rightarrow> int \<times> timer_mem" where
  "libcpu_get_clock_ms rt vm host clock st =
     (case libcpu_get_clock_ns rt vm host clock st of (t, st) \<Rightarrow> (if t < 0 then - (- t div SCALE_MS) else t div SCALE_MS, st))"

definition cpu_get_tsc :: "u64 \<Rightarrow> u64 \<Rightarrow> u64 \<Rightarrow> u64" where
  "cpu_get_tsc real_ticks g_clock_offset g_clock_start = real_ticks - g_clock_offset + g_clock_start"

section \<open>Lists in the memory\<close>

fun chain :: "(nat \<Rightarrow> CPUTimer option) \<Rightarrow> nat option \<Rightarrow> nat list \<Rightarrow> bool" where
  "chain h p [] = (p = None)"
| "chain h p (t # ts) = (p = Some t \<and> (\<exists>T. h t = Some T \<and> chain h (tm_next T) ts))"

lemma chain_cong: "(\<And>t. t \<in> set ts \<Longrightarrow> h t = h' t) \<Longrightarrow> chain h p ts = chain h' p ts"
  by (induction ts arbitrary: p) auto

text \<open>Two memories in which the timers differ in their links only.\<close>

definition same_timers :: "timer_mem \<Rightarrow> timer_mem \<Rightarrow> bool" where
  "same_timers st st' \<longleftrightarrow> (\<forall>t. map_option (tm_next_update (\<lambda>_. None)) (tm_heap st' t) = map_option (tm_next_update (\<lambda>_. None)) (tm_heap st t))"

text \<open>What a change of the list behind a link leaves alone.\<close>

definition only_list :: "link \<Rightarrow> nat set \<Rightarrow> timer_mem \<Rightarrow> timer_mem \<Rightarrow> bool" where
  "only_list pt A st st' \<longleftrightarrow>
     (\<forall>t. t \<notin> A \<and> pt \<noteq> Next t \<longrightarrow> tm_heap st' t = tm_heap st t) \<and>
     (\<forall>c. pt \<noteq> Head c \<longrightarrow> ck_heap st' c = ck_heap st c) \<and>
     (\<forall>c. (ck_heap st' c)\<lparr>active_timers := None\<rparr> = (ck_heap st c)\<lparr>active_timers := None\<rparr>)"

lemma only_list_mono: "only_list pt A st st' \<Longrightarrow> A \<subseteq> B \<Longrightarrow> only_list pt B st st'"
  by (auto simp: only_list_def)

lemma write_link_ok:
  "read_link st pt = Inr p \<Longrightarrow> \<exists>st'. write_link st pt v = Inr st' \<and> read_link st' pt = Inr v \<and> same_timers st st' \<and> only_list pt {} st st'"
  by (cases pt) (auto simp: deref_def same_timers_def only_list_def split: option.splits)

lemma chain_only_list: "only_list pt A st st' \<Longrightarrow> A \<inter> set xs = {} \<Longrightarrow> (\<And>u. pt = Next u \<Longrightarrow> u \<notin> set xs) \<Longrightarrow>
    chain (tm_heap st) p xs \<Longrightarrow> chain (tm_heap st') p xs"
  by (subst chain_cong [of xs _ "tm_heap st"]) (auto simp: only_list_def)

text \<open>A change behind the first element of a list leaves the link to it.\<close>

lemma list_under_cons:
  assumes "read_link st pt = Inr (Some t)" and "\<And>u. pt = Next u \<Longrightarrow> u \<noteq> t \<and> u \<notin> A"
    and "read_link st' (Next t) = Inr p'" and "chain (tm_heap st') p' ys" and "only_list (Next t) A st st'"
  shows "read_link st' pt = Inr (Some t) \<and> chain (tm_heap st') (Some t) (t # ys) \<and> only_list pt (insert t A) st st'"
proof -
  have "read_link st' pt = Inr (Some t)"
    using assms(1,2,5) by (cases pt) (force simp: only_list_def deref_def)+
  moreover have "chain (tm_heap st') (Some t) (t # ys)" using assms(3,4) by (auto simp: deref_def split: option.splits)
  moreover have "only_list pt (insert t A) st st'" using assms(5) by (auto simp: only_list_def)
  ultimately show ?thesis by blast
qed

lemma del_loop_list:
  assumes "read_link st pt = Inr p" and "chain (tm_heap st) p xs" and "distinct xs" and "\<And>u. pt = Next u \<Longrightarrow> u \<notin> set xs" and "length xs < n"
  shows "\<exists>st' p'. del_loop n pt ts st = Inr st' \<and> read_link st' pt = Inr p' \<and> chain (tm_heap st') p' (remove1 ts xs) \<and>
    same_timers st st' \<and> only_list pt (set xs) st st'"
  using assms
proof (induction xs arbitrary: pt p n)
  case Nil
  then show ?case by (cases n) (auto simp: same_timers_def only_list_def)
next
  case (Cons t xs)
  obtain m where n: "n = Suc m" using Cons.prems(5) by (cases n) auto
  obtain T where T: "p = Some t" "tm_heap st t = Some T" "chain (tm_heap st) (tm_next T) xs" using Cons.prems(2) by auto
  show ?case
  proof (cases "t = ts")
    case True
    obtain st' where s: "write_link st pt (tm_next T) = Inr st'" "read_link st' pt = Inr (tm_next T)" "same_timers st st'" "only_list pt {} st st'"
      using write_link_ok [OF Cons.prems(1)] by blast
    have "chain (tm_heap st') (tm_next T) xs" using chain_only_list [OF s(4)] T(3) Cons.prems(4) by simp
    then show ?thesis using True s n T Cons.prems(1) only_list_mono [OF s(4)] by (simp add: deref_def)
  next
    case False
    have "read_link st (Next t) = Inr (tm_next T)" using T by (simp add: deref_def)
    then obtain st' p' where s: "del_loop m (Next t) ts st = Inr st'" "read_link st' (Next t) = Inr p'" "chain (tm_heap st') p' (remove1 ts xs)"
        "same_timers st st'" "only_list (Next t) (set xs) st st'"
      using Cons.IH [of "Next t" "tm_next T" m] T(3) Cons.prems n by auto
    have "read_link st pt = Inr (Some t)" using Cons.prems(1) T(1) by simp
    from list_under_cons [OF this _ s(2,3,5)] Cons.prems(4)
    show ?thesis using False s(1,4) n T(1) Cons.prems(1) by auto
  qed
qed

definition with_expire :: "timer_mem \<Rightarrow> nat \<Rightarrow> int \<Rightarrow> timer_mem" where
  "with_expire st ts e = st\<lparr>tm_heap := (tm_heap st)(ts := map_option (expire_time_update (\<lambda>_. e)) (tm_heap st ts))\<rparr>"

lemma link_timer_ok:
  assumes "read_link st pt = Inr q" and "pt \<noteq> Next ts" and "tm_heap st ts = Some T"
  shows "\<exists>st'. link_timer pt e ts st = Inr st' \<and> read_link st' pt = Inr (Some ts) \<and> tm_heap st' ts = Some (T\<lparr>expire_time := e, tm_next := q\<rparr>) \<and>
    same_timers (with_expire st ts e) st' \<and> only_list pt {ts} st st'"
  using assms by (cases pt) (auto simp: link_timer_def deref_def Let_def same_timers_def only_list_def with_expire_def split: option.splits)

definition due :: "timer_mem \<Rightarrow> int \<Rightarrow> nat \<Rightarrow> bool" where
  "due st e t = (expire_time (the (tm_heap st t)) \<le> e)"

lemma insert_loop_list:
  assumes "read_link st pt = Inr p" and "chain (tm_heap st) p xs" and "\<And>u. pt = Next u \<Longrightarrow> u \<notin> set xs \<and> u \<noteq> ts" and "length xs < n"
    and "ts \<notin> set xs" and "distinct xs" and "tm_heap st ts = Some T"
  shows "\<exists>st' p'. bind_res (link_loop n pt e st) (\<lambda>pt. link_timer pt e ts st) = Inr st' \<and> read_link st' pt = Inr p' \<and>
    chain (tm_heap st') p' (takeWhile (due st e) xs @ ts # dropWhile (due st e) xs) \<and>
    same_timers (with_expire st ts e) st' \<and> only_list pt (insert ts (set xs)) st st'"
  using assms(1-6)
proof (induction xs arbitrary: pt p n)
  case Nil
  then obtain m where n: "n = Suc m" by (cases n) auto
  obtain st' where s: "link_timer pt e ts st = Inr st'" "read_link st' pt = Inr (Some ts)" "tm_heap st' ts = Some (T\<lparr>expire_time := e, tm_next := p\<rparr>)"
      "same_timers (with_expire st ts e) st'" "only_list pt {ts} st st'"
    using link_timer_ok [OF Nil.prems(1) _ assms(7)] Nil.prems(3) by blast
  then show ?case using Nil.prems(1,2) n by (auto simp: libcpu_timer_expired_ns_def)
next
  case (Cons t xs)
  obtain m where n: "n = Suc m" using Cons.prems(4) by (cases n) auto
  obtain T' where T: "p = Some t" "tm_heap st t = Some T'" "chain (tm_heap st) (tm_next T') xs" using Cons.prems(2) by auto
  have link: "link_loop n pt e st = (if due st e t then link_loop m (Next t) e st else Inr pt)"
    using Cons.prems(1) T n by (simp add: libcpu_timer_expired_ns_def deref_def due_def)
  show ?case
  proof (cases "due st e t")
    case True
    have "read_link st (Next t) = Inr (tm_next T')" using T by (simp add: deref_def)
    then obtain st' p' where s: "bind_res (link_loop m (Next t) e st) (\<lambda>pt. link_timer pt e ts st) = Inr st'" "read_link st' (Next t) = Inr p'"
        "chain (tm_heap st') p' (takeWhile (due st e) xs @ ts # dropWhile (due st e) xs)"
        "same_timers (with_expire st ts e) st'" "only_list (Next t) (insert ts (set xs)) st st'"
      using Cons.IH [of "Next t" "tm_next T'" m] T(3) Cons.prems n by auto
    have "read_link st pt = Inr (Some t)" using Cons.prems(1) T(1) by simp
    from list_under_cons [OF this _ s(2,3,5)] Cons.prems(3)
    show ?thesis using True s(1,4) link by (auto simp: insert_commute)
  next
    case False
    obtain st' where s: "link_timer pt e ts st = Inr st'" "read_link st' pt = Inr (Some ts)" "tm_heap st' ts = Some (T\<lparr>expire_time := e, tm_next := p\<rparr>)"
        "same_timers (with_expire st ts e) st'" "only_list pt {ts} st st'"
      using link_timer_ok [OF Cons.prems(1) _ assms(7)] Cons.prems(3) by blast
    have "chain (tm_heap st') p (t # xs)" using chain_only_list [OF s(5)] Cons.prems(2,3,5) by blast
    then show ?thesis using False s link only_list_mono [OF s(5)] by auto
  qed
qed

section \<open>Active timers\<close>

definition expiry :: "timer_mem \<Rightarrow> nat \<Rightarrow> int" where
  "expiry st t = expire_time (the (tm_heap st t))"

definition owner :: "timer_mem \<Rightarrow> nat \<Rightarrow> nat" where
  "owner st t = tm_clock (the (tm_heap st t))"

text \<open>The list of a clock: allocated timers of that clock, each once, by the time they expire.\<close>

definition queue :: "timer_mem \<Rightarrow> nat \<Rightarrow> nat list \<Rightarrow> bool" where
  "queue st c xs \<longleftrightarrow> chain (tm_heap st) (active_timers (ck_heap st c)) xs \<and> distinct xs \<and>
     (\<forall>t \<in> set xs. owner st t = c) \<and> sorted (map (expiry st) xs)"

definition timers_ok :: "timer_mem \<Rightarrow> bool" where
  "timers_ok st \<longleftrightarrow> (\<forall>c. \<exists>xs. queue st c xs)"

lemma chain_unique: "chain h p xs \<Longrightarrow> chain h p ys \<Longrightarrow> xs = ys"
proof (induction xs arbitrary: p ys)
  case Nil
  then show ?case by (cases ys) auto
next
  case (Cons x xs)
  then show ?case by (cases ys) auto
qed

lemma queue_unique: "queue st c xs \<Longrightarrow> queue st c ys \<Longrightarrow> xs = ys"
  by (auto simp: queue_def intro: chain_unique)

lemma chain_allocated: "chain h p xs \<Longrightarrow> t \<in> set xs \<Longrightarrow> \<exists>T. h t = Some T"
  by (induction xs arbitrary: p) auto

lemma same_timers_attrs:
  assumes "same_timers st st'"
  shows "expiry st' t = expiry st t" "owner st' t = owner st t"
proof -
  have "map_option (tm_next_update (\<lambda>_. None)) (tm_heap st' t) = map_option (tm_next_update (\<lambda>_. None)) (tm_heap st t)"
    using assms by (simp add: same_timers_def)
  then show "expiry st' t = expiry st t" "owner st' t = owner st t"
    unfolding expiry_def owner_def
    by (cases "tm_heap st' t"; cases "tm_heap st t"; simp; metis CPUTimer.select_convs(1,2) CPUTimer.surjective CPUTimer.update_convs(6))+
qed

lemma with_expire_attrs: "expiry (with_expire st ts e) t = (if t = ts \<and> tm_heap st ts \<noteq> None then e else expiry st t)"
  "owner (with_expire st ts e) t = owner st t"
  by (cases "tm_heap st ts"; simp add: expiry_def owner_def with_expire_def)+

lemma sorted_map_cong: "(\<And>x. x \<in> set xs \<Longrightarrow> f x = g x) \<Longrightarrow> sorted (map f xs) = sorted (map g xs)"
  by (metis map_cong)

lemma queue_frame:
  assumes "queue st c' ys" and "only_list (Head c) A st st'" and "c' \<noteq> c" and "A \<inter> set ys = {}"
    and "\<And>t. t \<in> set ys \<Longrightarrow> expiry st' t = expiry st t \<and> owner st' t = owner st t"
  shows "queue st' c' ys"
proof -
  have "ck_heap st' c' = ck_heap st c'" using assms(2,3) by (auto simp: only_list_def)
  moreover have "sorted (map (expiry st') ys)" using assms(1,5) sorted_map_cong [of ys "expiry st'" "expiry st"] by (simp add: queue_def)
  ultimately show ?thesis using assms(1,5) chain_only_list [OF assms(2,4)] by (simp add: queue_def)
qed

lemma del_timer_queue:
  assumes "queue st c xs" and "tm_heap st ts = Some T" and "tm_clock T = c" and "length xs < n"
  shows "\<exists>st'. libcpu_del_timer n ts st = Inr st' \<and> queue st' c (remove1 ts xs) \<and> same_timers st st' \<and> only_list (Head c) (set xs) st st'"
proof -
  obtain st' p' where s: "del_loop n (Head c) ts st = Inr st'" "read_link st' (Head c) = Inr p'" "chain (tm_heap st') p' (remove1 ts xs)"
      "same_timers st st'" "only_list (Head c) (set xs) st st'"
    using del_loop_list [of st "Head c" "active_timers (ck_heap st c)" xs n ts] assms by (auto simp: queue_def)
  have "sorted (map (expiry st) (remove1 ts xs))" using assms(1) by (auto simp: queue_def intro: sorted_map_remove1)
  then have "queue st' c (remove1 ts xs)"
    using assms(1) s(2,3) notin_set_remove1 by (auto simp: queue_def same_timers_attrs [OF s(4)] cong: map_cong) 
  then show ?thesis using s assms(2,3) by (simp add: libcpu_del_timer_def deref_def)
qed

lemma late_after: "sorted (map f xs) \<Longrightarrow> x \<in> set (dropWhile (\<lambda>x. f x \<le> (e :: int)) xs) \<Longrightarrow> e < f x"
  by (induction xs) (fastforce split: if_splits)+

text \<open>Insertion behind all timers that are due at the same time or before.\<close>

definition insert_timer :: "timer_mem \<Rightarrow> int \<Rightarrow> nat \<Rightarrow> nat list \<Rightarrow> nat list" where
  "insert_timer st e ts xs = takeWhile (due st e) xs @ ts # dropWhile (due st e) xs"

lemma due_expiry: "due st e = (\<lambda>t. expiry st t \<le> e)"
  by (simp add: fun_eq_iff due_def expiry_def)

lemma sorted_insert_timer:
  assumes "sorted (map (expiry st) xs)" and "ts \<notin> set xs" and "\<And>t. expiry st' t = (if t = ts then e else expiry st t)"
  shows "sorted (map (expiry st') (insert_timer st e ts xs))"
proof -
  let ?a = "takeWhile (due st e) xs" and ?b = "dropWhile (due st e) xs"
  have ab: "sorted (map (expiry st) ?a)" "sorted (map (expiry st) ?b)" "\<forall>x \<in> set ?a. \<forall>y \<in> set ?b. expiry st x \<le> expiry st y"
    using assms(1) sorted_append [of "map (expiry st) ?a" "map (expiry st) ?b"] by (auto simp flip: map_append)
  have e: "\<forall>x \<in> set ?a. expiry st x \<le> e" "\<forall>y \<in> set ?b. e \<le> expiry st y"
    using late_after [OF assms(1), of _ e] by (auto simp: due_expiry dest: set_takeWhileD less_imp_le)
  have n: "\<forall>x \<in> set ?a. x \<noteq> ts" "\<forall>y \<in> set ?b. y \<noteq> ts" using assms(2) by (auto dest: set_takeWhileD set_dropWhileD)
  have "sorted (map (expiry st') ?a)" "sorted (map (expiry st') ?b)"
    using ab(1,2) sorted_map_cong [of ?a "expiry st'" "expiry st"] sorted_map_cong [of ?b "expiry st'" "expiry st"] n assms(3) by auto
  then show ?thesis using ab(3) e n assms(3) by (auto simp: insert_timer_def sorted_append)
qed

lemma insert_timer_elems:
  "set (insert_timer st e t xs) = insert t (set xs)" "distinct xs \<Longrightarrow> t \<notin> set xs \<Longrightarrow> distinct (insert_timer st e t xs)"
proof -
  define a b where "a = takeWhile (due st e) xs" and "b = dropWhile (due st e) xs"
  have "insert_timer st e t xs = a @ t # b" "xs = a @ b" by (simp_all add: insert_timer_def a_def b_def)
  then show "set (insert_timer st e t xs) = insert t (set xs)" "distinct xs \<Longrightarrow> t \<notin> set xs \<Longrightarrow> distinct (insert_timer st e t xs)"
    by auto
qed

lemma mod_timer_queue:
  assumes "queue st c xs" and "tm_heap st ts = Some T" and "tm_clock T = c" and "length xs < n"
  shows "\<exists>st'. libcpu_mod_timer_ns n ts e st = Inr st' \<and> queue st' c (insert_timer st e ts (remove1 ts xs)) \<and> (\<forall>t. expiry st' t = (if t = ts then e else expiry st t) \<and> owner st' t = owner st t) \<and>
    only_list (Head c) (insert ts (set xs)) st st'"
proof -
  let ?zs = "remove1 ts xs"
  obtain u where u: "libcpu_del_timer n ts st = Inr u" "queue u c ?zs" "same_timers st u" "only_list (Head c) (set xs) st u"
    using del_timer_queue [OF assms] by blast
  have "map_option (tm_next_update (\<lambda>_. None)) (tm_heap u ts) = Some (T\<lparr>tm_next := None\<rparr>)" using u(3) assms(2) by (simp add: same_timers_def)
  then obtain T' where T': "tm_heap u ts = Some T'" by auto
  have oT: "tm_clock T' = c" using same_timers_attrs(2) [OF u(3), of ts] T' assms(2,3) by (simp add: owner_def)
  have nin: "ts \<notin> set ?zs" "distinct ?zs" "length ?zs < n" using assms(1,4) by (auto simp: queue_def length_remove1)
  obtain st' p' where s: "bind_res (link_loop n (Head c) e u) (\<lambda>pt. link_timer pt e ts u) = Inr st'" "read_link st' (Head c) = Inr p'"
      "chain (tm_heap st') p' (takeWhile (due u e) ?zs @ ts # dropWhile (due u e) ?zs)"
      "same_timers (with_expire u ts e) st'" "only_list (Head c) (insert ts (set ?zs)) u st'"
    using insert_loop_list [of u "Head c" "active_timers (ck_heap u c)" ?zs ts n T' e] u(2) nin T' by (auto simp: queue_def)
  have due: "due u e = due st e" by (simp add: due_expiry same_timers_attrs [OF u(3)])
  have attrs: "expiry st' t = (if t = ts then e else expiry st t)" "owner st' t = owner st t" for t
    by (simp_all add: same_timers_attrs [OF s(4)] with_expire_attrs T' same_timers_attrs [OF u(3)])
  have "sorted (map (expiry st) ?zs)" using assms(1) by (auto simp: queue_def intro: sorted_map_remove1)
  then have "sorted (map (expiry st') (insert_timer st e ts ?zs))" using sorted_insert_timer nin(1) attrs(1) by blast
  moreover have "set (insert_timer st e ts ?zs) = insert ts (set ?zs)" "distinct (insert_timer st e ts ?zs)"
    using nin insert_timer_elems by auto
  moreover have "\<forall>t \<in> insert ts (set ?zs). owner st' t = c"
    using assms(1-3) set_remove1_subset [of ts xs] by (auto simp: queue_def attrs) (simp add: owner_def)
  ultimately have "queue st' c (insert_timer st e ts ?zs)" using s(2,3) due by (simp add: queue_def insert_timer_def)
  moreover have "only_list (Head c) (insert ts (set xs)) st st'"
    using u(4) s(5) set_remove1_subset [of ts xs] by (auto simp: only_list_def)
  ultimately show ?thesis using u(1) s(1) T' oT attrs by (auto simp: libcpu_mod_timer_ns_def deref_def)
qed

section \<open>Sequences of operations\<close>

text \<open>
  The memories the operations can produce: a timer is allocated at a free address, freed only while it
  is not active, and stopped or set only while it is allocated; the budget exceeds the length of the list.
\<close>

inductive timers_reach :: "timer_mem \<Rightarrow> bool" where
  r_init: "timers_reach init_clocks"
| r_new: "timers_reach st \<Longrightarrow> tm_heap st ts = None \<Longrightarrow> timers_reach (libcpu_new_timer ts clock scale cb opaque st)"
| r_free: "timers_reach st \<Longrightarrow> (\<And>c xs. queue st c xs \<Longrightarrow> ts \<notin> set xs) \<Longrightarrow> timers_reach (libcpu_free_timer ts st)"
| r_del: "timers_reach st \<Longrightarrow> tm_heap st ts = Some T \<Longrightarrow> queue st (tm_clock T) xs \<Longrightarrow> length xs < n \<Longrightarrow>
    libcpu_del_timer n ts st = Inr st' \<Longrightarrow> timers_reach st'"
| r_mod: "timers_reach st \<Longrightarrow> tm_heap st ts = Some T \<Longrightarrow> queue st (tm_clock T) xs \<Longrightarrow> length xs < n \<Longrightarrow>
    libcpu_mod_timer_ns n ts e st = Inr st' \<Longrightarrow> timers_reach st'"

lemma queue_allocated: "queue st c xs \<Longrightarrow> t \<in> set xs \<Longrightarrow> \<exists>T. tm_heap st t = Some T \<and> tm_clock T = c"
  using chain_allocated by (fastforce simp: queue_def owner_def)

lemma queue_heap_cong:
  assumes "queue st c xs" and "\<And>t. t \<in> set xs \<Longrightarrow> tm_heap st' t = tm_heap st t" and "ck_heap st' = ck_heap st"
  shows "queue st' c xs"
proof -
  have "chain (tm_heap st') p xs = chain (tm_heap st) p xs" for p using chain_cong [of xs "tm_heap st'" "tm_heap st"] assms(2) by simp
  moreover have "sorted (map (expiry st') xs) = sorted (map (expiry st) xs)" by (rule sorted_map_cong) (simp add: expiry_def assms(2))
  ultimately show ?thesis using assms by (auto simp: queue_def owner_def)
qed

lemma timers_ok_others:
  assumes "timers_ok st" and "queue st c xs" and "tm_heap st ts = Some T" and "tm_clock T = c" and "queue st' c ys"
    and "only_list (Head c) (insert ts (set xs)) st st'" and "\<And>t. t \<noteq> ts \<Longrightarrow> expiry st' t = expiry st t \<and> owner st' t = owner st t"
  shows "timers_ok st'"
  unfolding timers_ok_def
proof
  fix d
  obtain zs where z: "queue st d zs" using assms(1) by (auto simp: timers_ok_def)
  show "\<exists>xs. queue st' d xs"
  proof (cases "d = c")
    case False
    have e: "insert ts (set xs) \<inter> set zs = {}" using queue_allocated [OF z] queue_allocated [OF assms(2)] assms(3,4) False by fastforce
    have "queue st' d zs" by (rule queue_frame [OF z assms(6) False e]) (use assms(7) e in blast)
    then show ?thesis by blast
  qed (use assms(5) in blast)
qed

lemma reach_ok: "timers_reach st \<Longrightarrow> timers_ok st"
proof (induction rule: timers_reach.induct)
  case r_init
  show ?case by (auto simp: timers_ok_def queue_def init_clocks_def qemu_new_clock_def intro!: exI [of _ "[]"])
next
  case (r_new st ts clock scale cb opaque)
  have "queue (libcpu_new_timer ts clock scale cb opaque st) c xs" if "queue st c xs" for c xs
    using r_new.hyps(2) queue_allocated [OF that, of ts] by (intro queue_heap_cong [OF that]) (auto simp: libcpu_new_timer_def)
  then show ?case using r_new.IH unfolding timers_ok_def by blast
next
  case (r_free st ts)
  have "queue (libcpu_free_timer ts st) c xs" if "queue st c xs" for c xs
    using r_free.hyps(2) [OF that] by (intro queue_heap_cong [OF that]) (auto simp: libcpu_free_timer_def)
  then show ?case using r_free.IH unfolding timers_ok_def by blast
next
  case (r_del st ts T xs n st')
  obtain st'' where s: "libcpu_del_timer n ts st = Inr st''" "queue st'' (tm_clock T) (remove1 ts xs)" "same_timers st st''" "only_list (Head (tm_clock T)) (set xs) st st''"
    using del_timer_queue [OF r_del.hyps(3,2) refl r_del.hyps(4)] by blast
  show ?case
    using timers_ok_others [OF r_del.IH r_del.hyps(3,2) refl s(2) only_list_mono [OF s(4)]] same_timers_attrs [OF s(3)] s(1) r_del.hyps(5) by auto
next
  case (r_mod st ts T xs n e st')
  then show ?case using mod_timer_queue [OF r_mod.hyps(3,2) refl r_mod.hyps(4), of e] timers_ok_others [OF r_mod.IH r_mod.hyps(3,2) refl] by auto
qed

text \<open>
  C26. The active timers: whatever sequence of operations produced the memory, each clock has exactly one
  list of active timers, without repetition, all allocated and of that clock, in the order they expire.
  With enough steps, stopping a timer returns and removes it from the list, and setting a timer returns
  and puts it behind all timers that expire at the same time or earlier, with its new time.
\<close>

theorem timer_lists:
  assumes "timers_reach st" and "tm_heap st ts = Some T" and "\<And>xs. queue st (tm_clock T) xs \<Longrightarrow> length xs < n"
  shows "\<exists>xs st1 st2. (\<forall>ys. queue st (tm_clock T) ys \<longleftrightarrow> ys = xs) \<and>
    libcpu_del_timer n ts st = Inr st1 \<and> queue st1 (tm_clock T) (remove1 ts xs) \<and>
    libcpu_mod_timer_ns n ts e st = Inr st2 \<and> queue st2 (tm_clock T) (insert_timer st e ts (remove1 ts xs)) \<and> expiry st2 ts = e"
proof -
  obtain xs where x: "queue st (tm_clock T) xs" using reach_ok [OF assms(1)] by (auto simp: timers_ok_def)
  then have "\<forall>ys. queue st (tm_clock T) ys \<longleftrightarrow> ys = xs" using queue_unique by blast
  then show ?thesis
    using del_timer_queue [OF x assms(2) refl assms(3) [OF x]] mod_timer_queue [OF x assms(2) refl assms(3) [OF x], of e] by auto
qed

lemma fresh_timer_queue: "queue (libcpu_new_timer ts clock scale cb opaque init_clocks) c xs \<longleftrightarrow> xs = []"
  by (cases xs) (auto simp: queue_def libcpu_new_timer_def init_clocks_def qemu_new_clock_def)

theorem timer_lists_witness:
  "\<exists>st2. libcpu_mod_timer_ns 1 5 100 (libcpu_new_timer 5 1 1 0 0 init_clocks) = Inr st2 \<and> queue st2 1 [5] \<and> expiry st2 5 = 100"
proof -
  have "timers_reach (libcpu_new_timer 5 1 1 0 0 init_clocks)" by (rule r_new [OF r_init]) (simp add: init_clocks_def)
  moreover obtain T where T: "tm_heap (libcpu_new_timer 5 1 1 0 0 init_clocks) 5 = Some T" "tm_clock T = 1" by (simp add: libcpu_new_timer_def)
  ultimately have "\<exists>xs st1 st2. (\<forall>ys. queue (libcpu_new_timer 5 1 1 0 0 init_clocks) (tm_clock T) ys \<longleftrightarrow> ys = xs) \<and>
      libcpu_del_timer 1 5 (libcpu_new_timer 5 1 1 0 0 init_clocks) = Inr st1 \<and> queue st1 (tm_clock T) (remove1 5 xs) \<and>
      libcpu_mod_timer_ns 1 5 100 (libcpu_new_timer 5 1 1 0 0 init_clocks) = Inr st2 \<and>
      queue st2 (tm_clock T) (insert_timer (libcpu_new_timer 5 1 1 0 0 init_clocks) 100 5 (remove1 5 xs)) \<and> expiry st2 5 = 100"
    by (intro timer_lists) (simp_all add: fresh_timer_queue)
  then obtain xs st2 where x: "\<forall>ys. queue (libcpu_new_timer 5 1 1 0 0 init_clocks) (tm_clock T) ys \<longleftrightarrow> ys = xs"
      "libcpu_mod_timer_ns 1 5 100 (libcpu_new_timer 5 1 1 0 0 init_clocks) = Inr st2"
      "queue st2 (tm_clock T) (insert_timer (libcpu_new_timer 5 1 1 0 0 init_clocks) 100 5 (remove1 5 xs))" "expiry st2 5 = 100" by blast
  have "xs = []" using spec [OF x(1), of xs] by (simp add: fresh_timer_queue)
  then have "queue st2 1 [5]" using x(3) by (simp add: insert_timer_def T(2))
  then show ?thesis using x(2,4) by blast
qed

section \<open>Running timers\<close>

lemma pop_queue:
  assumes "timers_ok st" and "queue st c (t # xs)"
  shows "\<exists>T st1 st2. deref st t = Inr T \<and> write_link st (Head c) (tm_next T) = Inr st1 \<and> write_link st1 (Next t) None = Inr st2 \<and>
    timers_ok st2 \<and> queue st2 c xs \<and> (\<forall>u. expiry st2 u = expiry st u \<and> owner st2 u = owner st u)"
proof -
  obtain T where T: "tm_heap st t = Some T" "tm_clock T = c" "active_timers (ck_heap st c) = Some t" "chain (tm_heap st) (tm_next T) xs"
    using assms(2) by (auto simp: queue_def owner_def)
  define st1 where "st1 = st\<lparr>ck_heap := (ck_heap st)(c := (ck_heap st c)\<lparr>active_timers := tm_next T\<rparr>)\<rparr>"
  define st2 where "st2 = st1\<lparr>tm_heap := (tm_heap st)(t \<mapsto> T\<lparr>tm_next := None\<rparr>)\<rparr>"
  have w: "deref st t = Inr T" "write_link st (Head c) (tm_next T) = Inr st1" "write_link st1 (Next t) None = Inr st2"
    using T by (auto simp: st1_def st2_def deref_def)
  have s: "same_timers st st2" "only_list (Head c) {t} st st2" using T by (auto simp: same_timers_def only_list_def st1_def st2_def)
  note at = same_timers_attrs [OF s(1)]
  have "chain (tm_heap st2) (tm_next T) xs" using chain_only_list [OF s(2)] T(4) assms(2) by (simp add: queue_def)
  moreover have "active_timers (ck_heap st2 c) = tm_next T" "expiry st2 = expiry st" "owner st2 = owner st"
    by (simp_all add: st1_def st2_def fun_eq_iff flip: at)
  ultimately have q: "queue st2 c xs" using assms(2) by (simp add: queue_def)
  have "timers_ok st2"
    by (rule timers_ok_others [OF assms T(1,2) q only_list_mono [OF s(2)]]) (auto simp: at)
  then show ?thesis using w q at by blast
qed

text \<open>The timers of a clock that are due.\<close>

definition due_set :: "timer_mem \<Rightarrow> nat \<Rightarrow> int \<Rightarrow> nat set" where
  "due_set st c now = {t. \<exists>xs. queue st c xs \<and> t \<in> set xs \<and> due st now t}"

lemma due_set_queue: "queue st c xs \<Longrightarrow> due_set st c now = {t \<in> set xs. due st now t}"
  using queue_unique by (auto simp: due_set_def)

lemma run_loop_ends:
  assumes "timers_ok st" and "card (due_set st c now) < n"
    and "\<And>f a u. timers_ok u \<Longrightarrow> \<exists>u'. cb f a u = Inr u' \<and> timers_ok u' \<and> due_set u' c now \<subseteq> due_set u c now"
  shows "\<exists>fired st'. run_loop n cb c now st = Inr (fired, st') \<and> timers_ok st' \<and> due_set st' c now = {} \<and>
    distinct fired \<and> set fired \<subseteq> due_set st c now"
  using assms(1,2)
proof (induction n arbitrary: st)
  case (Suc n)
  obtain xs where q: "queue st c xs" using Suc.prems(1) by (auto simp: timers_ok_def)
  show ?case
  proof (cases xs)
    case Nil
    then have "due_set st c now = {}" "active_timers (ck_heap st c) = None" using q due_set_queue [OF q] by (auto simp: queue_def)
    then show ?thesis using Suc.prems(1) by (simp add: libcpu_timer_expired_ns_def)
  next
    case (Cons t ys)
    obtain T st1 st2 where p: "deref st t = Inr T" "write_link st (Head c) (tm_next T) = Inr st1" "write_link st1 (Next t) None = Inr st2"
        "timers_ok st2" "queue st2 c ys" "\<forall>u. expiry st2 u = expiry st u \<and> owner st2 u = owner st u"
      using pop_queue [OF Suc.prems(1)] q Cons by blast
    have h: "active_timers (ck_heap st c) = Some t" "sorted (map (expiry st) xs)" "t \<notin> set ys" using q Cons by (auto simp: queue_def)
    have ex: "libcpu_timer_expired_ns st (Some t) now = Inr (due st now t)"
      using p(1) by (auto simp: libcpu_timer_expired_ns_def due_def deref_def split: option.splits)
    show ?thesis
    proof (cases "due st now t")
      case False
      then have "due_set st c now = {}" using h(2) Cons by (auto simp: due_set_queue [OF q] due_expiry)
      then show ?thesis using False h(1) ex Suc.prems(1) by simp
    next
      case True
      obtain u where u: "cb (tm_cb T) (tm_opaque T) st2 = Inr u" "timers_ok u" "due_set u c now \<subseteq> due_set st2 c now"
        using assms(3) [OF p(4)] by blast
      have d2: "due_set st c now = insert t (due_set st2 c now)" "t \<notin> due_set st2 c now" "finite (due_set st2 c now)"
        using True h(3) p(6) Cons by (auto simp: due_set_queue [OF q] due_set_queue [OF p(5)] due_expiry)
      then have "card (due_set u c now) < n" using Suc.prems(2) card_mono [OF d2(3) u(3)] by simp
      then obtain fired st' where "run_loop n cb c now u = Inr (fired, st')" "timers_ok st'" "due_set st' c now = {}" "distinct fired" "set fired \<subseteq> due_set u c now"
        using Suc.IH [OF u(2)] by blast
      then show ?thesis using True h(1) ex p(1-3) u(1,3) d2 by (auto simp del: write_link.simps)
    qed
  qed
qed simp

lemma clock_reading:
  assumes "libcpu_get_clock_ns rt vm host c st = (now, st')"
  shows "queue st' = queue st" "due_set st' = due_set st" "timers_ok st' = timers_ok st"
proof -
  have h: "tm_heap st' = tm_heap st" "active_timers (ck_heap st' d) = active_timers (ck_heap st d)" for d
    using assms by (auto simp: libcpu_get_clock_ns_def split: if_splits)
  then have "expiry st' = expiry st" "owner st' = owner st" by (simp_all add: fun_eq_iff expiry_def owner_def)
  with h show q: "queue st' = queue st" by (intro ext) (simp add: queue_def)
  show "due_set st' = due_set st" by (simp add: fun_eq_iff due_set_def q due_def h)
  show "timers_ok st' = timers_ok st" by (simp add: timers_ok_def q)
qed

text \<open>
  C27. Running the timers of a clock: when the callbacks keep the lists intact and activate no timer that
  is due already, running ends, runs the callback of no timer twice and only of timers that were due,
  and leaves no due timer in the list.
\<close>

theorem run_timers_ends:
  assumes "timers_reach st" and "ck_enabled (ck_heap st c)" and "fst (libcpu_get_clock_ns rt vm host c st) = now" and "card (due_set st c now) < n"
    and "\<And>f a u. timers_ok u \<Longrightarrow> \<exists>u'. cb f a u = Inr u' \<and> timers_ok u' \<and> due_set u' c now \<subseteq> due_set u c now"
  shows "\<exists>fired st'. libcpu_run_timers n cb rt vm host c st = Inr (fired, st') \<and> timers_ok st' \<and> due_set st' c now = {} \<and>
    distinct fired \<and> set fired \<subseteq> due_set st c now"
proof -
  obtain st0 where st0: "libcpu_get_clock_ns rt vm host c st = (now, st0)" using assms(3) by (metis prod.collapse)
  note r = clock_reading [OF st0]
  have "timers_ok st0" "card (due_set st0 c now) < n" using reach_ok [OF assms(1)] r assms(4) by simp_all
  from run_loop_ends [OF this assms(5)] show ?thesis using assms(2) st0 r by (simp add: libcpu_run_timers_def)
qed

lemma armed_timer:
  "\<exists>st. timers_reach st \<and> queue st 1 [5] \<and> expiry st 5 = 100 \<and> ck_enabled (ck_heap st 1) \<and> ck_type (ck_heap st 1) = 1"
proof -
  let ?u = "libcpu_new_timer 5 1 1 0 0 init_clocks"
  have u: "timers_reach ?u" by (rule r_new [OF r_init]) (simp add: init_clocks_def)
  obtain T where T: "tm_heap ?u 5 = Some T" "tm_clock T = 1" by (simp add: libcpu_new_timer_def)
  have q: "queue ?u (tm_clock T) []" by (simp add: fresh_timer_queue)
  obtain st where s: "libcpu_mod_timer_ns 1 5 100 ?u = Inr st" "queue st 1 [5]" "\<forall>t. expiry st t = (if t = 5 then 100 else expiry ?u t)" "only_list (Head 1) {5} ?u st"
    using mod_timer_queue [OF q T(1) refl, of 1 100] by (auto simp: insert_timer_def T(2))
  have "timers_reach st" by (rule r_mod [OF u T(1) q _ s(1)]) simp
  moreover have k: "(ck_heap st 1)\<lparr>active_timers := None\<rparr> = qemu_new_clock 1"
    using s(4) by (simp add: only_list_def libcpu_new_timer_def init_clocks_def qemu_new_clock_def)
  have "ck_enabled (ck_heap st 1)" "ck_type (ck_heap st 1) = 1"
    using arg_cong [OF k, of ck_enabled] arg_cong [OF k, of ck_type] by (simp_all add: qemu_new_clock_def)
  ultimately show ?thesis using s(2,3) by auto
qed

theorem run_timers_ends_witness:
  "\<exists>st fired st'. queue st 1 [5] \<and> libcpu_run_timers 2 (\<lambda>f a u. Inr u) 0 150 0 1 st = Inr (fired, st') \<and> due_set st' 1 150 = {} \<and> set fired \<subseteq> {5}"
proof -
  obtain st where s: "timers_reach st" "queue st 1 [5]" "expiry st 5 = 100" "ck_enabled (ck_heap st 1)" "ck_type (ck_heap st 1) = 1"
    using armed_timer by blast
  have d: "due_set st 1 150 = {5}" unfolding due_set_queue [OF s(2)] due_expiry using s(3) by auto
  have "fst (libcpu_get_clock_ns 0 150 0 1 st) = 150"
    using s(5) by (simp add: libcpu_get_clock_ns_def QEMU_CLOCK_REALTIME_def QEMU_CLOCK_HOST_def)
  then have "\<exists>fired st'. libcpu_run_timers 2 (\<lambda>f a u. Inr u) 0 150 0 1 st = Inr (fired, st') \<and> timers_ok st' \<and>
      due_set st' 1 150 = {} \<and> distinct fired \<and> set fired \<subseteq> due_set st 1 150"
    by (rule run_timers_ends [OF s(1,4)]) (simp_all only: d, simp_all)
  then show ?thesis unfolding d using s(2) by blast
qed

end
