(* ===== verification/PrecisePc.thy ===== *)
theory PrecisePc
  imports Prelude
begin

text \<open>
  The tables that map host code back to guest instructions (\<^verbatim>\<open>libcpu/src/precise-pc.c\<close>): behind the
  code of a translation block the offsets and data of its instructions are stored as differences in
  signed LEB128. Guest and host addresses have 64 bits. The bytes behind a block are a list; reading
  behind its end is undefined, as are shifts by 64 and more.
\<close>

section \<open>Signed LEB128\<close>

text \<open>The loop returns the bytes it stores; \<open>signed_drop_bit\<close> is the shift of a signed C integer.\<close>

function encode_sleb128 :: "u64 \<Rightarrow> u8 list" where
  "encode_sleb128 val =
     (let byte = ucast (val AND 0x7f);
          val' = signed_drop_bit 7 val;
          more = (\<not> ((val' = 0 \<and> byte AND 0x40 = 0) \<or> (val' = - 1 \<and> byte AND 0x40 \<noteq> 0)))
      in if more then (byte OR 0x80) # encode_sleb128 val' else [byte])"
  by pat_completeness auto

lemma sint_shift: "sint (signed_drop_bit n (v :: u64)) = sint v div 2 ^ n"
  by (simp add: sint_signed_drop_bit_eq drop_bit_eq_div)

definition magnitude :: "u64 \<Rightarrow> nat" where
  "magnitude v = nat (if sint v < 0 then - 1 - sint v else sint v)"

lemma encode_shrinks: "v \<noteq> 0 \<Longrightarrow> v \<noteq> - 1 \<Longrightarrow> magnitude (signed_drop_bit 7 v) < magnitude v"
proof -
  assume "v \<noteq> 0" "v \<noteq> - 1"
  then have "sint v \<noteq> 0" "sint v \<noteq> - 1" using signed_word_eqI [of v 0] signed_word_eqI [of v "- 1"] by auto
  then show ?thesis unfolding magnitude_def sint_shift by (auto split: if_splits)
qed

lemma encode_stops: "\<not> ((signed_drop_bit 7 v = 0 \<and> (ucast (v AND 0x7f) :: u8) AND 0x40 = 0) \<or>
    (signed_drop_bit 7 v = - 1 \<and> (ucast (v AND 0x7f) :: u8) AND 0x40 \<noteq> 0)) \<Longrightarrow> v \<noteq> 0 \<and> v \<noteq> (- 1 :: u64)"
  by auto

termination encode_sleb128
proof (relation "measure magnitude")
  fix val :: u64 and byte :: u8 and val' more
  assume "byte = ucast (val AND 0x7f)" "val' = signed_drop_bit 7 val"
    "more = (\<not> ((val' = 0 \<and> byte AND 0x40 = 0) \<or> (val' = - 1 \<and> byte AND 0x40 \<noteq> 0)))" "more"
  then show "(val', val) \<in> measure magnitude" using encode_stops [of val] encode_shrinks [of val] by (simp only: in_measure) blast
qed simp

declare encode_sleb128.simps [simp del]

fun decode_loop :: "u8 list \<Rightarrow> u64 \<Rightarrow> nat \<Rightarrow> (u64 \<times> u8 list) res" where
  "decode_loop [] val shift = Inl Undefined"
| "decode_loop (byte # p) val shift =
     (if shift \<ge> 64 then Inl Undefined
      else
        let val = val OR push_bit shift (ucast (byte AND 0x7f)); shift = shift + 7 in
        if byte AND 0x80 \<noteq> 0 then decode_loop p val shift
        else if shift < 64 \<and> byte AND 0x40 \<noteq> 0 then Inr (val OR push_bit shift (- 1), p)
        else Inr (val, p))"

definition decode_sleb128 :: "u8 list \<Rightarrow> (u64 \<times> u8 list) res" where
  "decode_sleb128 pp = decode_loop pp 0 0"

section \<open>Tables of instructions\<close>

record TranslationBlock =
  tb_pc :: u64
  tb_cs_base :: u64
  tb_size :: u16
  tb_icount :: nat
  tc_ptr :: u64

text \<open>
  A row has the words of \<^verbatim>\<open>gen_insn_data\<close> and the entry of \<^verbatim>\<open>gen_insn_end_off\<close>. The first argument is the room
  below the high water mark; the result \<open>None\<close> is the error -1.
\<close>

fun encode_deltas :: "u64 list \<Rightarrow> u64 list \<Rightarrow> u8 list" where
  "encode_deltas (x # xs) (prev # prevs) = encode_sleb128 (x - prev) @ encode_deltas xs prevs"
| "encode_deltas _ _ = []"

fun encode_rows :: "nat \<Rightarrow> u64 list \<Rightarrow> u64 \<Rightarrow> (u64 list \<times> u16) list \<Rightarrow> u8 list \<Rightarrow> u8 list option" where
  "encode_rows highwater prev prev_off [] p = Some p"
| "encode_rows highwater prev prev_off ((data, off) # rows) p =
     (let p = p @ encode_deltas data prev @ encode_sleb128 (ucast off - prev_off)
      in if length p > highwater then None else encode_rows highwater data (ucast off) rows p)"

text \<open>\<open>words\<close> is \<^verbatim>\<open>TARGET_INSN_START_WORDS\<close>; the first row is seeded with the address of the block.\<close>

definition seed :: "nat \<Rightarrow> TranslationBlock \<Rightarrow> u64 list" where
  "seed words tb = tb_pc tb # replicate (words - 1) 0"

definition encode_search :: "nat \<Rightarrow> nat \<Rightarrow> TranslationBlock \<Rightarrow> (u64 list \<times> u16) list \<Rightarrow> u8 list option" where
  "encode_search words highwater tb rows = encode_rows highwater (seed words tb) 0 (take (tb_icount tb) rows) []"

fun add_deltas :: "u64 list \<Rightarrow> u8 list \<Rightarrow> (u64 list \<times> u8 list) res" where
  "add_deltas [] p = Inr ([], p)"
| "add_deltas (d # data) p =
     bind_res (decode_sleb128 p) (\<lambda>(x, p).
     bind_res (add_deltas data p) (\<lambda>(data, p). Inr ((d + x) # data, p)))"

fun size_loop :: "TranslationBlock \<Rightarrow> u64 \<Rightarrow> nat \<Rightarrow> u64 list \<Rightarrow> u8 list \<Rightarrow> u32 res" where
  "size_loop tb pc 0 data p = Inr 0"
| "size_loop tb pc (Suc n) data p =
     bind_res (add_deltas data p) (\<lambda>(data, p).
     bind_res (decode_sleb128 p) (\<lambda>(_, p).
       if hd data = pc then
         if n = 0 then Inr (ucast (ucast (tb_size tb) - (pc - tb_pc tb)))
         else bind_res (add_deltas data p) (\<lambda>(data, p). Inr (ucast (hd data - pc)))
       else size_loop tb pc n data p))"

text \<open>\<open>search\<close> are the bytes behind the code of the block.\<close>

definition tb_get_instruction_size :: "nat \<Rightarrow> TranslationBlock \<Rightarrow> u8 list \<Rightarrow> u64 \<Rightarrow> u32 res" where
  "tb_get_instruction_size words tb search pc =
     (if pc < tb_pc tb \<or> pc \<ge> tb_pc tb + ucast (tb_size tb) then Inr 0
      else size_loop tb pc (tb_icount tb) (seed words tb) search)"

definition GETPC_ADJ :: u64 where "GETPC_ADJ = 2"

fun pc_loop :: "nat \<Rightarrow> u64 \<Rightarrow> u64 \<Rightarrow> u64 list \<Rightarrow> u8 list \<Rightarrow> u64 list option res" where
  "pc_loop 0 host_pc searched data p = Inr None"
| "pc_loop (Suc n) host_pc searched data p =
     bind_res (add_deltas data p) (\<lambda>(data, p).
     bind_res (decode_sleb128 p) (\<lambda>(d, p).
       let host_pc = host_pc + d in
       if host_pc > searched then Inr (Some data) else pc_loop n host_pc searched data p))"

definition tb_find_guest_pc :: "TranslationBlock \<Rightarrow> u8 list \<Rightarrow> u64 \<Rightarrow> u64 list \<Rightarrow> u64 list option res" where
  "tb_find_guest_pc tb search searched_host_pc data =
     (let host_pc = tc_ptr tb; searched = searched_host_pc - GETPC_ADJ
      in if searched < host_pc then Inr None else pc_loop (tb_icount tb) host_pc searched data search)"

text \<open>The part of the processor's state that is restored.\<close>

record cpu_pc =
  cpu_eip :: u64
  cpu_cc_op :: u64

definition restore_state_to_opc :: "cpu_pc \<Rightarrow> TranslationBlock \<Rightarrow> u64 list \<Rightarrow> cpu_pc res" where
  "restore_state_to_opc env tb data =
     (if length data < 2 then Inl Undefined
      else
        let cc_op = ucast (data ! 1) :: u32;
            env = env\<lparr>cpu_eip := data ! 0 - tb_cs_base tb\<rparr>
        in Inr (if cc_op \<noteq> 0 then env\<lparr>cpu_cc_op := scast cc_op\<rparr> else env))"

definition cpu_restore_state_from_tb :: "nat \<Rightarrow> cpu_pc \<Rightarrow> TranslationBlock \<Rightarrow> u8 list \<Rightarrow> u64 \<Rightarrow> (bool \<times> cpu_pc) res" where
  "cpu_restore_state_from_tb words env tb search searched_pc =
     bind_res (tb_find_guest_pc tb search searched_pc (seed words tb)) (\<lambda>r.
       case r of None \<Rightarrow> Inr (False, env) | Some data \<Rightarrow> bind_res (restore_state_to_opc env tb data) (\<lambda>env. Inr (True, env)))"

section \<open>Round trip of numbers\<close>

text \<open>The bit that decides the sign of the last byte.\<close>

lemma byte_bits: "bit (64 :: int) n \<longleftrightarrow> n = 6" "bit (128 :: int) n \<longleftrightarrow> n = 7" "bit (127 :: int) n \<longleftrightarrow> n < 7" "bit (64 :: u8) n \<longleftrightarrow> n = 6" "bit (128 :: u8) n \<longleftrightarrow> n = 7" "bit (127 :: u8) n \<longleftrightarrow> n < 7" "bit (127 :: u64) n \<longleftrightarrow> n < 7"
proof -
  have "(64 :: int) = 2 ^ 6" "(128 :: int) = 2 ^ 7" "(127 :: int) = mask 7" "(64 :: u8) = 2 ^ 6" "(128 :: u8) = 2 ^ 7" "(127 :: u8) = mask 7" "(127 :: u64) = mask 7" by (simp_all add: mask_eq_exp_minus_1)
  then show "bit (64 :: int) n \<longleftrightarrow> n = 6" "bit (128 :: int) n \<longleftrightarrow> n = 7" "bit (127 :: int) n \<longleftrightarrow> n < 7" "bit (64 :: u8) n \<longleftrightarrow> n = 6" "bit (128 :: u8) n \<longleftrightarrow> n = 7" "bit (127 :: u8) n \<longleftrightarrow> n < 7" "bit (127 :: u64) n \<longleftrightarrow> n < 7"
    by (auto simp only: bit_exp_iff bit_mask_iff) simp_all
qed

lemma byte_sign: "((ucast (v AND 0x7f) :: u8) AND 0x40 = 0) \<longleftrightarrow> \<not> bit (v :: u64) 6"
proof -
  have "bit ((ucast (v AND 0x7f) :: u8) AND 0x40) n \<longleftrightarrow> n = 6 \<and> bit v 6" for n by (auto simp: bit_simps byte_bits)
  then show ?thesis by (metis bit_0_eq bot_apply bot_bool_def bit_eqI)
qed

lemma byte_more: "(ucast (v AND 0x7f) :: u8) AND 0x80 = 0" "((ucast (v AND 0x7f) :: u8) OR 0x80) AND 0x80 \<noteq> 0"
  "(ucast (((ucast (v AND 0x7f) :: u8) OR 0x80) AND 0x7f) :: u64) = v AND 0x7f" "(ucast ((ucast (v AND 0x7f) :: u8) AND 0x7f) :: u64) = v AND 0x7f" for v :: u64
proof -
  show "(ucast (v AND 0x7f) :: u8) AND 0x80 = 0" by (rule bit_word_eqI) (auto simp: bit_simps byte_bits)
  show "(ucast (((ucast (v AND 0x7f) :: u8) OR 0x80) AND 0x7f) :: u64) = v AND 0x7f" by (rule bit_word_eqI) (auto simp: bit_simps byte_bits)
  show "(ucast ((ucast (v AND 0x7f) :: u8) AND 0x7f) :: u64) = v AND 0x7f" by (rule bit_word_eqI) (auto simp: bit_simps byte_bits)
  have "bit (((ucast (v AND 0x7f) :: u8) OR 0x80) AND 0x80) 7" by (auto simp: bit_simps byte_bits)
  then show "((ucast (v AND 0x7f) :: u8) OR 0x80) AND 0x80 \<noteq> 0" by auto
qed

lemma decode_step: "take_bit s u OR push_bit s (signed_drop_bit s u AND 0x7f) = take_bit (s + 7) (u :: u64)"
proof -
  have c: "(0x7f :: u64) = mask 7" by (simp add: mask_eq_exp_minus_1)
  show ?thesis unfolding c by (rule bit_word_eqI) (auto simp: bit_simps)
qed

lemma decode_sign:
  assumes "signed_drop_bit n u = (if b then - 1 else 0)"
  shows "take_bit n u OR push_bit n (if b then - 1 else 0) = (u :: u64)"
proof (rule bit_word_eqI)
  fix i assume i: "i < LENGTH(64)"
  have "bit (signed_drop_bit n u) (i - n) = b" if "n \<le> i" using assms i by auto
  then show "bit (take_bit n u OR push_bit n (if b then - 1 else 0)) i = bit u i"
    using i by (cases "n \<le> i") (auto simp: bit_simps split: if_splits)
qed

lemma decode_loop_encode:
  "s < 64 \<Longrightarrow> v = signed_drop_bit s u \<Longrightarrow> decode_loop (encode_sleb128 v @ rest) (take_bit s u) s = Inr (u, rest)"
proof (induction v arbitrary: s rule: encode_sleb128.induct)
  case (1 v)
  let ?byte = "ucast (v AND 0x7f) :: u8"
  let ?more = "\<not> ((signed_drop_bit 7 v = 0 \<and> ?byte AND 0x40 = 0) \<or> (signed_drop_bit 7 v = - 1 \<and> ?byte AND 0x40 \<noteq> 0))"
  have e: "encode_sleb128 v = (if ?more then (?byte OR 0x80) # encode_sleb128 (signed_drop_bit 7 v) else [?byte])"
    by (simp add: encode_sleb128.simps [of v] Let_def)
  have acc: "take_bit s u OR push_bit s (v AND 0x7f) = take_bit (s + 7) u" using decode_step 1(3) by simp
  have next_v: "signed_drop_bit 7 v = signed_drop_bit (s + 7) u" using 1(3) by (simp add: add.commute)
  have b6: "bit v 6 = bit u (if 57 < s then 63 else s + 6)" unfolding 1(3) by (cases "57 < s") (auto simp: bit_signed_drop_bit_iff)
  show ?case
  proof (cases ?more)
    case True
    have "s + 7 < 64"
    proof (rule ccontr)
      assume "\<not> s + 7 < 64"
      then have "signed_drop_bit 7 v = (if bit u 63 then - 1 else 0)" "bit v 6 = bit u 63"
        using next_v b6 signed_drop_bit_beyond [of "s + 7" u] by auto
      then show False using True byte_sign [of v] by (auto split: if_splits)
    qed
    then show ?thesis using True 1(1) [OF refl refl refl True _ next_v] 1(2) e acc byte_more [of v] by (simp add: Let_def)
  next
    case False
    then have n: "signed_drop_bit 7 v = (if bit v 6 then - 1 else 0)" using byte_sign [of v] by (auto split: if_splits)
    have "take_bit (s + 7) u OR push_bit (s + 7) (if bit v 6 then - 1 else 0) = u" using decode_sign [of "s + 7" u "bit v 6"] n next_v by simp
    moreover have "push_bit (s + 7) (- 1 :: u64) = 0" if "\<not> s + 7 < 64" using that by (intro bit_word_eqI) (auto simp: bit_simps)
    ultimately show ?thesis using False 1(2) e acc byte_more [of v] byte_sign [of v] by (cases "bit v 6"; cases "s + 7 < 64") (simp_all add: Let_def)
  qed
qed

lemma sleb128_roundtrip: "decode_sleb128 (encode_sleb128 v @ rest) = Inr (v, rest)"
  using decode_loop_encode [of 0 v v rest] by (simp add: decode_sleb128_def)

section \<open>Round trip of tables\<close>

lemma add_deltas_encode: "length prev = length xs \<Longrightarrow> add_deltas prev (encode_deltas xs prev @ rest) = Inr (xs, rest)"
proof (induction prev arbitrary: xs)
  case (Cons d prev)
  then show ?case by (cases xs) (simp_all add: sleb128_roundtrip)
qed simp

primrec table_bytes :: "u64 list \<Rightarrow> u64 \<Rightarrow> (u64 list \<times> u16) list \<Rightarrow> u8 list" where
  "table_bytes prev prev_off [] = []"
| "table_bytes prev prev_off (r # rows) =
     encode_deltas (fst r) prev @ encode_sleb128 (ucast (snd r) - prev_off) @ table_bytes (fst r) (ucast (snd r)) rows"

lemma encode_rows_bytes: "encode_rows hw prev po rows p = Some bytes \<Longrightarrow> bytes = p @ table_bytes prev po rows"
  by (induction hw prev po rows p rule: encode_rows.induct) (auto simp: Let_def split: if_splits)

lemma encode_search_bytes: "encode_search words hw tb rows = Some bytes \<Longrightarrow> tb_icount tb = length rows \<Longrightarrow> bytes = table_bytes (seed words tb) 0 rows"
  using encode_rows_bytes by (fastforce simp: encode_search_def)

lemma pc_loop_table:
  assumes "\<forall>r \<in> set rows. length (fst r) = length prev"
  shows "pc_loop (length rows) (base + po) searched prev (table_bytes prev po rows @ rest) =
    Inr (map_option fst (find (\<lambda>r. base + ucast (snd r) > searched) rows))"
  using assms
proof (induction rows arbitrary: prev po)
  case (Cons r rows)
  have "pc_loop (length rows) (base + ucast (snd r)) searched (fst r) (table_bytes (fst r) (ucast (snd r)) rows @ rest) =
      Inr (map_option fst (find (\<lambda>r. base + ucast (snd r) > searched) rows))"
    using Cons.prems by (intro Cons.IH) auto
  then show ?case using Cons.prems by (simp add: add_deltas_encode sleb128_roundtrip Let_def)
qed simp

text \<open>
  C29. The search table of a translation block, as it was encoded, gives back the data of the
  instructions: the search for a host address in the block returns the data of the first instruction
  whose code ends behind it, the address and flags of the processor are restored from it, and where
  there is no such instruction the search fails.
\<close>

theorem guest_pc_restored:
  assumes "encode_search words hw tb rows = Some bytes" and "tb_icount tb = length rows" and "2 \<le> words"
    and "\<forall>r \<in> set rows. length (fst r) = words" and "tc_ptr tb \<le> pc - GETPC_ADJ"
  shows "cpu_restore_state_from_tb words env tb (bytes @ rest) pc =
    (case find (\<lambda>r. tc_ptr tb + ucast (snd r) > pc - GETPC_ADJ) rows of
       None \<Rightarrow> Inr (False, env)
     | Some (data, _) \<Rightarrow> Inr (True, env\<lparr>cpu_eip := data ! 0 - tb_cs_base tb,
         cpu_cc_op := if (ucast (data ! 1) :: u32) = 0 then cpu_cc_op env else scast (ucast (data ! 1) :: u32)\<rparr>))"
proof -
  have l: "length (seed words tb) = words" using assms(3) by (simp add: seed_def)
  have "tb_find_guest_pc tb (bytes @ rest) pc (seed words tb) = Inr (map_option fst (find (\<lambda>r. tc_ptr tb + ucast (snd r) > pc - GETPC_ADJ) rows))"
    using pc_loop_table [of rows "seed words tb" "tc_ptr tb" 0 "pc - GETPC_ADJ" rest] assms(2,4,5) l encode_search_bytes [OF assms(1,2)] leD [OF assms(5)]
    by (simp add: tb_find_guest_pc_def Let_def)
  moreover have "length (fst r) = words" if "find P rows = Some r" for P r using that assms(4) by (auto simp: find_Some_iff)
  ultimately show ?thesis using assms(3)
    by (auto simp: cpu_restore_state_from_tb_def restore_state_to_opc_def Let_def split: option.splits)
qed

definition sample_tb :: TranslationBlock where
  "sample_tb = \<lparr>tb_pc = 0x1000, tb_cs_base = 0x800, tb_size = 7, tb_icount = 3, tc_ptr = 0x7f0000\<rparr>"

definition sample_rows :: "(u64 list \<times> u16) list" where
  "sample_rows = [([0x1000, 0], 20), ([0x1003, 6], 100), ([0x1005, 0], 130)]"

lemma encode_small: "signed_drop_bit 7 v = 0 \<Longrightarrow> \<not> bit v 6 \<Longrightarrow> encode_sleb128 v = [ucast (v AND 0x7f)]"
  "signed_drop_bit 7 v = - 1 \<Longrightarrow> bit v 6 \<Longrightarrow> encode_sleb128 v = [ucast (v AND 0x7f)]"
  by (simp_all add: encode_sleb128.simps [of v] Let_def byte_sign)

lemma sample_bytes: "encode_sleb128 0 = [0]" "encode_sleb128 2 = [2]" "encode_sleb128 3 = [3]" "encode_sleb128 6 = [6]" "encode_sleb128 20 = [20]"
  "encode_sleb128 30 = [30]" "encode_sleb128 (- 6) = [0x7A]"
  by (simp_all add: encode_small)

lemma sample_bytes_80: "encode_sleb128 80 = [0xD0, 0]"
  by (subst encode_sleb128.simps) (simp add: Let_def sample_bytes)

lemma sample_search: "encode_search 2 100 sample_tb sample_rows = Some [0, 0, 20, 3, 6, 0xD0, 0, 2, 0x7A, 30]"
  by (simp add: encode_search_def sample_tb_def sample_rows_def seed_def Let_def sample_bytes sample_bytes_80)

theorem guest_pc_restored_witness:
  "cpu_restore_state_from_tb 2 \<lparr>cpu_eip = 0, cpu_cc_op = 1\<rparr> sample_tb [0, 0, 20, 3, 6, 0xD0, 0, 2, 0x7A, 30] 0x7f0020 =
     Inr (True, \<lparr>cpu_eip = 0x803, cpu_cc_op = 6\<rparr>)"
  using guest_pc_restored [OF sample_search, of "0x7f0020" "\<lparr>cpu_eip = 0, cpu_cc_op = 1\<rparr>" "[]"]
  by (simp add: sample_tb_def sample_rows_def GETPC_ADJ_def)

section \<open>Sizes of instructions\<close>

text \<open>The distance to the next instruction, or to the end of the block for the last one.\<close>

fun insn_size :: "TranslationBlock \<Rightarrow> u64 \<Rightarrow> (u64 list \<times> u16) list \<Rightarrow> u32" where
  "insn_size tb pc [] = 0"
| "insn_size tb pc [r] = (if hd (fst r) = pc then ucast (ucast (tb_size tb) - (pc - tb_pc tb)) else 0)"
| "insn_size tb pc (r # r' # rows) = (if hd (fst r) = pc then ucast (hd (fst r') - pc) else insn_size tb pc (r' # rows))"

lemma size_loop_table:
  assumes "\<forall>r \<in> set rows. length (fst r) = length prev"
  shows "size_loop tb pc (length rows) prev (table_bytes prev po rows @ rest) = Inr (insn_size tb pc rows)"
  using assms
proof (induction tb pc rows arbitrary: prev po rule: insn_size.induct)
  case (3 tb pc r r' rows)
  have "size_loop tb pc (length (r' # rows)) (fst r) (table_bytes (fst r) (ucast (snd r)) (r' # rows) @ rest) = Inr (insn_size tb pc (r' # rows))" if "hd (fst r) \<noteq> pc"
    using 3(2) that by (intro 3(1)) auto
  then show ?case using 3(2) by (simp add: add_deltas_encode sleb128_roundtrip)
qed (simp_all add: add_deltas_encode sleb128_roundtrip)

text \<open>
  The size of the instruction at an address of a block, found in its search table, is the distance
  to the next instruction or to the end of the block, and 0 when no instruction starts there or the
  address is outside the block.
\<close>

theorem instruction_size_found:
  assumes "encode_search words hw tb rows = Some bytes" and "tb_icount tb = length rows" and "1 \<le> words"
    and "\<forall>r \<in> set rows. length (fst r) = words"
  shows "tb_get_instruction_size words tb (bytes @ rest) pc =
    Inr (if tb_pc tb \<le> pc \<and> pc < tb_pc tb + ucast (tb_size tb) then insn_size tb pc rows else 0)"
proof -
  have "length (seed words tb) = words" using assms(3) by (simp add: seed_def)
  then show ?thesis
    using size_loop_table [of rows "seed words tb" tb pc 0 rest] assms(2,4) encode_search_bytes [OF assms(1,2)]
    by (auto simp: tb_get_instruction_size_def not_less not_le)
qed

theorem instruction_size_found_witness:
  "tb_get_instruction_size 2 sample_tb [0, 0, 20, 3, 6, 0xD0, 0, 2, 0x7A, 30] 0x1003 = Inr 2 \<and>
   tb_get_instruction_size 2 sample_tb [0, 0, 20, 3, 6, 0xD0, 0, 2, 0x7A, 30] 0x1005 = Inr 2 \<and>
   tb_get_instruction_size 2 sample_tb [0, 0, 20, 3, 6, 0xD0, 0, 2, 0x7A, 30] 0x1004 = Inr 0"
  using instruction_size_found [OF sample_search, of "[]" "0x1003"] instruction_size_found [OF sample_search, of "[]" "0x1005"]
    instruction_size_found [OF sample_search, of "[]" "0x1004"]
  by (simp add: sample_tb_def sample_rows_def)

end
