(* ===== verification/X86Flags.thy ===== *)
theory X86Flags
  imports Words
begin

text \<open>
  The status flags of the emulated x86 processor (\<^verbatim>\<open>libcpu/src/target-i386/op_helper.c\<close> and the template
  \<^verbatim>\<open>helper_template.h\<close> it includes once per operand size). Flags are computed when they are needed: the
  code records the kind of the last operation, its result \<open>dst\<close> and one operand \<open>src\<close>. Registers have 64
  bits; the operand size is the parameter \<open>n\<close> of the template's functions, the number of its bits
  \<^verbatim>\<open>DATA_BITS\<close>, and the cast to \<^verbatim>\<open>DATA_TYPE\<close> is \<open>take_bit n\<close>.
\<close>

section \<open>Constants and tables\<close>

definition CC_C :: u32 where "CC_C = 0x0001"
definition CC_P :: u32 where "CC_P = 0x0004"
definition CC_A :: u32 where "CC_A = 0x0010"
definition CC_Z :: u32 where "CC_Z = 0x0040"
definition CC_S :: u32 where "CC_S = 0x0080"
definition CC_O :: u32 where "CC_O = 0x0800"

definition DF_MASK :: u32 where "DF_MASK = 0x400"
definition RF_MASK :: u32 where "RF_MASK = 0x10000"
definition VM_MASK :: u32 where "VM_MASK = 0x20000"

definition CFLAGS_MASK :: u32 where "CFLAGS_MASK = CC_O OR CC_S OR CC_Z OR CC_A OR CC_P OR CC_C"
definition MFLAGS_MASK :: u32 where "MFLAGS_MASK = NOT (CC_O OR CC_S OR CC_Z OR CC_A OR CC_P OR CC_C OR DF_MASK)"

definition parity_table :: "u32 list" where
  "parity_table =
    [4, 0, 0, 4, 0, 4, 4, 0, 0, 4, 4, 0, 4, 0, 0, 4, 0, 4, 4, 0, 4, 0, 0, 4, 4, 0, 0, 4, 0, 4, 4, 0,
     0, 4, 4, 0, 4, 0, 0, 4, 4, 0, 0, 4, 0, 4, 4, 0, 4, 0, 0, 4, 0, 4, 4, 0, 0, 4, 4, 0, 4, 0, 0, 4,
     0, 4, 4, 0, 4, 0, 0, 4, 4, 0, 0, 4, 0, 4, 4, 0, 4, 0, 0, 4, 0, 4, 4, 0, 0, 4, 4, 0, 4, 0, 0, 4,
     4, 0, 0, 4, 0, 4, 4, 0, 0, 4, 4, 0, 4, 0, 0, 4, 0, 4, 4, 0, 4, 0, 0, 4, 4, 0, 0, 4, 0, 4, 4, 0,
     0, 4, 4, 0, 4, 0, 0, 4, 4, 0, 0, 4, 0, 4, 4, 0, 4, 0, 0, 4, 0, 4, 4, 0, 0, 4, 4, 0, 4, 0, 0, 4,
     4, 0, 0, 4, 0, 4, 4, 0, 0, 4, 4, 0, 4, 0, 0, 4, 0, 4, 4, 0, 4, 0, 0, 4, 4, 0, 0, 4, 0, 4, 4, 0,
     4, 0, 0, 4, 0, 4, 4, 0, 0, 4, 4, 0, 4, 0, 0, 4, 0, 4, 4, 0, 4, 0, 0, 4, 4, 0, 0, 4, 0, 4, 4, 0,
     0, 4, 4, 0, 4, 0, 0, 4, 4, 0, 0, 4, 0, 4, 4, 0, 4, 0, 0, 4, 0, 4, 4, 0, 0, 4, 4, 0, 4, 0, 0, 4]"

definition rclw_table :: "nat list" where
  "rclw_table = [0, 1, 2, 3, 4, 5, 6, 7, 8, 9, 10, 11, 12, 13, 14, 15, 16, 0, 1, 2, 3, 4, 5, 6, 7, 8, 9, 10, 11, 12, 13, 14]"

definition rclb_table :: "nat list" where
  "rclb_table = [0, 1, 2, 3, 4, 5, 6, 7, 8, 0, 1, 2, 3, 4, 5, 6, 7, 8, 0, 1, 2, 3, 4, 5, 6, 7, 8, 0, 1, 2, 3, 4]"

definition lshift :: "u64 \<Rightarrow> int \<Rightarrow> u64" where
  "lshift x n = (if n \<ge> 0 then push_bit (nat n) x else signed_drop_bit (nat (- n)) x)"

section \<open>The template\<close>

text \<open>The parts all functions share: parity of the low byte, zero and sign.\<close>

definition pf_of :: "u64 \<Rightarrow> u32" where
  "pf_of dst = parity_table ! unat (take_bit 8 dst)"

definition zf_of :: "nat \<Rightarrow> u64 \<Rightarrow> u32" where
  "zf_of n dst = push_bit 6 (of_bool (take_bit n dst = 0))"

definition sf_of :: "nat \<Rightarrow> u64 \<Rightarrow> u32" where
  "sf_of n dst = ucast (lshift dst (8 - int n) AND 0x80)"

text \<open>Auxiliary carry and overflow from the exclusive or of operands and result.\<close>

definition af_of :: "u64 \<Rightarrow> u32" where
  "af_of x = ucast (x AND 0x10)"

definition of_of :: "nat \<Rightarrow> u64 \<Rightarrow> u32" where
  "of_of n x = ucast (lshift x (12 - int n) AND ucast CC_O)"

definition compute_all_add :: "nat \<Rightarrow> u64 \<Rightarrow> u64 \<Rightarrow> u32" where
  "compute_all_add n dst src =
     (let src1 = src; src2 = dst - src;
          cf = of_bool (take_bit n dst < take_bit n src1)
      in cf OR pf_of dst OR af_of (dst XOR src1 XOR src2) OR zf_of n dst OR sf_of n dst OR
         of_of n ((src1 XOR src2 XOR - 1) AND (src1 XOR dst)))"

definition compute_c_add :: "nat \<Rightarrow> u64 \<Rightarrow> u64 \<Rightarrow> u32" where
  "compute_c_add n dst src = of_bool (take_bit n dst < take_bit n src)"

definition compute_all_adc :: "nat \<Rightarrow> u64 \<Rightarrow> u64 \<Rightarrow> u32" where
  "compute_all_adc n dst src =
     (let src1 = src; src2 = dst - src - 1;
          cf = of_bool (take_bit n dst \<le> take_bit n src1)
      in cf OR pf_of dst OR af_of (dst XOR src1 XOR src2) OR zf_of n dst OR sf_of n dst OR
         of_of n ((src1 XOR src2 XOR - 1) AND (src1 XOR dst)))"

definition compute_c_adc :: "nat \<Rightarrow> u64 \<Rightarrow> u64 \<Rightarrow> u32" where
  "compute_c_adc n dst src = of_bool (take_bit n dst \<le> take_bit n src)"

definition compute_all_sub :: "nat \<Rightarrow> u64 \<Rightarrow> u64 \<Rightarrow> u32" where
  "compute_all_sub n dst src =
     (let src1 = dst + src; src2 = src;
          cf = of_bool (take_bit n src1 < take_bit n src2)
      in cf OR pf_of dst OR af_of (dst XOR src1 XOR src2) OR zf_of n dst OR sf_of n dst OR
         of_of n ((src1 XOR src2) AND (src1 XOR dst)))"

definition compute_c_sub :: "nat \<Rightarrow> u64 \<Rightarrow> u64 \<Rightarrow> u32" where
  "compute_c_sub n dst src = (let src1 = dst + src; src2 = src in of_bool (take_bit n src1 < take_bit n src2))"

definition compute_all_sbb :: "nat \<Rightarrow> u64 \<Rightarrow> u64 \<Rightarrow> u32" where
  "compute_all_sbb n dst src =
     (let src1 = dst + src + 1; src2 = src;
          cf = of_bool (take_bit n src1 \<le> take_bit n src2)
      in cf OR pf_of dst OR af_of (dst XOR src1 XOR src2) OR zf_of n dst OR sf_of n dst OR
         of_of n ((src1 XOR src2) AND (src1 XOR dst)))"

definition compute_c_sbb :: "nat \<Rightarrow> u64 \<Rightarrow> u64 \<Rightarrow> u32" where
  "compute_c_sbb n dst src = (let src1 = dst + src + 1; src2 = src in of_bool (take_bit n src1 \<le> take_bit n src2))"

definition compute_all_logic :: "nat \<Rightarrow> u64 \<Rightarrow> u64 \<Rightarrow> u32" where
  "compute_all_logic n dst src = 0 OR pf_of dst OR 0 OR zf_of n dst OR sf_of n dst OR 0"

definition compute_c_logic :: "nat \<Rightarrow> u64 \<Rightarrow> u64 \<Rightarrow> u32" where
  "compute_c_logic n dst src = 0"

text \<open>The operand of increments and decrements is the carry flag they leave unchanged.\<close>

definition SIGN_MASK :: "nat \<Rightarrow> u64" where
  "SIGN_MASK n = push_bit (n - 1) 1"

definition DATA_MASK :: "nat \<Rightarrow> u64" where
  "DATA_MASK n = mask n"

definition compute_all_inc :: "nat \<Rightarrow> u64 \<Rightarrow> u64 \<Rightarrow> u32" where
  "compute_all_inc n dst src =
     (let src1 = dst - 1; src2 = 1
      in ucast src OR pf_of dst OR af_of (dst XOR src1 XOR src2) OR zf_of n dst OR sf_of n dst OR
         push_bit 11 (of_bool (dst AND DATA_MASK n = SIGN_MASK n)))"

definition compute_c_inc :: "u64 \<Rightarrow> u64 \<Rightarrow> u32" where
  "compute_c_inc dst src = ucast src"

definition compute_all_dec :: "nat \<Rightarrow> u64 \<Rightarrow> u64 \<Rightarrow> u32" where
  "compute_all_dec n dst src =
     (let src1 = dst + 1; src2 = 1
      in ucast src OR pf_of dst OR af_of (dst XOR src1 XOR src2) OR zf_of n dst OR sf_of n dst OR
         push_bit 11 (of_bool (dst AND DATA_MASK n = SIGN_MASK n - 1)))"

definition compute_all_shl :: "nat \<Rightarrow> u64 \<Rightarrow> u64 \<Rightarrow> u32" where
  "compute_all_shl n dst src =
     ucast (drop_bit (n - 1) src AND ucast CC_C) OR pf_of dst OR 0 OR zf_of n dst OR sf_of n dst OR of_of n (src XOR dst)"

definition compute_c_shl :: "nat \<Rightarrow> u64 \<Rightarrow> u64 \<Rightarrow> u32" where
  "compute_c_shl n dst src = ucast (drop_bit (n - 1) src AND ucast CC_C)"

definition compute_c_sar :: "u64 \<Rightarrow> u64 \<Rightarrow> u32" where
  "compute_c_sar dst src = ucast (src AND 1)"

definition compute_all_sar :: "nat \<Rightarrow> u64 \<Rightarrow> u64 \<Rightarrow> u32" where
  "compute_all_sar n dst src =
     ucast (src AND 1) OR pf_of dst OR 0 OR zf_of n dst OR sf_of n dst OR of_of n (src XOR dst)"

definition compute_c_mul :: "u64 \<Rightarrow> u64 \<Rightarrow> u32" where
  "compute_c_mul dst src = of_bool (src \<noteq> 0)"

definition compute_all_mul :: "nat \<Rightarrow> u64 \<Rightarrow> u64 \<Rightarrow> u32" where
  "compute_all_mul n dst src =
     (let cf = of_bool (src \<noteq> 0)
      in cf OR pf_of dst OR 0 OR zf_of n dst OR sf_of n dst OR push_bit 11 cf)"

section \<open>Kinds of operations\<close>

text \<open>The enumerators are numbered in the order of the source, sizes within kinds.\<close>

datatype cc_kind = MUL | ADD | ADC | SUB | SBB | LOGIC | INC | DEC | SHL | SAR

datatype cc_size = B | W | L | Q

datatype cc_op = CC_OP_DYNAMIC | CC_OP_EFLAGS | CC_OP cc_kind cc_size | CC_OP_NB

primrec kind_num :: "cc_kind \<Rightarrow> nat" where
  "kind_num MUL = 0"
| "kind_num ADD = 1"
| "kind_num ADC = 2"
| "kind_num SUB = 3"
| "kind_num SBB = 4"
| "kind_num LOGIC = 5"
| "kind_num INC = 6"
| "kind_num DEC = 7"
| "kind_num SHL = 8"
| "kind_num SAR = 9"

primrec size_num :: "cc_size \<Rightarrow> nat" where
  "size_num B = 0"
| "size_num W = 1"
| "size_num L = 2"
| "size_num Q = 3"

primrec cc_op_num :: "cc_op \<Rightarrow> nat" where
  "cc_op_num CC_OP_DYNAMIC = 0"
| "cc_op_num CC_OP_EFLAGS = 1"
| "cc_op_num (CC_OP k s) = 2 + 4 * kind_num k + size_num s"
| "cc_op_num CC_OP_NB = 42"

primrec bits :: "cc_size \<Rightarrow> nat" where
  "bits B = 8"
| "bits W = 16"
| "bits L = 32"
| "bits Q = 64"

definition compute_all_eflags :: "u64 \<Rightarrow> u64 \<Rightarrow> u32" where
  "compute_all_eflags dst src = ucast src"

definition compute_c_eflags :: "u64 \<Rightarrow> u64 \<Rightarrow> u32" where
  "compute_c_eflags dst src = ucast (src AND ucast CC_C)"

fun helper_cc_compute_all :: "cc_op \<Rightarrow> u64 \<Rightarrow> u64 \<Rightarrow> u32" where
  "helper_cc_compute_all CC_OP_EFLAGS dst src = compute_all_eflags dst src"
| "helper_cc_compute_all (CC_OP MUL s) dst src = compute_all_mul (bits s) dst src"
| "helper_cc_compute_all (CC_OP ADD s) dst src = compute_all_add (bits s) dst src"
| "helper_cc_compute_all (CC_OP ADC s) dst src = compute_all_adc (bits s) dst src"
| "helper_cc_compute_all (CC_OP SUB s) dst src = compute_all_sub (bits s) dst src"
| "helper_cc_compute_all (CC_OP SBB s) dst src = compute_all_sbb (bits s) dst src"
| "helper_cc_compute_all (CC_OP LOGIC s) dst src = compute_all_logic (bits s) dst src"
| "helper_cc_compute_all (CC_OP INC s) dst src = compute_all_inc (bits s) dst src"
| "helper_cc_compute_all (CC_OP DEC s) dst src = compute_all_dec (bits s) dst src"
| "helper_cc_compute_all (CC_OP SHL s) dst src = compute_all_shl (bits s) dst src"
| "helper_cc_compute_all (CC_OP SAR s) dst src = compute_all_sar (bits s) dst src"
| "helper_cc_compute_all _ dst src = 0"

fun helper_cc_compute_c :: "cc_op \<Rightarrow> u64 \<Rightarrow> u64 \<Rightarrow> u32" where
  "helper_cc_compute_c CC_OP_EFLAGS dst src = compute_c_eflags dst src"
| "helper_cc_compute_c (CC_OP MUL s) dst src = compute_c_mul dst src"
| "helper_cc_compute_c (CC_OP ADD s) dst src = compute_c_add (bits s) dst src"
| "helper_cc_compute_c (CC_OP ADC s) dst src = compute_c_adc (bits s) dst src"
| "helper_cc_compute_c (CC_OP SUB s) dst src = compute_c_sub (bits s) dst src"
| "helper_cc_compute_c (CC_OP SBB s) dst src = compute_c_sbb (bits s) dst src"
| "helper_cc_compute_c (CC_OP LOGIC s) dst src = compute_c_logic (bits s) dst src"
| "helper_cc_compute_c (CC_OP INC s) dst src = compute_c_inc dst src"
| "helper_cc_compute_c (CC_OP DEC s) dst src = compute_c_inc dst src"
| "helper_cc_compute_c (CC_OP SHL s) dst src = compute_c_shl (bits s) dst src"
| "helper_cc_compute_c (CC_OP SAR s) dst src = compute_c_sar dst src"
| "helper_cc_compute_c _ dst src = 0"

section \<open>The flags register\<close>

record CPUX86State =
  regs_eax :: u64
  regs_edx :: u64
  cc_op :: cc_op
  cc_src :: u64
  cc_dst :: u64
  cc_tmp :: u64
  df :: u32
  mflags :: u64

definition cc_all :: "CPUX86State \<Rightarrow> u32" where
  "cc_all env = helper_cc_compute_all (cc_op env) (cc_dst env) (cc_src env)"

definition compute_eflags :: "CPUX86State \<Rightarrow> u32" where
  "compute_eflags env = ucast (mflags env) OR cc_all env OR (df env AND DF_MASK) OR 2"

definition load_eflags :: "CPUX86State \<Rightarrow> u32 \<Rightarrow> u32 \<Rightarrow> CPUX86State" where
  "load_eflags env eflags update_mask =
     env\<lparr>cc_src := scast (eflags AND CFLAGS_MASK),
       df := if eflags AND DF_MASK \<noteq> 0 then - 1 else 1,
       mflags := (mflags env AND scast (NOT update_mask)) OR scast (eflags AND MFLAGS_MASK AND update_mask)\<rparr>"

definition cpu_set_eflags :: "CPUX86State \<Rightarrow> u64 \<Rightarrow> CPUX86State" where
  "cpu_set_eflags env eflags =
     env\<lparr>cc_op := CC_OP_EFLAGS, cc_src := eflags AND scast CFLAGS_MASK,
       df := if eflags AND scast DF_MASK \<noteq> 0 then - 1 else 1,
       mflags := eflags AND scast MFLAGS_MASK\<rparr>"

definition helper_write_eflags :: "CPUX86State \<Rightarrow> u64 \<Rightarrow> u32 \<Rightarrow> CPUX86State" where
  "helper_write_eflags env t0 update_mask = load_eflags env (ucast t0) update_mask"

definition helper_read_eflags :: "CPUX86State \<Rightarrow> u64" where
  "helper_read_eflags env =
     (let eflags = cc_all env;
          eflags = eflags OR (df env AND DF_MASK);
          eflags = eflags OR ucast (mflags env AND scast (NOT (VM_MASK OR RF_MASK)))
      in ucast eflags)"

definition helper_set_cc_op_eflags :: "CPUX86State \<Rightarrow> CPUX86State" where
  "helper_set_cc_op_eflags env = (let env = env\<lparr>cc_src := ucast (cc_all env)\<rparr> in env\<lparr>cc_op := CC_OP_EFLAGS\<rparr>)"

section \<open>Rotation through the carry\<close>

text \<open>Both start with the count, which tables reduce for the small operands.\<close>

definition rc_count :: "cc_size \<Rightarrow> u64 \<Rightarrow> nat" where
  "rc_count s t1 =
     (case s of
        B \<Rightarrow> rclb_table ! unat (t1 AND 0x1f)
      | W \<Rightarrow> rclw_table ! unat (t1 AND 0x1f)
      | L \<Rightarrow> unat (t1 AND 0x1f)
      | Q \<Rightarrow> unat (t1 AND 0x3f))"

definition helper_rcl :: "cc_size \<Rightarrow> CPUX86State \<Rightarrow> u64 \<Rightarrow> u64 \<Rightarrow> u64 \<times> CPUX86State" where
  "helper_rcl s env t0 t1 =
     (let n = bits s; count = rc_count s t1 in
      if count \<noteq> 0 then
        let eflags = cc_all env;
            t0 = t0 AND DATA_MASK n;
            src = t0;
            res = push_bit count t0 OR push_bit (count - 1) (ucast (eflags AND CC_C));
            res = (if count > 1 then res OR drop_bit (n + 1 - count) t0 else res);
            t0 = res
        in (t0, env\<lparr>cc_tmp := scast (eflags AND NOT (CC_C OR CC_O)) OR (lshift (src XOR t0) (11 - (int n - 1)) AND ucast CC_O) OR
              (drop_bit (n - count) src AND ucast CC_C)\<rparr>)
      else (t0, env\<lparr>cc_tmp := - 1\<rparr>))"

definition helper_rcr :: "cc_size \<Rightarrow> CPUX86State \<Rightarrow> u64 \<Rightarrow> u64 \<Rightarrow> u64 \<times> CPUX86State" where
  "helper_rcr s env t0 t1 =
     (let n = bits s; count = rc_count s t1 in
      if count \<noteq> 0 then
        let eflags = cc_all env;
            t0 = t0 AND DATA_MASK n;
            src = t0;
            res = drop_bit count t0 OR push_bit (n - count) (ucast (eflags AND CC_C));
            res = (if count > 1 then res OR push_bit (n + 1 - count) t0 else res);
            t0 = res
        in (t0, env\<lparr>cc_tmp := scast (eflags AND NOT (CC_C OR CC_O)) OR (lshift (src XOR t0) (11 - (int n - 1)) AND ucast CC_O) OR
              (drop_bit (count - 1) src AND ucast CC_C)\<rparr>)
      else (t0, env\<lparr>cc_tmp := - 1\<rparr>))"

end
