(* ===== verification/X86FlagsSpec.thy ===== *)
theory X86FlagsSpec
  imports X86Flags
begin

text \<open>
  What the flags of \<open>X86Flags\<close> mean. An operand of \<open>n\<close> bits has an unsigned and a signed value; the carry flag says
  that the unsigned result does not fit, the overflow flag that the signed one does not, the auxiliary carry that
  the low four bits carry or borrow.
\<close>

section \<open>Flags as truth values\<close>

definition uval :: "nat \<Rightarrow> u64 \<Rightarrow> int" where
  "uval n x = take_bit n (uint x)"

definition sval :: "nat \<Rightarrow> u64 \<Rightarrow> int" where
  "sval n x = signed_take_bit (n - 1) (uint x)"

definition fits :: "nat \<Rightarrow> int \<Rightarrow> bool" where
  "fits n v \<longleftrightarrow> - (2 ^ (n - 1)) \<le> v \<and> v < 2 ^ (n - 1)"

definition even_parity :: "u64 \<Rightarrow> bool" where
  "even_parity x \<longleftrightarrow> even (length (filter (bit x) [0..<8]))"

definition status :: "bool \<Rightarrow> bool \<Rightarrow> bool \<Rightarrow> bool \<Rightarrow> bool \<Rightarrow> bool \<Rightarrow> u32" where
  "status c p a z s ov =
     (if c then CC_C else 0) OR (if p then CC_P else 0) OR (if a then CC_A else 0) OR
     (if z then CC_Z else 0) OR (if s then CC_S else 0) OR (if ov then CC_O else 0)"

definition result_status :: "nat \<Rightarrow> u64 \<Rightarrow> bool \<Rightarrow> bool \<Rightarrow> bool \<Rightarrow> u32" where
  "result_status n r c a ov = status c (even_parity r) a (uval n r = 0) (sval n r < 0) ov"

lemmas cc_masks = CC_C_def CC_P_def CC_A_def CC_Z_def CC_S_def CC_O_def

lemma bits_pos [simp]: "0 < bits s" "bits s \<le> 64" "8 \<le> bits s"
  by (cases s; simp)+

lemma bits_less [simp]: "bits s - Suc 0 < 64"
  by (cases s) simp_all

lemma and_power: "x AND push_bit k 1 = (if bit x k then push_bit k 1 else 0)" for x :: "'a :: len word"
  by (rule bit_word_eqI) (auto simp: bit_simps)

lemma and_one_bit:
  fixes x :: u64
  shows "x AND 0x10 = (if bit x 4 then 0x10 else 0)" "x AND 0x80 = (if bit x 7 then 0x80 else 0)"
    "x AND 0x800 = (if bit x 11 then 0x800 else 0)"
  using and_power [of x 4] and_power [of x 7] and_power [of x 11] by (simp_all add: push_bit_eq_mult)

lemma bit_signed_drop: "m + j < LENGTH('a) \<Longrightarrow> bit (signed_drop_bit m w) j \<longleftrightarrow> bit w (m + j)" for w :: "'a :: len word"
  by (auto simp: bit_signed_drop_bit_iff)

lemma bit_lshift:
  assumes "0 \<le> int j - k" "int j - k < 64" "j < 64"
  shows "bit (lshift x k) j \<longleftrightarrow> bit x (nat (int j - k))"
proof (cases "0 \<le> k")
  case True
  then show ?thesis using assms by (simp add: lshift_def bit_simps nat_diff_distrib' nat_le_iff)
next
  case False
  then have "j + nat (- k) = nat (int j - k)" "nat (- k) + j < LENGTH(64)" using assms by simp_all
  then show ?thesis using False by (simp add: lshift_def bit_signed_drop add.commute)
qed

lemma sf_of_bit: "sf_of (bits s) x = (if bit x (bits s - 1) then CC_S else 0)"
  by (cases s) (simp_all add: sf_of_def and_one_bit bit_lshift CC_S_def)

lemma of_of_bit: "of_of (bits s) x = (if bit x (bits s - 1) then CC_O else 0)"
  by (cases s) (simp_all add: of_of_def and_one_bit bit_lshift CC_O_def)

lemma af_of_bit: "af_of x = (if bit x 4 then CC_A else 0)"
  by (simp add: af_of_def and_one_bit CC_A_def)

lemma zf_of_uval: "zf_of n x = (if uval n x = 0 then CC_Z else 0)"
  by (simp add: zf_of_def uval_def CC_Z_def push_bit_eq_mult word_uint_eq_iff unsigned_take_bit_eq)

text \<open>The parity of the numbers below a power of two: the upper half of the list is the lower half negated.\<close>

primrec parities :: "nat \<Rightarrow> bool list" where
  "parities 0 = [True]"
| "parities (Suc k) = parities k @ map Not (parities k)"

lemma length_parities [simp]: "length (parities k) = 2 ^ k"
  by (induction k) simp_all

lemma nth_parities: "v < 2 ^ k \<Longrightarrow> parities k ! v \<longleftrightarrow> even (length (filter (bit v) [0..<k]))"
proof (induction k arbitrary: v)
  case (Suc k)
  show ?case
  proof (cases "v < 2 ^ k")
    case True
    then have "\<not> bit v k" by (simp add: bit_iff_odd)
    then show ?thesis using Suc.IH [OF True] True by (simp add: nth_append)
  next
    case False
    define w where "w = v - 2 ^ k"
    have w: "v = 2 ^ k + w" "w < 2 ^ k" using False Suc.prems by (simp_all add: w_def)
    have "\<not> bit w k" using w(2) by (simp add: bit_iff_odd)
    then have disj: "v = 2 ^ k OR w"
      unfolding w(1) by (intro disjunctive_add) (auto simp: bit_simps)
    have "filter (bit v) [0..<k] = filter (bit w) [0..<k]"
      by (rule filter_cong) (simp_all add: disj bit_simps)
    moreover have "bit v k" unfolding disj by (simp add: bit_simps)
    ultimately show ?thesis using Suc.IH [OF w(2)] w by (simp add: nth_append)
  qed
qed simp

lemma parities_numeral: "parities (numeral k) = parities (pred_numeral k) @ map Not (parities (pred_numeral k))"
  by (simp add: numeral_eq_Suc)

lemma parity_entries: "parity_table = map (\<lambda>e. if e then CC_P else 0) (parities 8)"
  by (simp add: parity_table_def CC_P_def parities_numeral)

lemma pf_of_parity: "pf_of x = (if even_parity x then CC_P else 0)"
proof -
  let ?v = "unat (take_bit 8 x)"
  have v: "?v = take_bit 8 (unat x)" by (simp add: unsigned_take_bit_eq)
  then have less: "?v < 2 ^ 8" using take_bit_nat_less_exp [of 8 "unat x"] by simp
  have "filter (bit x) [0..<8] = filter (bit ?v) [0..<8]"
    by (rule filter_cong) (simp_all add: v bit_simps bit_unsigned_iff)
  then show ?thesis using nth_parities [OF less] less by (simp add: pf_of_def parity_entries even_parity_def)
qed

lemma cf_of_bool: "of_bool c = (if c then CC_C else 0)"
  by (simp add: CC_C_def)

lemma ov_of_bool: "push_bit 11 (of_bool c) = (if c then CC_O else 0)"
  by (simp add: CC_O_def push_bit_eq_mult)

lemma ov_of_cf: "push_bit 11 (if c then CC_C else 0) = (if c then CC_O else 0)"
  by (simp add: CC_C_def CC_O_def push_bit_eq_mult)

lemma cf_ucast: "ucast (of_bool c :: u64) = (if c then CC_C else 0)"
  by (simp add: CC_C_def)

lemmas flag_bits = sf_of_bit of_of_bit af_of_bit zf_of_uval pf_of_parity

section \<open>Carries\<close>

text \<open>A bit of a sum is the sum of the bits and the carry of the bits below.\<close>

definition carry :: "nat \<Rightarrow> u64 \<Rightarrow> u64 \<Rightarrow> int \<Rightarrow> bool" where
  "carry k a b c \<longleftrightarrow> 2 ^ k \<le> uval k a + uval k b + c"

lemma uval_bounds: "0 \<le> uval n x" "uval n x < 2 ^ n"
  by (simp_all add: uval_def)

lemma mod_sum_carry:
  fixes a b c m :: int
  assumes "0 < m" "c = 0 \<or> c = 1"
  defines "r \<equiv> a mod m + b mod m + c"
  shows "(a + b + c) mod m = (if m \<le> r then r - m else r)"
    and "(a + b + c) div m = a div m + b div m + (if m \<le> r then 1 else 0)"
proof -
  have bounds: "0 \<le> r" "r < 2 * m"
    using assms(2) pos_mod_bound [OF assms(1), of a] pos_mod_bound [OF assms(1), of b]
      pos_mod_sign [OF assms(1), of a] pos_mod_sign [OF assms(1), of b] unfolding r_def by linarith+
  have sum: "a + b + c = (a div m + b div m) * m + r"
    using div_mult_mod_eq [of a m] div_mult_mod_eq [of b m] by (simp add: r_def distrib_right)
  have r: "r div m = (if m \<le> r then 1 else 0)" "r mod m = (if m \<le> r then r - m else r)"
    using bounds by (auto simp: int_div_pos_eq [where r = "r - m"] int_mod_pos_eq [where q = 1])
  show "(a + b + c) mod m = (if m \<le> r then r - m else r)" using sum r by simp
  show "(a + b + c) div m = a div m + b div m + (if m \<le> r then 1 else 0)"
    using sum r assms(1) by simp
qed

lemma bit_sum:
  fixes a b c :: u64
  assumes "c = 0 \<or> c = 1" "k < 64"
  shows "bit (a + b + c) k \<longleftrightarrow> (bit a k \<noteq> (bit b k \<noteq> carry k a b (uint c)))"
proof -
  have c: "uint c = 0 \<or> uint c = 1" using assms(1) by auto
  have "bit (a + b + c) k \<longleftrightarrow> bit (uint a + uint b + uint c) k"
    using assms(2) bit_word_of_int_iff [where 'a = 64, of "uint a + uint b + uint c" k] by simp
  also have "\<dots> \<longleftrightarrow> (bit (uint a) k \<noteq> (bit (uint b) k \<noteq> carry k a b (uint c)))"
    using mod_sum_carry(2) [of "2 ^ k" "uint c" "uint a" "uint b"] c
    by (auto simp: bit_iff_odd carry_def uval_def take_bit_eq_mod)
  finally show ?thesis using assms(2) by (simp add: bit_uint_iff)
qed

lemma uval_sum:
  fixes a b c :: u64
  assumes "c = 0 \<or> c = 1" "n \<le> 64"
  shows "uval n (a + b + c) = uval n a + uval n b + uint c - (if carry n a b (uint c) then 2 ^ n else 0)"
proof -
  have c: "uint c = 0 \<or> uint c = 1" using assms(1) by auto
  have "uval n (a + b + c) = take_bit n (uint a + uint b + uint c)"
    using assms(2) uint_word_of_int_eq [where 'a = 64, of "uint a + uint b + uint c"]
    by (simp add: uval_def take_bit_take_bit min_def)
  then show ?thesis using mod_sum_carry(1) [of "2 ^ n" "uint c" "uint a" "uint b"] c
    by (simp add: carry_def uval_def take_bit_eq_mod)
qed

lemma halves:
  assumes "0 < n" "n \<le> 64"
  shows "uval n x = uval (n - 1) x + (if bit x (n - 1) then 2 ^ (n - 1) else 0)"
    and "sval n x = uval (n - 1) x - (if bit x (n - 1) then 2 ^ (n - 1) else 0)"
proof -
  obtain m where m: "n = Suc m" "m < 64" using assms by (cases n) auto
  then have "bit (uint x) m \<longleftrightarrow> bit x m" by (simp add: bit_uint_iff)
  then show "uval n x = uval (n - 1) x + (if bit x (n - 1) then 2 ^ (n - 1) else 0)"
    and "sval n x = uval (n - 1) x - (if bit x (n - 1) then 2 ^ (n - 1) else 0)"
    using m by (simp_all add: uval_def sval_def take_bit_Suc_from_most signed_take_bit_eq_take_bit_minus)
qed

lemma sval_negative: "0 < n \<Longrightarrow> n \<le> 64 \<Longrightarrow> sval n x < 0 \<longleftrightarrow> bit x (n - 1)"
  using uval_bounds [of "n - 1" x] by (simp add: halves)

text \<open>The overflow of a sum, and of a difference, shows in the signs of the operands and the result.\<close>

lemma sum_in_range:
  fixes h x y c :: int
  assumes "0 \<le> x" "x < h" "0 \<le> y" "y < h" "c = 0 \<or> c = 1"
  shows "- h \<le> x - (if p then h else 0) + (y - (if q then h else 0)) + c \<and>
      x - (if p then h else 0) + (y - (if q then h else 0)) + c < h \<longleftrightarrow>
    \<not> ((p \<longleftrightarrow> q) \<and> q \<noteq> (p \<noteq> (q \<noteq> (h \<le> x + y + c))))"
  using assms by (cases p; cases q; cases "h \<le> x + y + c") auto

lemma overflow_sum:
  fixes a b c :: u64
  assumes "c = 0 \<or> c = 1" "0 < n" "n \<le> 64"
  shows "fits n (sval n a + sval n b + uint c) \<longleftrightarrow>
    \<not> ((bit a (n - 1) \<longleftrightarrow> bit b (n - 1)) \<and> bit b (n - 1) \<noteq> bit (a + b + c) (n - 1))"
proof -
  have c: "uint c = 0 \<or> uint c = 1" and k: "n - 1 < 64" using assms by auto
  show ?thesis
    unfolding fits_def halves(2) [OF assms(2,3)] bit_sum [OF assms(1) k] carry_def
    by (rule sum_in_range) (use uval_bounds c in auto)
qed

lemma difference_in_range:
  fixes h x y c :: int and p q :: bool
  assumes "0 \<le> x" "x < h" "0 \<le> y" "y < h" "c = 0 \<or> c = 1"
  defines "e \<equiv> h \<le> x + y + c"
  defines "s \<equiv> p \<noteq> (q \<noteq> e)"
  shows "- h \<le> x + y + c - (if e then h else 0) - (if s then h else 0) - (y - (if q then h else 0)) - c \<and>
      x + y + c - (if e then h else 0) - (if s then h else 0) - (y - (if q then h else 0)) - c < h \<longleftrightarrow>
    \<not> (s \<noteq> q \<and> s \<noteq> p)"
  using assms(1-5) unfolding s_def e_def by (cases p; cases q; cases "h \<le> x + y + c") auto

lemma overflow_difference:
  fixes a b c :: u64
  assumes "c = 0 \<or> c = 1" "0 < n" "n \<le> 64"
  shows "fits n (sval n (a + b + c) - sval n b - uint c) \<longleftrightarrow>
    \<not> (bit (a + b + c) (n - 1) \<noteq> bit b (n - 1) \<and> bit (a + b + c) (n - 1) \<noteq> bit a (n - 1))"
proof -
  have c: "uint c = 0 \<or> uint c = 1" and k: "n - 1 < 64" "n - 1 \<le> 64" using assms by auto
  show ?thesis
    unfolding fits_def halves(2) [OF assms(2,3)] bit_sum [OF assms(1) k(1)] uval_sum [OF assms(1) k(2)] carry_def
    by (rule difference_in_range) (use uval_bounds c in auto)
qed

section \<open>Flags of sums and differences\<close>

lemma int_less_add1: "x < y + 1 \<longleftrightarrow> x \<le> y" for x y :: int
  by linarith

lemma take_bit_uval: "take_bit n x < take_bit n y \<longleftrightarrow> uval n x < uval n y" "take_bit n x \<le> take_bit n y \<longleftrightarrow> uval n x \<le> uval n y"
  by (simp_all add: uval_def word_less_def word_le_def unsigned_take_bit_eq)

definition sum_status :: "nat \<Rightarrow> u64 \<Rightarrow> u64 \<Rightarrow> u64 \<Rightarrow> u32" where
  "sum_status n a b c =
     result_status n (a + b + c) (2 ^ n \<le> uval n a + uval n b + uint c) (2 ^ 4 \<le> uval 4 a + uval 4 b + uint c)
       (\<not> fits n (sval n a + sval n b + uint c))"

definition difference_status :: "nat \<Rightarrow> u64 \<Rightarrow> u64 \<Rightarrow> u64 \<Rightarrow> u32" where
  "difference_status n a b c =
     result_status n (a - b - c) (uval n a < uval n b + uint c) (uval 4 a < uval 4 b + uint c)
       (\<not> fits n (sval n a - sval n b - uint c))"

lemma sum_flags:
  fixes a b c r :: u64
  assumes "c = 0 \<or> c = 1" and r: "r = a + b + c"
  shows "of_bool (carry (bits s) a b (uint c)) OR pf_of r OR af_of (r XOR b XOR a) OR zf_of (bits s) r OR
      sf_of (bits s) r OR of_of (bits s) ((b XOR a XOR - 1) AND (b XOR r)) = sum_status (bits s) a b c"
proof -
  have "bit (r XOR b XOR a) 4 \<longleftrightarrow> carry 4 a b (uint c)"
    unfolding r using bit_sum [OF assms(1), of 4 a b] by (auto simp: bit_xor_iff)
  moreover have "bit ((b XOR a XOR - 1) AND (b XOR r)) (bits s - 1) \<longleftrightarrow> \<not> fits (bits s) (sval (bits s) a + sval (bits s) b + uint c)"
    unfolding r overflow_sum [OF assms(1) bits_pos(1,2)]
    by (auto simp: bit_xor_iff bit_and_iff bit_not_iff)
  ultimately show ?thesis
    by (simp only: flag_bits cf_of_bool sum_status_def result_status_def status_def sval_negative [OF bits_pos(1,2)] carry_def r)
qed

lemma difference_flags:
  fixes a b c r :: u64
  assumes "c = 0 \<or> c = 1" and a: "a = r + b + c"
  shows "of_bool (uval (bits s) a < uval (bits s) b + uint c) OR pf_of r OR af_of (r XOR a XOR b) OR zf_of (bits s) r OR
      sf_of (bits s) r OR of_of (bits s) ((a XOR b) AND (a XOR r)) = difference_status (bits s) a b c"
proof -
  have r: "r = a - b - c" unfolding a by simp
  have "carry 4 r b (uint c) \<longleftrightarrow> uval 4 a < uval 4 b + uint c"
    using uval_sum [OF assms(1), of 4 r b] uval_bounds [of 4 r] uval_bounds [of 4 b] by (auto simp: carry_def a)
  then have "bit (r XOR a XOR b) 4 \<longleftrightarrow> uval 4 a < uval 4 b + uint c"
    using bit_sum [OF assms(1), of 4 r b] by (auto simp: bit_xor_iff a)
  moreover have "bit ((a XOR b) AND (a XOR r)) (bits s - 1) \<longleftrightarrow> \<not> fits (bits s) (sval (bits s) a - sval (bits s) b - uint c)"
    unfolding a overflow_difference [OF assms(1) bits_pos(1,2)]
    by (auto simp: bit_xor_iff bit_and_iff)
  ultimately show ?thesis
    by (simp only: flag_bits cf_of_bool difference_status_def result_status_def status_def sval_negative [OF bits_pos(1,2)] flip: r)
qed

lemma carry_of_sum:
  "uval (bits s) (a + b) < uval (bits s) b \<longleftrightarrow> carry (bits s) a b 0"
  "uval (bits s) (a + b + 1) \<le> uval (bits s) b \<longleftrightarrow> carry (bits s) a b 1"
  using uval_sum [of 0 "bits s" a b] uval_sum [of 1 "bits s" a b] uval_bounds [of "bits s" a] uval_bounds [of "bits s" b]
  by (auto simp: carry_def)

lemma add_sub_flags:
  "compute_all_add (bits s) (a + b) b = sum_status (bits s) a b 0"
  "compute_all_adc (bits s) (a + b + 1) b = sum_status (bits s) a b 1"
  "compute_all_sub (bits s) (a - b) b = difference_status (bits s) a b 0"
  "compute_all_sbb (bits s) (a - b - 1) b = difference_status (bits s) a b 1"
proof -
  note defs = compute_all_add_def compute_all_adc_def compute_all_sub_def compute_all_sbb_def Let_def take_bit_uval
    carry_of_sum int_less_add1
  show "compute_all_add (bits s) (a + b) b = sum_status (bits s) a b 0"
    using sum_flags [of 0 "a + b" a b s] by (simp add: defs)
  show "compute_all_adc (bits s) (a + b + 1) b = sum_status (bits s) a b 1"
    using sum_flags [of 1 "a + b + 1" a b s] by (simp add: defs)
  show "compute_all_sub (bits s) (a - b) b = difference_status (bits s) a b 0"
    using difference_flags [of 0 a "a - b" b s] by (simp add: defs)
  show "compute_all_sbb (bits s) (a - b - 1) b = difference_status (bits s) a b 1"
    using difference_flags [of 1 a "a - b - 1" b s] by (simp add: defs)
qed

text \<open>C30. After an addition or subtraction of \<open>n\<close>-bit operands, with or without a carry or borrow coming in, the
  flags computed from the recorded result and second operand are the ones the instruction defines. The carry flag
  is set when the unsigned sum needs more than \<open>n\<close> bits or the unsigned difference is negative, the overflow flag when the
  signed result is not an \<open>n\<close>-bit number, the auxiliary carry for the low four bits, and parity, zero and sign describe
  the result.\<close>

theorem arithmetic_flags:
  "helper_cc_compute_all (CC_OP ADD s) (a + b) b = sum_status (bits s) a b 0 \<and>
   helper_cc_compute_all (CC_OP ADC s) (a + b + 1) b = sum_status (bits s) a b 1 \<and>
   helper_cc_compute_all (CC_OP SUB s) (a - b) b = difference_status (bits s) a b 0 \<and>
   helper_cc_compute_all (CC_OP SBB s) (a - b - 1) b = difference_status (bits s) a b 1"
  by (simp add: add_sub_flags)

section \<open>Increments, logic, multiplications and shifts\<close>

lemma uval_one: "0 < n \<Longrightarrow> uval n 1 = 1" "n \<le> 64 \<Longrightarrow> 1 < n \<Longrightarrow> sval n 1 = 1"
  by (simp_all add: uval_def sval_def signed_take_bit_eq_if_positive bit_1_iff)

lemma uval_mask: "uint (x AND DATA_MASK n) = uval n x"
  by (simp add: DATA_MASK_def uval_def unsigned_take_bit_eq flip: take_bit_eq_mask)

lemma uint_SIGN_MASK: "uint (SIGN_MASK (bits s)) = 2 ^ (bits s - 1)"
  by (cases s) (simp_all add: SIGN_MASK_def)

lemma double_half: "0 < n \<Longrightarrow> (2::int) ^ n = 2 * 2 ^ (n - 1)"
  by (cases n) simp_all

lemma next_in_range:
  fixes h x :: int
  assumes "0 \<le> x" "x < h"
  shows "- h \<le> x - (if p then h else 0) + 1 \<and> x - (if p then h else 0) + 1 < h \<longleftrightarrow> x + (if p then h else 0) \<noteq> h - 1"
    and "- h \<le> x - (if p then h else 0) - 1 \<and> x - (if p then h else 0) - 1 < h \<longleftrightarrow> x + (if p then h else 0) \<noteq> h"
  using assms by (cases p; auto)+

lemma fits_half:
  assumes "0 < n" "n \<le> 64"
  shows "fits n (sval n x + 1) \<longleftrightarrow> uval n x \<noteq> 2 ^ (n - 1) - 1" "fits n (sval n x - 1) \<longleftrightarrow> uval n x \<noteq> 2 ^ (n - 1)"
  unfolding fits_def halves [OF assms] by (rule next_in_range; rule uval_bounds)+

lemma inc_overflow: "(x + 1) AND DATA_MASK (bits s) = SIGN_MASK (bits s) \<longleftrightarrow> \<not> fits (bits s) (sval (bits s) x + 1)"
  using uval_sum [of 0 "bits s" x 1] uval_bounds [of "bits s" x] double_half [OF bits_pos(1), of s]
  by (auto simp: word_uint_eq_iff uval_mask uint_SIGN_MASK fits_half uval_one carry_def)

lemma dec_overflow:
  "(x - 1) AND DATA_MASK (bits s) = SIGN_MASK (bits s) - 1 \<longleftrightarrow> \<not> fits (bits s) (sval (bits s) x - 1)"
proof -
  have "uint (SIGN_MASK (bits s) - 1) = 2 ^ (bits s - 1) - 1" by (cases s) (simp_all add: SIGN_MASK_def)
  then show ?thesis
    using uval_sum [of 0 "bits s" "x - 1" 1] uval_bounds [of "bits s" "x - 1"] double_half [OF bits_pos(1), of s]
    by (auto simp: word_uint_eq_iff uval_mask fits_half uval_one carry_def)
qed

text \<open>
  Increments and decrements leave the carry flag, which the code records as the operand, and set the others as
  an addition or subtraction of one does.\<close>

theorem inc_dec_flags:
  "helper_cc_compute_all (CC_OP INC s) (a + 1) (of_bool cf) =
     result_status (bits s) (a + 1) cf (2 ^ 4 \<le> uval 4 a + 1) (\<not> fits (bits s) (sval (bits s) a + 1)) \<and>
   helper_cc_compute_all (CC_OP DEC s) (a - 1) (of_bool cf) =
     result_status (bits s) (a - 1) cf (uval 4 a < 1) (\<not> fits (bits s) (sval (bits s) a - 1))"
proof -
  have "bit (a + 1 XOR a XOR 1) 4 \<longleftrightarrow> carry 4 a 1 0"
    using bit_sum [of 0 4 a 1] by (auto simp: bit_xor_iff)
  moreover have "bit (a - 1 XOR a XOR 1) 4 \<longleftrightarrow> carry 4 (a - 1) 1 0"
    using bit_sum [of 0 4 "a - 1" 1] by (auto simp: bit_xor_iff)
  moreover have "carry 4 (a - 1) 1 0 \<longleftrightarrow> uval 4 a < 1"
    using uval_sum [of 0 4 "a - 1" 1] uval_bounds [of 4 "a - 1"] by (auto simp: carry_def uval_one)
  ultimately show ?thesis
    by (simp only: helper_cc_compute_all.simps compute_all_inc_def compute_all_dec_def Let_def diff_add_cancel add_diff_cancel
        flag_bits inc_overflow dec_overflow cf_ucast ov_of_bool result_status_def status_def sval_negative bits_pos carry_def uval_one)
      (simp add: uval_one carry_def)
qed

text \<open>C0. Logical operations clear carry and overflow; a multiplication sets both when its upper half, which the
  code records, is not zero or not the sign of the lower half; a shift by \<open>k\<close> puts the last bit it moved out into the carry flag and, for a
  shift by one, the change of sign into the overflow flag.\<close>

theorem logic_mul_shift_flags:
  "helper_cc_compute_all (CC_OP LOGIC s) r src = result_status (bits s) r False False False \<and>
   helper_cc_compute_all (CC_OP MUL s) r src = result_status (bits s) r (src \<noteq> 0) False (src \<noteq> 0) \<and>
   (0 < k \<and> k \<le> bits s \<longrightarrow>
     helper_cc_compute_all (CC_OP SHL s) (push_bit k x) (push_bit (k - 1) x) =
       result_status (bits s) (push_bit k x) (bit x (bits s - k)) False
         (bit (push_bit (k - 1) x) (bits s - 1) \<noteq> bit (push_bit k x) (bits s - 1)) \<and>
     helper_cc_compute_all (CC_OP SAR s) (drop_bit k x) (drop_bit (k - 1) x) =
       result_status (bits s) (drop_bit k x) (bit x (k - 1)) False
         (bit (drop_bit (k - 1) x) (bits s - 1) \<noteq> bit (drop_bit k x) (bits s - 1)) \<and>
     helper_cc_compute_all (CC_OP SAR s) (signed_drop_bit k x) (signed_drop_bit (k - 1) x) =
       result_status (bits s) (signed_drop_bit k x) (bit x (k - 1)) False
         (bit (signed_drop_bit (k - 1) x) (bits s - 1) \<noteq> bit (signed_drop_bit k x) (bits s - 1)))"
proof (intro conjI impI)
  show "helper_cc_compute_all (CC_OP LOGIC s) r src = result_status (bits s) r False False False"
    by (simp add: compute_all_logic_def flag_bits result_status_def status_def sval_negative)
  show "helper_cc_compute_all (CC_OP MUL s) r src = result_status (bits s) r (src \<noteq> 0) False (src \<noteq> 0)"
    by (simp only: helper_cc_compute_all.simps compute_all_mul_def Let_def flag_bits ov_of_cf cf_of_bool result_status_def
        status_def sval_negative bits_pos if_False)
next
  assume k: "0 < k \<and> k \<le> bits s"
  have cf: "ucast (y AND ucast CC_C) = (if bit y 0 then CC_C else 0)" "ucast (y AND 1) = (if bit y 0 then CC_C else 0)"
    for y :: u64 using and_power [of y 0] by (simp_all add: CC_C_def)
  have top: "bit (drop_bit (bits s - 1) (push_bit (k - 1) x)) 0 \<longleftrightarrow> bit x (bits s - k)"
    using k bits_pos(2) [of s] by (auto simp: bit_simps)
  show "helper_cc_compute_all (CC_OP SHL s) (push_bit k x) (push_bit (k - 1) x) =
       result_status (bits s) (push_bit k x) (bit x (bits s - k)) False
         (bit (push_bit (k - 1) x) (bits s - 1) \<noteq> bit (push_bit k x) (bits s - 1))"
    unfolding helper_cc_compute_all.simps compute_all_shl_def cf top
    by (simp add: flag_bits result_status_def status_def sval_negative bit_xor_iff)
  have sar: "helper_cc_compute_all (CC_OP SAR s) r src =
      result_status (bits s) r (bit src 0) False (bit src (bits s - 1) \<noteq> bit r (bits s - 1))" for r src
    unfolding helper_cc_compute_all.simps compute_all_sar_def cf
    by (simp add: flag_bits result_status_def status_def sval_negative bit_xor_iff)
  show "helper_cc_compute_all (CC_OP SAR s) (drop_bit k x) (drop_bit (k - 1) x) =
       result_status (bits s) (drop_bit k x) (bit x (k - 1)) False
         (bit (drop_bit (k - 1) x) (bits s - 1) \<noteq> bit (drop_bit k x) (bits s - 1))"
    unfolding sar by (simp add: bit_simps)
  have less: "k - 1 < LENGTH(64)" using k by (cases s) auto
  have "bit (signed_drop_bit (k - 1) x) 0 \<longleftrightarrow> bit x (k - 1)"
    using less by (simp add: bit_signed_drop)
  then show "helper_cc_compute_all (CC_OP SAR s) (signed_drop_bit k x) (signed_drop_bit (k - 1) x) =
       result_status (bits s) (signed_drop_bit k x) (bit x (k - 1)) False
         (bit (signed_drop_bit (k - 1) x) (bits s - 1) \<noteq> bit (signed_drop_bit k x) (bits s - 1))"
    unfolding sar by simp
qed

section \<open>The carry alone\<close>

lemma flag_and_carry:
  "pf_of r AND CC_C = 0" "zf_of n r AND CC_C = 0" "sf_of (bits s) r AND CC_C = 0" "af_of r AND CC_C = 0"
  "of_of (bits s) r AND CC_C = 0" "push_bit 11 (of_bool ov) AND CC_C = 0" "of_bool c AND CC_C = of_bool c"
  "ucast (x AND ucast CC_C :: u64) AND CC_C = ucast (x AND ucast CC_C)" "ucast (x AND 1 :: u64) AND CC_C = ucast (x AND 1)"
  "0 AND CC_C = 0" "1 AND CC_C = 1"
  by (simp_all add: flag_bits ov_of_bool cc_masks)
    (simp_all add: bit_eq_iff bit_simps)

lemma and_or_carry: "(x OR y) AND CC_C = (x AND CC_C) OR (y AND CC_C)"
  by (rule bit_word_eqI) (auto simp: bit_simps)

text \<open>C31. Where only the carry is needed, the code computes it directly; for every kind of operation and operand
  size this is the carry bit of all the flags. Increments and decrements record a carry of 0 or 1.\<close>

theorem carry_agrees:
  "(\<forall>s. op = CC_OP INC s \<or> op = CC_OP DEC s \<longrightarrow> src = 0 \<or> src = 1) \<Longrightarrow>
    helper_cc_compute_c op dst src = helper_cc_compute_all op dst src AND CC_C"
proof (cases op)
  case (CC_OP k s)
  assume "\<forall>s. op = CC_OP INC s \<or> op = CC_OP DEC s \<longrightarrow> src = 0 \<or> src = 1"
  then have inc: "k = INC \<or> k = DEC \<Longrightarrow> src = 0 \<or> src = 1" using CC_OP by blast
  note defs = compute_all_add_def compute_c_add_def compute_all_adc_def compute_c_adc_def compute_all_sub_def compute_c_sub_def
    compute_all_sbb_def compute_c_sbb_def compute_all_logic_def compute_c_logic_def compute_all_mul_def compute_c_mul_def
    compute_all_inc_def compute_c_inc_def compute_all_dec_def compute_all_shl_def compute_c_shl_def compute_all_sar_def compute_c_sar_def
  show ?thesis
    using inc unfolding CC_OP
    by (cases k) (simp_all only: helper_cc_compute_c.simps helper_cc_compute_all.simps defs Let_def and_or_carry flag_and_carry,
        auto simp: CC_C_def)
qed (simp_all add: compute_all_eflags_def compute_c_eflags_def CC_C_def unsigned_and_eq)

lemma carry_agrees_witness:
  "helper_cc_compute_c (CC_OP INC B) 0 1 = helper_cc_compute_all (CC_OP INC B) 0 1 AND CC_C"
  by (rule carry_agrees) simp

section \<open>The flags register\<close>

text \<open>
  The register is spread over three fields: the control flags, the last operation with its operands, and the
  direction, which is 1 or -1. The fields hold no flag of each other.
\<close>

definition wf_flags :: "CPUX86State \<Rightarrow> bool" where
  "wf_flags env \<longleftrightarrow> ucast (mflags env) AND (CFLAGS_MASK OR DF_MASK) = 0 \<and> cc_all env AND NOT CFLAGS_MASK = 0 \<and>
     (df env = 1 \<or> df env = - 1)"

lemma MFLAGS_rest: "MFLAGS_MASK = NOT (CFLAGS_MASK OR DF_MASK)"
  by (simp add: MFLAGS_MASK_def CFLAGS_MASK_def DF_MASK_def cc_masks)

lemma direction_bit: "(if v AND DF_MASK \<noteq> 0 then - 1 else 1) AND DF_MASK = v AND DF_MASK" for v :: u32
  using and_power [of v 10] by (simp add: DF_MASK_def push_bit_eq_mult)

lemma low_and_scast: "ucast (x AND scast y :: u64) = (ucast x AND y :: u32)"
  by (rule bit_word_eqI) (simp add: bit_simps)

lemma low_or: "ucast (x OR y :: u64) = (ucast x OR ucast y :: u32)"
  by (rule bit_word_eqI) (auto simp: bit_simps)

lemma low_scast: "ucast (scast y :: u64) = (y :: u32)"
  by (rule bit_word_eqI) (simp add: bit_simps)

lemma low_ucast: "ucast (ucast y :: u64) = (y :: u32)"
  by (rule bit_word_eqI) (simp add: bit_simps)

lemma direction_64: "v AND scast DF_MASK \<noteq> 0 \<longleftrightarrow> ucast v AND DF_MASK \<noteq> (0 :: u32)" for v :: u64
  using and_power [of v 10] and_power [of "ucast v :: u32" 10] by (simp add: DF_MASK_def push_bit_eq_mult bit_unsigned_iff)

lemmas register_fields = compute_eflags_def cc_all_def compute_all_eflags_def low_and_scast low_or low_scast low_ucast direction_64

lemma set_fields:
  "mflags (cpu_set_eflags env v) = v AND scast MFLAGS_MASK"
  "cc_all (cpu_set_eflags env v) = ucast v AND CFLAGS_MASK"
  "df (cpu_set_eflags env v) = (if ucast v AND DF_MASK \<noteq> (0 :: u32) then - 1 else 1)"
  by (simp_all add: cpu_set_eflags_def cc_all_def compute_all_eflags_def low_and_scast direction_64)

lemma write_fields:
  "mflags (helper_write_eflags env t m) =
     (mflags env AND scast (NOT m)) OR scast (ucast t AND MFLAGS_MASK AND m)"
  "cc_op env = CC_OP_EFLAGS \<Longrightarrow> cc_all (helper_write_eflags env t m) = ucast t AND CFLAGS_MASK"
  "df (helper_write_eflags env t m) = (if ucast t AND DF_MASK \<noteq> 0 then - 1 else 1)"
  by (simp_all add: helper_write_eflags_def load_eflags_def cc_all_def compute_all_eflags_def low_scast)

lemma rest_disjoint:
  fixes x c w :: "'a::len word"
  shows "(x AND NOT w) AND w = 0" "(x AND c) AND NOT c = 0"
  by (rule bit_word_eqI; auto simp: bit_simps)+

lemma written_disjoint:
  fixes e t m w :: "'a::len word"
  assumes "e AND w = 0"
  shows "((e AND NOT m) OR (t AND NOT w AND m)) AND w = 0"
proof (rule bit_word_eqI)
  fix i assume i: "i < LENGTH('a)"
  show "bit (((e AND NOT m) OR (t AND NOT w AND m)) AND w) i \<longleftrightarrow> bit (0 :: 'a word) i"
    using arg_cong [OF assms, of "\<lambda>x. bit x i"] i by (auto simp: bit_simps)
qed

lemma parts_of_word: "(x AND NOT (c OR d)) OR (x AND c) OR (x AND d) OR e = x OR e" for x c d e :: "'a::len word"
  by (rule bit_word_eqI) (auto simp: bit_simps)

lemma parts_written:
  fixes e c d t m f g h :: "'a::len word"
  assumes "e AND (f OR g) = 0" "c AND NOT f = 0"
  shows "((e AND NOT m) OR (t AND NOT (f OR g) AND m)) OR (t AND f) OR (t AND g) OR h =
    ((e OR c OR (d AND g) OR h) AND NOT (m OR f OR g)) OR (t AND (m OR f OR g)) OR h"
proof (rule bit_word_eqI)
  fix i assume i: "i < LENGTH('a)"
  have "\<not> (bit e i \<and> (bit f i \<or> bit g i))" "bit c i \<Longrightarrow> bit f i"
    using arg_cong [OF assms(1), of "\<lambda>w. bit w i"] arg_cong [OF assms(2), of "\<lambda>w. bit w i"] i
    by (auto simp: bit_simps)
  then show "bit (((e AND NOT m) OR (t AND NOT (f OR g) AND m)) OR (t AND f) OR (t AND g) OR h) i \<longleftrightarrow>
    bit (((e OR c OR (d AND g) OR h) AND NOT (m OR f OR g)) OR (t AND (m OR f OR g)) OR h) i"
    using i by (auto simp: bit_simps)
qed

text \<open>C32. The flags register reads back as it was written, with the constant bit 1 set: a full load replaces all
  flags, an instruction that writes it under a mask replaces the status flags, the direction and the masked control flags and
  keeps the rest. Collecting the flags into the operand of the last operation leaves the register unchanged.\<close>

theorem eflags_read_back:
  "compute_eflags (cpu_set_eflags env v) = ucast v OR 2 \<and>
   compute_eflags (helper_set_cc_op_eflags env) = compute_eflags env \<and>
   (wf_flags env \<and> cc_op env = CC_OP_EFLAGS \<longrightarrow>
      compute_eflags (helper_write_eflags env t m) =
        (let w = m OR CFLAGS_MASK OR DF_MASK in (compute_eflags env AND NOT w) OR (ucast t AND w) OR 2))"
proof (intro conjI impI)
  show "compute_eflags (cpu_set_eflags env v) = ucast v OR 2"
    unfolding compute_eflags_def set_fields direction_bit low_and_scast MFLAGS_rest by (rule parts_of_word)
  show "compute_eflags (helper_set_cc_op_eflags env) = compute_eflags env"
    by (simp add: helper_set_cc_op_eflags_def register_fields Let_def)
  assume env: "wf_flags env \<and> cc_op env = CC_OP_EFLAGS"
  then show "compute_eflags (helper_write_eflags env t m) =
      (let w = m OR CFLAGS_MASK OR DF_MASK in (compute_eflags env AND NOT w) OR (ucast t AND w) OR 2)"
    unfolding compute_eflags_def Let_def write_fields(1,3) write_fields(2) [OF conjunct2 [OF env]] direction_bit low_or
      low_scast low_and_scast MFLAGS_rest
    by (intro parts_written) (simp_all add: wf_flags_def)
qed


section \<open>Rotation through the carry\<close>

text \<open>The operand extended by the carry flag on top, bit by bit.\<close>

definition extended :: "cc_size \<Rightarrow> CPUX86State \<Rightarrow> u64 \<Rightarrow> nat \<Rightarrow> bool" where
  "extended s env t i = (if i < bits s then bit t i else bit (cc_all env) 0)"

definition shift_count :: "cc_size \<Rightarrow> u64 \<Rightarrow> nat" where
  "shift_count s t1 = unat (take_bit (if s = Q then 6 else 5) t1)"

lemma rc_tables:
  "k < 32 \<Longrightarrow> rclb_table ! k = k mod 9" "k < 32 \<Longrightarrow> rclw_table ! k = k mod 17"
proof -
  have "rclb_table = map (\<lambda>k. k mod 9) [0..<32]" "rclw_table = map (\<lambda>k. k mod 17) [0..<32]"
    by (simp_all add: rclb_table_def rclw_table_def upt_rec)
  then show "rclb_table ! k = k mod 9" and "rclw_table ! k = k mod 17" if "k < 32" for k
    using that by (metis (no_types, lifting) add_0 diff_zero length_upt nth_map nth_upt)+
qed

lemma rc_count_mod: "rc_count s t1 = shift_count s t1 mod (bits s + 1)"
proof -
  have masks: "t1 AND 0x1f = take_bit 5 t1" "t1 AND 0x3f = take_bit 6 t1"
    by (simp_all add: take_bit_eq_mask mask_eq_exp_minus_1)
  have "unat (take_bit 5 t1) < 2 ^ 5" "unat (take_bit 6 t1) < 2 ^ 6"
    using take_bit_nat_less_exp [of 5 "unat t1"] take_bit_nat_less_exp [of 6 "unat t1"]
    by (simp_all add: unsigned_take_bit_eq)
  then show ?thesis by (cases s) (simp_all add: rc_count_def shift_count_def masks rc_tables)
qed

lemma rc_count_le: "rc_count s t1 \<le> bits s"
  by (simp add: rc_count_mod less_Suc_eq_le flip: Suc_eq_plus1)

lemma bit_ucast_carry: "bit (ucast (f AND CC_C :: u32) :: u64) i \<longleftrightarrow> i = 0 \<and> bit f 0"
  using and_power [of f 0] by (auto simp: CC_C_def bit_simps)

lemma bit_masked: "bit (t AND DATA_MASK (bits s)) i \<longleftrightarrow> i < bits s \<and> bit t i"
  by (auto simp: DATA_MASK_def bit_simps dest: bit_imp_le_length)

definition rcl_word :: "nat \<Rightarrow> nat \<Rightarrow> u64 \<Rightarrow> u32 \<Rightarrow> u64" where
  "rcl_word n k t f =
     (let res = push_bit k t OR push_bit (k - 1) (ucast (f AND CC_C)) in if k > 1 then res OR drop_bit (n + 1 - k) t else res)"

definition rcr_word :: "nat \<Rightarrow> nat \<Rightarrow> u64 \<Rightarrow> u32 \<Rightarrow> u64" where
  "rcr_word n k t f =
     (let res = drop_bit k t OR push_bit (n - k) (ucast (f AND CC_C)) in if k > 1 then res OR push_bit (n + 1 - k) t else res)"

lemma rcl_word_bit:
  assumes "0 < k" "k \<le> n" "i < n" "n \<le> 64" and top: "\<And>j. bit t j \<Longrightarrow> j < n"
  shows "bit (rcl_word n k t f) i \<longleftrightarrow>
    (if k \<le> i then bit t (i - k) else if i + 1 = k then bit f 0 else bit t (n + 1 - k + i))"
proof -
  have "i < 64" using assms by linarith
  then have "bit (rcl_word n k t f) i \<longleftrightarrow>
      k \<le> i \<and> bit t (i - k) \<or> i + 1 = k \<and> bit f 0 \<or> 1 < k \<and> bit t (n + 1 - k + i)"
    using assms(1) by (auto simp add: rcl_word_def Let_def bit_or_iff bit_push_bit_iff bit_drop_bit_eq bit_ucast_carry)
  moreover have "\<not> bit t (n + 1 - k + i)" if "k \<le> i + 1" using top [of "n + 1 - k + i"] that assms(2) by linarith
  ultimately show ?thesis using assms(1) by (cases "k \<le> i"; cases "i + 1 = k") auto
qed

lemma rcr_word_bit:
  assumes "0 < k" "k \<le> n" "i < n" "n \<le> 64" and top: "\<And>j. bit t j \<Longrightarrow> j < n"
  shows "bit (rcr_word n k t f) i \<longleftrightarrow>
    (if k + i < n then bit t (k + i) else if k + i = n then bit f 0 else bit t (k + i - (n + 1)))"
proof -
  have "i < 64" using assms by linarith
  then have "bit (rcr_word n k t f) i \<longleftrightarrow>
      bit t (k + i) \<or> n - k \<le> i \<and> i - (n - k) = 0 \<and> bit f 0 \<or> 1 < k \<and> n + 1 - k \<le> i \<and> bit t (i - (n + 1 - k))"
    by (simp add: rcr_word_def Let_def bit_or_iff bit_push_bit_iff bit_drop_bit_eq bit_ucast_carry)
  moreover have "\<not> bit t (k + i)" if "n \<le> k + i" using top [of "k + i"] that by linarith
  moreover have "i - (n + 1 - k) = k + i - (n + 1)" using assms(2) by simp
  ultimately show ?thesis using assms(1-3) by (cases "k + i < n"; cases "k + i = n") auto
qed

text \<open>The flags both rotations leave in \<open>cc_tmp\<close>: the carry, and whether the sign changed.\<close>

definition rc_flags :: "nat \<Rightarrow> u32 \<Rightarrow> u64 \<Rightarrow> u64 \<Rightarrow> u64" where
  "rc_flags n f x c =
     scast (f AND NOT (CC_C OR CC_O)) OR (lshift x (11 - (int n - 1)) AND ucast CC_O) OR (c AND ucast CC_C)"

lemma rc_flags_bits:
  "bit (rc_flags (bits s) f x c) 0 \<longleftrightarrow> bit c 0"
  "bit (rc_flags (bits s) f x c) 11 \<longleftrightarrow> bit x (bits s - 1)"
proof -
  show "bit (rc_flags (bits s) f x c) 0 \<longleftrightarrow> bit c 0"
    by (simp add: rc_flags_def CC_C_def CC_O_def bit_or_iff bit_and_iff bit_signed_iff bit_not_iff)
  have "bit (lshift x (11 - (int (bits s) - 1))) 11 \<longleftrightarrow> bit x (bits s - 1)"
    by (cases s) (simp_all add: bit_lshift)
  then show "bit (rc_flags (bits s) f x c) 11 \<longleftrightarrow> bit x (bits s - 1)"
    by (simp add: rc_flags_def CC_C_def CC_O_def bit_or_iff bit_and_iff bit_signed_iff bit_not_iff)
qed

lemma helper_rc_words:
  fixes t0 t1 s
  defines "k \<equiv> rc_count s t1" and "t \<equiv> t0 AND DATA_MASK (bits s)"
  assumes "k \<noteq> 0"
  shows "helper_rcl s env t0 t1 = (let r = rcl_word (bits s) k t (cc_all env) in
      (r, env\<lparr>cc_tmp := rc_flags (bits s) (cc_all env) (t XOR r) (drop_bit (bits s - k) t)\<rparr>))"
    and "helper_rcr s env t0 t1 = (let r = rcr_word (bits s) k t (cc_all env) in
      (r, env\<lparr>cc_tmp := rc_flags (bits s) (cc_all env) (t XOR r) (drop_bit (k - 1) t)\<rparr>))"
  using assms(3) unfolding k_def t_def helper_rcl_def helper_rcr_def rcl_word_def rcr_word_def rc_flags_def Let_def
  by (simp_all only: if_True simp_thms)

lemma rotated_index:
  fixes n q i :: nat
  assumes "0 < q" "q \<le> n" "i \<le> n"
  shows "(i + (n + 1 - q)) mod (n + 1) = (if q \<le> i then i - q else n + 1 - q + i)"
    and "(i + q) mod (n + 1) = (if q + i \<le> n then q + i else q + i - (n + 1))"
proof -
  show "(i + (n + 1 - q)) mod (n + 1) = (if q \<le> i then i - q else n + 1 - q + i)"
  proof (cases "q \<le> i")
    case True
    then have "i + (n + 1 - q) = (i - q) + (n + 1)" using assms by linarith
    then show ?thesis using True assms by (simp only: mod_add_self2) simp
  next
    case False
    then have "i + (n + 1 - q) < n + 1" using assms by linarith
    then show ?thesis using False by (simp only: mod_less) simp
  qed
  show "(i + q) mod (n + 1) = (if q + i \<le> n then q + i else q + i - (n + 1))"
    using assms by (simp add: le_mod_geq add.commute)
qed

text \<open>The rotated bits of the extended operand, for a count that is not zero.\<close>

lemma extended_index:
  fixes t0 :: u64
  assumes "0 < q" "q \<le> bits s"
  defines "t \<equiv> t0 AND DATA_MASK (bits s)"
  shows "i < bits s \<Longrightarrow> bit (rcl_word (bits s) q t (cc_all env)) i \<longleftrightarrow> extended s env t0 ((i + (bits s + 1 - q)) mod (bits s + 1))"
    and "i < bits s \<Longrightarrow> bit (rcr_word (bits s) q t (cc_all env)) i \<longleftrightarrow> extended s env t0 ((i + q) mod (bits s + 1))"
    and "bit (drop_bit (bits s - q) t) 0 \<longleftrightarrow> extended s env t0 ((bits s + (bits s + 1 - q)) mod (bits s + 1))"
    and "bit (drop_bit (q - 1) t) 0 \<longleftrightarrow> extended s env t0 ((bits s + q) mod (bits s + 1))"
proof -
  note idx = rotated_index [OF assms(1,2)]
  have top: "bit t j \<longleftrightarrow> j < bits s \<and> bit t0 j" for j by (simp add: t_def bit_masked)
  show "bit (rcl_word (bits s) q t (cc_all env)) i \<longleftrightarrow> extended s env t0 ((i + (bits s + 1 - q)) mod (bits s + 1))" if "i < bits s"
    unfolding idx(1) [OF less_imp_le [OF that]]
    using rcl_word_bit [OF assms(1,2) that bits_pos(2), of t "cc_all env"] that assms(1,2)
    by (auto simp: top extended_def)
  show "bit (rcr_word (bits s) q t (cc_all env)) i \<longleftrightarrow> extended s env t0 ((i + q) mod (bits s + 1))" if "i < bits s"
    unfolding idx(2) [OF less_imp_le [OF that]]
    using rcr_word_bit [OF assms(1,2) that bits_pos(2), of t "cc_all env"] that assms(1,2)
    by (auto simp: top extended_def)
  show "bit (drop_bit (bits s - q) t) 0 \<longleftrightarrow> extended s env t0 ((bits s + (bits s + 1 - q)) mod (bits s + 1))"
    unfolding idx(1) [OF order.refl] bit_drop_bit_eq using assms(1,2) by (simp add: top extended_def)
  show "bit (drop_bit (q - 1) t) 0 \<longleftrightarrow> extended s env t0 ((bits s + q) mod (bits s + 1))"
    unfolding idx(2) [OF order.refl] bit_drop_bit_eq using assms(1,2) by (auto simp: top extended_def)
qed

text \<open>C34. Rotation through the carry. The operand with the carry flag above it is a number of one bit more than the operand
  size. \<open>rcl\<close> rotates it left and \<open>rcr\<close> right by the count, taken modulo its length: every bit of the result and the new carry
  flag are the bits of that number the rotation moves there, and the overflow flag says that the sign changed. Where the
  rotation is by nothing, the flags are marked as unchanged.\<close>

theorem rotation_through_carry:
  "i < bits s \<Longrightarrow>
    let N = bits s + 1; k = shift_count s t1; X = extended s env t0; (l, env_l) = helper_rcl s env t0 t1;
        (r, env_r) = helper_rcr s env t0 t1
    in (bit l i \<longleftrightarrow> X ((i + (N - k mod N)) mod N)) \<and> (bit r i \<longleftrightarrow> X ((i + k) mod N)) \<and>
       (if k mod N = 0 then cc_tmp env_l = - 1 \<and> cc_tmp env_r = - 1
        else (bit (cc_tmp env_l) 0 \<longleftrightarrow> X ((bits s + (N - k mod N)) mod N)) \<and>
             (bit (cc_tmp env_r) 0 \<longleftrightarrow> X ((bits s + k) mod N)) \<and>
             (bit (cc_tmp env_l) 11 \<longleftrightarrow> bit t0 (bits s - 1) \<noteq> bit l (bits s - 1)) \<and>
             (bit (cc_tmp env_r) 11 \<longleftrightarrow> bit t0 (bits s - 1) \<noteq> bit r (bits s - 1)))"
proof -
  assume i: "i < bits s"
  define q where "q = rc_count s t1"
  have q: "shift_count s t1 mod (bits s + 1) = q" "q \<le> bits s" by (simp_all add: q_def rc_count_mod flip: rc_count_le)
  have idx: "(j + shift_count s t1) mod (bits s + 1) = (j + q) mod (bits s + 1)" for j
    unfolding q(1) [symmetric] by (rule mod_add_right_eq [symmetric])
  show ?thesis
  proof (cases "q = 0")
    case True
    then have "helper_rcl s env t0 t1 = (t0, env\<lparr>cc_tmp := - 1\<rparr>)" "helper_rcr s env t0 t1 = (t0, env\<lparr>cc_tmp := - 1\<rparr>)"
      by (simp_all add: helper_rcl_def helper_rcr_def q_def)
    moreover have "(i + (bits s + 1 - q)) mod (bits s + 1) = i" "(i + q) mod (bits s + 1) = i"
      using i True by (simp_all only: diff_zero mod_add_self2 add_0_right mod_less)
    ultimately show ?thesis unfolding Let_def q(1) idx using i True by (simp add: extended_def)
  next
    case False
    then have pos: "0 < q" by simp
    note words = helper_rc_words [where s = s and ?t1.0 = t1 and ?t0.0 = t0, folded q_def, OF False]
    show ?thesis
      unfolding words Let_def split q(1) idx
      using i False by (simp add: extended_index [OF pos q(2), simplified] rc_flags_bits bit_masked bit_xor_iff)
  qed
qed

section \<open>Concrete states\<close>

definition some_cpu :: CPUX86State where
  "some_cpu = \<lparr>regs_eax = 0, regs_edx = 0, cc_op = CC_OP_EFLAGS, cc_src = 1, cc_dst = 0, cc_tmp = 0, df = 1, mflags = 0x200\<rparr>"

lemma wf_some_cpu: "wf_flags some_cpu"
  by (simp add: wf_flags_def some_cpu_def cc_all_def compute_all_eflags_def CFLAGS_MASK_def DF_MASK_def cc_masks)

lemma logic_mul_shift_flags_witness:
  "helper_cc_compute_all (CC_OP SHL B) (push_bit 1 0x81) (push_bit (1 - 1) 0x81) =
    result_status 8 (push_bit 1 0x81) True False (bit (push_bit (1 - 1) 0x81 :: u64) 7 \<noteq> bit (push_bit 1 0x81 :: u64) 7)"
  using logic_mul_shift_flags [where s = B and k = 1 and x = "0x81"] by simp

lemma eflags_read_back_witness:
  "compute_eflags (helper_write_eflags some_cpu 0x4d5 0x100) =
    (let w = 0x100 OR CFLAGS_MASK OR DF_MASK in (compute_eflags some_cpu AND NOT w) OR (ucast (0x4d5 :: u64) AND w) OR 2)"
  using eflags_read_back [of some_cpu 0 "0x4d5" "0x100"] wf_some_cpu by (simp add: some_cpu_def)


lemma rotation_through_carry_witness:
  "bit (fst (helper_rcl B some_cpu 0x40 1)) 0 \<longleftrightarrow> extended B some_cpu 0x40 8"
  using rotation_through_carry [of 0 B 1 some_cpu "0x40"]
  by (simp add: shift_count_def Let_def split: prod.splits)

end
