(* ===== verification/X86Arith.thy ===== *)
theory X86Arith
  imports X86FlagsSpec TcgRuntime
begin

text \<open>
  The arithmetic helpers of the emulated x86 processor (\<^verbatim>\<open>libcpu/src/target-i386/op_helper.c\<close>): division, decimal
  adjustment, 64-bit multiplication and division, and bit scans. A helper changes the state, raises an exception
  of the processor, or has undefined behaviour in C, where the emulator itself may trap.
\<close>

section \<open>Outcomes\<close>

datatype outcome = Done CPUX86State | Raise nat | Undef

definition EXCP00_DIVZ :: nat where "EXCP00_DIVZ = 0"

text \<open>Quotient and remainder of signed integers in C: undefined for the divisor zero and where the quotient overflows.\<close>

definition c_divmod :: "'a::len word \<Rightarrow> 'a word \<Rightarrow> ('a word \<times> 'a word) option" where
  "c_divmod x y =
     (if y = 0 \<or> (sint x = - (2 ^ (LENGTH('a) - 1)) \<and> y = - 1) then None else Some (sdiv_word x y, smod_word x y))"

section \<open>Division\<close>

definition helper_divb_AL :: "CPUX86State \<Rightarrow> u64 \<Rightarrow> outcome" where
  "helper_divb_AL env t0 =
     (let num = ucast (regs_eax env AND 0xffff) :: u32;
          den = ucast (t0 AND 0xff) :: u32
      in if den = 0 then Raise EXCP00_DIVZ
         else let q = num div den
              in if q > 0xff then Raise EXCP00_DIVZ
                 else let q = q AND 0xff; r = (num mod den) AND 0xff
                      in Done (env\<lparr>regs_eax := (regs_eax env AND NOT 0xffff) OR ucast (push_bit 8 r) OR ucast q\<rparr>))"

definition helper_idivb_AL :: "CPUX86State \<Rightarrow> u64 \<Rightarrow> outcome" where
  "helper_idivb_AL env t0 =
     (let num = scast (ucast (regs_eax env) :: u16) :: u32;
          den = scast (ucast t0 :: u8) :: u32
      in if den = 0 then Raise EXCP00_DIVZ
         else case c_divmod num den of None \<Rightarrow> Undef
              | Some (q, r) \<Rightarrow>
                  if q \<noteq> scast (ucast q :: u8) then Raise EXCP00_DIVZ
                  else let q = q AND 0xff; r = r AND 0xff
                       in Done (env\<lparr>regs_eax := (regs_eax env AND NOT 0xffff) OR scast (push_bit 8 r) OR scast q\<rparr>))"

definition helper_divw_AX :: "CPUX86State \<Rightarrow> u64 \<Rightarrow> outcome" where
  "helper_divw_AX env t0 =
     (let num = ucast ((regs_eax env AND 0xffff) OR push_bit 16 (regs_edx env AND 0xffff)) :: u32;
          den = ucast (t0 AND 0xffff) :: u32
      in if den = 0 then Raise EXCP00_DIVZ
         else let q = num div den
              in if q > 0xffff then Raise EXCP00_DIVZ
                 else let q = q AND 0xffff; r = (num mod den) AND 0xffff
                      in Done (env\<lparr>regs_eax := (regs_eax env AND NOT 0xffff) OR ucast q,
                                   regs_edx := (regs_edx env AND NOT 0xffff) OR ucast r\<rparr>))"

definition helper_idivw_AX :: "CPUX86State \<Rightarrow> u64 \<Rightarrow> outcome" where
  "helper_idivw_AX env t0 =
     (let num = ucast ((regs_eax env AND 0xffff) OR push_bit 16 (regs_edx env AND 0xffff)) :: u32;
          den = scast (ucast t0 :: u16) :: u32
      in if den = 0 then Raise EXCP00_DIVZ
         else case c_divmod num den of None \<Rightarrow> Undef
              | Some (q, r) \<Rightarrow>
                  if q \<noteq> scast (ucast q :: u16) then Raise EXCP00_DIVZ
                  else let q = q AND 0xffff; r = r AND 0xffff
                       in Done (env\<lparr>regs_eax := (regs_eax env AND NOT 0xffff) OR scast q,
                                    regs_edx := (regs_edx env AND NOT 0xffff) OR scast r\<rparr>))"

definition helper_divl_EAX :: "CPUX86State \<Rightarrow> u64 \<Rightarrow> outcome" where
  "helper_divl_EAX env t0 =
     (let num = ucast (ucast (regs_eax env) :: u32) OR push_bit 32 (ucast (ucast (regs_edx env) :: u32)) :: u64;
          den = ucast t0 :: u32
      in if den = 0 then Raise EXCP00_DIVZ
         else let q = num div ucast den; r = ucast (num mod ucast den) :: u32
              in if q > 0xffffffff then Raise EXCP00_DIVZ
                 else Done (env\<lparr>regs_eax := ucast (ucast q :: u32), regs_edx := ucast r\<rparr>))"

definition helper_idivl_EAX :: "CPUX86State \<Rightarrow> u64 \<Rightarrow> outcome" where
  "helper_idivl_EAX env t0 =
     (let num = ucast (ucast (regs_eax env) :: u32) OR push_bit 32 (ucast (ucast (regs_edx env) :: u32)) :: u64;
          den = ucast t0 :: u32
      in if den = 0 then Raise EXCP00_DIVZ
         else case c_divmod num (scast den) of None \<Rightarrow> Undef
              | Some (q, r) \<Rightarrow>
                  if q \<noteq> scast (ucast q :: u32) then Raise EXCP00_DIVZ
                  else Done (env\<lparr>regs_eax := ucast (ucast q :: u32), regs_edx := ucast (ucast r :: u32)\<rparr>))"

section \<open>Decimal adjustment\<close>

text \<open>The base of \<open>aam\<close> and \<open>aad\<close> is a byte of the instruction, so that the products do not overflow.\<close>

definition helper_aam :: "CPUX86State \<Rightarrow> u32 \<Rightarrow> outcome" where
  "helper_aam env base =
     (let al = ucast (regs_eax env AND 0xff) :: u32
      in case c_divmod al base of None \<Rightarrow> Undef
         | Some (ah, al) \<Rightarrow>
             Done (env\<lparr>regs_eax := (regs_eax env AND NOT 0xffff) OR scast al OR scast (push_bit 8 ah), cc_dst := scast al\<rparr>))"

definition helper_aad :: "CPUX86State \<Rightarrow> u32 \<Rightarrow> CPUX86State" where
  "helper_aad env base =
     (let al = ucast (regs_eax env AND 0xff) :: u32;
          ah = ucast (drop_bit 8 (regs_eax env) AND 0xff) :: u32;
          al = ((ah * base) + al) AND 0xff
      in env\<lparr>regs_eax := (regs_eax env AND NOT 0xffff) OR scast al, cc_dst := scast al\<rparr>)"

definition helper_aaa :: "CPUX86State \<Rightarrow> CPUX86State" where
  "helper_aaa env =
     (let eflags = cc_all env;
          af = eflags AND CC_A;
          al = ucast (regs_eax env AND 0xff) :: u32;
          ah = ucast (drop_bit 8 (regs_eax env) AND 0xff) :: u32;
          icarry = of_bool (al > 0xf9);
          (al, ah, eflags) =
            (if al AND 0x0f > 9 \<or> af \<noteq> 0 then ((al + 6) AND 0x0f, (ah + 1 + icarry) AND 0xff, eflags OR (CC_C OR CC_A))
             else (al AND 0x0f, ah, eflags AND NOT (CC_C OR CC_A)))
      in env\<lparr>regs_eax := (regs_eax env AND NOT 0xffff) OR scast al OR scast (push_bit 8 ah), cc_src := scast eflags\<rparr>)"

definition helper_aas :: "CPUX86State \<Rightarrow> CPUX86State" where
  "helper_aas env =
     (let eflags = cc_all env;
          af = eflags AND CC_A;
          al = ucast (regs_eax env AND 0xff) :: u32;
          ah = ucast (drop_bit 8 (regs_eax env) AND 0xff) :: u32;
          icarry = of_bool (al < 6);
          (al, ah, eflags) =
            (if al AND 0x0f > 9 \<or> af \<noteq> 0 then ((al - 6) AND 0x0f, (ah - 1 - icarry) AND 0xff, eflags OR (CC_C OR CC_A))
             else (al AND 0x0f, ah, eflags AND NOT (CC_C OR CC_A)))
      in env\<lparr>regs_eax := (regs_eax env AND NOT 0xffff) OR scast al OR scast (push_bit 8 ah), cc_src := scast eflags\<rparr>)"

definition helper_daa :: "CPUX86State \<Rightarrow> CPUX86State" where
  "helper_daa env =
     (let eflags = cc_all env;
          cf = eflags AND CC_C;
          af = eflags AND CC_A;
          al = ucast (regs_eax env AND 0xff) :: u32;
          old_al = al;
          eflags = 0;
          (al, eflags) = (if al AND 0x0f > 9 \<or> af \<noteq> 0 then ((al + 6) AND 0xff, eflags OR CC_A) else (al, eflags));
          (al, eflags) = (if old_al > 0x99 \<or> cf \<noteq> 0 then ((al + 0x60) AND 0xff, eflags OR CC_C) else (al, eflags));
          eflags = eflags OR push_bit 6 (of_bool (al = 0));
          eflags = eflags OR parity_table ! unat al;
          eflags = eflags OR (al AND 0x80)
      in env\<lparr>regs_eax := (regs_eax env AND NOT 0xff) OR scast al, cc_src := scast eflags\<rparr>)"

definition helper_das :: "CPUX86State \<Rightarrow> CPUX86State" where
  "helper_das env =
     (let eflags = cc_all env;
          cf = eflags AND CC_C;
          af = eflags AND CC_A;
          al = ucast (regs_eax env AND 0xff) :: u32;
          eflags = 0;
          al1 = al;
          (al, eflags) =
            (if al AND 0x0f > 9 \<or> af \<noteq> 0
             then ((al - 6) AND 0xff, if al < 6 \<or> cf \<noteq> 0 then (eflags OR CC_A) OR CC_C else eflags OR CC_A)
             else (al, eflags));
          (al, eflags) = (if al1 > 0x99 \<or> cf \<noteq> 0 then ((al - 0x60) AND 0xff, eflags OR CC_C) else (al, eflags));
          eflags = eflags OR push_bit 6 (of_bool (al = 0));
          eflags = eflags OR parity_table ! unat al;
          eflags = eflags OR (al AND 0x80)
      in env\<lparr>regs_eax := (regs_eax env AND NOT 0xff) OR scast al, cc_src := scast eflags\<rparr>)"

section \<open>Multiplication and division of 64 bits\<close>

definition add128 :: "u64 \<Rightarrow> u64 \<Rightarrow> u64 \<Rightarrow> u64 \<Rightarrow> u64 \<times> u64" where
  "add128 plow phigh a b =
     (let plow = plow + a;
          phigh = (if plow < a then phigh + 1 else phigh)
      in (plow, phigh + b))"

definition neg128 :: "u64 \<Rightarrow> u64 \<Rightarrow> u64 \<times> u64" where
  "neg128 plow phigh = add128 (NOT plow) (NOT phigh) 1 0"

text \<open>The loop over the bits of the dividend: the iterations left, \<^verbatim>\<open>a0\<close> and \<^verbatim>\<open>a1\<close>.\<close>

fun div64_loop :: "nat \<Rightarrow> u64 \<Rightarrow> u64 \<Rightarrow> u64 \<Rightarrow> u64 \<times> u64" where
  "div64_loop 0 b a0 a1 = (a0, a1)"
| "div64_loop (Suc i) b a0 a1 =
     (let ab = drop_bit 63 a1;
          a1 = push_bit 1 a1 OR drop_bit 63 a0;
          (a1, qb) = (if ab \<noteq> 0 \<or> a1 \<ge> b then (a1 - b, 1) else (a1, 0))
      in div64_loop i b (push_bit 1 a0 OR qb) a1)"

definition div64 :: "u64 \<Rightarrow> u64 \<Rightarrow> u64 \<Rightarrow> (bool \<times> u64 \<times> u64) res" where
  "div64 plow phigh b =
     (if phigh = 0 then
        if b = 0 then Inl Undefined else Inr (False, plow div b, plow mod b)
      else if phigh \<ge> b then Inr (True, plow, phigh)
      else let (a0, a1) = div64_loop 64 b plow phigh in Inr (False, a0, a1))"

definition idiv64 :: "u64 \<Rightarrow> u64 \<Rightarrow> u64 \<Rightarrow> (bool \<times> u64 \<times> u64) res" where
  "idiv64 plow phigh b =
     (let sa = (sint phigh < 0);
          (plow, phigh) = (if sa then neg128 plow phigh else (plow, phigh));
          sb = (sint b < 0)
      in if sb \<and> b = push_bit 63 1 then Inl Undefined
         else let b = (if sb then - b else b)
              in bind_res (div64 plow phigh b) (\<lambda>(overflow, plow, phigh).
                   if overflow then Inr (True, plow, phigh)
                   else if sa \<noteq> sb then
                     if plow > push_bit 63 1 then Inr (True, plow, phigh)
                     else Inr (False, - plow, if sa then - phigh else phigh)
                   else
                     if plow \<ge> push_bit 63 1 then Inr (True, plow, phigh)
                     else Inr (False, plow, if sa then - phigh else phigh)))"

definition helper_mulq_EAX_T0 :: "CPUX86State \<Rightarrow> u64 \<Rightarrow> CPUX86State" where
  "helper_mulq_EAX_T0 env t0 =
     (let (r0, r1) = mulu64 (regs_eax env) t0
      in env\<lparr>regs_eax := r0, regs_edx := r1, cc_dst := r0, cc_src := r1\<rparr>)"

definition helper_imulq_EAX_T0 :: "CPUX86State \<Rightarrow> u64 \<Rightarrow> CPUX86State" where
  "helper_imulq_EAX_T0 env t0 =
     (let (r0, r1) = muls64 (regs_eax env) t0
      in env\<lparr>regs_eax := r0, regs_edx := r1, cc_dst := r0, cc_src := of_bool (r1 \<noteq> signed_drop_bit 63 r0)\<rparr>)"

definition helper_imulq_T0_T1 :: "CPUX86State \<Rightarrow> u64 \<Rightarrow> u64 \<Rightarrow> u64 \<times> CPUX86State" where
  "helper_imulq_T0_T1 env t0 t1 =
     (let (r0, r1) = muls64 t0 t1
      in (r0, env\<lparr>cc_dst := r0, cc_src := of_bool (r1 \<noteq> signed_drop_bit 63 r0)\<rparr>))"

definition helper_divq_EAX :: "CPUX86State \<Rightarrow> u64 \<Rightarrow> outcome" where
  "helper_divq_EAX env t0 =
     (if t0 = 0 then Raise EXCP00_DIVZ
      else case div64 (regs_eax env) (regs_edx env) t0 of Inl _ \<Rightarrow> Undef
           | Inr (overflow, r0, r1) \<Rightarrow>
               if overflow then Raise EXCP00_DIVZ else Done (env\<lparr>regs_eax := r0, regs_edx := r1\<rparr>))"

definition helper_idivq_EAX :: "CPUX86State \<Rightarrow> u64 \<Rightarrow> outcome" where
  "helper_idivq_EAX env t0 =
     (if t0 = 0 then Raise EXCP00_DIVZ
      else case idiv64 (regs_eax env) (regs_edx env) t0 of Inl _ \<Rightarrow> Undef
           | Inr (overflow, r0, r1) \<Rightarrow>
               if overflow then Raise EXCP00_DIVZ else Done (env\<lparr>regs_eax := r0, regs_edx := r1\<rparr>))"

section \<open>Bit scans\<close>

text \<open>The loops end only for operands that are not zero.\<close>

partial_function (option) bsf_loop :: "u64 \<Rightarrow> int \<Rightarrow> int option" where
  "bsf_loop r count = (if r AND 1 = 0 then bsf_loop (drop_bit 1 r) (count + 1) else Some count)"

definition helper_bsf :: "u64 \<Rightarrow> u64 option" where
  "helper_bsf t0 = map_option word_of_int (bsf_loop t0 0)"

partial_function (option) lzcnt_loop :: "u64 \<Rightarrow> int \<Rightarrow> int option" where
  "lzcnt_loop r count = (if r AND push_bit 63 1 = 0 then lzcnt_loop (push_bit 1 r) (count - 1) else Some count)"

definition helper_lzcnt :: "u64 \<Rightarrow> int \<Rightarrow> u64 option" where
  "helper_lzcnt t0 wordsize =
     (if wordsize > 0 \<and> t0 = 0 then Some (word_of_int wordsize)
      else map_option (\<lambda>count. word_of_int (if wordsize > 0 then wordsize - 1 - count else count)) (lzcnt_loop t0 63))"

definition helper_bsr :: "u64 \<Rightarrow> u64 option" where
  "helper_bsr t0 = helper_lzcnt t0 0"

end
