(* ===== verification/X86ArithSpec.thy ===== *)
theory X86ArithSpec
  imports X86Arith
begin

text \<open>
  What the arithmetic helpers of \<open>X86Arith\<close> compute: quotient and remainder of the double-width dividend in the
  accumulator, with the divide error exactly where the quotient does not fit, decimal sums and differences, and the
  positions of bits.
\<close>

section \<open>Unsigned division\<close>

text \<open>The dividend is in \<open>ax\<close>, or in the two registers; quotient and remainder go to the two halves of \<open>ax\<close> or
  to the two registers.\<close>

definition dividend :: "cc_size \<Rightarrow> CPUX86State \<Rightarrow> int" where
  "dividend s env =
     (case s of B \<Rightarrow> uval 16 (regs_eax env)
      | _ \<Rightarrow> uval (bits s) (regs_edx env) * 2 ^ bits s + uval (bits s) (regs_eax env))"

definition set_quotient :: "cc_size \<Rightarrow> CPUX86State \<Rightarrow> int \<Rightarrow> int \<Rightarrow> CPUX86State" where
  "set_quotient s env q r =
     (case s of
        B \<Rightarrow> env\<lparr>regs_eax := (regs_eax env AND NOT 0xffff) OR word_of_int (r * 256 + q)\<rparr>
      | W \<Rightarrow> env\<lparr>regs_eax := (regs_eax env AND NOT 0xffff) OR word_of_int q,
                regs_edx := (regs_edx env AND NOT 0xffff) OR word_of_int r\<rparr>
      | _ \<Rightarrow> env\<lparr>regs_eax := word_of_int q, regs_edx := word_of_int r\<rparr>)"

definition helper_div :: "cc_size \<Rightarrow> CPUX86State \<Rightarrow> u64 \<Rightarrow> outcome" where
  "helper_div s = (case s of B \<Rightarrow> helper_divb_AL | W \<Rightarrow> helper_divw_AX | L \<Rightarrow> helper_divl_EAX | Q \<Rightarrow> helper_divq_EAX)"

definition helper_idiv :: "cc_size \<Rightarrow> CPUX86State \<Rightarrow> u64 \<Rightarrow> outcome" where
  "helper_idiv s = (case s of B \<Rightarrow> helper_idivb_AL | W \<Rightarrow> helper_idivw_AX | L \<Rightarrow> helper_idivl_EAX | Q \<Rightarrow> helper_idivq_EAX)"

definition unsigned_quotient :: "cc_size \<Rightarrow> CPUX86State \<Rightarrow> u64 \<Rightarrow> outcome" where
  "unsigned_quotient s env t0 =
     (let n = bits s; x = dividend s env; y = uval n t0
      in if y = 0 \<or> 2 ^ n \<le> x div y then Raise EXCP00_DIVZ else Done (set_quotient s env (x div y) (x mod y)))"

lemma low_masks:
  "x AND 0xff = take_bit 8 x" "x AND 0xffff = take_bit 16 x" for x :: "'a::len word"
  by (simp_all add: take_bit_eq_mask mask_eq_exp_minus_1)

lemma uint_low: "uint (take_bit n x) = uval n x"
  by (simp add: uval_def unsigned_take_bit_eq)

lemma uint_low_32: "n \<le> 32 \<Longrightarrow> uint (ucast (take_bit n x) :: u32) = uval n x"
  by (simp add: uval_def unsigned_ucast_eq unsigned_take_bit_eq min_def)

lemma take_bit_id: "uint w < 2 ^ n \<Longrightarrow> take_bit n w = w" for w :: "'a::len word"
  by (simp add: word_uint_eq_iff unsigned_take_bit_eq take_bit_int_eq_self)

lemma push_or_uint:
  fixes x y :: "'a::len word"
  assumes "uint x < 2 ^ n"
  shows "uint (push_bit n y OR x) = (uint y * 2 ^ n + uint x) mod 2 ^ LENGTH('a)"
proof -
  have "unat x < 2 ^ n" using assms by (metis (mono_tags, lifting) of_nat_less_iff of_nat_numeral of_nat_power uint_nat)
  then show ?thesis
    unfolding uint_nat by (simp only: unat_or_push_mod of_nat_mod of_nat_add of_nat_mult of_nat_power of_nat_numeral)
qed

lemma word_of_int_eqI: "uint w = k \<Longrightarrow> w = word_of_int k" for w :: "'a::len word"
  by auto

lemma joined_less:
  "uval n y * 2 ^ n + uval n x < 2 ^ (n + n)" "0 \<le> uval n y * 2 ^ n + uval n x"
proof -
  have "uval n y * 2 ^ n \<le> (2 ^ n - 1) * 2 ^ n" using uval_bounds [of n y] by (intro mult_right_mono) auto
  then show "uval n y * 2 ^ n + uval n x < 2 ^ (n + n)" using uval_bounds [of n x] by (simp add: left_diff_distrib power_add)
  show "0 \<le> uval n y * 2 ^ n + uval n x" using uval_bounds by simp
qed

lemma uint_joined:
  fixes x y :: u64
  assumes "n + n \<le> 64"
  shows "uint (take_bit n x OR push_bit n (take_bit n y)) = uval n y * 2 ^ n + uval n x"
proof -
  have "(2 :: int) ^ (n + n) \<le> 2 ^ 64" using assms by (intro power_increasing) simp_all
  then have "uval n y * 2 ^ n + uval n x < 2 ^ 64" using joined_less(1) [of n y x] by linarith
  then show ?thesis using push_or_uint [of "take_bit n x" n "take_bit n y"] joined_less(2) [of n y x]
    by (simp add: uint_low uval_bounds or.commute)
qed

lemma uint_joined_32:
  "uint (ucast (take_bit 16 x OR push_bit 16 (take_bit 16 y)) :: u32) = uval 16 y * 2 ^ 16 + uval 16 x" for x y :: u64
  using joined_less [of 16 y x] uint_joined [of 16 x y] by (simp add: unsigned_ucast_eq take_bit_int_eq_self)

lemma uint_wide: "uint (ucast w :: u64) = uint w" for w :: u32
  unfolding uint_nat by (simp add: unat_ucast_up)

lemma mod_uval_less: "uval n t \<noteq> 0 \<Longrightarrow> x mod uval n t < 2 ^ n"
  using uval_bounds [of n t] less_trans [OF pos_mod_bound [of "uval n t" x]] by simp

lemma bytes_joined:
  fixes q r :: u32
  assumes "uint q < 256" "uint r < 256"
  shows "ucast (push_bit 8 r) OR ucast q = (word_of_int (uint r * 256 + uint q) :: u64)"
proof (rule word_of_int_eqI)
  have "ucast (push_bit 8 r) = (push_bit 8 (ucast r) :: u64)"
  proof (rule bit_word_eqI)
    fix i
    have "take_bit 8 r = r" using take_bit_id [of r 8] assms(2) by simp
    then have "j < 8" if "bit r j" for j using that by (metis bit_take_bit_iff)
    then have "i < 32" if "8 \<le> i" "bit r (i - 8)" using that by fastforce
    then show "bit (ucast (push_bit 8 r) :: u64) i \<longleftrightarrow> bit (push_bit 8 (ucast r) :: u64) i"
      by (auto simp: bit_simps)
  qed
  then show "uint (ucast (push_bit 8 r) OR ucast q :: u64) = uint r * 256 + uint q"
    using push_or_uint [of "ucast q :: u64" 8 "ucast r"] assms by (simp add: uint_wide)
qed

lemma int_le_succ: "k < x \<longleftrightarrow> k + 1 \<le> x" for x k :: int
  by linarith

lemma divb_value: "helper_divb_AL env t0 = unsigned_quotient B env t0"
proof -
  let ?num = "ucast (take_bit 16 (regs_eax env)) :: u32" and ?den = "ucast (take_bit 8 t0) :: u32"
  let ?x = "uval 16 (regs_eax env)" and ?y = "uval 8 t0"
  have v: "uint ?num = ?x" "uint ?den = ?y" by (simp_all add: uint_low_32)
  have den: "?den = 0 \<longleftrightarrow> ?y = 0" by (simp add: word_uint_eq_iff v)
  have qr: "uint (?num div ?den) = ?x div ?y" "uint (?num mod ?den) = ?x mod ?y" by (simp_all add: uint_div uint_mod v)
  have q: "?num div ?den > 0xff \<longleftrightarrow> 2 ^ 8 \<le> ?x div ?y"
    by (simp add: word_less_def qr int_le_succ)
  have "ucast (push_bit 8 (take_bit 8 (?num mod ?den))) OR ucast (take_bit 8 (?num div ?den)) =
      (word_of_int (?x mod ?y * 256 + ?x div ?y) :: u64)"
    if "?x div ?y < 256" "?y \<noteq> 0"
  proof -
    have "?x mod ?y < 256" using mod_uval_less [OF that(2), of ?x] by simp
    then show ?thesis using that bytes_joined [of "?num div ?den" "?num mod ?den"] by (simp add: qr take_bit_id)
  qed
  then show ?thesis
    unfolding helper_divb_AL_def unsigned_quotient_def low_masks Let_def den q
    by (auto simp: dividend_def set_quotient_def)
qed

lemma divw_value: "helper_divw_AX env t0 = unsigned_quotient W env t0"
proof -
  let ?num = "ucast (take_bit 16 (regs_eax env) OR push_bit 16 (take_bit 16 (regs_edx env))) :: u32"
  let ?den = "ucast (take_bit 16 t0) :: u32"
  let ?x = "uval 16 (regs_edx env) * 2 ^ 16 + uval 16 (regs_eax env)" and ?y = "uval 16 t0"
  have v: "uint ?num = ?x" "uint ?den = ?y" by (simp_all only: uint_joined_32 uint_low_32 numeral_le_iff semiring_norm)
  have den: "?den = 0 \<longleftrightarrow> ?y = 0" by (simp add: word_uint_eq_iff v)
  have qr: "uint (?num div ?den) = ?x div ?y" "uint (?num mod ?den) = ?x mod ?y" by (simp_all only: uint_div uint_mod v)
  have q: "?num div ?den > 0xffff \<longleftrightarrow> 2 ^ 16 \<le> ?x div ?y"
    by (simp only: word_less_def qr int_le_succ) simp
  have "ucast (take_bit 16 (?num div ?den)) = (word_of_int (?x div ?y) :: u64)"
    "ucast (take_bit 16 (?num mod ?den)) = (word_of_int (?x mod ?y) :: u64)"
    if "\<not> 2 ^ 16 \<le> ?x div ?y" "?y \<noteq> 0"
    using that mod_uval_less [OF that(2), of ?x] qr take_bit_id [of "?num div ?den" 16] take_bit_id [of "?num mod ?den" 16]
    by (auto intro!: word_of_int_eqI simp only: uint_wide)
  then show ?thesis
    unfolding helper_divw_AX_def unsigned_quotient_def low_masks Let_def den q
    by (simp only: dividend_def set_quotient_def cc_size.case bits.simps) auto
qed

lemma ucast_32_64: "ucast (ucast x :: u32) = take_bit 32 x" for x :: u64
  by (rule bit_word_eqI) (auto simp: bit_simps)

lemma divl_value: "helper_divl_EAX env t0 = unsigned_quotient L env t0"
proof -
  let ?num = "take_bit 32 (regs_eax env) OR push_bit 32 (take_bit 32 (regs_edx env))"
  let ?x = "uval 32 (regs_edx env) * 2 ^ 32 + uval 32 (regs_eax env)" and ?y = "uval 32 t0"
  have v: "uint ?num = ?x" "uint (take_bit 32 t0) = ?y" by (simp_all only: uint_joined uint_low)
  have den: "(ucast t0 :: u32) = 0 \<longleftrightarrow> ?y = 0" by (simp add: word_uint_eq_iff unsigned_ucast_eq uval_def)
  have qr: "uint (?num div take_bit 32 t0) = ?x div ?y" "uint (?num mod take_bit 32 t0) = ?x mod ?y"
    by (simp_all only: uint_div uint_mod v)
  have q: "?num div take_bit 32 t0 > 0xffffffff \<longleftrightarrow> 2 ^ 32 \<le> ?x div ?y"
    by (simp only: word_less_def qr int_le_succ) simp
  have "take_bit 32 (?num div take_bit 32 t0) = word_of_int (?x div ?y)" "take_bit 32 (?num mod take_bit 32 t0) = word_of_int (?x mod ?y)"
    if "\<not> 2 ^ 32 \<le> ?x div ?y" "?y \<noteq> 0"
    using that mod_uval_less [OF that(2), of ?x] qr take_bit_id [of "?num div take_bit 32 t0" 32]
      take_bit_id [of "?num mod take_bit 32 t0" 32]
    by (auto intro!: word_of_int_eqI)
  then show ?thesis
    unfolding helper_divl_EAX_def unsigned_quotient_def Let_def den q ucast_32_64
    by (simp only: dividend_def set_quotient_def cc_size.case bits.simps) auto
qed

lemma div64_loop_eq: "div64_loop i b a0 a1 = (case divu128_loop i b a1 a0 of (hi, lo) \<Rightarrow> (lo, hi))"
  by (induction i arbitrary: a0 a1) (simp_all add: Let_def)

text \<open>The quotient and remainder of the 128-bit number, where the quotient has 64 bits.\<close>

lemma div64_value:
  assumes "b \<noteq> 0"
  shows "div64 lo hi b =
    (if uint b \<le> uint hi then Inr (True, lo, hi)
     else let x = uint hi * 2 ^ 64 + uint lo in Inr (False, word_of_int (x div uint b), word_of_int (x mod uint b)))"
proof (cases "hi < b")
  case False
  then have "b \<le> hi" by simp
  moreover from this have "hi \<noteq> 0" using assms by auto
  ultimately show ?thesis by (simp add: div64_def word_le_def)
next
  case True
  have val: "int (val128 (lo, hi)) = uint hi * 2 ^ 64 + uint lo" by (simp add: val128_def)
  have "div64 lo hi b = Inr (False, of_nat (val128 (lo, hi) div unat b), of_nat (val128 (lo, hi) mod unat b))"
  proof (cases "hi = 0")
    case z: True
    have "lo div b = of_nat (unat lo div unat b)" "lo mod b = of_nat (unat lo mod unat b)"
      using of_nat_unat_self [of "lo div b"] of_nat_unat_self [of "lo mod b"] by (simp_all only: unat_div unat_mod)
    then show ?thesis using assms z by (simp add: div64_def val128_def)
  next
    case nz: False
    have "divu128_loop 64 b hi lo = (of_nat (val128 (lo, hi) mod unat b), of_nat (val128 (lo, hi) div unat b))"
      using divu128_loop_values [of hi b 64 lo "unat lo" 0] True by (simp add: val128_def word_less_nat_alt)
    then show ?thesis using nz True by (simp add: div64_def div64_loop_eq)
  qed
  moreover have "of_nat (val128 (lo, hi) div unat b) = (word_of_int (int (val128 (lo, hi)) div uint b) :: u64)"
    "of_nat (val128 (lo, hi) mod unat b) = (word_of_int (int (val128 (lo, hi)) mod uint b) :: u64)"
    by (simp_all only: uint_nat zdiv_int [symmetric] zmod_int [symmetric] of_int_of_nat_eq)
  ultimately show ?thesis using True by (simp add: val Let_def word_less_def)
qed

lemma uval_64 [simp]: "uval 64 x = uint x"
  using uint_bounded [of x] by (simp add: uval_def take_bit_int_eq_self)

lemma le_div_iff: "0 < y \<Longrightarrow> m \<le> z div y \<longleftrightarrow> m * y \<le> z" for m y z :: int
proof
  assume y: "0 < y"
  show "m * y \<le> z" if "m \<le> z div y"
    using mult_right_mono [OF that, of y] y div_mult_mod_eq [of z y] pos_mod_sign [OF y, of z] by linarith
  show "m \<le> z div y" if "m * y \<le> z" using zdiv_mono1 [OF that y] y by simp
qed

lemma quotient_overflow:
  fixes hi lo y m :: int
  assumes "0 < y" "0 \<le> lo" "lo < m"
  shows "m \<le> (hi * m + lo) div y \<longleftrightarrow> y \<le> hi"
proof -
  have "m \<le> (hi * m + lo) div y \<longleftrightarrow> m * y \<le> hi * m + lo" using assms(1) by (rule le_div_iff)
  also have "\<dots> \<longleftrightarrow> y \<le> hi"
  proof
    assume "m * y \<le> hi * m + lo"
    then have "m * (y - hi) < m * 1" using assms(3) by (simp add: algebra_simps)
    then show "y \<le> hi" using assms by (simp only: mult_less_cancel_left) linarith
  next
    assume "y \<le> hi"
    then have "m * y \<le> m * hi" using assms by (intro mult_left_mono) simp_all
    then show "m * y \<le> hi * m + lo" using assms(2) by (simp add: mult.commute)
  qed
  finally show ?thesis .
qed

lemma uint_positive: "w \<noteq> 0 \<Longrightarrow> 0 < uint w" for w :: "'a::len word"
  using uint_nonnegative [of w] by (simp add: order.strict_iff_order word_uint_eq_iff)

lemma divq_value: "helper_divq_EAX env t0 = unsigned_quotient Q env t0"
proof (cases "t0 = 0")
  case False
  then have "2 ^ 64 \<le> (uint (regs_edx env) * 2 ^ 64 + uint (regs_eax env)) div uint t0 \<longleftrightarrow> uint t0 \<le> uint (regs_edx env)"
    using uint_bounded [of "regs_eax env"] by (intro quotient_overflow uint_positive) simp_all
  then show ?thesis using False
    unfolding helper_divq_EAX_def unsigned_quotient_def dividend_def set_quotient_def cc_size.case bits.simps uval_64 Let_def
    by (subst div64_value) (auto simp: Let_def)
qed (simp add: helper_divq_EAX_def unsigned_quotient_def)

text \<open>C35. Unsigned division at every operand size: the divide error is raised exactly when the divisor is zero or
  the quotient of the double-width dividend has more bits than the operand, and otherwise the quotient and the
  remainder are exact and in the right registers.\<close>

theorem unsigned_division: "helper_div s env t0 = unsigned_quotient s env t0"
  by (cases s) (simp_all add: helper_div_def divb_value divw_value divl_value divq_value)

section \<open>Signed division\<close>

text \<open>The states in which the division is undefined in C: the one quotient of two integers that overflows, and for 64
  bits the divisor whose negation does.\<close>

definition undefined_division :: "cc_size \<Rightarrow> int \<Rightarrow> int \<Rightarrow> bool" where
  "undefined_division s x y =
     (case s of B \<Rightarrow> False | Q \<Rightarrow> y = - (2 ^ 63) | _ \<Rightarrow> x = - (2 ^ (2 * bits s - 1)) \<and> y = - 1)"

definition signed_quotient :: "cc_size \<Rightarrow> CPUX86State \<Rightarrow> u64 \<Rightarrow> outcome" where
  "signed_quotient s env t0 =
     (let n = bits s; x = signed_take_bit (2 * n - 1) (dividend s env); y = sval n t0
      in if y = 0 then Raise EXCP00_DIVZ
         else if undefined_division s x y then Undef
         else if \<not> fits n (x sdiv y) then Raise EXCP00_DIVZ
         else Done (set_quotient s env (take_bit n (x sdiv y)) (take_bit n (x smod y))))"

lemma c_divmod_value:
  fixes x y :: "'a::len word"
  shows "c_divmod x y =
    (if sint y = 0 \<or> (sint x = - (2 ^ (LENGTH('a) - 1)) \<and> sint y = - 1) then None else Some (sdiv_word x y, smod_word x y))"
proof -
  have "sint y = 0 \<longleftrightarrow> y = 0" "sint y = - 1 \<longleftrightarrow> y = - 1"
    by (simp add: signed_eq_0_iff) (metis signed_minus_1 signed_word_eqI)
  then show ?thesis by (simp add: c_divmod_def)
qed

lemma narrow_iff_fits:
  fixes q :: "'a::len word"
  assumes "LENGTH('b) \<le> LENGTH('a)"
  shows "q \<noteq> scast (ucast q :: 'b::len word) \<longleftrightarrow> \<not> fits LENGTH('b) (sint q)"
proof -
  have "sint (scast (ucast q :: 'b word) :: 'a word) = signed_take_bit (LENGTH('b) - 1) (sint q)"
    unfolding signed_scast_eq [where 'a = int] signed_ucast_eq [where 'a = int] sint_uint [of q] signed_take_bit_signed_take_bit using assms
    by (simp add: min_def)
  then have "q = scast (ucast q :: 'b word) \<longleftrightarrow> signed_take_bit (LENGTH('b) - 1) (sint q) = sint q"
    by (metis signed_word_eqI)
  then show ?thesis by (auto simp: fits_def signed_take_bit_int_eq_self_iff)
qed

lemma scast_small: "uint w < 2 ^ 31 \<Longrightarrow> scast w = (ucast w :: u64)" for w :: u32
proof -
  assume "uint w < 2 ^ 31"
  then have "sint w = uint w"
    using signed_take_bit_int_eq_self [of 31 "uint w"] uint_nonnegative [of w] by (simp add: sint_uint)
  then show ?thesis by (metis scast_eq ucast_eq)
qed

lemma divided:
  fixes x y :: "'a::len word"
  assumes "LENGTH('b) \<le> LENGTH('a)" "sint y \<noteq> 0"
  shows "(case c_divmod x y of None \<Rightarrow> Undef | Some (q, r) \<Rightarrow> if q \<noteq> scast (ucast q :: 'b::len word) then e else f q r) =
    (if sint x = - (2 ^ (LENGTH('a) - 1)) \<and> sint y = - 1 then Undef
     else if \<not> fits LENGTH('b) (sint x sdiv sint y) then e
     else f (word_of_int (sint x sdiv sint y)) (word_of_int (sint x smod sint y)))"
proof (cases "sint x = - (2 ^ (LENGTH('a) - 1)) \<and> sint y = - 1")
  case True
  then show ?thesis by (simp add: c_divmod_value)
next
  case False
  have "y \<noteq> 0" "\<not> (sint x = - (2 ^ (LENGTH('a) - 1)) \<and> y = - 1)" using assms(2) False by auto
  then have q: "sint (sdiv_word x y) = sint x sdiv sint y" by (rule signed_division_fits)
  have c: "c_divmod x y = Some (sdiv_word x y, smod_word x y)" unfolding c_divmod_value using False assms(2) by auto
  show ?thesis
    unfolding if_not_P [OF False] c option.case prod.case narrow_iff_fits [OF assms(1)] q
    by (simp only: sdiv_word_def smod_word_def)
qed

lemma low_word: "n \<le> 32 \<Longrightarrow> uint (take_bit n (word_of_int k :: u32)) = take_bit n k"
  by (simp add: unsigned_take_bit_eq uint_word_of_int_eq min_def)

lemma low_word_64: "n \<le> 16 \<Longrightarrow> scast (take_bit n (word_of_int k :: u32)) = (word_of_int (take_bit n k) :: u64)"
proof -
  assume n: "n \<le> 16"
  have "take_bit n k < 2 ^ n" by simp
  also have "\<dots> \<le> (2 :: int) ^ 16" using n by (intro power_increasing) simp_all
  finally have "uint (take_bit n (word_of_int k :: u32)) < 2 ^ 31" using n by (simp add: low_word)
  then have "scast (take_bit n (word_of_int k :: u32)) = (ucast (take_bit n (word_of_int k :: u32)) :: u64)"
    by (rule scast_small)
  also have "\<dots> = word_of_int (take_bit n k)"
    using n by (intro word_of_int_eqI) (simp add: uint_wide low_word)
  finally show ?thesis .
qed

lemma signed_bytes_joined:
  "scast (push_bit 8 (take_bit 8 (word_of_int r :: u32))) OR scast (take_bit 8 (word_of_int q :: u32)) =
      (word_of_int (take_bit 8 r * 256 + take_bit 8 q) :: u64)"
proof -
  let ?r = "take_bit 8 (word_of_int r :: u32)" and ?q = "take_bit 8 (word_of_int q :: u32)"
  have v: "uint ?q = take_bit 8 q" "uint ?r = take_bit 8 r" by (simp_all add: low_word)
  then have less: "uint ?q < 256" "uint ?r < 256"
    using take_bit_int_less_exp [of 8 q] take_bit_int_less_exp [of 8 r] by simp_all
  have "uint (push_bit 8 ?r) = (uint ?r * 2 ^ 8) mod 2 ^ 32"
    using push_or_uint [of "0 :: u32" 8 ?r] by simp
  then have "uint (push_bit 8 ?r) < 2 ^ 31" using less(2) uint_nonnegative [of ?r] by simp
  then have "scast (push_bit 8 ?r) = (ucast (push_bit 8 ?r) :: u64)" by (rule scast_small)
  moreover have "scast ?q = (ucast ?q :: u64)" using less(1) by (intro scast_small) simp
  ultimately show ?thesis using bytes_joined [OF less] by (simp only: v)
qed

lemma sint_narrow: "sint (scast (ucast t :: 'a::len word) :: 'b::len word) = sval LENGTH('a) t"
  if "LENGTH('a) \<le> LENGTH('b)" for t :: u64
  unfolding signed_scast_eq [where 'a = int] signed_ucast_eq [where 'a = int] signed_take_bit_signed_take_bit using that by (simp add: sval_def min_def)

lemma idivb_value: "helper_idivb_AL env t0 = signed_quotient B env t0"
proof -
  let ?num = "scast (ucast (regs_eax env) :: u16) :: u32" and ?den = "scast (ucast t0 :: u8) :: u32"
  let ?x = "sval 16 (regs_eax env)" and ?y = "sval 8 t0"
  have v: "sint ?num = ?x" "sint ?den = ?y"
    using sint_narrow [where 'a = 16 and 'b = 32, of "regs_eax env"] sint_narrow [where 'a = 8 and 'b = 32, of t0] by simp_all
  have x: "signed_take_bit 15 (uval 16 (regs_eax env)) = ?x"
    by (simp add: uval_def sval_def signed_take_bit_take_bit)
  have small: "?x \<noteq> - (2 ^ 31)"
    using signed_take_bit_int_greater_eq_minus_exp [of 15 "uint (regs_eax env)"] by (simp add: sval_def)
  have joined: "scast (push_bit 8 (take_bit 8 (word_of_int r :: u32))) OR scast (take_bit 8 (word_of_int q :: u32)) =
      (word_of_int (take_bit 8 r * 256 + take_bit 8 q) :: u64)" for q r
    by (rule signed_bytes_joined)
  have y0: "?den = 0 \<longleftrightarrow> ?y = 0" unfolding v(2) [symmetric] by (simp only: signed_eq_0_iff)
  show ?thesis
  proof (cases "?y = 0")
    case True
    then show ?thesis by (simp add: helper_idivb_AL_def signed_quotient_def y0 Let_def)
  next
    case False
    then have den: "sint ?den \<noteq> 0" unfolding v .
    note d = divided [where 'a = 32 and 'b = 8 and x = ?num, OF _ den, unfolded v]
    show ?thesis
      using False small
      unfolding helper_idivb_AL_def signed_quotient_def Let_def low_masks y0
      by (subst d) (simp_all add: joined undefined_division_def dividend_def x set_quotient_def)
  qed
qed

lemma idivw_value: "helper_idivw_AX env t0 = signed_quotient W env t0"
proof -
  let ?num = "ucast (take_bit 16 (regs_eax env) OR push_bit 16 (take_bit 16 (regs_edx env))) :: u32"
  let ?den = "scast (ucast t0 :: u16) :: u32"
  let ?x = "signed_take_bit 31 (uval 16 (regs_edx env) * 2 ^ 16 + uval 16 (regs_eax env))" and ?y = "sval 16 t0"
  have v: "sint ?num = ?x" "sint ?den = ?y"
    using sint_narrow [where 'a = 16 and 'b = 32, of t0] uint_joined_32 [of "regs_eax env" "regs_edx env"]
    by (simp_all add: sint_uint)
  have y0: "?den = 0 \<longleftrightarrow> ?y = 0" unfolding v(2) [symmetric] by (simp only: signed_eq_0_iff)
  show ?thesis
  proof (cases "?y = 0")
    case True
    then show ?thesis by (simp add: helper_idivw_AX_def signed_quotient_def y0 Let_def)
  next
    case False
    then have den: "sint ?den \<noteq> 0" unfolding v .
    note d = divided [where 'a = 32 and 'b = 16 and x = ?num, OF _ den, unfolded v]
    show ?thesis
      using False
      unfolding helper_idivw_AX_def signed_quotient_def Let_def low_masks y0
      by (subst d) (simp_all add: low_word_64 undefined_division_def dividend_def set_quotient_def)
  qed
qed

lemma low_32_of_int: "ucast (ucast (word_of_int k :: u64) :: u32) = (word_of_int (take_bit 32 k) :: u64)"
  unfolding ucast_32_64 by (rule word_of_int_eqI) (simp add: unsigned_take_bit_eq uint_word_of_int_eq)

lemma idivl_value: "helper_idivl_EAX env t0 = signed_quotient L env t0"
proof -
  let ?num = "take_bit 32 (regs_eax env) OR push_bit 32 (take_bit 32 (regs_edx env))"
  let ?den = "scast (ucast t0 :: u32) :: u64"
  let ?x = "signed_take_bit 63 (uval 32 (regs_edx env) * 2 ^ 32 + uval 32 (regs_eax env))" and ?y = "sval 32 t0"
  have v: "sint ?num = ?x" "sint ?den = ?y" "sint (ucast t0 :: u32) = ?y"
    using sint_narrow [where 'a = 32 and 'b = 64, of t0] uint_joined [of 32 "regs_eax env" "regs_edx env"]
      sint_narrow [where 'a = 32 and 'b = 32, of t0]
    by (simp_all add: sint_uint)
  have y0: "(ucast t0 :: u32) = 0 \<longleftrightarrow> ?y = 0" unfolding v(3) [symmetric] by (simp only: signed_eq_0_iff)
  show ?thesis
  proof (cases "?y = 0")
    case True
    then show ?thesis by (simp add: helper_idivl_EAX_def signed_quotient_def y0 Let_def)
  next
    case False
    then have den: "sint ?den \<noteq> 0" unfolding v .
    note d = divided [where 'a = 64 and 'b = 32 and x = ?num, OF _ den, unfolded v]
    show ?thesis
      using False
      unfolding helper_idivl_EAX_def signed_quotient_def Let_def y0 ucast_32_64
      by (subst d) (simp_all add: low_32_of_int [unfolded ucast_32_64] undefined_division_def dividend_def set_quotient_def)
  qed
qed

lemma sdiv_abs: "x sdiv y = (if (x < 0) \<noteq> (y < 0) then - (\<bar>x\<bar> div \<bar>y\<bar>) else \<bar>x\<bar> div \<bar>y\<bar>)" if "y \<noteq> 0" for x y :: int
  using that by (auto simp: signed_divide_int_def sgn_if)

lemma smod_abs: "x smod y = (if x < 0 then - (\<bar>x\<bar> mod \<bar>y\<bar>) else \<bar>x\<bar> mod \<bar>y\<bar>)" for x y :: int
  by (auto simp: signed_modulo_int_def sgn_if)

lemma uint_of_int_64: "0 \<le> k \<Longrightarrow> k < 2 ^ 64 \<Longrightarrow> uint (word_of_int k :: u64) = k"
  by (simp add: uint_word_of_int_eq take_bit_int_eq_self)

lemma uint_u64: "0 \<le> uint w" "uint w < 2 ^ 64" for w :: u64
  using uint_nonnegative [of w] uint_bounded [of w] by simp_all

lemma wrap_64: "(18446744073709551616 :: u64) = 0" "(18446744073709551615 :: u64) = - 1"
  by simp_all

lemma uint_minus_64: "w \<noteq> 0 \<Longrightarrow> uint (- w) = 2 ^ 64 - uint w" for w :: u64
  using uint_of_int_64 [of "2 ^ 64 - uint w"] uint_positive [of w] uint_bounded [of w] by (simp add: wrap_64)

lemma uint_not_64: "uint (- w - 1) = 2 ^ 64 - 1 - uint w" for w :: u64
proof -
  have eq: "- w - 1 = word_of_int (2 ^ 64 - 1 - uint w)" by (simp add: wrap_64)
  show ?thesis unfolding eq by (rule uint_of_int_64) (use uint_u64 [of w] in linarith)+
qed

lemma sint_sign_64:
  fixes w :: u64
  shows "sint w < 0 \<Longrightarrow> uint w = sint w + 2 ^ 64" "\<not> sint w < 0 \<Longrightarrow> uint w = sint w"
  using sint_cases [of w] by simp_all

lemma neg128_value:
  assumes "neg128 lo hi = (l, h)" "hi \<noteq> 0"
  shows "uint h * 2 ^ 64 + uint l = 2 ^ 128 - (uint hi * 2 ^ 64 + uint lo)"
proof (cases "lo = 0")
  case True
  then have "l = 0" "h = - hi" using assms(1) by (simp_all add: neg128_def add128_def Let_def not_eq_complement)
  then show ?thesis using True assms(2) by (simp add: uint_minus_64)
next
  case False
  then have "l = - lo" "h = - hi - 1" using assms(1) by (simp_all add: neg128_def add128_def Let_def not_eq_complement)
  then show ?thesis using False by (simp add: uint_minus_64 uint_not_64)
qed

lemma signed_dividend:
  fixes hi lo :: u64
  shows "signed_take_bit 127 (uint hi * 2 ^ 64 + uint lo) = sint hi * 2 ^ 64 + uint lo"
proof -
  let ?v = "uint hi * 2 ^ 64 + uint lo" and ?x = "sint hi * 2 ^ 64 + uint lo"
  have "?v = ?x + (if sint hi < 0 then 1 else 0) * 2 ^ 128"
    by (cases "sint hi < 0") (simp_all add: sint_sign_64)
  then have "?v mod 2 ^ 128 = ?x mod 2 ^ 128" by (simp only: mod_mult_self1)
  then have "take_bit 128 ?v = take_bit 128 ?x" by (simp only: take_bit_eq_mod)
  then have "signed_take_bit 127 ?v = signed_take_bit 127 ?x" by (simp add: signed_take_bit_eq_iff_take_bit_eq)
  also have "- (2 ^ 63) \<le> sint hi" "sint hi \<le> 2 ^ 63 - 1" using sint_ge [of hi] sint_lt [of hi] by simp_all
  then have "- (2 ^ 127) \<le> ?x" "?x < 2 ^ 127" using uint_u64 [of lo] by (simp_all, use uint_u64 [of lo] in linarith)
  then have "signed_take_bit 127 ?x = ?x" by (rule signed_take_bit_int_eq_self)
  finally show ?thesis .
qed

lemma magnitude_128:
  fixes hi lo :: u64
  assumes "(if sint hi < 0 then neg128 lo hi else (lo, hi)) = (l, h)"
  defines "x \<equiv> sint hi * 2 ^ 64 + uint lo"
  shows "uint h * 2 ^ 64 + uint l = \<bar>x\<bar>" "x < 0 \<longleftrightarrow> sint hi < 0"
proof -
  have "x < 0" if "sint hi < 0"
  proof -
    have "sint hi * 2 ^ 64 \<le> - 1 * 2 ^ 64" using that by (intro mult_right_mono) simp_all
    then show ?thesis using uint_u64(2) [of lo] unfolding x_def by linarith
  qed
  moreover have "0 \<le> x" if "0 \<le> sint hi" unfolding x_def using that by simp
  ultimately show neg: "x < 0 \<longleftrightarrow> sint hi < 0" by linarith
  show "uint h * 2 ^ 64 + uint l = \<bar>x\<bar>"
  proof (cases "sint hi < 0")
    case True
    then have "hi \<noteq> 0" by auto
    then have "uint h * 2 ^ 64 + uint l = 2 ^ 128 - (uint hi * 2 ^ 64 + uint lo)"
      using neg128_value assms(1) True by simp
    then show ?thesis using True neg by (simp add: x_def sint_sign_64)
  next
    case False
    then show ?thesis using assms(1) neg by (simp add: x_def sint_sign_64)
  qed
qed

lemma uint_abs_64:
  fixes b :: u64
  shows "uint (if sint b < 0 then - b else b) = \<bar>sint b\<bar>"
proof (cases "sint b < 0")
  case True
  then have "b \<noteq> 0" by auto
  then show ?thesis using True by (simp add: uint_minus_64 sint_sign_64)
next
  case False
  then show ?thesis by (simp add: sint_sign_64)
qed

lemma idiv64_value:
  fixes hi lo t0 :: u64
  assumes "t0 \<noteq> 0" "t0 \<noteq> push_bit 63 1"
  defines "x \<equiv> sint hi * 2 ^ 64 + uint lo" and "y \<equiv> sint t0"
  shows "if fits 64 (x sdiv y) then idiv64 lo hi t0 = Inr (False, word_of_int (x sdiv y), word_of_int (x smod y))
    else \<exists>l h. idiv64 lo hi t0 = Inr (True, l, h)"
proof -
  obtain l h where lh: "(if sint hi < 0 then neg128 lo hi else (lo, hi)) = (l, h)" by fastforce
  define b where "b = (if sint t0 < 0 then - t0 else t0)"
  have x: "uint h * 2 ^ 64 + uint l = \<bar>x\<bar>" "sint hi < 0 \<longleftrightarrow> x < 0"
    using magnitude_128 [OF lh] by (simp_all add: x_def)
  have b: "uint b = \<bar>y\<bar>" "b \<noteq> 0" using uint_abs_64 [of t0] assms(1) by (simp_all add: b_def y_def)
  then have pos: "0 < uint b" "y \<noteq> 0" using uint_positive [of b] by auto
  define q r where "q = \<bar>x\<bar> div \<bar>y\<bar>" and "r = \<bar>x\<bar> mod \<bar>y\<bar>"
  have big: "uint b \<le> uint h \<longleftrightarrow> 2 ^ 64 \<le> q"
    unfolding q_def x(1) [symmetric] b(1) [symmetric] using pos(1) by (intro quotient_overflow [symmetric]) (use uint_u64 [of l] in auto)
  have div: "div64 l h b = (if 2 ^ 64 \<le> q then Inr (True, l, h) else Inr (False, word_of_int q, word_of_int r))"
    using div64_value [OF b(2), of l h] by (simp only: big x Let_def) (simp only: b q_def r_def)
  have q: "0 \<le> q" using pos(2) by (simp add: q_def pos_imp_zdiv_nonneg_iff)
  have cmp: "word_of_int q > (push_bit 63 1 :: u64) \<longleftrightarrow> 2 ^ 63 < q" "word_of_int q \<ge> (push_bit 63 1 :: u64) \<longleftrightarrow> 2 ^ 63 \<le> q" if "\<not> 2 ^ 64 \<le> q"
    using that q uint_of_int_64 [of q] by (simp_all add: word_less_def word_le_def)
  have sq: "x sdiv y = (if (x < 0) \<noteq> (y < 0) then - q else q)" "x smod y = (if x < 0 then - r else r)"
    using pos(2) by (simp_all add: sdiv_abs smod_abs q_def r_def)
  have eval: "idiv64 lo hi t0 = bind_res (div64 l h b) (\<lambda>(overflow, plow, phigh).
      if overflow then Inr (True, plow, phigh)
      else if (x < 0) \<noteq> (y < 0) then if plow > push_bit 63 1 then Inr (True, plow, phigh) else Inr (False, - plow, if x < 0 then - phigh else phigh)
      else if plow \<ge> push_bit 63 1 then Inr (True, plow, phigh) else Inr (False, plow, if x < 0 then - phigh else phigh))"
    unfolding idiv64_def Let_def lh prod.case unfolding x(2) b_def y_def using assms(2) by simp
  show ?thesis
  proof (cases "2 ^ 64 \<le> q")
    case True
    then have "\<not> fits 64 (x sdiv y)" by (simp add: sq fits_def)
    then show ?thesis using True by (simp add: eval div)
  next
    case False
    then show ?thesis using q cmp [OF False] by (simp add: eval div sq fits_def)
  qed
qed

lemma idivq_value: "helper_idivq_EAX env t0 = signed_quotient Q env t0"
proof -
  have x: "signed_take_bit 127 (dividend Q env) = sint (regs_edx env) * 2 ^ 64 + uint (regs_eax env)"
    using signed_dividend [of "regs_edx env" "regs_eax env"] by (simp add: dividend_def)
  have y: "sval 64 t0 = sint t0" by (simp add: sval_def sint_uint)
  have y0: "sint t0 = 0 \<longleftrightarrow> t0 = 0" by (rule signed_eq_0_iff)
  have least: "sint t0 = - (2 ^ 63) \<longleftrightarrow> t0 = push_bit 63 1"
    using signed_word_eqI [of t0 "push_bit 63 1"] by auto
  consider "t0 = 0" | "t0 = push_bit 63 1" | "t0 \<noteq> 0" "t0 \<noteq> push_bit 63 1" by blast
  then show ?thesis
  proof cases
    case 1
    then show ?thesis by (simp add: helper_idivq_EAX_def signed_quotient_def sval_def Let_def)
  next
    case 2
    then have "idiv64 lo hi t0 = Inl Undefined" for lo hi by (simp add: idiv64_def split: prod.splits)
    moreover have "sval 64 t0 = - (2 ^ 63)" unfolding y using least 2 by blast
    ultimately show ?thesis using 2 by (simp add: helper_idivq_EAX_def signed_quotient_def Let_def undefined_division_def)
  next
    case 3
    then show ?thesis
      using idiv64_value [OF 3, of "regs_edx env" "regs_eax env"] least
      unfolding helper_idivq_EAX_def signed_quotient_def Let_def bits.simps y y0 undefined_division_def
      by (auto simp: x wi_bintr set_quotient_def split: if_splits)
  qed
qed

text \<open>C36. Signed division at every operand size, with quotients rounded towards zero: the divide error is raised exactly
  when the divisor is zero or the quotient is not a signed number of the operand size, and otherwise quotient and
  remainder are exact. The exceptions are operands for which the C code itself is undefined, where the
  processor raises the divide error: the least dividend and the divisor -1 at 16 and 32 bits, and the least divisor at 64 bits.\<close>

theorem signed_division: "helper_idiv s env t0 = signed_quotient s env t0"
  by (cases s) (simp_all add: helper_idiv_def idivb_value idivw_value idivl_value idivq_value)

section \<open>Multiplication\<close>

lemma split_64: "uint (word_of_int (x div 2 ^ 64) :: u64) * 2 ^ 64 + uint (word_of_int x :: u64) = x"
  if "0 \<le> x" "x < 2 ^ 128" for x :: int
proof -
  have "0 \<le> x div 2 ^ 64" "\<not> 2 ^ 64 \<le> x div 2 ^ 64" using that by (simp_all add: le_div_iff)
  then show ?thesis by (simp add: uint_of_int_64 uint_word_of_int_eq take_bit_eq_mod)
qed

lemma sint_range_64: "- (2 ^ 63) \<le> sint w" "sint w < 2 ^ 63" for w :: u64
  using sint_ge [of w] sint_lt [of w] by simp_all

lemma muls64_values:
  assumes "muls64 a b = (l, h)"
  shows "sint h * 2 ^ 64 + uint l = sint a * sint b"
    and "h \<noteq> signed_drop_bit 63 l \<longleftrightarrow> \<not> fits 64 (sint a * sint b)"
proof -
  let ?x = "sint a * sint b"
  have lh: "l = word_of_int ?x" "h = word_of_int (?x div 2 ^ 64)" using assms by (simp_all add: muls64_sint)
  have "- (2 ^ 63) * 2 ^ 64 \<le> ?x" "\<not> 2 ^ 63 * 2 ^ 64 \<le> ?x" using abs_sint_mult [of a b] by simp_all
  then have "- (2 ^ 63) \<le> ?x div 2 ^ 64" "\<not> 2 ^ 63 \<le> ?x div 2 ^ 64" by (simp_all only: le_div_iff zero_less_power zero_less_numeral not_False_eq_True)
  then have h: "sint h = ?x div 2 ^ 64" unfolding lh by (intro sint_word_of_int_small) simp_all
  have "uint l = ?x mod 2 ^ 64" unfolding lh by (simp only: uint_word_of_int_eq take_bit_eq_mod) simp
  then show sum: "sint h * 2 ^ 64 + uint l = ?x" unfolding h by (simp only: div_mult_mod_eq)
  have "sint (signed_drop_bit 63 l) = (if sint l < 0 then - 1 else 0)"
    using sint_range_64 [of l] unfolding sint_signed_drop_bit by (auto intro: int_div_neg_eq int_div_pos_eq)
  then have "h = signed_drop_bit 63 l \<longleftrightarrow> sint h = (if sint l < 0 then - 1 else 0)"
    by (metis signed_word_eqI)
  also have "\<dots> \<longleftrightarrow> ?x = sint l" using sum by (cases "sint l < 0") (auto simp: sint_sign_64)
  also have "\<dots> \<longleftrightarrow> fits 64 ?x"
  proof
    show "fits 64 ?x" if "?x = sint l" unfolding that fits_def using sint_range_64 [of l] by simp
    show "?x = sint l" if "fits 64 ?x"
      unfolding lh using that by (intro sint_word_of_int_small [symmetric]) (simp_all add: fits_def)
  qed
  finally show "h \<noteq> signed_drop_bit 63 l \<longleftrightarrow> \<not> fits 64 ?x" by blast
qed

text \<open>
  The 64-bit multiplications leave the exact 128-bit product in the two registers, unsigned and signed; what
  they record for the carry and overflow flags is not zero exactly when the product does not fit into the lower
  half. The two-operand form keeps the lower half only.\<close>

theorem multiplication_64:
  "(let env' = helper_mulq_EAX_T0 env t0; x = uint (regs_eax env) * uint t0
    in uint (regs_edx env') * 2 ^ 64 + uint (regs_eax env') = x \<and> (cc_src env' \<noteq> 0 \<longleftrightarrow> 2 ^ 64 \<le> x) \<and>
       cc_dst env' = regs_eax env') \<and>
   (let env' = helper_imulq_EAX_T0 env t0; x = sint (regs_eax env) * sint t0
    in sint (regs_edx env') * 2 ^ 64 + uint (regs_eax env') = x \<and> (cc_src env' \<noteq> 0 \<longleftrightarrow> \<not> fits 64 x) \<and>
       cc_dst env' = regs_eax env') \<and>
   (let (r, env') = helper_imulq_T0_T1 env t0 t1; x = sint t0 * sint t1
    in r = word_of_int x \<and> (cc_src env' \<noteq> 0 \<longleftrightarrow> \<not> fits 64 x) \<and> cc_dst env' = r)"
proof -
  let ?x = "uint (regs_eax env) * uint t0"
  have "int (unat (regs_eax env) * unat t0) < int (2 ^ 128)" unfolding of_nat_less_iff by (rule mult_less_u128) simp_all
  then have x: "0 \<le> ?x" "?x < 2 ^ 128" by simp_all
  have "(word_of_int (?x div 2 ^ 64) :: u64) \<noteq> 0 \<longleftrightarrow> 2 ^ 64 \<le> ?x"
  proof -
    have d: "0 \<le> ?x div 2 ^ 64" "\<not> 2 ^ 64 \<le> ?x div 2 ^ 64" using x by (simp_all add: le_div_iff)
    then have "(word_of_int (?x div 2 ^ 64) :: u64) \<noteq> 0 \<longleftrightarrow> ?x div 2 ^ 64 \<noteq> 0"
      using uint_of_int_64 [of "?x div 2 ^ 64"] by (metis not_le unsigned_0 word_of_int_0)
    also have "\<dots> \<longleftrightarrow> 1 \<le> ?x div 2 ^ 64" using d by linarith
    also have "\<dots> \<longleftrightarrow> 2 ^ 64 \<le> ?x" by (simp add: le_div_iff)
    finally show ?thesis .
  qed
  moreover obtain l h where "muls64 (regs_eax env) t0 = (l, h)" by fastforce
  moreover obtain l' h' where "muls64 t0 t1 = (l', h')" by fastforce
  moreover from this have "l' = word_of_int (sint t0 * sint t1)" by (simp add: muls64_sint)
  ultimately show ?thesis
    using split_64 [OF x] muls64_values [of "regs_eax env" t0 l h] muls64_values [of t0 t1 l' h']
    unfolding helper_mulq_EAX_T0_def helper_imulq_EAX_T0_def helper_imulq_T0_T1_def mulu64_uint Let_def
    by simp
qed

section \<open>Bit scans\<close>

lemma and_one_bit_0: "r AND 1 = 0 \<longleftrightarrow> \<not> bit r 0" for r :: u64
  using and_power [of r 0] by simp

lemma bsf_loop_value: "bit r k \<Longrightarrow> (\<And>j. j < k \<Longrightarrow> \<not> bit r j) \<Longrightarrow> bsf_loop r c = Some (c + int k)"
proof (induction k arbitrary: r c)
  case 0
  then show ?case by (subst bsf_loop.simps) (simp only: and_one_bit_0, simp)
next
  case (Suc k)
  have "r AND 1 = 0" using Suc.prems(2) [of 0] by (simp only: and_one_bit_0) simp
  moreover have "bsf_loop (drop_bit 1 r) (c + 1) = Some (c + 1 + int k)"
    using Suc.prems by (intro Suc.IH) (auto simp: bit_drop_bit_eq)
  ultimately show ?case by (subst bsf_loop.simps) simp
qed

lemma bsf_loop_zero: "bsf_loop r c = Some y \<Longrightarrow> r \<noteq> 0"
  by (rule bsf_loop.raw_induct [where P = "\<lambda>r c y. r \<noteq> 0"]) (fastforce split: if_splits)

lemma lzcnt_loop_zero: "lzcnt_loop r c = Some y \<Longrightarrow> r \<noteq> 0"
  by (rule lzcnt_loop.raw_induct [where P = "\<lambda>r c y. r \<noteq> 0"]) (fastforce split: if_splits)

lemma bit_shifted: "bit (push_bit 1 r) j \<longleftrightarrow> 1 \<le> j \<and> j < 64 \<and> bit r (j - 1)" for r :: u64
  unfolding bit_push_bit_iff by simp

lemma lzcnt_loop_value:
  "bit r (63 - k) \<Longrightarrow> k \<le> 63 \<Longrightarrow> (\<And>j. 63 - k < j \<Longrightarrow> \<not> bit r j) \<Longrightarrow> lzcnt_loop r c = Some (c - int k)"
proof (induction k arbitrary: r c)
  case 0
  then have "r AND push_bit 63 1 \<noteq> 0" unfolding and_power by simp
  then show ?case by (subst lzcnt_loop.simps) simp
next
  case (Suc k)
  have "r AND push_bit 63 1 = 0" using Suc.prems(2,3) unfolding and_power by simp
  moreover have "lzcnt_loop (push_bit 1 r) (c - 1) = Some (c - 1 - int k)"
  proof (rule Suc.IH)
    have "63 - k - 1 = 63 - Suc k" "1 \<le> 63 - k" "63 - k < 64" using Suc.prems(2) by linarith+
    then show "bit (push_bit 1 r) (63 - k)" using Suc.prems(1) unfolding bit_shifted by metis
    show "\<not> bit (push_bit 1 r) j" if "63 - k < j" for j
      using that Suc.prems(2) Suc.prems(3) [of "j - 1"] unfolding bit_shifted by linarith
  qed (use Suc.prems(2) in simp)
  ultimately show ?case by (subst lzcnt_loop.simps) simp
qed



end
