(* ===== verification/X86Decimal.thy ===== *)
theory X86Decimal
  imports X86ArithSpec
begin

text \<open>
  Decimal arithmetic with the adjustment helpers: a byte holds two decimal digits, and after the binary addition or
  subtraction of two such bytes the adjustment gives the digits of the decimal result.
\<close>

section \<open>Digits\<close>

definition bcd :: "int \<Rightarrow> int" where
  "bcd x = 16 * (x div 10) + x mod 10"

lemma daa_digits:
  "\<forall>t\<in>{0..18}. \<forall>w\<in>{0..18}.
     let s = 16 * t + w; a = s mod 256; low = (w mod 16 > 9 \<or> w \<ge> 16); high = (a > 153 \<or> s \<ge> 256);
         b = (if low then (a + 6) mod 256 else a); b = (if high then (b + 96) mod 256 else b)
     in b = bcd ((10 * t + w) mod 100) \<and> high = (10 * t + w \<ge> 100)"
  unfolding bcd_def by code_simp

lemma das_digits:
  "\<forall>t\<in>{-9..9}. \<forall>w\<in>{-9..9}.
     let s = 16 * t + w; a = s mod 256; low = (w mod 16 > 9 \<or> w < 0); high = (a > 153 \<or> s < 0);
         b = (if low then (a - 6) mod 256 else a); b = (if high then (b - 96) mod 256 else b)
     in b = bcd ((10 * t + w) mod 100) \<and> (low \<and> (a < 6 \<or> s < 0) \<or> high) = (10 * t + w < 0)"
  unfolding bcd_def by code_simp

lemma bcd_bounds: "0 \<le> x \<Longrightarrow> x < 100 \<Longrightarrow> 0 \<le> bcd x \<and> bcd x < 154"
  unfolding bcd_def by presburger

text \<open>The state after an operation on bytes: the result in \<open>al\<close>, with what the flags are computed from.\<close>

definition after_byte :: "cc_kind \<Rightarrow> CPUX86State \<Rightarrow> u64 \<Rightarrow> u64 \<Rightarrow> CPUX86State" where
  "after_byte k env r b =
     env\<lparr>regs_eax := (regs_eax env AND NOT 0xff) OR take_bit 8 r, cc_op := CC_OP k B, cc_dst := r, cc_src := b\<rparr>"

lemma status_tests:
  "status c p a z s ov AND CC_C \<noteq> 0 \<longleftrightarrow> c" "status c p a z s ov AND CC_A \<noteq> 0 \<longleftrightarrow> a"
  unfolding status_def cc_masks by (cases c; cases p; cases a; cases z; cases s; cases ov; simp)+

lemma low_byte:
  fixes w v :: u32
  shows "uint (w AND 0xff) = uint w mod 256" "uint ((w + v) AND 0xff) = (uint w + uint v) mod 256"
    "uint ((w - v) AND 0xff) = (uint w - uint v) mod 256" "uint (w AND 0x0f) = uint w mod 16"
proof -
  have m: "w AND 0xff = take_bit 8 w" "w AND 0x0f = take_bit 4 w" for w :: u32
    by (simp_all add: take_bit_eq_mask mask_eq_exp_minus_1)
  show w: "uint (w AND 0xff) = uint w mod 256" for w :: u32
    unfolding m unsigned_take_bit_eq by (simp only: take_bit_eq_mod) simp
  show "uint (w AND 0x0f) = uint w mod 16" unfolding m unsigned_take_bit_eq by (simp only: take_bit_eq_mod) simp
  show "uint ((w + v) AND 0xff) = (uint w + uint v) mod 256" "uint ((w - v) AND 0xff) = (uint w - uint v) mod 256"
    unfolding w uint_word_ariths by (simp_all add: mod_mod_cancel)
qed

lemma low_byte_set: "uval 8 ((e AND NOT 0xff) OR x) = uval 8 x" for e x :: u64
proof -
  have m: "(0xff :: u64) = mask 8" by (simp add: mask_eq_exp_minus_1)
  have "take_bit 8 ((e AND NOT 0xff) OR x) = take_bit 8 x"
    unfolding m by (rule bit_word_eqI) (auto simp: bit_simps)
  then show ?thesis by (metis uint_low)
qed

lemma al_after: "uint (ucast (regs_eax (after_byte k env r b) AND 0xff) :: u32) = uval 8 r"
proof -
  have "uval 8 (take_bit 8 r) = uval 8 r" by (simp add: uval_def unsigned_take_bit_eq)
  then show ?thesis by (simp add: after_byte_def low_masks(1) [of "_ OR _"] uint_low_32 low_byte_set)
qed

lemma set_al: "uint w < 256 \<Longrightarrow> uval 8 ((e AND NOT 0xff) OR scast w) = uint w" for w :: u32 and e :: u64
  unfolding low_byte_set by (simp add: scast_small uval_def uint_wide take_bit_int_eq_self)

lemma parity_entry: "k < 256 \<Longrightarrow> \<not> bit (parity_table ! k) 0"
  by (simp add: parity_entries CC_P_def)

section \<open>The adjustments as functions of the byte and the flags\<close>

lemma bit_flags_word:
  fixes al e :: u32
  assumes "uint al < 256"
  shows "bit (scast (((e OR push_bit 6 (of_bool z)) OR parity_table ! unat al) OR (al AND 0x80)) :: u64) 0 \<longleftrightarrow> bit e 0"
proof -
  have "unat al < 256" using assms uint_nat [of al] by linarith
  moreover have "\<not> bit (push_bit 6 (of_bool z) :: u32) 0" "\<not> bit (al AND 0x80) 0" by (simp_all add: bit_and_iff)
  ultimately show ?thesis using parity_entry [of "unat al"] by (simp add: bit_signed_iff bit_or_iff)
qed

lemma daa_value:
  fixes env :: CPUX86State
  defines "a \<equiv> uint (ucast (regs_eax env AND 0xff) :: u32)"
  defines "low \<equiv> a mod 16 > 9 \<or> cc_all env AND CC_A \<noteq> 0" and "high \<equiv> a > 153 \<or> cc_all env AND CC_C \<noteq> 0"
  defines "b \<equiv> if low then (a + 6) mod 256 else a"
  shows "uval 8 (regs_eax (helper_daa env)) = (if high then (b + 96) mod 256 else b)"
    and "bit (cc_src (helper_daa env)) 0 \<longleftrightarrow> high"
proof -
  define al :: u32 where "al = ucast (regs_eax env AND 0xff)"
  define w1 where "w1 = (if low then (al + 6) AND 0xff else al)"
  define w2 where "w2 = (if high then (w1 + 0x60) AND 0xff else w1)"
  define e where "e = (if high then (if low then 0 OR CC_A else 0) OR CC_C else if low then 0 OR CC_A else 0)"
  have tests: "al AND 0x0f > 9 \<longleftrightarrow> a mod 16 > 9" "al > 0x99 \<longleftrightarrow> a > 153"
    by (simp_all add: word_less_def low_byte a_def al_def)
  have eval: "helper_daa env = env\<lparr>regs_eax := (regs_eax env AND NOT 0xff) OR scast w2,
      cc_src := scast (((e OR push_bit 6 (of_bool (w2 = 0))) OR parity_table ! unat w2) OR (w2 AND 0x80))\<rparr>"
    unfolding helper_daa_def Let_def al_def [symmetric] tests low_def [symmetric] high_def [symmetric] w2_def w1_def e_def
    by (cases low; cases high) simp_all
  have "a < 256" using uval_bounds(2) [of 8 "regs_eax env"] by (simp add: a_def low_masks uint_low_32)
  have b: "uint w1 = b" by (simp add: w1_def b_def low_byte(2) a_def al_def)
  have w: "uint w2 = (if high then (b + 96) mod 256 else b)" by (simp add: w2_def low_byte(2) b)
  have less: "uint w2 < 256" using \<open>a < 256\<close> by (simp add: w b_def)
  show "uval 8 (regs_eax (helper_daa env)) = (if high then (b + 96) mod 256 else b)"
    unfolding eval using set_al [OF less, of "regs_eax env"] w by simp
  have "bit (cc_src (helper_daa env)) 0 \<longleftrightarrow> bit e 0" unfolding eval using bit_flags_word [OF less] by simp
  also have "\<dots> \<longleftrightarrow> high" by (simp add: e_def CC_A_def CC_C_def)
  finally show "bit (cc_src (helper_daa env)) 0 \<longleftrightarrow> high" .
qed

lemma das_value:
  fixes env :: CPUX86State
  defines "a \<equiv> uint (ucast (regs_eax env AND 0xff) :: u32)"
  defines "cf \<equiv> cc_all env AND CC_C \<noteq> 0"
  defines "low \<equiv> a mod 16 > 9 \<or> cc_all env AND CC_A \<noteq> 0" and "high \<equiv> a > 153 \<or> cf"
  defines "b \<equiv> if low then (a - 6) mod 256 else a"
  shows "uval 8 (regs_eax (helper_das env)) = (if high then (b - 96) mod 256 else b)"
    and "bit (cc_src (helper_das env)) 0 \<longleftrightarrow> low \<and> (a < 6 \<or> cf) \<or> high"
proof -
  define al :: u32 where "al = ucast (regs_eax env AND 0xff)"
  define w1 where "w1 = (if low then (al - 6) AND 0xff else al)"
  define w2 where "w2 = (if high then (w1 - 0x60) AND 0xff else w1)"
  define e1 where "e1 = (if low then if a < 6 \<or> cf then (0 OR CC_A) OR CC_C else 0 OR CC_A else 0)"
  define e where "e = (if high then e1 OR CC_C else e1)"
  have tests: "al AND 0x0f > 9 \<longleftrightarrow> a mod 16 > 9" "al > 0x99 \<longleftrightarrow> a > 153" "al < 6 \<longleftrightarrow> a < 6"
    by (simp_all add: word_less_def low_byte a_def al_def)
  have eval: "helper_das env = env\<lparr>regs_eax := (regs_eax env AND NOT 0xff) OR scast w2,
      cc_src := scast (((e OR push_bit 6 (of_bool (w2 = 0))) OR parity_table ! unat w2) OR (w2 AND 0x80))\<rparr>"
    unfolding helper_das_def Let_def al_def [symmetric] tests cf_def [symmetric] low_def [symmetric] high_def [symmetric]
      w2_def w1_def e_def e1_def
    by (cases low; cases high) simp_all
  have "a < 256" using uval_bounds(2) [of 8 "regs_eax env"] by (simp add: a_def low_masks uint_low_32)
  have b: "uint w1 = b" by (simp add: w1_def b_def low_byte(3) a_def al_def)
  have w: "uint w2 = (if high then (b - 96) mod 256 else b)" by (simp add: w2_def low_byte(3) b)
  have less: "uint w2 < 256" using \<open>a < 256\<close> by (simp add: w b_def)
  show "uval 8 (regs_eax (helper_das env)) = (if high then (b - 96) mod 256 else b)"
    unfolding eval using set_al [OF less, of "regs_eax env"] w by simp
  have "bit (cc_src (helper_das env)) 0 \<longleftrightarrow> bit e 0" unfolding eval using bit_flags_word [OF less] by simp
  also have "\<dots> \<longleftrightarrow> low \<and> (a < 6 \<or> cf) \<or> high" by (simp add: e_def e1_def CC_A_def CC_C_def)
  finally show "bit (cc_src (helper_das env)) 0 \<longleftrightarrow> low \<and> (a < 6 \<or> cf) \<or> high" .
qed

section \<open>Decimal addition and subtraction\<close>

lemma bcd_values:
  assumes "0 \<le> x" "x < 100"
  shows "uval 8 (word_of_int (bcd x)) = bcd x" "uval 4 (word_of_int (bcd x)) = x mod 10"
proof -
  have "bcd x < 256" "0 \<le> bcd x" using bcd_bounds [OF assms] by simp_all
  then show "uval 8 (word_of_int (bcd x)) = bcd x"
    by (simp add: uval_def uint_of_int_64 take_bit_int_eq_self)
  show "uval 4 (word_of_int (bcd x)) = x mod 10"
    using bcd_bounds [OF assms] by (simp add: uval_def uint_of_int_64) (simp add: bcd_def take_bit_eq_mod)
qed

lemma uval_sum_mod: "n \<le> 64 \<Longrightarrow> uval n (a + b) = (uval n a + uval n b) mod 2 ^ n" "n \<le> 64 \<Longrightarrow> uval n (a - b) = (uval n a - uval n b) mod 2 ^ n"
proof -
  assume "n \<le> 64"
  then have "(2 :: int) ^ n dvd 18446744073709551616" using le_imp_power_dvd [of n 64 "2 :: int"] by simp
  then show "uval n (a + b) = (uval n a + uval n b) mod 2 ^ n" "uval n (a - b) = (uval n a - uval n b) mod 2 ^ n"
    by (simp_all add: uval_def uint_word_ariths take_bit_eq_mod mod_mod_cancel mod_simps)
qed

lemma mod_16_256: "(16 * t + w) mod 256 mod 16 = w mod (16 :: int)"
proof -
  have "(16 * t + w) mod 256 mod 16 = (16 * t + w) mod 16" by (rule mod_mod_cancel) simp
  then show ?thesis by simp
qed

lemma digits_of_two:
  fixes x :: int
  assumes "0 \<le> x" "x < 100"
  shows "x = 10 * (x div 10) + x mod 10" "0 \<le> x div 10" "x div 10 \<le> 9" "0 \<le> x mod 10" "x mod 10 \<le> 9"
  using assms by presburger+

lemma decimal_sum:
  fixes env :: CPUX86State
  assumes x: "0 \<le> x" "x < 100" and y: "0 \<le> y" "y < 100"
  defines "a \<equiv> word_of_int (bcd x)" and "b \<equiv> word_of_int (bcd y)"
  defines "env' \<equiv> helper_daa (after_byte ADD env (a + b) b)"
  shows "uval 8 (regs_eax env') = bcd ((x + y) mod 100)" "bit (cc_src env') 0 \<longleftrightarrow> 100 \<le> x + y"
proof -
  define t w where "t = x div 10 + y div 10" and "w = x mod 10 + y mod 10"
  have tw: "t \<in> {0..18}" "w \<in> {0..18}"
    using digits_of_two [OF x] digits_of_two [OF y] by (auto simp: t_def w_def)
  have xy: "x + y = 10 * t + w"
    unfolding t_def w_def by presburger
  have s: "bcd x + bcd y = 16 * t + w" by (simp add: bcd_def t_def w_def)
  note v = bcd_values [OF x, folded a_def] bcd_values [OF y, folded b_def]
  have all: "cc_all (after_byte ADD env (a + b) b) = sum_status 8 a b 0"
    using add_sub_flags [of B a b] by (simp add: cc_all_def after_byte_def)
  have al: "uint (ucast (regs_eax (after_byte ADD env (a + b) b) AND 0xff) :: u32) = (16 * t + w) mod 256"
    unfolding al_after using uval_sum_mod(1) [of 8 a b] v s by simp
  have flags: "cc_all (after_byte ADD env (a + b) b) AND CC_A \<noteq> 0 \<longleftrightarrow> 16 \<le> w" "cc_all (after_byte ADD env (a + b) b) AND CC_C \<noteq> 0 \<longleftrightarrow> 256 \<le> 16 * t + w"
    unfolding all sum_status_def result_status_def status_tests using v s by (simp_all add: w_def)
  note d = daa_digits [rule_format, OF tw, unfolded Let_def]
  note r = daa_value [of "after_byte ADD env (a + b) b", unfolded al flags mod_16_256]
  show "uval 8 (regs_eax env') = bcd ((x + y) mod 100)" unfolding env'_def xy r using d by (rule conjunct1)
  show "bit (cc_src env') 0 \<longleftrightarrow> 100 \<le> x + y" unfolding env'_def xy r using d by (rule conjunct2)
qed

lemma decimal_difference:
  fixes env :: CPUX86State
  assumes x: "0 \<le> x" "x < 100" and y: "0 \<le> y" "y < 100"
  defines "a \<equiv> word_of_int (bcd x)" and "b \<equiv> word_of_int (bcd y)"
  defines "env' \<equiv> helper_das (after_byte SUB env (a - b) b)"
  shows "uval 8 (regs_eax env') = bcd ((x - y) mod 100)" "bit (cc_src env') 0 \<longleftrightarrow> x < y"
proof -
  define t w where "t = x div 10 - y div 10" and "w = x mod 10 - y mod 10"
  have tw: "t \<in> {-9..9}" "w \<in> {-9..9}"
    using digits_of_two [OF x] digits_of_two [OF y] by (auto simp: t_def w_def)
  have xy: "x - y = 10 * t + w"
    unfolding t_def w_def by presburger
  have s: "bcd x - bcd y = 16 * t + w" by (simp add: bcd_def t_def w_def)
  note v = bcd_values [OF x, folded a_def] bcd_values [OF y, folded b_def]
  have all: "cc_all (after_byte SUB env (a - b) b) = difference_status 8 a b 0"
    using add_sub_flags [of B a b] by (simp add: cc_all_def after_byte_def)
  have al: "uint (ucast (regs_eax (after_byte SUB env (a - b) b) AND 0xff) :: u32) = (16 * t + w) mod 256"
    unfolding al_after using uval_sum_mod(2) [of 8 a b] v s by simp
  have flags: "cc_all (after_byte SUB env (a - b) b) AND CC_A \<noteq> 0 \<longleftrightarrow> w < 0" "cc_all (after_byte SUB env (a - b) b) AND CC_C \<noteq> 0 \<longleftrightarrow> 16 * t + w < 0"
    unfolding all difference_status_def result_status_def status_tests using v s [symmetric] by (simp_all add: w_def)
  note d = das_digits [rule_format, OF tw, unfolded Let_def]
  note r = das_value [of "after_byte SUB env (a - b) b", unfolded al flags mod_16_256]
  have neg: "x < y \<longleftrightarrow> 10 * t + w < 0" using xy by linarith
  show "uval 8 (regs_eax env') = bcd ((x - y) mod 100)" unfolding env'_def xy r using d by (rule conjunct1)
  show "bit (cc_src env') 0 \<longleftrightarrow> x < y" unfolding env'_def neg r using d by (rule conjunct2)
qed

text \<open>C38. Decimal arithmetic on bytes of two digits. After the addition of two decimal bytes, \<open>daa\<close> leaves the two lower
  digits of the decimal sum in \<open>al\<close> and its carry in the carry flag; after a subtraction, \<open>das\<close> leaves the
  difference modulo 100 and its borrow.\<close>

theorem decimal_arithmetic:
  assumes "0 \<le> x" "x < 100" "0 \<le> y" "y < 100"
  defines "a \<equiv> word_of_int (bcd x)" and "b \<equiv> word_of_int (bcd y)"
  shows "(let env' = helper_daa (after_byte ADD env (a + b) b)
      in uval 8 (regs_eax env') = bcd ((x + y) mod 100) \<and> (bit (cc_src env') 0 \<longleftrightarrow> 100 \<le> x + y)) \<and>
    (let env' = helper_das (after_byte SUB env (a - b) b)
      in uval 8 (regs_eax env') = bcd ((x - y) mod 100) \<and> (bit (cc_src env') 0 \<longleftrightarrow> x < y))"
  using decimal_sum [OF assms(1-4)] decimal_difference [OF assms(1-4)] by (simp add: a_def b_def Let_def)

lemma decimal_arithmetic_witness:
  "uval 8 (regs_eax (helper_daa (after_byte ADD some_cpu (word_of_int (bcd 58) + word_of_int (bcd 67)) (word_of_int (bcd 67))))) = bcd 25"
  using decimal_arithmetic [of 58 67 some_cpu] by (simp add: Let_def)

section \<open>Digits in separate bytes\<close>

lemma low_half_set: "uval 16 ((e AND NOT 0xffff) OR x) = uval 16 x" for e x :: u64
proof -
  have m: "(0xffff :: u64) = mask 16" by (simp add: mask_eq_exp_minus_1)
  have "take_bit 16 ((e AND NOT 0xffff) OR x) = take_bit 16 x"
    unfolding m by (rule bit_word_eqI) (auto simp: bit_simps)
  then show ?thesis by (metis uint_low)
qed

lemma bytes_of_half: "uval 8 x = uval 16 x mod 256" "uval 8 (drop_bit 8 x) = uval 16 x div 256"
proof -
  show "uval 8 x = uval 16 x mod 256" unfolding uval_def take_bit_eq_mod by (simp add: mod_mod_cancel)
  have "uval 8 (drop_bit 8 x) = uint x div 256 mod 256" unfolding uval_def uint_drop_bit take_bit_eq_mod by simp
  also have "\<dots> = uint x mod 65536 div 256" using div_exp_mod_exp_eq [of "uint x" 8 8] by simp
  also have "\<dots> = uval 16 x div 256" unfolding uval_def take_bit_eq_mod by simp
  finally show "uval 8 (drop_bit 8 x) = uval 16 x div 256" .
qed

lemma scast_bytes:
  fixes q r :: u32
  assumes "uint q < 256" "uint r < 256"
  shows "scast (push_bit 8 r) OR scast q = (word_of_int (uint r * 256 + uint q) :: u64)"
  using signed_bytes_joined [of "uint r" "uint q"] take_bit_id [of q 8] take_bit_id [of r 8] assms
  by (simp add: take_bit_int_eq_self)

lemma sint_small_32: "uint w < 256 \<Longrightarrow> sint w = uint w" for w :: u32
  using signed_take_bit_int_eq_self [of 31 "uint w"] uint_nonnegative [of w] by (simp add: sint_uint)

lemma c_divmod_small:
  fixes x y :: u32
  assumes "uint x < 256" "0 < uint y" "uint y < 256"
  shows "\<exists>q r. c_divmod x y = Some (q, r) \<and> uint q = uint x div uint y \<and> uint r = uint x mod uint y"
proof -
  have s: "sint x = uint x" "sint y = uint y" using assms by (simp_all add: sint_small_32)
  have "c_divmod x y = Some (sdiv_word x y, smod_word x y)" unfolding c_divmod_value s using assms(2) by simp
  moreover have "sdiv_word x y = x div y" "smod_word x y = x mod y"
    unfolding sdiv_word_def smod_word_def s using assms(2) uint_nonnegative [of x]
    by (simp_all add: sdiv_abs smod_abs word_div_def word_mod_def)
  ultimately show ?thesis by (auto simp: uint_div uint_mod)
qed

lemma aam_value:
  assumes "0 < uint base" "uint base < 256"
  defines "a \<equiv> \<lambda>env. uval 8 (regs_eax env)"
  shows "\<exists>env'. helper_aam env base = Done env' \<and> uval 8 (regs_eax env') = a env mod uint base \<and>
    uval 8 (drop_bit 8 (regs_eax env')) = a env div uint base"
proof -
  let ?al = "ucast (regs_eax env AND 0xff) :: u32"
  have al: "uint ?al = a env" "uint ?al < 256"
    using uval_bounds(2) [of 8 "regs_eax env"] by (simp_all add: a_def low_masks uint_low_32)
  obtain q r where qr: "c_divmod ?al base = Some (q, r)" "uint q = a env div uint base" "uint r = a env mod uint base"
    using c_divmod_small [OF al(2) assms(1,2)] al(1) by auto
  have "\<not> 256 \<le> a env div uint base" using assms(1) al by (simp add: le_div_iff)
  moreover have "a env mod uint base < 256" using pos_mod_bound [OF assms(1), of "a env"] assms(2) by linarith
  ultimately have less: "uint q < 256" "uint r < 256" by (simp_all add: qr)
  define e where "e = (regs_eax env AND NOT 0xffff) OR scast r OR scast (push_bit 8 q)"
  have "e = (regs_eax env AND NOT 0xffff) OR word_of_int (uint q * 256 + uint r)"
    unfolding e_def scast_bytes [OF less(2,1), symmetric] by (simp only: or.commute or.left_commute)
  moreover have "uval 16 (word_of_int (uint q * 256 + uint r)) = uint q * 256 + uint r"
    using less uint_nonnegative [of q] uint_nonnegative [of r] by (simp add: uval_def uint_of_int_64 take_bit_int_eq_self del: of_int_add)
  ultimately have "uval 16 e = uint q * 256 + uint r" by (simp only: low_half_set)
  then have "uval 8 e = uint r" "uval 8 (drop_bit 8 e) = uint q"
    using bytes_of_half [of e] less uint_nonnegative [of r] by simp_all
  moreover have "helper_aam env base = Done (env\<lparr>regs_eax := e, cc_dst := scast r\<rparr>)"
    by (simp only: helper_aam_def Let_def qr option.case prod.case e_def)
  ultimately show ?thesis using qr by simp
qed

lemma aad_value:
  fixes env :: CPUX86State
  defines "l \<equiv> uval 8 (regs_eax env)" and "h \<equiv> uval 8 (drop_bit 8 (regs_eax env))"
  shows "uval 8 (regs_eax (helper_aad env base)) = (h * uint base + l) mod 256"
proof -
  let ?al = "ucast (regs_eax env AND 0xff) :: u32" and ?ah = "ucast (drop_bit 8 (regs_eax env) AND 0xff) :: u32"
  let ?w = "((?ah * base) + ?al) AND 0xff"
  have v: "uint ?al = l" "uint ?ah = h" by (simp_all add: low_masks uint_low_32 l_def h_def)
  have "uint (?ah * base) mod 256 = h * uint base mod 256" unfolding uint_word_ariths v by (simp add: mod_mod_cancel)
  then have w: "uint ?w = (h * uint base + l) mod 256" unfolding low_byte(2) v by (metis mod_add_left_eq)
  then have less: "uint ?w < 256" by simp
  have "uval 16 (scast ?w) = uint ?w"
    using less scast_small [of ?w] by (simp add: uval_def uint_wide take_bit_int_eq_self)
  moreover have "regs_eax (helper_aad env base) = (regs_eax env AND NOT 0xffff) OR scast ?w" by (simp add: helper_aad_def Let_def)
  ultimately show ?thesis unfolding bytes_of_half(1) [of "regs_eax _"] using low_half_set less w by simp
qed

text \<open>C0. \<open>aam\<close> splits the byte in \<open>al\<close> into two digits of the base given with the instruction, and \<open>aad\<close> puts two digits
  together again, so that it undoes \<open>aam\<close>.\<close>

theorem aam_aad_roundtrip:
  assumes "0 < uint base" "uint base < 256"
  shows "\<exists>env'. helper_aam env base = Done env' \<and> uval 8 (regs_eax env') < uint base \<and>
    uval 8 (drop_bit 8 (regs_eax env')) * uint base + uval 8 (regs_eax env') = uval 8 (regs_eax env) \<and>
    uval 8 (regs_eax (helper_aad env' base)) = uval 8 (regs_eax env)"
proof -
  obtain env' where env': "helper_aam env base = Done env'" "uval 8 (regs_eax env') = uval 8 (regs_eax env) mod uint base"
    "uval 8 (drop_bit 8 (regs_eax env')) = uval 8 (regs_eax env) div uint base"
    using aam_value [OF assms] by blast
  have "uval 8 (regs_eax env') < uint base" using assms(1) by (simp add: env')
  moreover have sum: "uval 8 (drop_bit 8 (regs_eax env')) * uint base + uval 8 (regs_eax env') = uval 8 (regs_eax env)"
    unfolding env' by (rule div_mult_mod_eq)
  moreover have "uval 8 (regs_eax (helper_aad env' base)) = uval 8 (regs_eax env)"
    unfolding aad_value sum using uval_bounds [of 8 "regs_eax env"] by simp
  ultimately show ?thesis using env'(1) by blast
qed

lemma aam_aad_roundtrip_witness: "\<exists>env'. helper_aam some_cpu 10 = Done env' \<and> uval 8 (regs_eax (helper_aad env' 10)) = uval 8 (regs_eax some_cpu)"
  using aam_aad_roundtrip [of 10 some_cpu] by auto

end
